(* ===== verification/Prelude.thy ===== *)
theory Prelude
  imports Main "HOL-Library.Word" "HOL-Library.Signed_Division"
begin

text \<open>
  Shared vocabulary of the development: the numeric types of \<open>libsolutil/Common.h\<close>, the
  exception values of \<open>libevmasm/Exceptions.h\<close> and \<open>libsolutil/Exceptions.h\<close>, the result
  monad in which every \<open>assertThrow\<close> of the source is a branch, decimal printing
  (\<open>std::to_string\<close>) and the bit-level facts on words the component theories use.
\<close>

unbundle bit_operations_syntax

section \<open>Numeric types\<close>

type_synonym u256 = "256 word"
type_synonym byte = "8 word"
type_synonym bytes = "byte list"
type_synonym bigint = int

section \<open>Exceptions and results\<close>

datatype exc =
    UtilException
  | BadHexCase
  | BadHexCharacter
  | InvalidAddress
  | StringTooLong
  | AssemblyException
  | OptimizerException
  | StackTooDeepException
  | ItemNotAvailableException
  | InvalidDeposit
  | InvalidOpcode
  | OutOfRange

type_synonym 'a result = "exc + 'a"

definition bindR :: "'a result \<Rightarrow> ('a \<Rightarrow> 'b result) \<Rightarrow> 'b result" where
  "bindR r f = (case r of Inl e \<Rightarrow> Inl e | Inr x \<Rightarrow> f x)"

definition assertThrow :: "bool \<Rightarrow> exc \<Rightarrow> unit result" where
  "assertThrow b e = (if b then Inr () else Inl e)"

lemma bindR_simps [simp]:
  "bindR (Inl e) f = Inl e" "bindR (Inr x) f = f x"
  by (simp_all add: bindR_def)

lemma bindR_cong [fundef_cong]:
  "r = r' \<Longrightarrow> (\<And>x. r' = Inr x \<Longrightarrow> f x = f' x) \<Longrightarrow> bindR r f = bindR r' f'"
  by (cases r') simp_all

lemma bindR_Inr_iff: "bindR r f = Inr y \<longleftrightarrow> (\<exists>x. r = Inr x \<and> f x = Inr y)"
  by (cases r) auto

lemma assertThrow_simps [simp]:
  "assertThrow True e = Inr ()" "assertThrow False e = Inl e"
  by (simp_all add: assertThrow_def)

section \<open>Decimal and hexadecimal digits\<close>

fun digits_base :: "nat \<Rightarrow> string \<Rightarrow> nat \<Rightarrow> string" where
  "digits_base b alphabet n =
     (if b < 2 \<or> n < b then [alphabet ! n]
      else digits_base b alphabet (n div b) @ [alphabet ! (n mod b)])"

declare digits_base.simps [simp del]

text \<open>\<open>std::to_string\<close> of an unsigned and of a signed number, and \<open>std::hex\<close> output.\<close>

definition to_string :: "nat \<Rightarrow> string" where
  "to_string n = digits_base 10 ''0123456789'' n"

definition int_to_string :: "int \<Rightarrow> string" where
  "int_to_string i = (if i < 0 then CHR ''-'' # to_string (nat (- i)) else to_string (nat i))"

definition hex_upper :: "nat \<Rightarrow> string" where
  "hex_upper n = digits_base 16 ''0123456789ABCDEF'' n"

definition hex_lower :: "nat \<Rightarrow> string" where
  "hex_lower n = digits_base 16 ''0123456789abcdef'' n"

fun read_base :: "nat \<Rightarrow> string \<Rightarrow> string \<Rightarrow> nat" where
  "read_base b alphabet s =
     foldl (\<lambda>acc c. acc * b + length (takeWhile (\<lambda>d. d \<noteq> c) alphabet)) 0 s"

lemma takeWhile_nth_distinct:
  "distinct xs \<Longrightarrow> i < length xs \<Longrightarrow> length (takeWhile (\<lambda>d. d \<noteq> xs ! i) xs) = i"
proof (induction xs arbitrary: i)
  case (Cons x xs)
  then show ?case by (cases i) auto
qed simp

lemma read_digits_base:
  assumes b: "2 \<le> b" "length alphabet = b" "distinct alphabet"
  shows "read_base b alphabet (digits_base b alphabet n) = n"
proof (induction n rule: less_induct)
  case (less n)
  have digit: "length (takeWhile (\<lambda>d. d \<noteq> alphabet ! k) alphabet) = k" if "k < b" for k
    using that b by (simp add: takeWhile_nth_distinct)
  show ?case
  proof (cases "n < b")
    case True
    then show ?thesis using b digit by (subst digits_base.simps) simp
  next
    case False
    then have IH: "read_base b alphabet (digits_base b alphabet (n div b)) = n div b"
      using less b by simp
    have "read_base b alphabet (digits_base b alphabet n)
        = read_base b alphabet (digits_base b alphabet (n div b)) * b + n mod b"
      using False b by (subst digits_base.simps) (simp add: digit)
    then show ?thesis by (simp only: IH div_mult_mod_eq)
  qed
qed

lemma to_string_inj: "to_string m = to_string n \<longleftrightarrow> m = n"
proof
  have r: "read_base 10 ''0123456789'' (to_string k) = k" for k
    unfolding to_string_def by (rule read_digits_base) auto
  assume "to_string m = to_string n"
  then show "m = n" using r[of m] r[of n] by metis
qed simp

section \<open>Ordered maps\<close>

text \<open>
  A \<open>std::map\<close> is the list of its entries in the order of the keys; \<open>map_of\<close> is its lookup and
  \<open>map_put\<close> the assignment through \<open>operator[]\<close>.
\<close>

fun map_put :: "'k::linorder \<Rightarrow> 'v \<Rightarrow> ('k \<times> 'v) list \<Rightarrow> ('k \<times> 'v) list" where
  "map_put k v [] = [(k, v)]"
| "map_put k v ((k', v') # m) =
     (if k < k' then (k, v) # (k', v') # m
      else if k = k' then (k, v) # m
      else (k', v') # map_put k v m)"

lemma map_of_map_put [simp]: "map_of (map_put k v m) k' = (if k' = k then Some v else map_of m k')"
  by (induction k v m rule: map_put.induct) auto

lemma map_put_last:
  "\<forall>(k', v') \<in> set m. k' < k \<Longrightarrow> map_put k v m = m @ [(k, v)]"
  by (induction k v m rule: map_put.induct) auto

section \<open>Words, bit by bit\<close>

named_theorems word_bits

declare bit_simps [word_bits]

lemma bit_mask_iff_nat [word_bits]:
  "bit (mask k :: 'a::len word) n \<longleftrightarrow> n < min LENGTH('a) k"
  by (simp add: bit_mask_iff possible_bit_def)

lemma minus_one_eq_mask: "(- 1 :: 'a::len word) = mask LENGTH('a)"
  by simp

lemma push_bit_ge_zero: "LENGTH('a) \<le> n \<Longrightarrow> push_bit n (w :: 'a::len word) = 0"
  by (simp add: bit_eq_iff bit_simps)

lemma drop_bit_ge_zero: "LENGTH('a) \<le> n \<Longrightarrow> drop_bit n (w :: 'a::len word) = 0"
  by (auto simp: bit_eq_iff bit_simps dest: bit_imp_le_length)

lemma unat_drop_bit_div: "unat (drop_bit n (w :: 'a::len word)) = unat w div 2 ^ n"
  unfolding unat_drop_bit_eq by (rule drop_bit_eq_div)

lemma unat_drop_bit_less: "w \<noteq> 0 \<Longrightarrow> 0 < n \<Longrightarrow> unat (drop_bit n (w :: 'a::len word)) < unat w"
  unfolding unat_drop_bit_div
  by (rule div_less_dividend) (simp_all add: one_less_power unat_gt_0 del: One_nat_def)

lemma odd_unat_iff: "odd (unat (w :: 'a::len word)) \<longleftrightarrow> bit w 0"
  by (simp add: bit_unsigned_iff flip: bit_0)

lemma unat_less_256: "unat (w :: u256) < 2 ^ 256"
  using unsigned_less [of w, where ?'a = nat] by simp

end
