(* ===== verification/CommonData.thy ===== *)
theory CommonData
  imports Prelude
begin

text \<open>
  \<open>libsolutil/Common.h\<close> and \<open>libsolutil/CommonData.{h,cpp}\<close>: two's complement conversions,
  modular exponentiation, big-endian byte strings and hexadecimal strings. Every loop is the
  loop of the source, with the buffer it writes as an explicit list. The lemmas show the
  conversions to be inverse to each other and the loops to compute their closed forms.
\<close>

section \<open>Two's complement (\<open>u2s\<close>, \<open>s2u\<close>) and \<open>exp256\<close>\<close>

text \<open>The signed 256-bit number type \<open>s256\<close> keeps sign and magnitude: an \<open>int\<close>.\<close>

type_synonym s256 = int

definition u2s :: "u256 \<Rightarrow> s256" where
  "u2s u = (if bit u 255 then - (2 ^ 256 - uint u) else uint u)"

definition s2u :: "s256 \<Rightarrow> u256" where
  "s2u u = (if 0 \<le> u then word_of_int u else word_of_int (2 ^ 256 + u))"

function exp256_loop :: "u256 \<Rightarrow> u256 \<Rightarrow> u256 \<Rightarrow> u256" where
  "exp256_loop r base exponent =
     (if exponent \<noteq> 0
      then exp256_loop (if bit exponent 0 then r * base else r) (base * base) (drop_bit 1 exponent)
      else r)"
  by pat_completeness auto
termination
  by (relation "measure (\<lambda>(r, base, exponent). unat exponent)") (auto simp: unat_drop_bit_less)

declare exp256_loop.simps [simp del]

definition exp256 :: "u256 \<Rightarrow> u256 \<Rightarrow> u256" where
  "exp256 base exponent = exp256_loop 1 base exponent"

section \<open>Big-endian byte strings\<close>

function bytesRequired_loop :: "nat \<Rightarrow> u256 \<Rightarrow> nat" where
  "bytesRequired_loop i v = (if v \<noteq> 0 then bytesRequired_loop (i + 1) (drop_bit 8 v) else i)"
  by pat_completeness auto
termination
  by (relation "measure (\<lambda>(i, v). unat v)") (auto simp: unat_drop_bit_less)

declare bytesRequired_loop.simps [simp del]

definition bytesRequired :: "u256 \<Rightarrow> nat" where
  "bytesRequired v = bytesRequired_loop 0 v"

fun toBigEndian_loop :: "nat \<Rightarrow> u256 \<Rightarrow> bytes \<Rightarrow> bytes" where
  "toBigEndian_loop 0 v out = out"
| "toBigEndian_loop (Suc i) v out =
     toBigEndian_loop i (drop_bit 8 v) (out[i := ucast (v AND 0xff)])"

definition toBigEndian_into :: "u256 \<Rightarrow> bytes \<Rightarrow> bytes" where
  "toBigEndian_into v out = toBigEndian_loop (length out) v out"

definition toBigEndian :: "u256 \<Rightarrow> bytes" where
  "toBigEndian v = toBigEndian_into v (replicate 32 0)"

definition fromBigEndian :: "bytes \<Rightarrow> u256" where
  "fromBigEndian bs = foldl (\<lambda>ret i. push_bit 8 ret OR ucast i) 0 bs"

definition toCompactBigEndian :: "u256 \<Rightarrow> nat \<Rightarrow> bytes" where
  "toCompactBigEndian v min_len =
     toBigEndian_into v (replicate (max min_len (bytesRequired_loop 0 v)) 0)"

section \<open>Hexadecimal strings\<close>

datatype when_error = DontThrow | Throw
datatype hex_prefix = DontAdd | Add
datatype hex_case = Lower | Upper | Mixed

definition upperHexChars :: string where
  "upperHexChars = ''0123456789ABCDEF''"

definition lowerHexChars :: string where
  "lowerHexChars = ''0123456789abcdef''"

definition toHex_byte :: "byte \<Rightarrow> hex_case \<Rightarrow> string result" where
  "toHex_byte d hcase = bindR (assertThrow (hcase \<noteq> Mixed) BadHexCase) (\<lambda>_.
     let chars = (if hcase = Upper then upperHexChars else lowerHexChars)
     in Inr [chars ! unat ((d div 16) AND 0xf), chars ! unat (d AND 0xf)])"

text \<open>The loop over the bytes: \<open>rix\<close> counts down, and bit 1 of it selects the case in mixed mode.\<close>

fun toHex_loop :: "hex_case \<Rightarrow> string \<Rightarrow> nat \<Rightarrow> bytes \<Rightarrow> string" where
  "toHex_loop hcase chars rix [] = []"
| "toHex_loop hcase chars rix (c # cs) =
     (let chars' = (if hcase = Mixed
                    then (if (rix AND 2) = 0 then lowerHexChars else upperHexChars) else chars);
          rix' = (if hcase = Mixed then rix - 1 else rix)
      in chars' ! unat (drop_bit 4 c AND 0xf) # chars' ! unat (c AND 0xf) #
         toHex_loop hcase chars' rix' cs)"

definition toHex :: "bytes \<Rightarrow> hex_prefix \<Rightarrow> hex_case \<Rightarrow> string" where
  "toHex bs prefix hcase =
     (if prefix = Add then ''0x'' else []) @
     toHex_loop hcase (if hcase = Upper then upperHexChars else lowerHexChars) (length bs - 1) bs"

text \<open>Reading a hex character: \<open>-1\<close> stands for a bad one unless the caller asks to throw.\<close>

definition fromHex_char :: "char \<Rightarrow> when_error \<Rightarrow> int result" where
  "fromHex_char c throw =
     (let i = of_char c :: int in
      if 48 \<le> i \<and> i \<le> 57 then Inr (i - 48)
      else if 97 \<le> i \<and> i \<le> 102 then Inr (i - 97 + 10)
      else if 65 \<le> i \<and> i \<le> 70 then Inr (i - 65 + 10)
      else if throw = Throw then Inl BadHexCharacter else Inr (- 1))"

fun fromHex_pairs :: "when_error \<Rightarrow> string \<Rightarrow> bytes \<Rightarrow> bytes result" where
  "fromHex_pairs throw (a # b # s) ret =
     bindR (fromHex_char a throw) (\<lambda>h. bindR (fromHex_char b throw) (\<lambda>l.
       if h \<noteq> - 1 \<and> l \<noteq> - 1 then fromHex_pairs throw s (ret @ [word_of_int (h * 16 + l)])
       else Inr []))"
| "fromHex_pairs throw _ ret = Inr ret"

definition fromHex :: "string \<Rightarrow> when_error \<Rightarrow> bytes result" where
  "fromHex str throw =
     (if str = [] then Inr []
      else
        let s = (if 2 \<le> length str \<and> str ! 0 = CHR ''0'' \<and> str ! 1 = CHR ''x'' then 2 else 0)
        in if odd (length str)
           then bindR (fromHex_char (str ! s) throw) (\<lambda>h.
                  if h \<noteq> - 1 then fromHex_pairs throw (drop (s + 1) str) [word_of_int h]
                  else Inr [])
           else fromHex_pairs throw (drop s str) [])"

definition isValidHex :: "string \<Rightarrow> bool" where
  "isValidHex s =
     (if take 2 s \<noteq> ''0x'' then False
      else if \<exists>c \<in> set (drop 2 s). c \<notin> set ''0123456789abcdefABCDEF'' then False
      else True)"

definition isValidDecimal :: "string \<Rightarrow> bool" where
  "isValidDecimal s =
     (if s = [] then False
      else if s = ''0'' then True
      else if hd s = CHR ''0'' then False
      else if \<exists>c \<in> set s. c \<notin> set ''0123456789'' then False
      else True)"

definition toHex_u256 :: "u256 \<Rightarrow> hex_prefix \<Rightarrow> string" where
  "toHex_u256 val prefix =
     (let str = toHex (toBigEndian val) DontAdd Lower in if prefix = Add then ''0x'' @ str else str)"

definition toCompactHexWithPrefix :: "u256 \<Rightarrow> string" where
  "toCompactHexWithPrefix v = toHex (toCompactBigEndian v 1) Add Lower"

definition formatNumber :: "u256 \<Rightarrow> string" where
  "formatNumber v =
     (if v > 0x1000000 then toCompactHexWithPrefix v else to_string (unat v))"


section \<open>Lemmas: two's complement\<close>

lemma u2s_eq_sint: "u2s u = sint u"
proof -
  have "sint u = take_bit 256 (uint u) - 2 ^ 256 * of_bool (bit (uint u) 255)"
    by (simp add: sint_uint signed_take_bit_eq_take_bit_minus)
  then show ?thesis by (simp add: u2s_def bit_uint_iff bintr_uint)
qed

lemma s2u_eq_word_of_int: "s2u s = word_of_int s"
proof -
  have "(2 :: u256) ^ 256 = 0" by simp
  then show ?thesis by (simp add: s2u_def)
qed

lemma s2u_u2s: "s2u (u2s u) = u"
  by (simp add: u2s_eq_sint s2u_eq_word_of_int)

lemma u2s_s2u:
  assumes "- (2 ^ 255) \<le> s" "s < 2 ^ 255"
  shows "u2s (s2u s) = s"
proof -
  have "signed_take_bit 255 s = s"
    using assms by (simp add: signed_take_bit_int_eq_self)
  then show ?thesis
    by (simp add: u2s_eq_sint s2u_eq_word_of_int sint_sbintrunc')
qed

lemma u2s_range: "- (2 ^ 255) \<le> u2s u \<and> u2s u < 2 ^ 255"
  using sint_range_size [of u] by (simp add: u2s_eq_sint word_size)

section \<open>Lemmas: \<open>exp256\<close>\<close>

lemma exp256_loop_eq: "exp256_loop r b n = r * b ^ unat n"
proof (induction r b n rule: exp256_loop.induct)
  case (1 r b n)
  show ?case
  proof (cases "n = 0")
    case True
    then show ?thesis by (subst exp256_loop.simps) simp
  next
    case False
    let ?m = "unat n div 2"
    have m: "unat (drop_bit (Suc 0) n) = ?m" using unat_drop_bit_div [of 1 n] by simp
    have odd: "bit n 0 = odd (unat n)" by (simp add: odd_unat_iff)
    have "exp256_loop r b n = (if odd (unat n) then r * b else r) * (b * b) ^ ?m"
      using 1 [OF False] False by (subst exp256_loop.simps) (simp add: m odd)
    also have "\<dots> = r * b ^ unat n"
    proof (cases "odd (unat n)")
      case True
      then have "unat n = Suc (2 * ?m)" by simp
      then have "b ^ unat n = b * (b * b) ^ ?m"
        by (metis power_Suc power_mult power2_eq_square)
      then show ?thesis using True by (simp add: mult.assoc)
    next
      case False
      then have "unat n = 2 * ?m" by simp
      then have "b ^ unat n = (b * b) ^ ?m"
        by (metis power_mult power2_eq_square)
      then show ?thesis using False by simp
    qed
    finally show ?thesis .
  qed
qed

lemma exp256_eq_power: "exp256 b n = b ^ unat n"
  by (simp add: exp256_def exp256_loop_eq)

section \<open>Lemmas: byte strings\<close>

text \<open>The closed form: the \<open>n\<close> low-order bytes, most significant first.\<close>

primrec be_bytes :: "nat \<Rightarrow> u256 \<Rightarrow> bytes" where
  "be_bytes 0 v = []"
| "be_bytes (Suc n) v = be_bytes n (drop_bit 8 v) @ [ucast v]"

lemma length_be_bytes [simp]: "length (be_bytes n v) = n"
  by (induction n arbitrary: v) simp_all

lemma ucast_and_255: "(ucast (v AND 0xff :: u256) :: byte) = ucast v"
proof -
  have "(0xff :: u256) = mask 8" by (simp add: mask_numeral)
  then show ?thesis by (simp add: bit_eq_iff bit_simps)
qed

lemma toBigEndian_loop_eq:
  "n \<le> length out \<Longrightarrow> toBigEndian_loop n v out = be_bytes n v @ drop n out"
proof (induction n arbitrary: v out)
  case (Suc n)
  then have "drop n (out[n := ucast v]) = ucast v # drop (Suc n) out"
    by (simp add: drop_update_cancel Cons_nth_drop_Suc [symmetric])
  then show ?case using Suc by (simp add: ucast_and_255)
qed simp

lemma toBigEndian_eq: "toBigEndian v = be_bytes 32 v"
  by (simp add: toBigEndian_def toBigEndian_into_def toBigEndian_loop_eq)

lemma length_toBigEndian [simp]: "length (toBigEndian v) = 32"
  by (simp add: toBigEndian_eq)

lemma fromBigEndian_snoc: "fromBigEndian (bs @ [b]) = push_bit 8 (fromBigEndian bs) OR ucast b"
  by (simp add: fromBigEndian_def)

lemma fromBigEndian_be_bytes: "fromBigEndian (be_bytes n v) = take_bit (8 * n) v"
proof (induction n arbitrary: v)
  case 0
  then show ?case by (simp add: fromBigEndian_def)
next
  case (Suc n)
  have "push_bit 8 (take_bit (8 * n) (drop_bit 8 v)) OR ucast (ucast v :: byte) = take_bit (8 * Suc n) v"
    by (auto simp: bit_eq_iff bit_simps)
  then show ?case by (simp add: fromBigEndian_snoc Suc)
qed

lemma fromBigEndian_toBigEndian: "fromBigEndian (toBigEndian v) = v"
  by (simp add: toBigEndian_eq fromBigEndian_be_bytes take_bit_word_eq_self)

lemma bit_fromBigEndian: "bit (fromBigEndian bs) n \<Longrightarrow> n < 8 * length bs"
proof (induction bs arbitrary: n rule: rev_induct)
  case Nil
  then show ?case by (simp add: fromBigEndian_def)
next
  case (snoc b bs)
  then have "8 \<le> n \<and> bit (fromBigEndian bs) (n - 8) \<or> bit b n"
    by (auto simp: fromBigEndian_snoc bit_simps)
  then show ?case using snoc.IH [of "n - 8"] bit_imp_le_length [of b n] by auto
qed

lemma be_bytes_fromBigEndian: "length bs \<le> 32 \<Longrightarrow> be_bytes (length bs) (fromBigEndian bs) = bs"
proof (induction bs rule: rev_induct)
  case (snoc b bs)
  have "bit (fromBigEndian bs) n \<Longrightarrow> n + 8 < 256" for n
    using bit_fromBigEndian [of bs n] snoc.prems by simp
  then have "drop_bit 8 (push_bit 8 (fromBigEndian bs) OR ucast b) = fromBigEndian bs"
    by (auto simp: bit_eq_iff bit_simps dest: bit_imp_le_length)
  moreover have "ucast (push_bit 8 (fromBigEndian bs) OR ucast b :: u256) = b"
    by (auto simp: bit_eq_iff bit_simps)
  ultimately show ?case using snoc by (simp add: fromBigEndian_snoc)
qed simp

lemma toBigEndian_fromBigEndian: "length bs = 32 \<Longrightarrow> toBigEndian (fromBigEndian bs) = bs"
  using be_bytes_fromBigEndian [of bs] by (simp add: toBigEndian_eq)

lemma bytesRequired_loop_add: "bytesRequired_loop i v = i + bytesRequired v"
proof (induction v arbitrary: i rule: measure_induct_rule [of unat])
  case (less v)
  show ?case
  proof (cases "v = 0")
    case True
    then show ?thesis by (simp add: bytesRequired_def bytesRequired_loop.simps)
  next
    case False
    have step: "bytesRequired_loop j v = j + 1 + bytesRequired (drop_bit 8 v)" for j
      using False less [OF unat_drop_bit_less [of v 8]]
      by (subst bytesRequired_loop.simps) simp
    show ?thesis using step [of i] step [of 0] by (simp add: bytesRequired_def)
  qed
qed

lemma bytesRequired_rec:
  "bytesRequired v = (if v = 0 then 0 else Suc (bytesRequired (drop_bit 8 v)))"
  using bytesRequired_loop_add [of 1 "drop_bit 8 v"]
  by (simp add: bytesRequired_def bytesRequired_loop.simps [of 0 v])

lemma bytesRequired_le_iff: "bytesRequired v \<le> n \<longleftrightarrow> unat v < 256 ^ n"
proof (induction n arbitrary: v)
  case 0
  then show ?case by (subst bytesRequired_rec) (simp add: unat_eq_0)
next
  case (Suc n)
  have "bytesRequired (drop_bit 8 v) \<le> n \<longleftrightarrow> unat v div 256 < 256 ^ n"
    using Suc.IH [of "drop_bit 8 v"] by (simp add: unat_drop_bit_div)
  also have "\<dots> \<longleftrightarrow> unat v < 256 ^ Suc n"
    by (simp add: div_less_iff_less_mult mult.commute)
  finally show ?case by (subst bytesRequired_rec) auto
qed

lemma bytesRequired_le_32: "bytesRequired v \<le> 32"
  using unat_less_256 [of v] by (simp add: bytesRequired_le_iff)

lemma bytesRequired_zero_iff [simp]: "bytesRequired v = 0 \<longleftrightarrow> v = 0"
  by (subst bytesRequired_rec) simp

lemma toCompactBigEndian_eq:
  "toCompactBigEndian v m = be_bytes (max m (bytesRequired v)) v"
  by (simp add: toCompactBigEndian_def toBigEndian_into_def toBigEndian_loop_eq
      flip: bytesRequired_def)

lemma take_bit_bytesRequired: "bytesRequired v \<le> n \<Longrightarrow> take_bit (8 * n) v = v"
proof -
  assume "bytesRequired v \<le> n"
  then have "unat v < 2 ^ (8 * n)" by (simp add: bytesRequired_le_iff power_mult)
  then have "take_bit (8 * n) (unat v) = unat v" by (simp add: take_bit_nat_eq_self)
  then show ?thesis by (metis unsigned_take_bit_eq unsigned_word_eqI)
qed

lemma fromBigEndian_toCompactBigEndian: "fromBigEndian (toCompactBigEndian v m) = v"
  by (simp add: toCompactBigEndian_eq fromBigEndian_be_bytes take_bit_bytesRequired)

lemma length_toCompactBigEndian: "length (toCompactBigEndian v m) = max m (bytesRequired v)"
  by (simp add: toCompactBigEndian_eq)

section \<open>Lemmas: hexadecimal strings\<close>

text \<open>Each of the sixteen digits, in either case, reads back as itself.\<close>

lemma hex_digit_reads:
  assumes "chars = lowerHexChars \<or> chars = upperHexChars" "n < 16"
  shows "fromHex_char (chars ! n) throw = Inr (int n)"
proof -
  have "\<forall>k \<in> set [0..<16]. fromHex_char (lowerHexChars ! k) throw = Inr (int k) \<and>
      fromHex_char (upperHexChars ! k) throw = Inr (int k)"
    by (simp add: upt_rec lowerHexChars_def upperHexChars_def fromHex_char_def)
  then show ?thesis using assms by auto
qed

lemma nibbles:
  fixes c :: byte
  shows "unat (drop_bit 4 c AND 0xf) < 16" "unat (c AND 0xf) < 16"
    and "word_of_int (int (unat (drop_bit 4 c AND 0xf)) * 16 + int (unat (c AND 0xf))) = c"
proof -
  have m: "(0xf :: byte) = mask 4" by (simp add: mask_numeral)
  have t: "unat (take_bit 4 w) = unat w mod 16" for w :: byte
    unfolding unsigned_take_bit_eq by (simp add: take_bit_eq_mod)
  have lo: "unat (c AND 0xf) = unat c mod 16"
    using t [of c] by (simp add: m flip: take_bit_eq_mask)
  have hi: "unat (drop_bit 4 c AND 0xf) = unat c div 16"
    using t [of "drop_bit 4 c"] unsigned_less [of c, where ?'a = nat]
    by (simp add: m unat_drop_bit_div flip: take_bit_eq_mask)
  show "unat (drop_bit 4 c AND 0xf) < 16" "unat (c AND 0xf) < 16"
    using unsigned_less [of c, where ?'a = nat] by (auto simp: hi lo)
  have "int (unat c div 16) * 16 + int (unat c mod 16) = uint c"
    by (metis div_mult_mod_eq of_nat_add of_nat_mult of_nat_numeral uint_nat)
  then show "word_of_int (int (unat (drop_bit 4 c AND 0xf)) * 16 + int (unat (c AND 0xf))) = c"
    by (simp add: hi lo)
qed

lemma uint_not_minus_one: "uint w \<noteq> - 1"
  using uint_ge_0 [of w] by linarith

lemma fromHex_pairs_toHex_loop:
  assumes "chars = lowerHexChars \<or> chars = upperHexChars"
  shows "fromHex_pairs throw (toHex_loop hcase chars rix bs) acc = Inr (acc @ bs)"
  using assms
proof (induction bs arbitrary: chars rix acc)
  case (Cons c cs)
  define chars' where "chars' = (if hcase = Mixed
      then (if (rix AND 2) = 0 then lowerHexChars else upperHexChars) else chars)"
  have c': "chars' = lowerHexChars \<or> chars' = upperHexChars"
    using Cons.prems by (auto simp: chars'_def)
  show ?case
    using Cons.IH [OF c'] c' nibbles [of c]
    by (simp add: Let_def hex_digit_reads uint_not_minus_one flip: chars'_def)
qed simp

lemma length_toHex_loop: "length (toHex_loop hcase chars rix bs) = 2 * length bs"
  by (induction bs arbitrary: chars rix) (simp_all add: Let_def)

lemma toHex_loop_no_x:
  assumes "chars = lowerHexChars \<or> chars = upperHexChars"
  shows "CHR ''x'' \<notin> set (toHex_loop hcase chars rix bs)"
  using assms
proof (induction bs arbitrary: chars rix)
  case (Cons c cs)
  define chars' where "chars' = (if hcase = Mixed
      then (if (rix AND 2) = 0 then lowerHexChars else upperHexChars) else chars)"
  have c': "chars' = lowerHexChars \<or> chars' = upperHexChars"
    using Cons.prems by (auto simp: chars'_def)
  then have "length chars' = 16" "CHR ''x'' \<notin> set chars'"
    by (auto simp: lowerHexChars_def upperHexChars_def)
  then have "chars' ! n \<noteq> CHR ''x''" if "n < 16" for n
    using that nth_mem by metis
  then show ?case
    using Cons.IH [OF c'] nibbles [of c] by (simp add: Let_def flip: chars'_def) metis
qed simp

lemma fromHex_toHex: "fromHex (toHex bs prefix hcase) throw = Inr bs"
proof -
  define chars where "chars = (if hcase = Upper then upperHexChars else lowerHexChars)"
  have c: "chars = lowerHexChars \<or> chars = upperHexChars" by (simp add: chars_def)
  let ?h = "toHex_loop hcase chars (length bs - 1) bs"
  have read: "fromHex_pairs throw ?h [] = Inr bs"
    using fromHex_pairs_toHex_loop [OF c] by simp
  have even: "even (length ?h)" by (simp add: length_toHex_loop)
  show ?thesis
  proof (cases prefix)
    case Add
    then show ?thesis using read even by (simp add: toHex_def fromHex_def flip: chars_def)
  next
    case DontAdd
    have "?h ! 1 \<noteq> CHR ''x''" if "2 \<le> length ?h"
      using toHex_loop_no_x [OF c] that by (metis less_le_trans nth_mem one_less_numeral_iff semiring_norm(76))
    then show ?thesis using read even DontAdd
      by (auto simp: toHex_def fromHex_def simp flip: chars_def)
  qed
qed

end
