(* ===== verification/Instruction.thy ===== *)
theory Instruction
  imports CommonData
begin

text \<open>
  \<open>libevmasm/Instruction.{h,cpp}\<close>: the opcodes, among them the signal opcodes of this fork,
  the table of stack effects, side effects and gas tiers, the mnemonics, and the walk over
  bytecode that the disassembler uses. \<open>enum class Instruction: uint8_t\<close> is an 8-bit word,
  because the code casts arbitrary bytes to it and asks afterwards whether they are valid.
\<close>

section \<open>Opcodes\<close>

type_synonym instruction = "8 word"

abbreviation STOP :: instruction where "STOP \<equiv> 0x00"
abbreviation ADD :: instruction where "ADD \<equiv> 0x01"
abbreviation MUL :: instruction where "MUL \<equiv> 0x02"
abbreviation SUB :: instruction where "SUB \<equiv> 0x03"
abbreviation DIV :: instruction where "DIV \<equiv> 0x04"
abbreviation SDIV :: instruction where "SDIV \<equiv> 0x05"
abbreviation MOD :: instruction where "MOD \<equiv> 0x06"
abbreviation SMOD :: instruction where "SMOD \<equiv> 0x07"
abbreviation ADDMOD :: instruction where "ADDMOD \<equiv> 0x08"
abbreviation MULMOD :: instruction where "MULMOD \<equiv> 0x09"
abbreviation EXP :: instruction where "EXP \<equiv> 0x0a"
abbreviation SIGNEXTEND :: instruction where "SIGNEXTEND \<equiv> 0x0b"
abbreviation LT :: instruction where "LT \<equiv> 0x10"
abbreviation GT :: instruction where "GT \<equiv> 0x11"
abbreviation SLT :: instruction where "SLT \<equiv> 0x12"
abbreviation SGT :: instruction where "SGT \<equiv> 0x13"
abbreviation EQ :: instruction where "EQ \<equiv> 0x14"
abbreviation ISZERO :: instruction where "ISZERO \<equiv> 0x15"
abbreviation AND' :: instruction where "AND' \<equiv> 0x16"
abbreviation OR' :: instruction where "OR' \<equiv> 0x17"
abbreviation XOR' :: instruction where "XOR' \<equiv> 0x18"
abbreviation NOT' :: instruction where "NOT' \<equiv> 0x19"
abbreviation BYTE :: instruction where "BYTE \<equiv> 0x1a"
abbreviation SHL :: instruction where "SHL \<equiv> 0x1b"
abbreviation SHR :: instruction where "SHR \<equiv> 0x1c"
abbreviation SAR :: instruction where "SAR \<equiv> 0x1d"
abbreviation KECCAK256 :: instruction where "KECCAK256 \<equiv> 0x20"
abbreviation ADDRESS :: instruction where "ADDRESS \<equiv> 0x30"
abbreviation BALANCE :: instruction where "BALANCE \<equiv> 0x31"
abbreviation ORIGIN :: instruction where "ORIGIN \<equiv> 0x32"
abbreviation CALLER :: instruction where "CALLER \<equiv> 0x33"
abbreviation CALLVALUE :: instruction where "CALLVALUE \<equiv> 0x34"
abbreviation CALLDATALOAD :: instruction where "CALLDATALOAD \<equiv> 0x35"
abbreviation CALLDATASIZE :: instruction where "CALLDATASIZE \<equiv> 0x36"
abbreviation CALLDATACOPY :: instruction where "CALLDATACOPY \<equiv> 0x37"
abbreviation CODESIZE :: instruction where "CODESIZE \<equiv> 0x38"
abbreviation CODECOPY :: instruction where "CODECOPY \<equiv> 0x39"
abbreviation GASPRICE :: instruction where "GASPRICE \<equiv> 0x3a"
abbreviation EXTCODESIZE :: instruction where "EXTCODESIZE \<equiv> 0x3b"
abbreviation EXTCODECOPY :: instruction where "EXTCODECOPY \<equiv> 0x3c"
abbreviation RETURNDATASIZE :: instruction where "RETURNDATASIZE \<equiv> 0x3d"
abbreviation RETURNDATACOPY :: instruction where "RETURNDATACOPY \<equiv> 0x3e"
abbreviation EXTCODEHASH :: instruction where "EXTCODEHASH \<equiv> 0x3f"
abbreviation BLOCKHASH :: instruction where "BLOCKHASH \<equiv> 0x40"
abbreviation COINBASE :: instruction where "COINBASE \<equiv> 0x41"
abbreviation TIMESTAMP :: instruction where "TIMESTAMP \<equiv> 0x42"
abbreviation NUMBER :: instruction where "NUMBER \<equiv> 0x43"
abbreviation DIFFICULTY :: instruction where "DIFFICULTY \<equiv> 0x44"
abbreviation GASLIMIT :: instruction where "GASLIMIT \<equiv> 0x45"
abbreviation CHAINID :: instruction where "CHAINID \<equiv> 0x46"
abbreviation SELFBALANCE :: instruction where "SELFBALANCE \<equiv> 0x47"
abbreviation POP :: instruction where "POP \<equiv> 0x50"
abbreviation MLOAD :: instruction where "MLOAD \<equiv> 0x51"
abbreviation MSTORE :: instruction where "MSTORE \<equiv> 0x52"
abbreviation MSTORE8 :: instruction where "MSTORE8 \<equiv> 0x53"
abbreviation SLOAD :: instruction where "SLOAD \<equiv> 0x54"
abbreviation SSTORE :: instruction where "SSTORE \<equiv> 0x55"
abbreviation JUMP :: instruction where "JUMP \<equiv> 0x56"
abbreviation JUMPI :: instruction where "JUMPI \<equiv> 0x57"
abbreviation PC :: instruction where "PC \<equiv> 0x58"
abbreviation MSIZE :: instruction where "MSIZE \<equiv> 0x59"
abbreviation GAS :: instruction where "GAS \<equiv> 0x5a"
abbreviation JUMPDEST :: instruction where "JUMPDEST \<equiv> 0x5b"
abbreviation PUSH1 :: instruction where "PUSH1 \<equiv> 0x60"
abbreviation PUSH2 :: instruction where "PUSH2 \<equiv> 0x61"
abbreviation PUSH3 :: instruction where "PUSH3 \<equiv> 0x62"
abbreviation PUSH4 :: instruction where "PUSH4 \<equiv> 0x63"
abbreviation PUSH5 :: instruction where "PUSH5 \<equiv> 0x64"
abbreviation PUSH6 :: instruction where "PUSH6 \<equiv> 0x65"
abbreviation PUSH7 :: instruction where "PUSH7 \<equiv> 0x66"
abbreviation PUSH8 :: instruction where "PUSH8 \<equiv> 0x67"
abbreviation PUSH9 :: instruction where "PUSH9 \<equiv> 0x68"
abbreviation PUSH10 :: instruction where "PUSH10 \<equiv> 0x69"
abbreviation PUSH11 :: instruction where "PUSH11 \<equiv> 0x6a"
abbreviation PUSH12 :: instruction where "PUSH12 \<equiv> 0x6b"
abbreviation PUSH13 :: instruction where "PUSH13 \<equiv> 0x6c"
abbreviation PUSH14 :: instruction where "PUSH14 \<equiv> 0x6d"
abbreviation PUSH15 :: instruction where "PUSH15 \<equiv> 0x6e"
abbreviation PUSH16 :: instruction where "PUSH16 \<equiv> 0x6f"
abbreviation PUSH17 :: instruction where "PUSH17 \<equiv> 0x70"
abbreviation PUSH18 :: instruction where "PUSH18 \<equiv> 0x71"
abbreviation PUSH19 :: instruction where "PUSH19 \<equiv> 0x72"
abbreviation PUSH20 :: instruction where "PUSH20 \<equiv> 0x73"
abbreviation PUSH21 :: instruction where "PUSH21 \<equiv> 0x74"
abbreviation PUSH22 :: instruction where "PUSH22 \<equiv> 0x75"
abbreviation PUSH23 :: instruction where "PUSH23 \<equiv> 0x76"
abbreviation PUSH24 :: instruction where "PUSH24 \<equiv> 0x77"
abbreviation PUSH25 :: instruction where "PUSH25 \<equiv> 0x78"
abbreviation PUSH26 :: instruction where "PUSH26 \<equiv> 0x79"
abbreviation PUSH27 :: instruction where "PUSH27 \<equiv> 0x7a"
abbreviation PUSH28 :: instruction where "PUSH28 \<equiv> 0x7b"
abbreviation PUSH29 :: instruction where "PUSH29 \<equiv> 0x7c"
abbreviation PUSH30 :: instruction where "PUSH30 \<equiv> 0x7d"
abbreviation PUSH31 :: instruction where "PUSH31 \<equiv> 0x7e"
abbreviation PUSH32 :: instruction where "PUSH32 \<equiv> 0x7f"
abbreviation DUP1 :: instruction where "DUP1 \<equiv> 0x80"
abbreviation DUP2 :: instruction where "DUP2 \<equiv> 0x81"
abbreviation DUP3 :: instruction where "DUP3 \<equiv> 0x82"
abbreviation DUP4 :: instruction where "DUP4 \<equiv> 0x83"
abbreviation DUP5 :: instruction where "DUP5 \<equiv> 0x84"
abbreviation DUP6 :: instruction where "DUP6 \<equiv> 0x85"
abbreviation DUP7 :: instruction where "DUP7 \<equiv> 0x86"
abbreviation DUP8 :: instruction where "DUP8 \<equiv> 0x87"
abbreviation DUP9 :: instruction where "DUP9 \<equiv> 0x88"
abbreviation DUP10 :: instruction where "DUP10 \<equiv> 0x89"
abbreviation DUP11 :: instruction where "DUP11 \<equiv> 0x8a"
abbreviation DUP12 :: instruction where "DUP12 \<equiv> 0x8b"
abbreviation DUP13 :: instruction where "DUP13 \<equiv> 0x8c"
abbreviation DUP14 :: instruction where "DUP14 \<equiv> 0x8d"
abbreviation DUP15 :: instruction where "DUP15 \<equiv> 0x8e"
abbreviation DUP16 :: instruction where "DUP16 \<equiv> 0x8f"
abbreviation SWAP1 :: instruction where "SWAP1 \<equiv> 0x90"
abbreviation SWAP2 :: instruction where "SWAP2 \<equiv> 0x91"
abbreviation SWAP3 :: instruction where "SWAP3 \<equiv> 0x92"
abbreviation SWAP4 :: instruction where "SWAP4 \<equiv> 0x93"
abbreviation SWAP5 :: instruction where "SWAP5 \<equiv> 0x94"
abbreviation SWAP6 :: instruction where "SWAP6 \<equiv> 0x95"
abbreviation SWAP7 :: instruction where "SWAP7 \<equiv> 0x96"
abbreviation SWAP8 :: instruction where "SWAP8 \<equiv> 0x97"
abbreviation SWAP9 :: instruction where "SWAP9 \<equiv> 0x98"
abbreviation SWAP10 :: instruction where "SWAP10 \<equiv> 0x99"
abbreviation SWAP11 :: instruction where "SWAP11 \<equiv> 0x9a"
abbreviation SWAP12 :: instruction where "SWAP12 \<equiv> 0x9b"
abbreviation SWAP13 :: instruction where "SWAP13 \<equiv> 0x9c"
abbreviation SWAP14 :: instruction where "SWAP14 \<equiv> 0x9d"
abbreviation SWAP15 :: instruction where "SWAP15 \<equiv> 0x9e"
abbreviation SWAP16 :: instruction where "SWAP16 \<equiv> 0x9f"
abbreviation LOG0 :: instruction where "LOG0 \<equiv> 0xa0"
abbreviation LOG1 :: instruction where "LOG1 \<equiv> 0xa1"
abbreviation LOG2 :: instruction where "LOG2 \<equiv> 0xa2"
abbreviation LOG3 :: instruction where "LOG3 \<equiv> 0xa3"
abbreviation LOG4 :: instruction where "LOG4 \<equiv> 0xa4"
abbreviation EIP615_JUMPTO :: instruction where "EIP615_JUMPTO \<equiv> 0xb0"
abbreviation EIP615_JUMPIF :: instruction where "EIP615_JUMPIF \<equiv> 0xb1"
abbreviation EIP615_JUMPV :: instruction where "EIP615_JUMPV \<equiv> 0xb2"
abbreviation EIP615_JUMPSUB :: instruction where "EIP615_JUMPSUB \<equiv> 0xb3"
abbreviation EIP615_JUMPSUBV :: instruction where "EIP615_JUMPSUBV \<equiv> 0xb4"
abbreviation EIP615_BEGINSUB :: instruction where "EIP615_BEGINSUB \<equiv> 0xb5"
abbreviation EIP615_BEGINDATA :: instruction where "EIP615_BEGINDATA \<equiv> 0xb6"
abbreviation EIP615_RETURNSUB :: instruction where "EIP615_RETURNSUB \<equiv> 0xb7"
abbreviation EIP615_PUTLOCAL :: instruction where "EIP615_PUTLOCAL \<equiv> 0xb8"
abbreviation EIP615_GETLOCAL :: instruction where "EIP615_GETLOCAL \<equiv> 0xb9"
abbreviation CREATESIGNAL :: instruction where "CREATESIGNAL \<equiv> 0xc0"
abbreviation SIGBIND :: instruction where "SIGBIND \<equiv> 0xc2"
abbreviation SIGDETACH :: instruction where "SIGDETACH \<equiv> 0xc3"
abbreviation SIGEMIT :: instruction where "SIGEMIT \<equiv> 0xc4"
abbreviation DELETESIGNAL :: instruction where "DELETESIGNAL \<equiv> 0xc5"
abbreviation CREATE :: instruction where "CREATE \<equiv> 0xf0"
abbreviation CALL :: instruction where "CALL \<equiv> 0xf1"
abbreviation CALLCODE :: instruction where "CALLCODE \<equiv> 0xf2"
abbreviation RETURN :: instruction where "RETURN \<equiv> 0xf3"
abbreviation DELEGATECALL :: instruction where "DELEGATECALL \<equiv> 0xf4"
abbreviation CREATE2 :: instruction where "CREATE2 \<equiv> 0xf5"
abbreviation STATICCALL :: instruction where "STATICCALL \<equiv> 0xfa"
abbreviation REVERT :: instruction where "REVERT \<equiv> 0xfd"
abbreviation INVALID :: instruction where "INVALID \<equiv> 0xfe"
abbreviation SELFDESTRUCT :: instruction where "SELFDESTRUCT \<equiv> 0xff"

section \<open>Groups of opcodes\<close>

type_synonym unsigned = "32 word"

definition isPushInstruction :: "instruction \<Rightarrow> bool" where
  "isPushInstruction i \<longleftrightarrow> PUSH1 \<le> i \<and> i \<le> PUSH32"

definition isDupInstruction :: "instruction \<Rightarrow> bool" where
  "isDupInstruction i \<longleftrightarrow> DUP1 \<le> i \<and> i \<le> DUP16"

definition isSwapInstruction :: "instruction \<Rightarrow> bool" where
  "isSwapInstruction i \<longleftrightarrow> SWAP1 \<le> i \<and> i \<le> SWAP16"

definition isLogInstruction :: "instruction \<Rightarrow> bool" where
  "isLogInstruction i \<longleftrightarrow> LOG0 \<le> i \<and> i \<le> LOG4"

definition getPushNumber :: "instruction \<Rightarrow> unsigned" where
  "getPushNumber i = ucast i - ucast PUSH1 + 1"

definition getDupNumber :: "instruction \<Rightarrow> unsigned" where
  "getDupNumber i = ucast i - ucast DUP1 + 1"

definition getSwapNumber :: "instruction \<Rightarrow> unsigned" where
  "getSwapNumber i = ucast i - ucast SWAP1 + 1"

definition getLogNumber :: "instruction \<Rightarrow> unsigned" where
  "getLogNumber i = ucast i - ucast LOG0"

definition pushInstruction :: "unsigned \<Rightarrow> instruction result" where
  "pushInstruction n = bindR (assertThrow (1 \<le> n \<and> n \<le> 32) InvalidOpcode)
     (\<lambda>_. Inr (ucast (ucast PUSH1 + n - 1)))"

definition dupInstruction :: "unsigned \<Rightarrow> instruction result" where
  "dupInstruction n = bindR (assertThrow (1 \<le> n \<and> n \<le> 16) InvalidOpcode)
     (\<lambda>_. Inr (ucast (ucast DUP1 + n - 1)))"

definition swapInstruction :: "unsigned \<Rightarrow> instruction result" where
  "swapInstruction n = bindR (assertThrow (1 \<le> n \<and> n \<le> 16) InvalidOpcode)
     (\<lambda>_. Inr (ucast (ucast SWAP1 + n - 1)))"

definition logInstruction :: "unsigned \<Rightarrow> instruction result" where
  "logInstruction n = bindR (assertThrow (n \<le> 4) InvalidOpcode)
     (\<lambda>_. Inr (ucast (ucast LOG0 + n)))"

section \<open>The instruction table\<close>

datatype tier =
    Tier_Zero | Base | VeryLow | Low | Mid | High | Ext | ExtCode | Balance | Special | Tier_Invalid

record instruction_info =
  ii_name :: string
  ii_additional :: nat
  ii_args :: nat
  ii_ret :: nat
  ii_sideEffects :: bool
  ii_gasPriceTier :: tier

abbreviation info :: "string \<Rightarrow> nat \<Rightarrow> nat \<Rightarrow> nat \<Rightarrow> bool \<Rightarrow> tier \<Rightarrow> instruction_info" where
  "info n add args ret se t \<equiv>
     \<lparr>ii_name = n, ii_additional = add, ii_args = args, ii_ret = ret,
      ii_sideEffects = se, ii_gasPriceTier = t\<rparr>"

definition c_instructions :: "(string \<times> instruction) list" where
  "c_instructions = [
   (''STOP'', STOP),
   (''ADD'', ADD),
   (''SUB'', SUB),
   (''MUL'', MUL),
   (''DIV'', DIV),
   (''SDIV'', SDIV),
   (''MOD'', MOD),
   (''SMOD'', SMOD),
   (''EXP'', EXP),
   (''NOT'', NOT'),
   (''LT'', LT),
   (''GT'', GT),
   (''SLT'', SLT),
   (''SGT'', SGT),
   (''EQ'', EQ),
   (''ISZERO'', ISZERO),
   (''AND'', AND'),
   (''OR'', OR'),
   (''XOR'', XOR'),
   (''BYTE'', BYTE),
   (''SHL'', SHL),
   (''SHR'', SHR),
   (''SAR'', SAR),
   (''ADDMOD'', ADDMOD),
   (''MULMOD'', MULMOD),
   (''SIGNEXTEND'', SIGNEXTEND),
   (''KECCAK256'', KECCAK256),
   (''ADDRESS'', ADDRESS),
   (''BALANCE'', BALANCE),
   (''ORIGIN'', ORIGIN),
   (''CALLER'', CALLER),
   (''CALLVALUE'', CALLVALUE),
   (''CALLDATALOAD'', CALLDATALOAD),
   (''CALLDATASIZE'', CALLDATASIZE),
   (''CALLDATACOPY'', CALLDATACOPY),
   (''CODESIZE'', CODESIZE),
   (''CODECOPY'', CODECOPY),
   (''GASPRICE'', GASPRICE),
   (''EXTCODESIZE'', EXTCODESIZE),
   (''EXTCODECOPY'', EXTCODECOPY),
   (''RETURNDATASIZE'', RETURNDATASIZE),
   (''RETURNDATACOPY'', RETURNDATACOPY),
   (''EXTCODEHASH'', EXTCODEHASH),
   (''BLOCKHASH'', BLOCKHASH),
   (''COINBASE'', COINBASE),
   (''TIMESTAMP'', TIMESTAMP),
   (''NUMBER'', NUMBER),
   (''DIFFICULTY'', DIFFICULTY),
   (''GASLIMIT'', GASLIMIT),
   (''CHAINID'', CHAINID),
   (''SELFBALANCE'', SELFBALANCE),
   (''POP'', POP),
   (''MLOAD'', MLOAD),
   (''MSTORE'', MSTORE),
   (''MSTORE8'', MSTORE8),
   (''SLOAD'', SLOAD),
   (''SSTORE'', SSTORE),
   (''JUMP'', JUMP),
   (''JUMPI'', JUMPI),
   (''PC'', PC),
   (''MSIZE'', MSIZE),
   (''GAS'', GAS),
   (''JUMPDEST'', JUMPDEST),
   (''PUSH1'', PUSH1),
   (''PUSH2'', PUSH2),
   (''PUSH3'', PUSH3),
   (''PUSH4'', PUSH4),
   (''PUSH5'', PUSH5),
   (''PUSH6'', PUSH6),
   (''PUSH7'', PUSH7),
   (''PUSH8'', PUSH8),
   (''PUSH9'', PUSH9),
   (''PUSH10'', PUSH10),
   (''PUSH11'', PUSH11),
   (''PUSH12'', PUSH12),
   (''PUSH13'', PUSH13),
   (''PUSH14'', PUSH14),
   (''PUSH15'', PUSH15),
   (''PUSH16'', PUSH16),
   (''PUSH17'', PUSH17),
   (''PUSH18'', PUSH18),
   (''PUSH19'', PUSH19),
   (''PUSH20'', PUSH20),
   (''PUSH21'', PUSH21),
   (''PUSH22'', PUSH22),
   (''PUSH23'', PUSH23),
   (''PUSH24'', PUSH24),
   (''PUSH25'', PUSH25),
   (''PUSH26'', PUSH26),
   (''PUSH27'', PUSH27),
   (''PUSH28'', PUSH28),
   (''PUSH29'', PUSH29),
   (''PUSH30'', PUSH30),
   (''PUSH31'', PUSH31),
   (''PUSH32'', PUSH32),
   (''DUP1'', DUP1),
   (''DUP2'', DUP2),
   (''DUP3'', DUP3),
   (''DUP4'', DUP4),
   (''DUP5'', DUP5),
   (''DUP6'', DUP6),
   (''DUP7'', DUP7),
   (''DUP8'', DUP8),
   (''DUP9'', DUP9),
   (''DUP10'', DUP10),
   (''DUP11'', DUP11),
   (''DUP12'', DUP12),
   (''DUP13'', DUP13),
   (''DUP14'', DUP14),
   (''DUP15'', DUP15),
   (''DUP16'', DUP16),
   (''SWAP1'', SWAP1),
   (''SWAP2'', SWAP2),
   (''SWAP3'', SWAP3),
   (''SWAP4'', SWAP4),
   (''SWAP5'', SWAP5),
   (''SWAP6'', SWAP6),
   (''SWAP7'', SWAP7),
   (''SWAP8'', SWAP8),
   (''SWAP9'', SWAP9),
   (''SWAP10'', SWAP10),
   (''SWAP11'', SWAP11),
   (''SWAP12'', SWAP12),
   (''SWAP13'', SWAP13),
   (''SWAP14'', SWAP14),
   (''SWAP15'', SWAP15),
   (''SWAP16'', SWAP16),
   (''LOG0'', LOG0),
   (''LOG1'', LOG1),
   (''LOG2'', LOG2),
   (''LOG3'', LOG3),
   (''LOG4'', LOG4),
   (''CREATESIGNAL'', CREATESIGNAL),
   (''SIGBIND'', SIGBIND),
   (''SIGDETACH'', SIGDETACH),
   (''SIGEMIT'', SIGEMIT),
   (''DELETESIGNAL'', DELETESIGNAL),
   (''CREATE'', CREATE),
   (''CALL'', CALL),
   (''CALLCODE'', CALLCODE),
   (''STATICCALL'', STATICCALL),
   (''RETURN'', RETURN),
   (''DELEGATECALL'', DELEGATECALL),
   (''CREATE2'', CREATE2),
   (''REVERT'', REVERT),
   (''INVALID'', INVALID),
   (''SELFDESTRUCT'', SELFDESTRUCT)]"

definition c_instructionInfo :: "(instruction \<times> instruction_info) list" where
  "c_instructionInfo = [
   (STOP, info ''STOP'' 0 0 0 True Tier_Zero),
   (ADD, info ''ADD'' 0 2 1 False VeryLow),
   (SUB, info ''SUB'' 0 2 1 False VeryLow),
   (MUL, info ''MUL'' 0 2 1 False Low),
   (DIV, info ''DIV'' 0 2 1 False Low),
   (SDIV, info ''SDIV'' 0 2 1 False Low),
   (MOD, info ''MOD'' 0 2 1 False Low),
   (SMOD, info ''SMOD'' 0 2 1 False Low),
   (EXP, info ''EXP'' 0 2 1 False Special),
   (NOT', info ''NOT'' 0 1 1 False VeryLow),
   (LT, info ''LT'' 0 2 1 False VeryLow),
   (GT, info ''GT'' 0 2 1 False VeryLow),
   (SLT, info ''SLT'' 0 2 1 False VeryLow),
   (SGT, info ''SGT'' 0 2 1 False VeryLow),
   (EQ, info ''EQ'' 0 2 1 False VeryLow),
   (ISZERO, info ''ISZERO'' 0 1 1 False VeryLow),
   (AND', info ''AND'' 0 2 1 False VeryLow),
   (OR', info ''OR'' 0 2 1 False VeryLow),
   (XOR', info ''XOR'' 0 2 1 False VeryLow),
   (BYTE, info ''BYTE'' 0 2 1 False VeryLow),
   (SHL, info ''SHL'' 0 2 1 False VeryLow),
   (SHR, info ''SHR'' 0 2 1 False VeryLow),
   (SAR, info ''SAR'' 0 2 1 False VeryLow),
   (ADDMOD, info ''ADDMOD'' 0 3 1 False Mid),
   (MULMOD, info ''MULMOD'' 0 3 1 False Mid),
   (SIGNEXTEND, info ''SIGNEXTEND'' 0 2 1 False Low),
   (KECCAK256, info ''KECCAK256'' 0 2 1 True Special),
   (ADDRESS, info ''ADDRESS'' 0 0 1 False Base),
   (BALANCE, info ''BALANCE'' 0 1 1 False Balance),
   (ORIGIN, info ''ORIGIN'' 0 0 1 False Base),
   (CALLER, info ''CALLER'' 0 0 1 False Base),
   (CALLVALUE, info ''CALLVALUE'' 0 0 1 False Base),
   (CALLDATALOAD, info ''CALLDATALOAD'' 0 1 1 False VeryLow),
   (CALLDATASIZE, info ''CALLDATASIZE'' 0 0 1 False Base),
   (CALLDATACOPY, info ''CALLDATACOPY'' 0 3 0 True VeryLow),
   (CODESIZE, info ''CODESIZE'' 0 0 1 False Base),
   (CODECOPY, info ''CODECOPY'' 0 3 0 True VeryLow),
   (GASPRICE, info ''GASPRICE'' 0 0 1 False Base),
   (EXTCODESIZE, info ''EXTCODESIZE'' 0 1 1 False ExtCode),
   (EXTCODECOPY, info ''EXTCODECOPY'' 0 4 0 True ExtCode),
   (RETURNDATASIZE, info ''RETURNDATASIZE'' 0 0 1 False Base),
   (RETURNDATACOPY, info ''RETURNDATACOPY'' 0 3 0 True VeryLow),
   (EXTCODEHASH, info ''EXTCODEHASH'' 0 1 1 False Balance),
   (BLOCKHASH, info ''BLOCKHASH'' 0 1 1 False Ext),
   (COINBASE, info ''COINBASE'' 0 0 1 False Base),
   (TIMESTAMP, info ''TIMESTAMP'' 0 0 1 False Base),
   (NUMBER, info ''NUMBER'' 0 0 1 False Base),
   (DIFFICULTY, info ''DIFFICULTY'' 0 0 1 False Base),
   (GASLIMIT, info ''GASLIMIT'' 0 0 1 False Base),
   (CHAINID, info ''CHAINID'' 0 0 1 False Base),
   (SELFBALANCE, info ''SELFBALANCE'' 0 0 1 False Low),
   (POP, info ''POP'' 0 1 0 False Base),
   (MLOAD, info ''MLOAD'' 0 1 1 True VeryLow),
   (MSTORE, info ''MSTORE'' 0 2 0 True VeryLow),
   (MSTORE8, info ''MSTORE8'' 0 2 0 True VeryLow),
   (SLOAD, info ''SLOAD'' 0 1 1 False Special),
   (SSTORE, info ''SSTORE'' 0 2 0 True Special),
   (JUMP, info ''JUMP'' 0 1 0 True Mid),
   (JUMPI, info ''JUMPI'' 0 2 0 True High),
   (PC, info ''PC'' 0 0 1 False Base),
   (MSIZE, info ''MSIZE'' 0 0 1 False Base),
   (GAS, info ''GAS'' 0 0 1 False Base),
   (JUMPDEST, info ''JUMPDEST'' 0 0 0 True Special),
   (PUSH1, info ''PUSH1'' 1 0 1 False VeryLow),
   (PUSH2, info ''PUSH2'' 2 0 1 False VeryLow),
   (PUSH3, info ''PUSH3'' 3 0 1 False VeryLow),
   (PUSH4, info ''PUSH4'' 4 0 1 False VeryLow),
   (PUSH5, info ''PUSH5'' 5 0 1 False VeryLow),
   (PUSH6, info ''PUSH6'' 6 0 1 False VeryLow),
   (PUSH7, info ''PUSH7'' 7 0 1 False VeryLow),
   (PUSH8, info ''PUSH8'' 8 0 1 False VeryLow),
   (PUSH9, info ''PUSH9'' 9 0 1 False VeryLow),
   (PUSH10, info ''PUSH10'' 10 0 1 False VeryLow),
   (PUSH11, info ''PUSH11'' 11 0 1 False VeryLow),
   (PUSH12, info ''PUSH12'' 12 0 1 False VeryLow),
   (PUSH13, info ''PUSH13'' 13 0 1 False VeryLow),
   (PUSH14, info ''PUSH14'' 14 0 1 False VeryLow),
   (PUSH15, info ''PUSH15'' 15 0 1 False VeryLow),
   (PUSH16, info ''PUSH16'' 16 0 1 False VeryLow),
   (PUSH17, info ''PUSH17'' 17 0 1 False VeryLow),
   (PUSH18, info ''PUSH18'' 18 0 1 False VeryLow),
   (PUSH19, info ''PUSH19'' 19 0 1 False VeryLow),
   (PUSH20, info ''PUSH20'' 20 0 1 False VeryLow),
   (PUSH21, info ''PUSH21'' 21 0 1 False VeryLow),
   (PUSH22, info ''PUSH22'' 22 0 1 False VeryLow),
   (PUSH23, info ''PUSH23'' 23 0 1 False VeryLow),
   (PUSH24, info ''PUSH24'' 24 0 1 False VeryLow),
   (PUSH25, info ''PUSH25'' 25 0 1 False VeryLow),
   (PUSH26, info ''PUSH26'' 26 0 1 False VeryLow),
   (PUSH27, info ''PUSH27'' 27 0 1 False VeryLow),
   (PUSH28, info ''PUSH28'' 28 0 1 False VeryLow),
   (PUSH29, info ''PUSH29'' 29 0 1 False VeryLow),
   (PUSH30, info ''PUSH30'' 30 0 1 False VeryLow),
   (PUSH31, info ''PUSH31'' 31 0 1 False VeryLow),
   (PUSH32, info ''PUSH32'' 32 0 1 False VeryLow),
   (DUP1, info ''DUP1'' 0 1 2 False VeryLow),
   (DUP2, info ''DUP2'' 0 2 3 False VeryLow),
   (DUP3, info ''DUP3'' 0 3 4 False VeryLow),
   (DUP4, info ''DUP4'' 0 4 5 False VeryLow),
   (DUP5, info ''DUP5'' 0 5 6 False VeryLow),
   (DUP6, info ''DUP6'' 0 6 7 False VeryLow),
   (DUP7, info ''DUP7'' 0 7 8 False VeryLow),
   (DUP8, info ''DUP8'' 0 8 9 False VeryLow),
   (DUP9, info ''DUP9'' 0 9 10 False VeryLow),
   (DUP10, info ''DUP10'' 0 10 11 False VeryLow),
   (DUP11, info ''DUP11'' 0 11 12 False VeryLow),
   (DUP12, info ''DUP12'' 0 12 13 False VeryLow),
   (DUP13, info ''DUP13'' 0 13 14 False VeryLow),
   (DUP14, info ''DUP14'' 0 14 15 False VeryLow),
   (DUP15, info ''DUP15'' 0 15 16 False VeryLow),
   (DUP16, info ''DUP16'' 0 16 17 False VeryLow),
   (SWAP1, info ''SWAP1'' 0 2 2 False VeryLow),
   (SWAP2, info ''SWAP2'' 0 3 3 False VeryLow),
   (SWAP3, info ''SWAP3'' 0 4 4 False VeryLow),
   (SWAP4, info ''SWAP4'' 0 5 5 False VeryLow),
   (SWAP5, info ''SWAP5'' 0 6 6 False VeryLow),
   (SWAP6, info ''SWAP6'' 0 7 7 False VeryLow),
   (SWAP7, info ''SWAP7'' 0 8 8 False VeryLow),
   (SWAP8, info ''SWAP8'' 0 9 9 False VeryLow),
   (SWAP9, info ''SWAP9'' 0 10 10 False VeryLow),
   (SWAP10, info ''SWAP10'' 0 11 11 False VeryLow),
   (SWAP11, info ''SWAP11'' 0 12 12 False VeryLow),
   (SWAP12, info ''SWAP12'' 0 13 13 False VeryLow),
   (SWAP13, info ''SWAP13'' 0 14 14 False VeryLow),
   (SWAP14, info ''SWAP14'' 0 15 15 False VeryLow),
   (SWAP15, info ''SWAP15'' 0 16 16 False VeryLow),
   (SWAP16, info ''SWAP16'' 0 17 17 False VeryLow),
   (LOG0, info ''LOG0'' 0 2 0 True Special),
   (LOG1, info ''LOG1'' 0 3 0 True Special),
   (LOG2, info ''LOG2'' 0 4 0 True Special),
   (LOG3, info ''LOG3'' 0 5 0 True Special),
   (LOG4, info ''LOG4'' 0 6 0 True Special),
   (CREATESIGNAL, info ''CREATESIGNAL'' 0 1 1 False Special),
   (SIGBIND, info ''SIGBIND'' 0 11 1 False Special),
   (SIGDETACH, info ''SIGDETACH'' 0 3 1 False Special),
   (SIGEMIT, info ''SIGEMIT'' 0 6 1 False Special),
   (DELETESIGNAL, info ''DELETESIGNAL'' 0 1 1 False Special),
   (CREATE, info ''CREATE'' 0 3 1 True Special),
   (CALL, info ''CALL'' 0 7 1 True Special),
   (CALLCODE, info ''CALLCODE'' 0 7 1 True Special),
   (RETURN, info ''RETURN'' 0 2 0 True Tier_Zero),
   (DELEGATECALL, info ''DELEGATECALL'' 0 6 1 True Special),
   (STATICCALL, info ''STATICCALL'' 0 6 1 True Special),
   (CREATE2, info ''CREATE2'' 0 4 1 True Special),
   (REVERT, info ''REVERT'' 0 2 0 True Tier_Zero),
   (INVALID, info ''INVALID'' 0 0 0 True Tier_Zero),
   (SELFDESTRUCT, info ''SELFDESTRUCT'' 0 1 0 True Special)]"

definition isValidInstruction :: "instruction \<Rightarrow> bool" where
  "isValidInstruction i \<longleftrightarrow> map_of c_instructionInfo i \<noteq> None"

definition instructionInfo :: "instruction \<Rightarrow> instruction_info" where
  "instructionInfo i =
     (case map_of c_instructionInfo i of
        Some row \<Rightarrow> row
      | None \<Rightarrow> info (''<INVALID_INSTRUCTION: '' @ to_string (unat i) @ ''>'') 0 0 0 False Tier_Invalid)"

section \<open>Walking over bytecode\<close>

text \<open>The inner loop of \<open>eachInstruction\<close>: the immediate bytes that are still available.\<close>

fun eachData :: "nat \<Rightarrow> u256 \<Rightarrow> bytes \<Rightarrow> nat \<times> u256 \<times> bytes" where
  "eachData (Suc additional) d (b # bs) = eachData additional (push_bit 8 d OR ucast b) bs"
| "eachData additional d bs = (additional, d, bs)"

lemma length_eachData: "length (snd (snd (eachData a d bs))) \<le> length bs"
  by (induction a d bs rule: eachData.induct) simp_all

text \<open>The calls of the callback, in order.\<close>

function eachInstruction :: "bytes \<Rightarrow> (instruction \<times> u256) list" where
  "eachInstruction [] = []"
| "eachInstruction (instr # bs) =
     (let additional = (if isValidInstruction instr then ii_additional (instructionInfo instr) else 0);
          r = eachData additional 0 bs
      in (instr, push_bit (8 * fst r) (fst (snd r))) # eachInstruction (snd (snd r)))"
  by pat_completeness auto
termination
  by (relation "measure length") (auto simp: le_imp_less_Suc length_eachData)

definition disassemble :: "bytes \<Rightarrow> string" where
  "disassemble mem = concat (map (\<lambda>(instr, d).
     if \<not> isValidInstruction instr then ''0x'' @ hex_upper (unat instr) @ '' ''
     else
       let row = instructionInfo instr
       in ii_name row @ '' '' @
          (if ii_additional row \<noteq> 0 then ''0x'' @ hex_upper (unat d) @ '' '' else []))
     (eachInstruction mem))"

section \<open>Lemmas: the tables\<close>

text \<open>Distinctness is decided on numbers, which the simplifier compares faster than words.\<close>

lemma distinct_instructionInfo: "distinct (map fst c_instructionInfo)"
proof -
  have "distinct (map (unat \<circ> fst) c_instructionInfo)"
    by (simp add: c_instructionInfo_def)
  then show ?thesis by (simp add: distinct_map comp_inj_on_iff inj_on_def)
qed

definition name_code :: "string \<Rightarrow> nat" where
  "name_code s = foldl (\<lambda>a c. a * 256 + of_char c) 0 s"

lemma distinct_instructions: "distinct (map fst c_instructions)"
proof -
  have "distinct (map (name_code \<circ> fst) c_instructions)"
    by (simp add: c_instructions_def name_code_def)
  then show ?thesis by (auto simp: distinct_map comp_inj_on_iff inj_on_def)
qed

lemma instructionInfo_table: "(i, row) \<in> set c_instructionInfo \<Longrightarrow> instructionInfo i = row"
  by (simp add: instructionInfo_def map_of_is_SomeI distinct_instructionInfo)

lemma isValidInstruction_table: "isValidInstruction i \<longleftrightarrow> (i, instructionInfo i) \<in> set c_instructionInfo"
  by (auto simp: isValidInstruction_def instructionInfo_def split: option.splits
      dest: map_of_SomeD weak_map_of_SomeI)

text \<open>The rows of the table as rewrite rules: one lookup is one rewrite step.\<close>

lemma instructionInfo_rows:
  "list_all (\<lambda>(i, row). isValidInstruction i \<and> instructionInfo i = row) c_instructionInfo"
  by (auto simp: list_all_iff isValidInstruction_table instructionInfo_table)

lemmas instructionInfo_eqs =
  instructionInfo_rows [unfolded c_instructionInfo_def list.pred_inject prod.case]

text \<open>A property of every row of the table holds for every valid instruction.\<close>

lemma instructionInfo_all:
  "list_all (\<lambda>(i, row). P i row) c_instructionInfo \<Longrightarrow> isValidInstruction i \<Longrightarrow> P i (instructionInfo i)"
  by (auto simp: isValidInstruction_table list_all_iff)

lemma instructionInfo_invalid:
  "\<not> isValidInstruction i \<Longrightarrow> ii_additional (instructionInfo i) = 0 \<and> ii_args (instructionInfo i) = 0
     \<and> ii_ret (instructionInfo i) = 0 \<and> \<not> ii_sideEffects (instructionInfo i)
     \<and> ii_gasPriceTier (instructionInfo i) = Tier_Invalid"
  by (simp add: isValidInstruction_def instructionInfo_def)

text \<open>The mnemonic map and the table list the same opcodes under the same names.\<close>

lemma instruction_names:
  "set (map (\<lambda>(i, row). (ii_name row, i)) c_instructionInfo) = set c_instructions"
proof -
  have split: "set xs = set (take 140 xs @ [xs ! 141, xs ! 142, xs ! 140] @ drop 143 xs)"
    if "143 \<le> length xs" for xs :: "(string \<times> instruction) list"
  proof -
    have "drop 140 xs = xs ! 140 # xs ! 141 # xs ! 142 # drop 143 xs"
      using that Cons_nth_drop_Suc [of 140 xs] Cons_nth_drop_Suc [of 141 xs] Cons_nth_drop_Suc [of 142 xs]
      by simp
    then have "xs = take 140 xs @ xs ! 140 # xs ! 141 # xs ! 142 # drop 143 xs"
      by (metis append_take_drop_id)
    then have "set xs = set (take 140 xs @ xs ! 140 # xs ! 141 # xs ! 142 # drop 143 xs)"
      by (rule arg_cong)
    then show ?thesis by auto
  qed
  have "length c_instructions = 147"
    by (simp add: c_instructions_def)
  moreover have "map (\<lambda>(i, row). (ii_name row, i)) c_instructionInfo =
      take 140 c_instructions @
      [c_instructions ! 141, c_instructions ! 142, c_instructions ! 140] @ drop 143 c_instructions"
    by (simp add: c_instructions_def c_instructionInfo_def)
  ultimately show ?thesis using split [of c_instructions] by simp
qed

lemma mnemonic_iff:
  "map_of c_instructions n = Some i \<longleftrightarrow> isValidInstruction i \<and> ii_name (instructionInfo i) = n"
proof -
  have "map_of c_instructions n = Some i \<longleftrightarrow> (n, i) \<in> set c_instructions"
    by (simp add: distinct_instructions)
  also have "\<dots> \<longleftrightarrow> (\<exists>row. (i, row) \<in> set c_instructionInfo \<and> ii_name row = n)"
    unfolding instruction_names [symmetric] by auto
  also have "\<dots> \<longleftrightarrow> isValidInstruction i \<and> ii_name (instructionInfo i) = n"
    by (auto simp: isValidInstruction_table dest: instructionInfo_table)
  finally show ?thesis .
qed

text \<open>The opcode groups as ranges of numbers, and the number of a grouped opcode.\<close>

lemma group_ranges:
  "isPushInstruction i \<longleftrightarrow> 96 \<le> unat i \<and> unat i \<le> 127"
  "isDupInstruction i \<longleftrightarrow> 128 \<le> unat i \<and> unat i \<le> 143"
  "isSwapInstruction i \<longleftrightarrow> 144 \<le> unat i \<and> unat i \<le> 159"
  "isLogInstruction i \<longleftrightarrow> 160 \<le> unat i \<and> unat i \<le> 164"
  by (simp_all add: isPushInstruction_def isDupInstruction_def isSwapInstruction_def
      isLogInstruction_def word_le_nat_alt)

lemma unat_ucast_diff:
  fixes i :: instruction
  assumes "k \<le> unat i" "k < 256"
  shows "unat (ucast i - word_of_nat k :: unsigned) = unat i - k"
proof -
  have i: "unat i < 256" using unsigned_less [of i, where ?'a = nat] by simp
  have k: "unat (word_of_nat k :: unsigned) = k" using assms by (simp add: unat_of_nat)
  have u: "unat (ucast i :: unsigned) = unat i"
    using i by (simp add: unsigned_ucast_eq take_bit_nat_eq_self)
  have "(word_of_nat k :: unsigned) \<le> ucast i"
    using assms by (simp add: word_le_nat_alt k u)
  then show ?thesis by (simp add: unat_sub k u)
qed

lemma group_numbers:
  "isPushInstruction i \<Longrightarrow> unat (getPushNumber i) = unat i - 95"
  "isDupInstruction i \<Longrightarrow> unat (getDupNumber i) = unat i - 127"
  "isSwapInstruction i \<Longrightarrow> unat (getSwapNumber i) = unat i - 143"
  "isLogInstruction i \<Longrightarrow> unat (getLogNumber i) = unat i - 160"
  using unat_ucast_diff [of 95 i] unat_ucast_diff [of 127 i] unat_ucast_diff [of 143 i]
    unat_ucast_diff [of 160 i]
  by (simp_all add: group_ranges getPushNumber_def getDupNumber_def getSwapNumber_def getLogNumber_def)

definition row_ok :: "nat \<Rightarrow> instruction_info \<Rightarrow> bool" where
  "row_ok n row \<longleftrightarrow>
     ii_additional row = (if 96 \<le> n \<and> n \<le> 127 then n - 95 else 0) \<and>
     (96 \<le> n \<and> n \<le> 127 \<longrightarrow> ii_args row = 0 \<and> ii_ret row = 1) \<and>
     (128 \<le> n \<and> n \<le> 143 \<longrightarrow> ii_args row = n - 127 \<and> ii_ret row = n - 127 + 1) \<and>
     (144 \<le> n \<and> n \<le> 159 \<longrightarrow> ii_args row = n - 143 + 1 \<and> ii_ret row = n - 143 + 1) \<and>
     (160 \<le> n \<and> n \<le> 164 \<longrightarrow> ii_args row = n - 160 + 2 \<and> ii_ret row = 0) \<and>
     (n < 128 \<or> 159 < n \<longrightarrow> ii_ret row \<le> 1)"

lemma row_ok_all: "list_all (\<lambda>(i, row). row_ok (unat i) row) c_instructionInfo"
  by (simp add: c_instructionInfo_def row_ok_def)

lemma row_ok_info: "isValidInstruction i \<Longrightarrow> row_ok (unat i) (instructionInfo i)"
  using instructionInfo_all [of "\<lambda>i row. row_ok (unat i) row"] row_ok_all by simp

lemma info_groups:
  assumes "isValidInstruction i"
  shows "ii_additional (instructionInfo i) = (if isPushInstruction i then unat (getPushNumber i) else 0)"
    and "isPushInstruction i \<Longrightarrow> ii_args (instructionInfo i) = 0 \<and> ii_ret (instructionInfo i) = 1"
    and "isDupInstruction i \<Longrightarrow> ii_args (instructionInfo i) = unat (getDupNumber i) \<and>
           ii_ret (instructionInfo i) = unat (getDupNumber i) + 1"
    and "isSwapInstruction i \<Longrightarrow> ii_args (instructionInfo i) = unat (getSwapNumber i) + 1 \<and>
           ii_ret (instructionInfo i) = unat (getSwapNumber i) + 1"
    and "isLogInstruction i \<Longrightarrow> ii_args (instructionInfo i) = unat (getLogNumber i) + 2 \<and>
           ii_ret (instructionInfo i) = 0"
  using row_ok_info [OF assms] group_numbers [of i] unfolding row_ok_def group_ranges
  by simp_all

lemma info_ret_le_1:
  assumes "isValidInstruction i" "\<not> isDupInstruction i" "\<not> isSwapInstruction i"
  shows "ii_ret (instructionInfo i) \<le> 1"
proof -
  have "unat i < 128 \<or> 159 < unat i" using assms by (auto simp: group_ranges)
  then show ?thesis using row_ok_info [OF assms(1)] unfolding row_ok_def by blast
qed

lemma ii_additional_le_32: "ii_additional (instructionInfo i) \<le> 32"
  using row_ok_info [of i] instructionInfo_invalid [of i]
  by (cases "isValidInstruction i") (auto simp: row_ok_def)

section \<open>Lemmas: bytecode and instructions\<close>

text \<open>The immediate bytes an opcode asks for, and the bytecode of one instruction.\<close>

definition immediate_length :: "instruction \<Rightarrow> nat" where
  "immediate_length i = (if isValidInstruction i then ii_additional (instructionInfo i) else 0)"

definition encodeInstruction :: "instruction \<times> u256 \<Rightarrow> bytes" where
  "encodeInstruction x = fst x # be_bytes (immediate_length (fst x)) (snd x)"

lemma immediate_length_le_32: "immediate_length i \<le> 32"
  by (simp add: immediate_length_def ii_additional_le_32)

lemma eachData_eq:
  "eachData a d bs =
     (a - length bs, foldl (\<lambda>ret i. push_bit 8 ret OR ucast i) d (take a bs), drop a bs)"
  by (induction a d bs rule: eachData.induct) simp_all

lemma eachInstruction_Cons:
  "eachInstruction (i # bs) =
     (i, push_bit (8 * (immediate_length i - length bs)) (fromBigEndian (take (immediate_length i) bs)))
       # eachInstruction (drop (immediate_length i) bs)"
  by (simp add: eachData_eq fromBigEndian_def Let_def immediate_length_def [symmetric])

declare eachInstruction.simps(2) [simp del]

lemma eachInstruction_encodeInstruction:
  assumes "unat d < 256 ^ immediate_length i"
  shows "eachInstruction (encodeInstruction (i, d) @ bs) = (i, d) # eachInstruction bs"
proof -
  have "take_bit (8 * immediate_length i) d = d"
    using assms by (simp add: take_bit_bytesRequired bytesRequired_le_iff)
  then show ?thesis
    by (simp add: encodeInstruction_def eachInstruction_Cons fromBigEndian_be_bytes)
qed

lemma fromBigEndian_zeros:
  "fromBigEndian (bs @ replicate m 0) = push_bit (8 * m) (fromBigEndian bs)"
proof (induction m)
  case (Suc m)
  have "bs @ replicate (Suc m) 0 = (bs @ replicate m 0) @ [0]"
    by (simp add: replicate_append_same)
  then have "fromBigEndian (bs @ replicate (Suc m) 0) = push_bit 8 (fromBigEndian (bs @ replicate m 0))"
    by (simp only: fromBigEndian_snoc) simp
  then show ?case using Suc by (simp add: push_bit_push_bit)
qed simp

lemma encode_eachInstruction_Cons:
  "encodeInstruction (i, push_bit (8 * (immediate_length i - length bs))
       (fromBigEndian (take (immediate_length i) bs)))
   = i # take (immediate_length i) bs @ replicate (immediate_length i - length bs) 0"
proof -
  let ?n = "immediate_length i" and ?bs = "take (immediate_length i) bs"
  have "be_bytes (length (?bs @ replicate (?n - length bs) 0))
      (fromBigEndian (?bs @ replicate (?n - length bs) 0)) = ?bs @ replicate (?n - length bs) 0"
    using immediate_length_le_32 [of i] by (intro be_bytes_fromBigEndian) simp
  moreover have "length (?bs @ replicate (?n - length bs) 0) = ?n" by simp
  ultimately show ?thesis by (simp only: fromBigEndian_zeros encodeInstruction_def) simp
qed

lemma encode_each_padded:
  "\<exists>k \<le> 32. concat (map encodeInstruction (eachInstruction bs)) = bs @ replicate k 0"
proof (induction bs rule: eachInstruction.induct)
  case 1
  then show ?case by (intro exI [of _ 0]) simp
next
  case (2 i bs)
  let ?n = "immediate_length i"
  obtain k where k: "k \<le> 32"
    "concat (map encodeInstruction (eachInstruction (drop ?n bs))) = drop ?n bs @ replicate k 0"
    using 2 [OF refl refl] by (simp add: eachData_eq immediate_length_def [symmetric]) blast
  show ?case
  proof (cases "length bs \<le> ?n")
    case True
    then show ?thesis
      using immediate_length_le_32 [of i] encode_eachInstruction_Cons [of i bs]
      by (intro exI [of _ "?n - length bs"]) (simp add: eachInstruction_Cons)
  next
    case False
    then show ?thesis using k encode_eachInstruction_Cons [of i bs]
      by (intro exI [of _ k]) (simp add: eachInstruction_Cons)
  qed
qed

section \<open>Properties\<close>

text \<open>
  C15: walking over the bytecode of a sequence of instructions calls the callback with exactly
  these instructions and their immediate data, when each datum fits the bytes its opcode takes.
\<close>

theorem eachInstruction_roundtrip:
  assumes "\<forall>(i, d) \<in> set xs. unat d < 256 ^ immediate_length i"
  shows "eachInstruction (concat (map encodeInstruction xs)) = xs"
  using assms
  by (induction xs) (auto simp: eachInstruction_encodeInstruction)

theorem eachInstruction_roundtrip_witness:
  "eachInstruction (concat (map encodeInstruction [(PUSH2, 0x1234), (SIGEMIT, 0), (STOP, 0)]))
     = [(PUSH2, 0x1234), (SIGEMIT, 0), (STOP, 0)]"
  by (rule eachInstruction_roundtrip)
    (simp add: immediate_length_def instructionInfo_eqs)

text \<open>
  C16: for any bytecode, valid or not, the instructions the walk reports, written out again, are
  the bytecode itself, followed by at most 32 zero bytes where it ends inside a PUSH.
\<close>

theorem eachInstruction_covers_code:
  "\<exists>k \<le> 32. concat (map encodeInstruction (eachInstruction bs)) = bs @ replicate k 0"
  by (rule encode_each_padded)

text \<open>
  C17: the mnemonic map and the table of opcode information agree: a name maps to an opcode
  exactly when that opcode is valid and carries this name.
\<close>

theorem mnemonic_table_agree:
  "map_of c_instructions n = Some i \<longleftrightarrow> isValidInstruction i \<and> ii_name (instructionInfo i) = n"
  by (rule mnemonic_iff)

text \<open>
  C18: the stack effects of the numbered opcode groups follow their number, PUSH opcodes are the
  only ones with immediate bytes, and only DUP and SWAP return more than one item.
\<close>

theorem instruction_group_effects:
  assumes "isValidInstruction i"
  shows "ii_additional (instructionInfo i) = (if isPushInstruction i then unat (getPushNumber i) else 0)
    \<and> (isPushInstruction i \<longrightarrow> ii_args (instructionInfo i) = 0 \<and> ii_ret (instructionInfo i) = 1)
    \<and> (isDupInstruction i \<longrightarrow> ii_args (instructionInfo i) = unat (getDupNumber i) \<and>
         ii_ret (instructionInfo i) = unat (getDupNumber i) + 1)
    \<and> (isSwapInstruction i \<longrightarrow> ii_args (instructionInfo i) = unat (getSwapNumber i) + 1 \<and>
         ii_ret (instructionInfo i) = unat (getSwapNumber i) + 1)
    \<and> (isLogInstruction i \<longrightarrow> ii_args (instructionInfo i) = unat (getLogNumber i) + 2 \<and>
         ii_ret (instructionInfo i) = 0)
    \<and> (\<not> isDupInstruction i \<and> \<not> isSwapInstruction i \<longrightarrow> ii_ret (instructionInfo i) \<le> 1)"
  using info_groups [OF assms] info_ret_le_1 [OF assms] by blast

theorem instruction_group_effects_witness:
  "isValidInstruction SWAP3 \<and> ii_args (instructionInfo SWAP3) = unat (getSwapNumber SWAP3) + 1"
proof -
  have v: "isValidInstruction SWAP3" by (simp add: instructionInfo_eqs)
  have "isSwapInstruction SWAP3" by (simp add: isSwapInstruction_def)
  then show ?thesis using v instruction_group_effects [OF v] by blast
qed

end
