(* ===== verification/EVMVersion.thy ===== *)
theory EVMVersion
  imports Instruction
begin

text \<open>
  \<open>liblangutil/EVMVersion.{h,cpp}\<close>: the EVM versions in their order (an instance of the
  library's \<open>linorder\<close>), their names and the opcodes each of them has.
\<close>

datatype evm_version =
    Homestead | TangerineWhistle | SpuriousDragon | Byzantium
  | Constantinople | Petersburg | Istanbul | Berlin

fun version_rank :: "evm_version \<Rightarrow> nat" where
  "version_rank Homestead = 0"
| "version_rank TangerineWhistle = 1"
| "version_rank SpuriousDragon = 2"
| "version_rank Byzantium = 3"
| "version_rank Constantinople = 4"
| "version_rank Petersburg = 5"
| "version_rank Istanbul = 6"
| "version_rank Berlin = 7"

lemma version_rank_inj: "version_rank a = version_rank b \<Longrightarrow> a = b"
  by (cases a; cases b) simp_all

instantiation evm_version :: linorder
begin

definition less_eq_evm_version :: "evm_version \<Rightarrow> evm_version \<Rightarrow> bool" where
  "less_eq_evm_version a b \<longleftrightarrow> version_rank a \<le> version_rank b"

definition less_evm_version :: "evm_version \<Rightarrow> evm_version \<Rightarrow> bool" where
  "less_evm_version a b \<longleftrightarrow> version_rank a < version_rank b"

instance
  by standard (auto simp: less_eq_evm_version_def less_evm_version_def version_rank_inj)

end

fun version_name :: "evm_version \<Rightarrow> string" where
  "version_name Homestead = ''homestead''"
| "version_name TangerineWhistle = ''tangerineWhistle''"
| "version_name SpuriousDragon = ''spuriousDragon''"
| "version_name Byzantium = ''byzantium''"
| "version_name Constantinople = ''constantinople''"
| "version_name Petersburg = ''petersburg''"
| "version_name Istanbul = ''istanbul''"
| "version_name Berlin = ''berlin''"

definition version_fromString :: "string \<Rightarrow> evm_version option" where
  "version_fromString s =
     find (\<lambda>v. s = version_name v)
       [Homestead, TangerineWhistle, SpuriousDragon, Byzantium,
        Constantinople, Petersburg, Istanbul, Berlin]"

definition supportsReturndata :: "evm_version \<Rightarrow> bool" where
  "supportsReturndata v \<longleftrightarrow> Byzantium \<le> v"

definition hasStaticCall :: "evm_version \<Rightarrow> bool" where
  "hasStaticCall v \<longleftrightarrow> Byzantium \<le> v"

definition hasBitwiseShifting :: "evm_version \<Rightarrow> bool" where
  "hasBitwiseShifting v \<longleftrightarrow> Constantinople \<le> v"

definition hasCreate2 :: "evm_version \<Rightarrow> bool" where
  "hasCreate2 v \<longleftrightarrow> Constantinople \<le> v"

definition hasExtCodeHash :: "evm_version \<Rightarrow> bool" where
  "hasExtCodeHash v \<longleftrightarrow> Constantinople \<le> v"

definition hasChainID :: "evm_version \<Rightarrow> bool" where
  "hasChainID v \<longleftrightarrow> Istanbul \<le> v"

definition hasSelfBalance :: "evm_version \<Rightarrow> bool" where
  "hasSelfBalance v \<longleftrightarrow> Istanbul \<le> v"

definition canOverchargeGasForCall :: "evm_version \<Rightarrow> bool" where
  "canOverchargeGasForCall v \<longleftrightarrow> TangerineWhistle \<le> v"

definition hasOpcode :: "evm_version \<Rightarrow> instruction \<Rightarrow> bool" where
  "hasOpcode v opcode =
     (if opcode = RETURNDATACOPY \<or> opcode = RETURNDATASIZE then supportsReturndata v
      else if opcode = STATICCALL then hasStaticCall v
      else if opcode = SHL \<or> opcode = SHR \<or> opcode = SAR then hasBitwiseShifting v
      else if opcode = CREATE2 then hasCreate2 v
      else if opcode = EXTCODEHASH then hasExtCodeHash v
      else if opcode = CHAINID then hasChainID v
      else if opcode = SELFBALANCE then hasSelfBalance v
      else True)"

section \<open>Lemmas\<close>

lemmas version_feature_defs =
  supportsReturndata_def hasStaticCall_def hasBitwiseShifting_def hasCreate2_def
  hasExtCodeHash_def hasChainID_def hasSelfBalance_def canOverchargeGasForCall_def

lemma version_fromString_name: "version_fromString (version_name v) = Some v"
  by (cases v) (simp_all add: version_fromString_def)

lemma version_fromString_Some: "version_fromString s = Some v \<Longrightarrow> version_name v = s"
  unfolding version_fromString_def by (auto simp: find_Some_iff simp del: find.simps)

lemma hasOpcode_mono: "v \<le> w \<Longrightarrow> hasOpcode v i \<Longrightarrow> hasOpcode w i"
  by (auto simp: hasOpcode_def version_feature_defs split: if_splits)

end
