(* ===== verification/AssemblyItem.thy ===== *)
theory AssemblyItem
  imports EVMVersion
begin

text \<open>
  \<open>libevmasm/AssemblyItem.{h,cpp}\<close>: the items an assembly consists of. The fields
  \<open>m_instruction\<close> and \<open>m_data\<close> are both present, as in the class; the accessors
  \<open>instruction\<close> and \<open>data\<close> fail on the wrong item type, as the assertions of the source
  do. Code that has checked the type before reads the field itself.
\<close>

section \<open>Items\<close>

type_synonym size_t = "64 word"

datatype assembly_item_type =
    UndefinedItem
  | Operation
  | Push
  | PushString
  | PushTag
  | PushSub
  | PushSubSize
  | PushProgramSize
  | Tag
  | PushData
  | PushLibraryAddress
  | PushDeployTimeAddress
  | PushImmutable
  | AssignImmutable

datatype jump_type = Ordinary | IntoFunction | OutOfFunction

text \<open>\<open>liblangutil/SourceLocation.h\<close>: an interval of positions in a named source, if any.\<close>

record source_location =
  sl_start :: int
  sl_end :: int
  sl_source :: "string option"

definition noLocation :: source_location where
  "noLocation = \<lparr>sl_start = - 1, sl_end = - 1, sl_source = None\<rparr>"

record assembly_item =
  m_type :: assembly_item_type
  m_instruction :: instruction
  m_data :: u256
  m_location :: source_location
  m_jumpType :: jump_type
  m_pushedValue :: "u256 option"
  m_immutableOccurrences :: "nat option"
  m_modifierDepth :: nat

type_synonym assembly_items = "assembly_item list"

text \<open>
  The constructors. \<open>m_instruction\<close> of an item that is not an operation and \<open>m_data\<close> of an
  operation are never read; they are 0 here.
\<close>

definition mkItem :: "assembly_item_type \<Rightarrow> u256 \<Rightarrow> source_location \<Rightarrow> assembly_item" where
  "mkItem t d loc =
     \<lparr>m_type = t,
      m_instruction = (if t = Operation then ucast d else 0),
      m_data = (if t = Operation then 0 else d),
      m_location = loc, m_jumpType = Ordinary, m_pushedValue = None,
      m_immutableOccurrences = None, m_modifierDepth = 0\<rparr>"

definition mkPush :: "u256 \<Rightarrow> source_location \<Rightarrow> assembly_item" where
  "mkPush d loc = mkItem Push d loc"

definition mkOp :: "instruction \<Rightarrow> source_location \<Rightarrow> assembly_item" where
  "mkOp i loc =
     \<lparr>m_type = Operation, m_instruction = i, m_data = 0,
      m_location = loc, m_jumpType = Ordinary, m_pushedValue = None,
      m_immutableOccurrences = None, m_modifierDepth = 0\<rparr>"

definition item_data :: "assembly_item \<Rightarrow> u256 result" where
  "item_data it = bindR (assertThrow (m_type it \<noteq> Operation) UtilException) (\<lambda>_. Inr (m_data it))"

definition item_instruction :: "assembly_item \<Rightarrow> instruction result" where
  "item_instruction it =
     bindR (assertThrow (m_type it = Operation) UtilException) (\<lambda>_. Inr (m_instruction it))"

definition setData :: "assembly_item \<Rightarrow> u256 \<Rightarrow> assembly_item result" where
  "setData it d =
     bindR (assertThrow (m_type it \<noteq> Operation) UtilException) (\<lambda>_. Inr (it\<lparr>m_data := d\<rparr>))"

definition item_tag :: "assembly_item \<Rightarrow> assembly_item result" where
  "item_tag it =
     bindR (assertThrow (m_type it = PushTag \<or> m_type it = Tag) UtilException)
       (\<lambda>_. Inr (mkItem Tag (m_data it) noLocation))"

definition item_pushTag :: "assembly_item \<Rightarrow> assembly_item result" where
  "item_pushTag it =
     bindR (assertThrow (m_type it = PushTag \<or> m_type it = Tag) UtilException)
       (\<lambda>_. Inr (mkItem PushTag (m_data it) noLocation))"

section \<open>Comparison\<close>

text \<open>\<open>operator==\<close> on two items, \<open>operator==\<close> with an instruction, and \<open>operator<\<close>.\<close>

definition item_eq :: "assembly_item \<Rightarrow> assembly_item \<Rightarrow> bool" where
  "item_eq a b =
     (if m_type a \<noteq> m_type b then False
      else if m_type a = Operation then m_instruction a = m_instruction b
      else m_data a = m_data b)"

definition item_is :: "assembly_item \<Rightarrow> instruction \<Rightarrow> bool" where
  "item_is it i \<longleftrightarrow> m_type it = Operation \<and> m_instruction it = i"

fun type_rank :: "assembly_item_type \<Rightarrow> nat" where
  "type_rank UndefinedItem = 0"
| "type_rank Operation = 1"
| "type_rank Push = 2"
| "type_rank PushString = 3"
| "type_rank PushTag = 4"
| "type_rank PushSub = 5"
| "type_rank PushSubSize = 6"
| "type_rank PushProgramSize = 7"
| "type_rank Tag = 8"
| "type_rank PushData = 9"
| "type_rank PushLibraryAddress = 10"
| "type_rank PushDeployTimeAddress = 11"
| "type_rank PushImmutable = 12"
| "type_rank AssignImmutable = 13"

definition item_less :: "assembly_item \<Rightarrow> assembly_item \<Rightarrow> bool" where
  "item_less a b =
     (if m_type a \<noteq> m_type b then type_rank (m_type a) < type_rank (m_type b)
      else if m_type a = Operation then m_instruction a < m_instruction b
      else m_data a < m_data b)"

section \<open>Tags of sub-assemblies\<close>

definition setPushTagSubIdAndTag :: "assembly_item \<Rightarrow> size_t \<Rightarrow> size_t \<Rightarrow> assembly_item result" where
  "setPushTagSubIdAndTag it subId tag =
     bindR (assertThrow (m_type it = PushTag \<or> m_type it = Tag) UtilException) (\<lambda>_.
       let d = ucast tag :: u256;
           d' = (if subId \<noteq> - 1 then d OR push_bit 64 (ucast subId + 1) else d)
       in setData it d')"

definition splitForeignPushTag :: "assembly_item \<Rightarrow> (size_t \<times> size_t) result" where
  "splitForeignPushTag it =
     bindR (assertThrow (m_type it = PushTag \<or> m_type it = Tag) UtilException) (\<lambda>_.
       let combined = m_data it;
           subId = ucast (drop_bit 64 combined - 1) :: size_t;
           tag = ucast (combined AND 0xffffffffffffffff) :: size_t
       in Inr (subId, tag))"

definition toSubAssemblyTag :: "assembly_item \<Rightarrow> size_t \<Rightarrow> assembly_item result" where
  "toSubAssemblyTag it subId =
     bindR (item_data it) (\<lambda>d.
     bindR (assertThrow (d < push_bit 64 1) UtilException) (\<lambda>_.
     bindR (assertThrow (m_type it = PushTag \<or> m_type it = Tag) UtilException) (\<lambda>_.
       let tag = ucast (d AND 0xffffffffffffffff) :: size_t
       in setPushTagSubIdAndTag (it\<lparr>m_type := PushTag\<rparr>) subId tag)))"

section \<open>Sizes and stack effects\<close>

definition item_bytesRequired :: "assembly_item \<Rightarrow> nat \<Rightarrow> nat result" where
  "item_bytesRequired it addressLength =
     (case m_type it of
        Operation \<Rightarrow> Inr 1
      | Tag \<Rightarrow> Inr 1
      | PushString \<Rightarrow> Inr (1 + 32)
      | Push \<Rightarrow> Inr (1 + max 1 (bytesRequired (m_data it)))
      | PushSubSize \<Rightarrow> Inr (1 + 4)
      | PushProgramSize \<Rightarrow> Inr (1 + 4)
      | PushTag \<Rightarrow> Inr (1 + addressLength)
      | PushData \<Rightarrow> Inr (1 + addressLength)
      | PushSub \<Rightarrow> Inr (1 + addressLength)
      | PushLibraryAddress \<Rightarrow> Inr (1 + 20)
      | PushDeployTimeAddress \<Rightarrow> Inr (1 + 20)
      | PushImmutable \<Rightarrow> Inr (1 + 32)
      | AssignImmutable \<Rightarrow>
          (case m_immutableOccurrences it of
             Some n \<Rightarrow> Inr (1 + (3 + 32) * n)
           | None \<Rightarrow> Inr (1 + (3 + 32) * 1024))
      | UndefinedItem \<Rightarrow> Inl InvalidOpcode)"

fun items_bytesRequired_loop :: "nat \<Rightarrow> assembly_items \<Rightarrow> nat \<Rightarrow> nat result" where
  "items_bytesRequired_loop addressLength [] sz = Inr sz"
| "items_bytesRequired_loop addressLength (it # its) sz =
     bindR (item_bytesRequired it addressLength)
       (\<lambda>n. items_bytesRequired_loop addressLength its (sz + n))"

definition items_bytesRequired :: "assembly_items \<Rightarrow> nat \<Rightarrow> nat result" where
  "items_bytesRequired its addressLength = items_bytesRequired_loop addressLength its 0"

definition item_arguments :: "assembly_item \<Rightarrow> nat" where
  "item_arguments it =
     (if m_type it = Operation then ii_args (instructionInfo (m_instruction it))
      else if m_type it = AssignImmutable then 1
      else 0)"

definition item_returnValues :: "assembly_item \<Rightarrow> nat" where
  "item_returnValues it =
     (case m_type it of
        Operation \<Rightarrow> ii_ret (instructionInfo (m_instruction it))
      | Push \<Rightarrow> 1
      | PushString \<Rightarrow> 1
      | PushTag \<Rightarrow> 1
      | PushData \<Rightarrow> 1
      | PushSub \<Rightarrow> 1
      | PushSubSize \<Rightarrow> 1
      | PushProgramSize \<Rightarrow> 1
      | PushLibraryAddress \<Rightarrow> 1
      | PushImmutable \<Rightarrow> 1
      | PushDeployTimeAddress \<Rightarrow> 1
      | Tag \<Rightarrow> 0
      | _ \<Rightarrow> 0)"

text \<open>
  \<open>deposit\<close> is a \<open>size_t\<close> that wraps below zero; every caller converts it to a signed number or
  adds it to a \<open>size_t\<close>, so it is the signed difference here.
\<close>

definition item_deposit :: "assembly_item \<Rightarrow> int" where
  "item_deposit it = int (item_returnValues it) - int (item_arguments it)"

definition canBeFunctional :: "assembly_item \<Rightarrow> bool" where
  "canBeFunctional it =
     (if m_jumpType it \<noteq> Ordinary then False
      else case m_type it of
        Operation \<Rightarrow>
          \<not> isDupInstruction (m_instruction it) \<and> \<not> isSwapInstruction (m_instruction it)
      | Push \<Rightarrow> True
      | PushString \<Rightarrow> True
      | PushTag \<Rightarrow> True
      | PushData \<Rightarrow> True
      | PushSub \<Rightarrow> True
      | PushSubSize \<Rightarrow> True
      | PushProgramSize \<Rightarrow> True
      | PushLibraryAddress \<Rightarrow> True
      | PushDeployTimeAddress \<Rightarrow> True
      | PushImmutable \<Rightarrow> True
      | Tag \<Rightarrow> False
      | _ \<Rightarrow> False)"

fun getJumpTypeAsString :: "jump_type \<Rightarrow> string" where
  "getJumpTypeAsString IntoFunction = ''[in]''"
| "getJumpTypeAsString OutOfFunction = ''[out]''"
| "getJumpTypeAsString Ordinary = ''''"

section \<open>Lemmas\<close>

lemma bytesRequired_defined:
  "\<forall>it \<in> set items. m_type it \<noteq> UndefinedItem \<Longrightarrow> \<exists>n. items_bytesRequired_loop k items sz = Inr n"
proof (induction items arbitrary: sz)
  case (Cons it items)
  then have "\<exists>n. item_bytesRequired it k = Inr n"
    by (auto simp: item_bytesRequired_def split: assembly_item_type.splits option.splits)
  with Cons show ?case by auto
qed simp

end
