(* ===== verification/SemanticInformation.thy ===== *)
theory SemanticInformation
  imports AssemblyItem
begin

text \<open>
  \<open>libevmasm/SemanticInformation.cpp\<close>: the context-independent classification of items and
  opcodes that the optimiser passes rely on. A \<open>switch\<close> over opcodes is membership in the
  list of its case labels.
\<close>

definition breaksCSEAnalysisBlock :: "assembly_item \<Rightarrow> bool \<Rightarrow> bool" where
  "breaksCSEAnalysisBlock it msizeImportant =
     (case m_type it of
        UndefinedItem \<Rightarrow> True
      | Tag \<Rightarrow> True
      | PushDeployTimeAddress \<Rightarrow> True
      | AssignImmutable \<Rightarrow> True
      | Push \<Rightarrow> False
      | PushString \<Rightarrow> False
      | PushTag \<Rightarrow> False
      | PushSub \<Rightarrow> False
      | PushSubSize \<Rightarrow> False
      | PushProgramSize \<Rightarrow> False
      | PushData \<Rightarrow> False
      | PushLibraryAddress \<Rightarrow> False
      | PushImmutable \<Rightarrow> False
      | Operation \<Rightarrow>
          (let instr = m_instruction it in
           if isSwapInstruction instr \<or> isDupInstruction instr then False
           else if instr = GAS \<or> instr = PC then True
           else if instr = MSIZE then True
           else
             let row = instructionInfo instr in
             if instr = SSTORE then False
             else if instr = MSTORE then False
             else if \<not> msizeImportant \<and> (instr = MLOAD \<or> instr = KECCAK256) then False
             else ii_sideEffects row \<or> ii_args row > 2))"

definition isCommutativeOperation :: "assembly_item \<Rightarrow> bool" where
  "isCommutativeOperation it =
     (if m_type it \<noteq> Operation then False
      else m_instruction it \<in> set [ADD, MUL, EQ, AND', OR', XOR'])"

definition item_isDup :: "assembly_item \<Rightarrow> bool" where
  "item_isDup it = (if m_type it \<noteq> Operation then False else isDupInstruction (m_instruction it))"

definition item_isSwap :: "assembly_item \<Rightarrow> bool" where
  "item_isSwap it = (if m_type it \<noteq> Operation then False else isSwapInstruction (m_instruction it))"

definition isJumpInstruction :: "assembly_item \<Rightarrow> bool" where
  "isJumpInstruction it \<longleftrightarrow> item_is it JUMP \<or> item_is it JUMPI"

definition altersControlFlow :: "assembly_item \<Rightarrow> bool" where
  "altersControlFlow it =
     (if m_type it \<noteq> Operation then False
      else m_instruction it \<in> set [JUMP, JUMPI, RETURN, SELFDESTRUCT, STOP, INVALID, REVERT])"

definition instr_terminatesControlFlow :: "instruction \<Rightarrow> bool" where
  "instr_terminatesControlFlow i \<longleftrightarrow> i \<in> set [RETURN, SELFDESTRUCT, STOP, INVALID, REVERT]"

definition terminatesControlFlow :: "assembly_item \<Rightarrow> bool" where
  "terminatesControlFlow it =
     (if m_type it \<noteq> Operation then False else instr_terminatesControlFlow (m_instruction it))"

definition instr_reverts :: "instruction \<Rightarrow> bool" where
  "instr_reverts i \<longleftrightarrow> i \<in> set [INVALID, REVERT]"

definition item_reverts :: "assembly_item \<Rightarrow> bool" where
  "item_reverts it = (if m_type it \<noteq> Operation then False else instr_reverts (m_instruction it))"

definition isDeterministic :: "assembly_item \<Rightarrow> bool" where
  "isDeterministic it =
     (if m_type it \<noteq> Operation then True
      else m_instruction it \<notin> set
        [CALL, CALLCODE, DELEGATECALL, STATICCALL, CREATE, CREATE2, GAS, PC, MSIZE, BALANCE,
         SELFBALANCE, EXTCODESIZE, EXTCODEHASH, RETURNDATACOPY, RETURNDATASIZE])"

definition movable :: "instruction \<Rightarrow> bool" where
  "movable i =
     (if isDupInstruction i \<or> isSwapInstruction i then False
      else if ii_sideEffects (instructionInfo i) then False
      else if i \<in> set [KECCAK256, BALANCE, SELFBALANCE, EXTCODESIZE, EXTCODEHASH, RETURNDATASIZE,
                       SLOAD, PC, MSIZE, GAS] then False
      else True)"

definition sideEffectFree :: "instruction \<Rightarrow> bool result" where
  "sideEffectFree i =
     bindR (assertThrow (\<not> isDupInstruction i \<and> \<not> isSwapInstruction i) AssemblyException)
       (\<lambda>_. Inr (\<not> ii_sideEffects (instructionInfo i)))"

definition sideEffectFreeIfNoMSize :: "instruction \<Rightarrow> bool result" where
  "sideEffectFreeIfNoMSize i =
     (if i = KECCAK256 \<or> i = MLOAD then Inr True else sideEffectFree i)"

definition invalidatesMemory :: "instruction \<Rightarrow> bool" where
  "invalidatesMemory i \<longleftrightarrow> i \<in> set
     [CALLDATACOPY, CODECOPY, EXTCODECOPY, RETURNDATACOPY, MSTORE, MSTORE8, CALL, CALLCODE,
      DELEGATECALL, STATICCALL]"

definition invalidatesStorage :: "instruction \<Rightarrow> bool" where
  "invalidatesStorage i \<longleftrightarrow> i \<in> set [CALL, CALLCODE, DELEGATECALL, CREATE, CREATE2, SSTORE]"

definition invalidInViewFunctions :: "instruction \<Rightarrow> bool" where
  "invalidInViewFunctions i \<longleftrightarrow> i \<in> set
     [SSTORE, JUMP, JUMPI, LOG0, LOG1, LOG2, LOG3, LOG4, CREATE, CALL, CALLCODE, DELEGATECALL,
      CREATE2, SELFDESTRUCT]"

definition invalidInPureFunctions :: "instruction \<Rightarrow> bool" where
  "invalidInPureFunctions i =
     (if i \<in> set [ADDRESS, SELFBALANCE, BALANCE, ORIGIN, CALLER, CALLVALUE, GAS, GASPRICE,
                  EXTCODESIZE, EXTCODECOPY, EXTCODEHASH, BLOCKHASH, COINBASE, TIMESTAMP, NUMBER,
                  DIFFICULTY, GASLIMIT, STATICCALL, SLOAD] then True
      else invalidInViewFunctions i)"

end
