(* ===== verification/EVMInterpreter.thy ===== *)
theory EVMInterpreter
  imports SemanticInformation
begin

text \<open>
  \<open>test/tools/yulInterpreter/EVMInstructionInterpreter.cpp\<close>: what each opcode computes and
  what it does to memory, storage and the trace. It is the repository's own executable
  semantics of the opcodes, and the semantics every optimisation of this development is
  proved against. The one \<open>switch\<close> of \<open>eval\<close> is split along its own headings. The hash
  function is the parameter \<open>keccak\<close>.
\<close>

section \<open>State\<close>

datatype interpreter_exc = ExplicitlyTerminated | TraceLimitReached | YulAssertionFailed

record interpreter_state =
  calldata :: bytes
  returndata :: bytes
  memory :: "u256 \<Rightarrow> byte"
  msize :: u256
  storage :: "u256 \<Rightarrow> u256"
  address :: "160 word"
  balance :: u256
  selfbalance :: u256
  origin :: "160 word"
  caller :: "160 word"
  callvalue :: u256
  evmcode :: bytes
  gasprice :: u256
  coinbase :: "160 word"
  timestamp :: u256
  blockNumber :: u256
  difficulty :: u256
  gaslimit :: u256
  chainid :: u256
  trace :: "string list"
  maxTraceSize :: nat

text \<open>The result of an operation: a value or an exception, and the state it leaves.\<close>

type_synonym 'a interpreted = "(interpreter_exc + 'a) \<times> interpreter_state"

section \<open>Memory\<close>

definition readZeroExtended :: "bytes \<Rightarrow> u256 \<Rightarrow> u256" where
  "readZeroExtended d offset =
     (if unat offset \<ge> length d then 0
      else if unat offset + 32 \<le> length d then fromBigEndian (take 32 (drop (unat offset) d))
      else
        let off = unat offset in
        foldl (\<lambda>val i. let val' = push_bit 8 val
                       in if off + i < length d then val' + ucast (d ! (off + i)) else val')
          0 [0..<32])"

definition copyZeroExtended ::
  "(u256 \<Rightarrow> byte) \<Rightarrow> bytes \<Rightarrow> size_t \<Rightarrow> size_t \<Rightarrow> size_t \<Rightarrow> (u256 \<Rightarrow> byte)" where
  "copyZeroExtended target source targetOffset sourceOffset sz =
     foldl (\<lambda>t i. t(ucast (targetOffset + of_nat i) :=
              (if unat (sourceOffset + of_nat i) < length source
               then source ! unat (sourceOffset + of_nat i) else 0)))
       target [0..<unat sz]"

definition accessMemory :: "u256 \<Rightarrow> u256 \<Rightarrow> interpreter_state \<Rightarrow> bool \<times> interpreter_state" where
  "accessMemory offset sz s =
     (if offset + sz \<ge> offset \<and> offset + sz + 0x1f \<ge> offset + sz
      then
        let newSize = (offset + sz + 0x1f) AND NOT 0x1f
        in (sz \<le> 0xffff, s\<lparr>msize := max (msize s) newSize\<rparr>)
      else (False, s\<lparr>msize := - 1\<rparr>))"

definition readMemory :: "u256 \<Rightarrow> u256 \<Rightarrow> interpreter_state \<Rightarrow> interpreter_exc + bytes" where
  "readMemory offset sz s =
     (if sz \<le> 0xffff
      then Inr (map (\<lambda>i. memory s (offset + of_nat i)) [0..<unat sz])
      else Inl YulAssertionFailed)"

definition readMemoryWord :: "u256 \<Rightarrow> interpreter_state \<Rightarrow> u256" where
  "readMemoryWord offset s =
     (case readMemory offset 32 s of Inr bs \<Rightarrow> fromBigEndian bs | Inl _ \<Rightarrow> 0)"

definition writeMemoryWord :: "u256 \<Rightarrow> u256 \<Rightarrow> interpreter_state \<Rightarrow> interpreter_state" where
  "writeMemoryWord offset val s =
     s\<lparr>memory := foldl (\<lambda>m i. m(offset + of_nat i := ucast (drop_bit (8 * (31 - i)) val AND 0xff)))
                  (memory s) [0..<32]\<rparr>"

section \<open>The trace\<close>

fun joinArguments :: "u256 list \<Rightarrow> bool \<Rightarrow> string" where
  "joinArguments [] notFirst = []"
| "joinArguments (a # as) notFirst =
     (if notFirst then '', '' else []) @ formatNumber a @ joinArguments as True"

definition logTrace ::
  "instruction \<Rightarrow> u256 list \<Rightarrow> bytes \<Rightarrow> interpreter_state \<Rightarrow> unit interpreted" where
  "logTrace instr arguments d s =
     (let message = ii_name (instructionInfo instr) @ ''('' @ joinArguments arguments False @ '')'' @
            (if d \<noteq> [] then '' ['' @ toHex d DontAdd Lower @ '']'' else []);
          s1 = s\<lparr>trace := trace s @ [message]\<rparr>
      in if maxTraceSize s1 > 0 \<and> length (trace s1) \<ge> maxTraceSize s1
         then (Inl TraceLimitReached, s1\<lparr>trace := trace s1 @ [''Trace size limit reached.'']\<rparr>)
         else (Inr (), s1))"

definition thenReturn :: "unit interpreted \<Rightarrow> 'a \<Rightarrow> 'a interpreted" where
  "thenReturn r v = (case r of (Inl e, s) \<Rightarrow> (Inl e, s) | (Inr _, s) \<Rightarrow> (Inr v, s))"

definition thenThrow :: "unit interpreted \<Rightarrow> interpreter_exc \<Rightarrow> 'a interpreted" where
  "thenThrow r e = (case r of (Inl e', s) \<Rightarrow> (Inl e', s) | (Inr _, s) \<Rightarrow> (Inl e, s))"

section \<open>Opcodes\<close>

definition truth :: "bool \<Rightarrow> u256" where
  "truth b = (if b then 1 else 0)"

text \<open>Signals: the interpreter gives every signal opcode the value 0.\<close>

definition eval_signals :: "instruction \<Rightarrow> u256 option" where
  "eval_signals i =
     (if i \<in> set [CREATESIGNAL, SIGDETACH, SIGBIND, SIGEMIT, DELETESIGNAL] then Some 0 else None)"

text \<open>Arithmetic, comparison, bitwise operations.\<close>

definition eval_arithmetic :: "instruction \<Rightarrow> u256 list \<Rightarrow> u256 option" where
  "eval_arithmetic i arg =
     (if i = ADD then Some (arg ! 0 + arg ! 1)
      else if i = MUL then Some (arg ! 0 * arg ! 1)
      else if i = SUB then Some (arg ! 0 - arg ! 1)
      else if i = DIV then Some (if arg ! 1 = 0 then 0 else arg ! 0 div arg ! 1)
      else if i = SDIV then
        Some (if arg ! 1 = 0 then 0 else s2u (u2s (arg ! 0) sdiv u2s (arg ! 1)))
      else if i = MOD then Some (if arg ! 1 = 0 then 0 else arg ! 0 mod arg ! 1)
      else if i = SMOD then
        Some (if arg ! 1 = 0 then 0 else s2u (u2s (arg ! 0) smod u2s (arg ! 1)))
      else if i = EXP then Some (exp256 (arg ! 0) (arg ! 1))
      else if i = NOT' then Some (NOT (arg ! 0))
      else if i = LT then Some (truth (arg ! 0 < arg ! 1))
      else if i = GT then Some (truth (arg ! 0 > arg ! 1))
      else if i = SLT then Some (truth (u2s (arg ! 0) < u2s (arg ! 1)))
      else if i = SGT then Some (truth (u2s (arg ! 0) > u2s (arg ! 1)))
      else if i = EQ then Some (truth (arg ! 0 = arg ! 1))
      else if i = ISZERO then Some (truth (arg ! 0 = 0))
      else if i = AND' then Some (arg ! 0 AND arg ! 1)
      else if i = OR' then Some (arg ! 0 OR arg ! 1)
      else if i = XOR' then Some (arg ! 0 XOR arg ! 1)
      else if i = BYTE then
        Some (if arg ! 0 \<ge> 32 then 0
              else drop_bit (unat (8 * (31 - arg ! 0))) (arg ! 1) AND 0xff)
      else if i = SHL then
        Some (if arg ! 0 > 255 then 0 else push_bit (unat (arg ! 0)) (arg ! 1))
      else if i = SHR then
        Some (if arg ! 0 > 255 then 0 else drop_bit (unat (arg ! 0)) (arg ! 1))
      else if i = SAR then
        (let hibit = push_bit 255 1 :: u256 in
         if arg ! 0 \<ge> 256 then Some (if arg ! 1 AND hibit \<noteq> 0 then - 1 else 0)
         else
           let amount = unat (arg ! 0);
               v = drop_bit amount (arg ! 1)
           in Some (if arg ! 1 AND hibit \<noteq> 0 then v OR push_bit (256 - amount) (- 1) else v))
      else if i = ADDMOD then
        Some (if arg ! 2 = 0 then 0
              else word_of_int ((uint (arg ! 0) + uint (arg ! 1)) mod uint (arg ! 2)))
      else if i = MULMOD then
        Some (if arg ! 2 = 0 then 0
              else word_of_int ((uint (arg ! 0) * uint (arg ! 1)) mod uint (arg ! 2)))
      else if i = SIGNEXTEND then
        (if arg ! 0 \<ge> 31 then Some (arg ! 1)
         else
           let testBit = unat (arg ! 0) * 8 + 7;
               mask = push_bit testBit 1 - 1 :: u256
           in Some (if bit (arg ! 1) testBit then arg ! 1 OR NOT mask else arg ! 1 AND mask))
      else None)"

text \<open>Blockchain state.\<close>

definition eval_blockchain ::
  "(bytes \<Rightarrow> u256) \<Rightarrow> instruction \<Rightarrow> u256 list \<Rightarrow> interpreter_state \<Rightarrow> u256 interpreted option" where
  "eval_blockchain keccak i arg s =
     (if i = KECCAK256 then
        Some (case accessMemory (arg ! 0) (arg ! 1) s of
                (False, s1) \<Rightarrow> (Inr (0x1234cafe1234cafe1234cafe + arg ! 0), s1)
              | (True, s1) \<Rightarrow>
                  (case readMemory (arg ! 0 AND 0xffffffffffffffff) (arg ! 1 AND 0xffffffffffffffff) s1 of
                     Inl e \<Rightarrow> (Inl e, s1)
                   | Inr bs \<Rightarrow> (Inr (keccak bs), s1)))
      else if i = ADDRESS then Some (Inr (ucast (address s)), s)
      else if i = BALANCE then
        Some (Inr (if arg ! 0 = ucast (address s) then selfbalance s else balance s), s)
      else if i = SELFBALANCE then Some (Inr (selfbalance s), s)
      else if i = ORIGIN then Some (Inr (ucast (origin s)), s)
      else if i = CALLER then Some (Inr (ucast (caller s)), s)
      else if i = CALLVALUE then Some (Inr (callvalue s), s)
      else if i = CALLDATALOAD then Some (Inr (readZeroExtended (calldata s) (arg ! 0)), s)
      else if i = CALLDATASIZE then Some (Inr (of_nat (length (calldata s))), s)
      else if i = CALLDATACOPY then
        Some (case accessMemory (arg ! 0) (arg ! 2) s of (ok, s1) \<Rightarrow>
          (Inr 0, if ok then s1\<lparr>memory := copyZeroExtended (memory s1) (calldata s1)
                                 (ucast (arg ! 0)) (ucast (arg ! 1)) (ucast (arg ! 2))\<rparr> else s1))
      else if i = CODESIZE then Some (Inr (of_nat (length (evmcode s))), s)
      else if i = CODECOPY then
        Some (case accessMemory (arg ! 0) (arg ! 2) s of (ok, s1) \<Rightarrow>
          (Inr 0, if ok then s1\<lparr>memory := copyZeroExtended (memory s1) (evmcode s1)
                                 (ucast (arg ! 0)) (ucast (arg ! 1)) (ucast (arg ! 2))\<rparr> else s1))
      else if i = GASPRICE then Some (Inr (gasprice s), s)
      else if i = CHAINID then Some (Inr (chainid s), s)
      else if i = EXTCODESIZE then Some (Inr (keccak (toBigEndian (arg ! 0)) AND 0xffffff), s)
      else if i = EXTCODEHASH then Some (Inr (keccak (toBigEndian (arg ! 0 + 1))), s)
      else if i = EXTCODECOPY then
        Some (case logTrace i arg [] s of
            (Inl e, s0) \<Rightarrow> (Inl e, s0)
          | (Inr _, s0) \<Rightarrow>
              (case accessMemory (arg ! 1) (arg ! 3) s0 of (ok, s1) \<Rightarrow>
                (Inr 0, if ok then s1\<lparr>memory := copyZeroExtended (memory s1) (evmcode s1)
                                       (ucast (arg ! 1)) (ucast (arg ! 2)) (ucast (arg ! 3))\<rparr> else s1)))
      else if i = RETURNDATASIZE then Some (Inr (of_nat (length (returndata s))), s)
      else if i = RETURNDATACOPY then
        Some (case logTrace i arg [] s of
            (Inl e, s0) \<Rightarrow> (Inl e, s0)
          | (Inr _, s0) \<Rightarrow>
              (case accessMemory (arg ! 0) (arg ! 2) s0 of (ok, s1) \<Rightarrow>
                (Inr 0, if ok then s1\<lparr>memory := copyZeroExtended (memory s1) (returndata s1)
                                       (ucast (arg ! 0)) (ucast (arg ! 1)) (ucast (arg ! 2))\<rparr> else s1)))
      else if i = BLOCKHASH then
        Some (Inr (if arg ! 0 \<ge> blockNumber s \<or> arg ! 0 + 256 < blockNumber s then 0
                   else 0xaaaaaaaa + (arg ! 0 - blockNumber s - 256)), s)
      else if i = COINBASE then Some (Inr (ucast (coinbase s)), s)
      else if i = TIMESTAMP then Some (Inr (timestamp s), s)
      else if i = NUMBER then Some (Inr (blockNumber s), s)
      else if i = DIFFICULTY then Some (Inr (difficulty s), s)
      else if i = GASLIMIT then Some (Inr (gaslimit s), s)
      else None)"

text \<open>Memory, storage and logs.\<close>

definition eval_memory ::
  "instruction \<Rightarrow> u256 list \<Rightarrow> interpreter_state \<Rightarrow> u256 interpreted option" where
  "eval_memory i arg s =
     (if i = MLOAD then
        (let s1 = snd (accessMemory (arg ! 0) 0x20 s) in Some (Inr (readMemoryWord (arg ! 0) s1), s1))
      else if i = MSTORE then
        (let s1 = snd (accessMemory (arg ! 0) 0x20 s)
         in Some (Inr 0, writeMemoryWord (arg ! 0) (arg ! 1) s1))
      else if i = MSTORE8 then
        (let s1 = snd (accessMemory (arg ! 0) 1 s)
         in Some (Inr 0, s1\<lparr>memory := (memory s1)(arg ! 0 := ucast (arg ! 1 AND 0xff))\<rparr>))
      else if i = SLOAD then Some (Inr (storage s (arg ! 0)), s)
      else if i = SSTORE then
        Some (Inr 0, s\<lparr>storage := (storage s)(arg ! 0 := arg ! 1)\<rparr>)
      else if i = PC then Some (Inr 0x77, s)
      else if i = MSIZE then Some (Inr (msize s), s)
      else if i = GAS then Some (Inr 0x99, s)
      else if i \<in> set [LOG0, LOG1, LOG2, LOG3, LOG4] then
        (let s1 = snd (accessMemory (arg ! 0) (arg ! 1) s)
         in Some (thenReturn (logTrace i arg [] s1) 0))
      else None)"

text \<open>Calls and the opcodes that end the execution.\<close>

definition eval_calls ::
  "instruction \<Rightarrow> u256 list \<Rightarrow> interpreter_state \<Rightarrow> u256 interpreted option" where
  "eval_calls i arg s =
     (if i = STOP then Some (Inl ExplicitlyTerminated, s)
      else if i = CREATE then
        (let s1 = snd (accessMemory (arg ! 1) (arg ! 2) s)
         in Some (thenReturn (logTrace i arg [] s1) (ucast (ucast (0xcccccc + arg ! 1) :: 160 word))))
      else if i = CREATE2 then
        (let s1 = snd (accessMemory (arg ! 2) (arg ! 3) s)
         in Some (thenReturn (logTrace i arg [] s1) (ucast (ucast (0xdddddd + arg ! 1) :: 160 word))))
      else if i = CALL \<or> i = CALLCODE then
        (let s1 = snd (accessMemory (arg ! 3) (arg ! 4) s);
             s2 = snd (accessMemory (arg ! 5) (arg ! 6) s1)
         in Some (thenReturn (logTrace i arg [] s2) (arg ! 0 AND 1)))
      else if i = DELEGATECALL \<or> i = STATICCALL then
        (let s1 = snd (accessMemory (arg ! 2) (arg ! 3) s);
             s2 = snd (accessMemory (arg ! 4) (arg ! 5) s1)
         in Some (thenReturn (logTrace i arg [] s2) 0))
      else if i = RETURN then
        (case accessMemory (arg ! 0) (arg ! 1) s of (ok, s1) \<Rightarrow>
          (case (if ok then readMemory (arg ! 0) (arg ! 1) s1 else Inr []) of
             Inl e \<Rightarrow> Some (Inl e, s1)
           | Inr d \<Rightarrow> Some (thenThrow (logTrace i arg d s1) ExplicitlyTerminated)))
      else if i = REVERT then
        (let s1 = snd (accessMemory (arg ! 0) (arg ! 1) s)
         in Some (thenThrow (logTrace i arg [] s1) ExplicitlyTerminated))
      else if i = INVALID then Some (thenThrow (logTrace i [] [] s) ExplicitlyTerminated)
      else if i = SELFDESTRUCT then Some (thenThrow (logTrace i arg [] s) ExplicitlyTerminated)
      else if i = POP then Some (Inr 0, s)
      else None)"

text \<open>
  \<open>eval\<close>: the argument count is asserted first; JUMP, JUMPDEST, PUSH, DUP, SWAP and the EIP-615
  opcodes fail an assertion; a byte that is no opcode falls through to the final \<open>return 0\<close>.
\<close>

definition notInStrictAssembly :: "instruction \<Rightarrow> bool" where
  "notInStrictAssembly i \<longleftrightarrow>
     i \<in> set [JUMP, JUMPI, JUMPDEST] \<or> isPushInstruction i \<or> isDupInstruction i \<or>
     isSwapInstruction i \<or> (EIP615_JUMPTO \<le> i \<and> i \<le> EIP615_GETLOCAL)"

definition eval ::
  "(bytes \<Rightarrow> u256) \<Rightarrow> instruction \<Rightarrow> u256 list \<Rightarrow> interpreter_state \<Rightarrow> u256 interpreted" where
  "eval keccak i arg s =
     (if ii_args (instructionInfo i) \<noteq> length arg then (Inl YulAssertionFailed, s)
      else case eval_signals i of Some v \<Rightarrow> (Inr v, s)
      | None \<Rightarrow> (case eval_arithmetic i arg of Some v \<Rightarrow> (Inr v, s)
      | None \<Rightarrow> (case eval_blockchain keccak i arg s of Some r \<Rightarrow> r
      | None \<Rightarrow> (case eval_memory i arg s of Some r \<Rightarrow> r
      | None \<Rightarrow> (case eval_calls i arg s of Some r \<Rightarrow> r
      | None \<Rightarrow> if notInStrictAssembly i then (Inl YulAssertionFailed, s) else (Inr 0, s))))))"

section \<open>Values of the opcodes\<close>

lemma eval_arithmetic_simps:
  "eval_arithmetic ADD [x, y] = Some (x + y)"
  "eval_arithmetic MUL [x, y] = Some (x * y)"
  "eval_arithmetic SUB [x, y] = Some (x - y)"
  "eval_arithmetic DIV [x, y] = Some (if y = 0 then 0 else x div y)"
  "eval_arithmetic SDIV [x, y] = Some (if y = 0 then 0 else s2u (u2s x sdiv u2s y))"
  "eval_arithmetic MOD [x, y] = Some (if y = 0 then 0 else x mod y)"
  "eval_arithmetic SMOD [x, y] = Some (if y = 0 then 0 else s2u (u2s x smod u2s y))"
  "eval_arithmetic EXP [x, y] = Some (exp256 x y)"
  "eval_arithmetic NOT' [x] = Some (NOT x)"
  "eval_arithmetic LT [x, y] = Some (truth (x < y))"
  "eval_arithmetic GT [x, y] = Some (truth (x > y))"
  "eval_arithmetic SLT [x, y] = Some (truth (u2s x < u2s y))"
  "eval_arithmetic SGT [x, y] = Some (truth (u2s x > u2s y))"
  "eval_arithmetic EQ [x, y] = Some (truth (x = y))"
  "eval_arithmetic ISZERO [x] = Some (truth (x = 0))"
  "eval_arithmetic AND' [x, y] = Some (x AND y)"
  "eval_arithmetic OR' [x, y] = Some (x OR y)"
  "eval_arithmetic XOR' [x, y] = Some (x XOR y)"
  "eval_arithmetic BYTE [x, y] =
     Some (if x \<ge> 32 then 0 else drop_bit (unat (8 * (31 - x))) y AND 0xff)"
  "eval_arithmetic SHL [x, y] = Some (if x > 255 then 0 else push_bit (unat x) y)"
  "eval_arithmetic SHR [x, y] = Some (if x > 255 then 0 else drop_bit (unat x) y)"
  by (simp_all add: eval_arithmetic_def)

lemma eval_arithmetic_ternary:
  "eval_arithmetic ADDMOD [x, y, z] =
     Some (if z = 0 then 0 else word_of_int ((uint x + uint y) mod uint z))"
  "eval_arithmetic MULMOD [x, y, z] =
     Some (if z = 0 then 0 else word_of_int ((uint x * uint y) mod uint z))"
  by (simp_all add: eval_arithmetic_def)

lemma eval_arithmetic_SIGNEXTEND:
  "eval_arithmetic SIGNEXTEND [x, y] = Some
     (if x \<ge> 31 then y
      else
        let testBit = unat x * 8 + 7; mask = push_bit testBit 1 - 1 :: u256
        in if bit y testBit then y OR NOT mask else y AND mask)"
  by (simp add: eval_arithmetic_def Let_def)

lemma eval_of_arithmetic:
  assumes "eval_arithmetic i args = Some v" "length args = ii_args (instructionInfo i)"
  shows "eval keccak i args s = (Inr v, s)"
proof -
  have "eval_signals i = None"
    using assms(1) by (auto simp: eval_signals_def eval_arithmetic_def)
  then show ?thesis using assms by (simp add: eval_def)
qed

lemma eval_environment:
  "eval keccak ADDRESS [] s = (Inr (ucast (address s)), s)"
  "eval keccak ORIGIN [] s = (Inr (ucast (origin s)), s)"
  "eval keccak CALLER [] s = (Inr (ucast (caller s)), s)"
  "eval keccak COINBASE [] s = (Inr (ucast (coinbase s)), s)"
  "eval keccak SELFBALANCE [] s = (Inr (selfbalance s), s)"
  "eval keccak BALANCE [x] s =
     (Inr (if x = ucast (address s) then selfbalance s else balance s), s)"
  by (simp_all add: eval_def eval_signals_def eval_arithmetic_def eval_blockchain_def
      instructionInfo_eqs)

end
