(* ===== verification/Pattern.thy ===== *)
theory Pattern
  imports EVMInterpreter
begin

text \<open>
  The \<open>Pattern\<close> class of \<open>libevmasm/SimplificationRules.h\<close>, the \<open>SimplificationRule\<close>
  structure of \<open>libevmasm/SimplificationRule.h\<close>, and the value of a pattern: what the expression
  built from it evaluates to, given the values of the match groups and of the opcodes. The
  interface \<open>opcode_values\<close> says which opcode values the simplification rules rely on; the
  instruction interpreter provides it.
\<close>

section \<open>Patterns and rules\<close>

datatype pattern = Pattern
  (p_type: assembly_item_type)
  (p_requireDataMatch: bool)
  (p_instruction: instruction)
  (p_data: "u256 option")
  (p_arguments: "pattern list")
  (p_matchGroup: nat)

text \<open>
  The three constructors: a specific constant, an item type (\<open>UndefinedItem\<close> for anything), an
  instruction with arguments.
\<close>

definition lit :: "u256 \<Rightarrow> pattern" where
  "lit v = Pattern Push True STOP (Some v) [] 0"

definition any_of :: "assembly_item_type \<Rightarrow> pattern" where
  "any_of t = Pattern t False STOP None [] 0"

definition inst :: "instruction \<Rightarrow> pattern list \<Rightarrow> pattern" where
  "inst i args = Pattern Operation False i None args 0"

definition setMatchGroup :: "pattern \<Rightarrow> nat \<Rightarrow> pattern" where
  "setMatchGroup p g =
     Pattern (p_type p) (p_requireDataMatch p) (p_instruction p) (p_data p) (p_arguments p) g"

text \<open>
  The action and the feasibility test of a rule are closures that read the constants matched by
  the placeholders, \<open>A.d()\<close>; here they take the function \<open>d\<close> that gives them.
\<close>

record simplification_rule =
  sr_pattern :: pattern
  sr_action :: "(pattern \<Rightarrow> u256) \<Rightarrow> pattern"
  sr_removesNonConstants :: bool
  sr_feasible :: "((pattern \<Rightarrow> u256) \<Rightarrow> bool) option"

definition rule :: "pattern \<Rightarrow> ((pattern \<Rightarrow> u256) \<Rightarrow> pattern) \<Rightarrow> bool \<Rightarrow> simplification_rule" where
  "rule p a r = \<lparr>sr_pattern = p, sr_action = a, sr_removesNonConstants = r, sr_feasible = None\<rparr>"

definition rule_if ::
  "pattern \<Rightarrow> ((pattern \<Rightarrow> u256) \<Rightarrow> pattern) \<Rightarrow> bool \<Rightarrow> ((pattern \<Rightarrow> u256) \<Rightarrow> bool) \<Rightarrow> simplification_rule" where
  "rule_if p a r f =
     \<lparr>sr_pattern = p, sr_action = a, sr_removesNonConstants = r, sr_feasible = Some f\<rparr>"

definition rule_feasible :: "simplification_rule \<Rightarrow> (pattern \<Rightarrow> u256) \<Rightarrow> bool" where
  "rule_feasible r d \<longleftrightarrow> (case sr_feasible r of None \<Rightarrow> True | Some f \<Rightarrow> f d)"

section \<open>The value of a pattern\<close>

text \<open>
  \<open>b\<close> gives the value of each match group. A placeholder for a constant has the constant as its
  value, so the same function provides \<open>d()\<close>.
\<close>

fun pattern_value ::
  "(instruction \<Rightarrow> u256 list \<Rightarrow> u256) \<Rightarrow> (nat \<Rightarrow> u256) \<Rightarrow> pattern \<Rightarrow> u256" where
  "pattern_value ev b (Pattern t m i v args g) =
     (if g \<noteq> 0 then b g
      else if t = Operation then ev i (map (pattern_value ev b) args)
      else case v of Some w \<Rightarrow> w | None \<Rightarrow> 0)"

declare pattern_value.simps [simp del]

definition group_data :: "(nat \<Rightarrow> u256) \<Rightarrow> pattern \<Rightarrow> u256" where
  "group_data b p = b (p_matchGroup p)"

lemma pattern_value_lit [simp]: "pattern_value ev b (lit v) = v"
  by (simp add: lit_def pattern_value.simps)

lemma pattern_value_inst [simp]:
  "pattern_value ev b (inst i args) = ev i (map (pattern_value ev b) args)"
  by (simp add: inst_def pattern_value.simps)

lemma pattern_value_group [simp]:
  "g \<noteq> 0 \<Longrightarrow> pattern_value ev b (setMatchGroup p g) = b g"
  by (simp add: setMatchGroup_def pattern_value.simps)

lemma group_data_group [simp]: "group_data b (setMatchGroup p g) = b g"
  by (simp add: group_data_def setMatchGroup_def)

lemma rule_simps [simp]:
  "sr_pattern (rule p a r) = p" "sr_action (rule p a r) = a"
  "sr_removesNonConstants (rule p a r) = r" "rule_feasible (rule p a r) d"
  "sr_pattern (rule_if p a r f) = p" "sr_action (rule_if p a r f) = a"
  "sr_removesNonConstants (rule_if p a r f) = r" "rule_feasible (rule_if p a r f) d = f d"
  by (simp_all add: rule_def rule_if_def rule_feasible_def)

text \<open>
  The non-constant placeholders of a pattern and its opcodes with side effects, in the order in
  which they are written: what a rule that removes nothing has to keep.
\<close>

fun pattern_effects :: "pattern \<Rightarrow> (nat + instruction) list" where
  "pattern_effects (Pattern t m i v args g) =
     (if g \<noteq> 0 then (if t = Push then [] else [Inl g])
      else if t = Operation
      then concat (map pattern_effects args) @ (if ii_sideEffects (instructionInfo i) then [Inr i] else [])
      else [])"

declare pattern_effects.simps [simp del]

lemma pattern_effects_simps [simp]:
  "pattern_effects (lit v) = []"
  "pattern_effects (inst i args) =
     concat (map pattern_effects args) @ (if ii_sideEffects (instructionInfo i) then [Inr i] else [])"
  "g \<noteq> 0 \<Longrightarrow> pattern_effects (setMatchGroup (any_of t) g) = (if t = Push then [] else [Inl g])"
  by (simp_all add: lit_def inst_def setMatchGroup_def any_of_def pattern_effects.simps)

section \<open>The values of the opcodes\<close>

definition evalValue ::
  "(bytes \<Rightarrow> u256) \<Rightarrow> interpreter_state \<Rightarrow> instruction \<Rightarrow> u256 list \<Rightarrow> u256" where
  "evalValue keccak s i args = (case fst (eval keccak i args s) of Inr v \<Rightarrow> v | Inl _ \<Rightarrow> 0)"

lemma eval_create:
  "eval keccak CREATE [x, y, z] s = thenReturn
     (logTrace CREATE [x, y, z] [] (snd (accessMemory y z s))) (ucast (ucast (0xcccccc + y) :: 160 word))"
  "eval keccak CREATE2 [x, y, z, w] s = thenReturn
     (logTrace CREATE2 [x, y, z, w] [] (snd (accessMemory z w s))) (ucast (ucast (0xdddddd + y) :: 160 word))"
  by (simp_all add: eval_def eval_signals_def eval_arithmetic_def eval_blockchain_def
      eval_memory_def eval_calls_def instructionInfo_eqs)

lemma ucast_160_less: "(ucast (w :: 160 word) :: u256) < 2 ^ 160"
  using unsigned_less [of w, where ?'a = nat]
  by (simp add: word_less_nat_alt unsigned_ucast_eq take_bit_nat_eq_self)

locale opcode_values =
  fixes ev :: "instruction \<Rightarrow> u256 list \<Rightarrow> u256"
  assumes arithmetic:
      "eval_arithmetic i args = Some v \<Longrightarrow> length args = ii_args (instructionInfo i) \<Longrightarrow> ev i args = v"
    and address_size: "i \<in> {ADDRESS, CALLER, ORIGIN, COINBASE} \<Longrightarrow> ev i [] < 2 ^ 160"
    and create_size: "ev CREATE [x, y, z] < 2 ^ 160" "ev CREATE2 [x, y, z, w] < 2 ^ 160"
    and own_balance: "ev BALANCE [ev ADDRESS []] = ev SELFBALANCE []"

lemma thenReturn_value:
  "(case fst (thenReturn r v) of Inr w \<Rightarrow> w | Inl _ \<Rightarrow> 0) = v \<or>
   (case fst (thenReturn r v) of Inr w \<Rightarrow> w | Inl _ \<Rightarrow> 0) = (0 :: u256)"
  by (auto simp: thenReturn_def split: prod.splits sum.splits)

interpretation interp: opcode_values "evalValue keccak s" for keccak s
proof
  show "evalValue keccak s i args = v"
    if "eval_arithmetic i args = Some v" "length args = ii_args (instructionInfo i)" for i args v
    using eval_of_arithmetic [OF that] by (simp add: evalValue_def)
next
  show "evalValue keccak s i [] < 2 ^ 160" if "i \<in> {ADDRESS, CALLER, ORIGIN, COINBASE}" for i
    using that ucast_160_less by (auto simp: evalValue_def eval_environment)
next
  have *: "(case fst (thenReturn r (ucast (q :: 160 word))) of Inr w \<Rightarrow> w | Inl _ \<Rightarrow> 0) < (2 ^ 160 :: u256)"
    for r q
  proof (rule disjE [OF thenReturn_value [of r "ucast q"]])
    assume "(case fst (thenReturn r (ucast q)) of Inr w \<Rightarrow> w | Inl _ \<Rightarrow> 0) = (ucast q :: u256)"
    then show ?thesis by (simp only: ucast_160_less)
  next
    assume "(case fst (thenReturn r (ucast q)) of Inr w \<Rightarrow> w | Inl _ \<Rightarrow> 0) = (0 :: u256)"
    then show ?thesis by simp
  qed
  show "evalValue keccak s CREATE [x, y, z] < 2 ^ 160" for x y z
    by (simp only: evalValue_def eval_create *)
  show "evalValue keccak s CREATE2 [x, y, z, w] < 2 ^ 160" for x y z w
    by (simp only: evalValue_def eval_create *)
next
  show "evalValue keccak s BALANCE [evalValue keccak s ADDRESS []] = evalValue keccak s SELFBALANCE []"
    by (simp add: evalValue_def eval_environment)
qed

section \<open>Facts for clients of the interface\<close>

context opcode_values
begin

lemma ev_binary:
  assumes "eval_arithmetic i [x, y] = Some v" "ii_args (instructionInfo i) = 2"
  shows "ev i [x, y] = v"
  using assms by (intro arithmetic) simp_all

lemmas ev_arithmetic_simps [simp] =
  eval_arithmetic_simps [THEN arithmetic, simplified instructionInfo_eqs, simplified]
  eval_arithmetic_ternary [THEN arithmetic, simplified instructionInfo_eqs, simplified]
  eval_arithmetic_SIGNEXTEND [THEN arithmetic, simplified instructionInfo_eqs, simplified]

end

end
