(* ===== verification/RuleList.thy ===== *)
theory RuleList
  imports Pattern
begin

text \<open>
  \<open>libevmasm/RuleList.h\<close>: the simplification rules, part by part, with 256-bit words. A part is
  a function of the patterns it is given, as the templates are; in an action \<open>d A\<close> stands for
  \<open>A.d()\<close>. The lemmas show that every rule keeps the value of the expression, and that a rule
  not marked \<open>removesNonConstants\<close> keeps every non-constant operand and side effect, in order.
\<close>

section \<open>Helpers\<close>

definition shlWorkaround :: "u256 \<Rightarrow> nat \<Rightarrow> u256" where
  "shlWorkaround x amount = word_of_int (push_bit amount (uint x) AND uint (- 1 :: u256))"

text \<open>\<open>divWorkaround\<close> and \<open>modWorkaround\<close>: division of unbounded integers, truncating.\<close>

definition divWorkaround :: "int \<Rightarrow> int \<Rightarrow> int" where
  "divWorkaround a b = a sdiv b"

definition modWorkaround :: "int \<Rightarrow> int \<Rightarrow> int" where
  "modWorkaround a b = a smod b"

text \<open>\<open>boost::multiprecision::powm\<close>.\<close>

definition powm :: "bigint \<Rightarrow> bigint \<Rightarrow> bigint \<Rightarrow> bigint" where
  "powm a b m = a ^ nat b mod m"

section \<open>The rules\<close>

definition simplificationRuleListPart1 ::
  "pattern \<Rightarrow> pattern \<Rightarrow> pattern \<Rightarrow> pattern \<Rightarrow> pattern \<Rightarrow> simplification_rule list" where
  "simplificationRuleListPart1 A B C W X = [
     rule (inst ADD [A, B]) (\<lambda>d. lit (d A + d B)) False,
     rule (inst MUL [A, B]) (\<lambda>d. lit (d A * d B)) False,
     rule (inst SUB [A, B]) (\<lambda>d. lit (d A - d B)) False,
     rule (inst DIV [A, B]) (\<lambda>d. lit (if d B = 0 then 0
       else word_of_int (divWorkaround (uint (d A)) (uint (d B))))) False,
     rule (inst SDIV [A, B]) (\<lambda>d. lit (if d B = 0 then 0
       else s2u (divWorkaround (u2s (d A)) (u2s (d B))))) False,
     rule (inst MOD [A, B]) (\<lambda>d. lit (if d B = 0 then 0
       else word_of_int (modWorkaround (uint (d A)) (uint (d B))))) False,
     rule (inst SMOD [A, B]) (\<lambda>d. lit (if d B = 0 then 0
       else s2u (modWorkaround (u2s (d A)) (u2s (d B))))) False,
     rule (inst EXP [A, B]) (\<lambda>d. lit (word_of_int (powm (uint (d A)) (uint (d B)) (2 ^ 256)))) False,
     rule (inst NOT' [A]) (\<lambda>d. lit (NOT (d A))) False,
     rule (inst LT [A, B]) (\<lambda>d. lit (if d A < d B then 1 else 0)) False,
     rule (inst GT [A, B]) (\<lambda>d. lit (if d A > d B then 1 else 0)) False,
     rule (inst SLT [A, B]) (\<lambda>d. lit (if u2s (d A) < u2s (d B) then 1 else 0)) False,
     rule (inst SGT [A, B]) (\<lambda>d. lit (if u2s (d A) > u2s (d B) then 1 else 0)) False,
     rule (inst EQ [A, B]) (\<lambda>d. lit (if d A = d B then 1 else 0)) False,
     rule (inst ISZERO [A]) (\<lambda>d. lit (if d A = 0 then 1 else 0)) False,
     rule (inst AND' [A, B]) (\<lambda>d. lit (d A AND d B)) False,
     rule (inst OR' [A, B]) (\<lambda>d. lit (d A OR d B)) False,
     rule (inst XOR' [A, B]) (\<lambda>d. lit (d A XOR d B)) False,
     rule (inst BYTE [A, B]) (\<lambda>d. lit (if d A \<ge> 32 then 0
       else drop_bit (unat (8 * (31 - d A))) (d B) AND 0xff)) False,
     rule (inst ADDMOD [A, B, C]) (\<lambda>d. lit (if d C = 0 then 0
       else word_of_int ((uint (d A) + uint (d B)) mod uint (d C)))) False,
     rule (inst MULMOD [A, B, C]) (\<lambda>d. lit (if d C = 0 then 0
       else word_of_int ((uint (d A) * uint (d B)) mod uint (d C)))) False,
     rule (inst SIGNEXTEND [A, B]) (\<lambda>d. lit (if d A \<ge> 31 then d B
       else let testBit = unat (d A) * 8 + 7; mask = push_bit testBit 1 - 1
            in if bit (d B) testBit then d B OR NOT mask else d B AND mask)) False,
     rule (inst SHL [A, B]) (\<lambda>d. lit (if d A \<ge> 256 then 0
       else shlWorkaround (d B) (unat (d A)))) False,
     rule (inst SHR [A, B]) (\<lambda>d. lit (if d A \<ge> 256 then 0
       else drop_bit (unat (d A)) (d B))) False]"

definition simplificationRuleListPart2 ::
  "pattern \<Rightarrow> pattern \<Rightarrow> pattern \<Rightarrow> pattern \<Rightarrow> pattern \<Rightarrow> simplification_rule list" where
  "simplificationRuleListPart2 A B C X Y = [
     rule (inst ADD [X, lit 0]) (\<lambda>d. X) False,
     rule (inst ADD [lit 0, X]) (\<lambda>d. X) False,
     rule (inst SUB [X, lit 0]) (\<lambda>d. X) False,
     rule (inst SUB [lit (NOT 0), X]) (\<lambda>d. inst NOT' [X]) False,
     rule (inst MUL [X, lit 0]) (\<lambda>d. lit 0) True,
     rule (inst MUL [lit 0, X]) (\<lambda>d. lit 0) True,
     rule (inst MUL [X, lit 1]) (\<lambda>d. X) False,
     rule (inst MUL [lit 1, X]) (\<lambda>d. X) False,
     rule (inst MUL [X, lit (- 1)]) (\<lambda>d. inst SUB [lit 0, X]) False,
     rule (inst MUL [lit (- 1), X]) (\<lambda>d. inst SUB [lit 0, X]) False,
     rule (inst DIV [X, lit 0]) (\<lambda>d. lit 0) True,
     rule (inst DIV [lit 0, X]) (\<lambda>d. lit 0) True,
     rule (inst DIV [X, lit 1]) (\<lambda>d. X) False,
     rule (inst SDIV [X, lit 0]) (\<lambda>d. lit 0) True,
     rule (inst SDIV [lit 0, X]) (\<lambda>d. lit 0) True,
     rule (inst SDIV [X, lit 1]) (\<lambda>d. X) False,
     rule (inst AND' [X, lit (NOT 0)]) (\<lambda>d. X) False,
     rule (inst AND' [lit (NOT 0), X]) (\<lambda>d. X) False,
     rule (inst AND' [X, lit 0]) (\<lambda>d. lit 0) True,
     rule (inst AND' [lit 0, X]) (\<lambda>d. lit 0) True,
     rule (inst OR' [X, lit 0]) (\<lambda>d. X) False,
     rule (inst OR' [lit 0, X]) (\<lambda>d. X) False,
     rule (inst OR' [X, lit (NOT 0)]) (\<lambda>d. lit (NOT 0)) True,
     rule (inst OR' [lit (NOT 0), X]) (\<lambda>d. lit (NOT 0)) True,
     rule (inst XOR' [X, lit 0]) (\<lambda>d. X) False,
     rule (inst XOR' [lit 0, X]) (\<lambda>d. X) False,
     rule (inst MOD [X, lit 0]) (\<lambda>d. lit 0) True,
     rule (inst MOD [lit 0, X]) (\<lambda>d. lit 0) True,
     rule (inst EQ [X, lit 0]) (\<lambda>d. inst ISZERO [X]) False,
     rule (inst EQ [lit 0, X]) (\<lambda>d. inst ISZERO [X]) False,
     rule (inst SHL [lit 0, X]) (\<lambda>d. X) False,
     rule (inst SHR [lit 0, X]) (\<lambda>d. X) False,
     rule (inst SHL [X, lit 0]) (\<lambda>d. lit 0) True,
     rule (inst SHR [X, lit 0]) (\<lambda>d. lit 0) True,
     rule (inst GT [X, lit 0]) (\<lambda>d. inst ISZERO [inst ISZERO [X]]) False,
     rule (inst LT [lit 0, X]) (\<lambda>d. inst ISZERO [inst ISZERO [X]]) False,
     rule (inst GT [X, lit (NOT 0)]) (\<lambda>d. lit 0) True,
     rule (inst LT [lit (NOT 0), X]) (\<lambda>d. lit 0) True,
     rule (inst GT [lit 0, X]) (\<lambda>d. lit 0) True,
     rule (inst LT [X, lit 0]) (\<lambda>d. lit 0) True,
     rule (inst AND' [inst BYTE [X, Y], lit 0xff]) (\<lambda>d. inst BYTE [X, Y]) False,
     rule (inst BYTE [lit 31, X]) (\<lambda>d. inst AND' [X, lit 0xff]) False]"

definition simplificationRuleListPart3 ::
  "pattern \<Rightarrow> pattern \<Rightarrow> pattern \<Rightarrow> pattern \<Rightarrow> pattern \<Rightarrow> simplification_rule list" where
  "simplificationRuleListPart3 A B C X Y = [
     rule (inst AND' [X, X]) (\<lambda>d. X) True,
     rule (inst OR' [X, X]) (\<lambda>d. X) True,
     rule (inst XOR' [X, X]) (\<lambda>d. lit 0) True,
     rule (inst SUB [X, X]) (\<lambda>d. lit 0) True,
     rule (inst EQ [X, X]) (\<lambda>d. lit 1) True,
     rule (inst LT [X, X]) (\<lambda>d. lit 0) True,
     rule (inst SLT [X, X]) (\<lambda>d. lit 0) True,
     rule (inst GT [X, X]) (\<lambda>d. lit 0) True,
     rule (inst SGT [X, X]) (\<lambda>d. lit 0) True,
     rule (inst MOD [X, X]) (\<lambda>d. lit 0) True]"

definition simplificationRuleListPart4 ::
  "pattern \<Rightarrow> pattern \<Rightarrow> pattern \<Rightarrow> pattern \<Rightarrow> pattern \<Rightarrow> simplification_rule list" where
  "simplificationRuleListPart4 A B C X Y = [
     rule (inst NOT' [inst NOT' [X]]) (\<lambda>d. X) False,
     rule (inst XOR' [X, inst XOR' [X, Y]]) (\<lambda>d. Y) True,
     rule (inst XOR' [X, inst XOR' [Y, X]]) (\<lambda>d. Y) True,
     rule (inst XOR' [inst XOR' [X, Y], X]) (\<lambda>d. Y) True,
     rule (inst XOR' [inst XOR' [Y, X], X]) (\<lambda>d. Y) True,
     rule (inst OR' [X, inst AND' [X, Y]]) (\<lambda>d. X) True,
     rule (inst OR' [X, inst AND' [Y, X]]) (\<lambda>d. X) True,
     rule (inst OR' [inst AND' [X, Y], X]) (\<lambda>d. X) True,
     rule (inst OR' [inst AND' [Y, X], X]) (\<lambda>d. X) True,
     rule (inst AND' [X, inst OR' [X, Y]]) (\<lambda>d. X) True,
     rule (inst AND' [X, inst OR' [Y, X]]) (\<lambda>d. X) True,
     rule (inst AND' [inst OR' [X, Y], X]) (\<lambda>d. X) True,
     rule (inst AND' [inst OR' [Y, X], X]) (\<lambda>d. X) True,
     rule (inst AND' [X, inst NOT' [X]]) (\<lambda>d. lit 0) True,
     rule (inst AND' [inst NOT' [X], X]) (\<lambda>d. lit 0) True,
     rule (inst OR' [X, inst NOT' [X]]) (\<lambda>d. lit (NOT 0)) True,
     rule (inst OR' [inst NOT' [X], X]) (\<lambda>d. lit (NOT 0)) True]"

definition simplificationRuleListPart4_5 ::
  "pattern \<Rightarrow> pattern \<Rightarrow> pattern \<Rightarrow> pattern \<Rightarrow> pattern \<Rightarrow> simplification_rule list" where
  "simplificationRuleListPart4_5 A B C X Y = [
     rule (inst AND' [inst AND' [X, Y], Y]) (\<lambda>d. inst AND' [X, Y]) True,
     rule (inst AND' [Y, inst AND' [X, Y]]) (\<lambda>d. inst AND' [X, Y]) True,
     rule (inst AND' [inst AND' [Y, X], Y]) (\<lambda>d. inst AND' [Y, X]) True,
     rule (inst AND' [Y, inst AND' [Y, X]]) (\<lambda>d. inst AND' [Y, X]) True,
     rule (inst OR' [inst OR' [X, Y], Y]) (\<lambda>d. inst OR' [X, Y]) True,
     rule (inst OR' [Y, inst OR' [X, Y]]) (\<lambda>d. inst OR' [X, Y]) True,
     rule (inst OR' [inst OR' [Y, X], Y]) (\<lambda>d. inst OR' [Y, X]) True,
     rule (inst OR' [Y, inst OR' [Y, X]]) (\<lambda>d. inst OR' [Y, X]) True]"

definition simplificationRuleListPart5 ::
  "pattern \<Rightarrow> pattern \<Rightarrow> pattern \<Rightarrow> pattern \<Rightarrow> pattern \<Rightarrow> simplification_rule list" where
  "simplificationRuleListPart5 A B C X Y =
     map (\<lambda>i. let val = push_bit i 1 in
            rule (inst MOD [X, lit val]) (\<lambda>d. inst AND' [X, lit (val - 1)]) False) [0..<256]
     @ [rule_if (inst SHL [A, X]) (\<lambda>d. lit 0) True (\<lambda>d. d A \<ge> 256),
        rule_if (inst SHR [A, X]) (\<lambda>d. lit 0) True (\<lambda>d. d A \<ge> 256),
        rule_if (inst BYTE [A, X]) (\<lambda>d. lit 0) True (\<lambda>d. d A \<ge> 32)]
     @ concat (map (\<lambda>instr. let mask = push_bit 160 1 - 1 in
         [rule (inst AND' [inst instr [], lit mask]) (\<lambda>d. inst instr []) False,
          rule (inst AND' [lit mask, inst instr []]) (\<lambda>d. inst instr []) False])
         [ADDRESS, CALLER, ORIGIN, COINBASE])"

definition simplificationRuleListPart6 ::
  "pattern \<Rightarrow> pattern \<Rightarrow> pattern \<Rightarrow> pattern \<Rightarrow> pattern \<Rightarrow> simplification_rule list" where
  "simplificationRuleListPart6 A B C X Y =
     map (\<lambda>instr. rule (inst ISZERO [inst ISZERO [inst instr [X, Y]]]) (\<lambda>d. inst instr [X, Y]) False)
       [EQ, LT, SLT, GT, SGT]
     @ [rule (inst ISZERO [inst ISZERO [inst ISZERO [X]]]) (\<lambda>d. inst ISZERO [X]) False,
        rule (inst ISZERO [inst XOR' [X, Y]]) (\<lambda>d. inst EQ [X, Y]) False]"

text \<open>Part 7, by its headings: associative operations, shifts, masks and bytes of shifts.\<close>

definition associativeRules ::
  "pattern \<Rightarrow> pattern \<Rightarrow> pattern \<Rightarrow> pattern \<Rightarrow> instruction \<Rightarrow> (u256 \<Rightarrow> u256 \<Rightarrow> u256) \<Rightarrow> simplification_rule list" where
  "associativeRules A B X Y instr f =
     concat (map (\<lambda>opXA.
       [rule (inst instr [opXA, B]) (\<lambda>d. inst instr [X, lit (f (d A) (d B))]) False,
        rule (inst instr [opXA, Y]) (\<lambda>d. inst instr [inst instr [X, Y], A]) False,
        rule (inst instr [B, opXA]) (\<lambda>d. inst instr [X, lit (f (d A) (d B))]) False,
        rule (inst instr [Y, opXA]) (\<lambda>d. inst instr [inst instr [Y, X], A]) False])
       [inst instr [X, A], inst instr [A, X]])"

definition shiftShiftRules :: "pattern \<Rightarrow> pattern \<Rightarrow> pattern \<Rightarrow> simplification_rule list" where
  "shiftShiftRules A B X = [
     rule (inst SHL [B, inst SHL [A, X]])
       (\<lambda>d. let sum = uint (d A) + uint (d B)
            in if sum \<ge> 256 then inst AND' [X, lit 0] else inst SHL [lit (word_of_int sum), X]) False,
     rule (inst SHR [B, inst SHR [A, X]])
       (\<lambda>d. let sum = uint (d A) + uint (d B)
            in if sum \<ge> 256 then inst AND' [X, lit 0] else inst SHR [lit (word_of_int sum), X]) False,
     rule_if (inst SHR [B, inst SHL [A, X]])
       (\<lambda>d. let mask = drop_bit (unat (d B)) (shlWorkaround (NOT 0) (unat (d A)))
            in if d A > d B then inst AND' [inst SHL [lit (d A - d B), X], lit mask]
               else if d B > d A then inst AND' [inst SHR [lit (d B - d A), X], lit mask]
               else inst AND' [X, lit mask]) False
       (\<lambda>d. d A < 256 \<and> d B < 256),
     rule_if (inst SHL [B, inst SHR [A, X]])
       (\<lambda>d. let mask = shlWorkaround (drop_bit (unat (d A)) (NOT 0)) (unat (d B))
            in if d A > d B then inst AND' [inst SHR [lit (d A - d B), X], lit mask]
               else if d B > d A then inst AND' [inst SHL [lit (d B - d A), X], lit mask]
               else inst AND' [X, lit mask]) False
       (\<lambda>d. d A < 256 \<and> d B < 256)]"

definition maskShiftRules :: "pattern \<Rightarrow> pattern \<Rightarrow> pattern \<Rightarrow> simplification_rule list" where
  "maskShiftRules A B X =
     concat (map (\<lambda>instr.
       let replacement = (\<lambda>d.
             let mask = (if instr = SHL then shlWorkaround (d A) (unat (d B))
                         else drop_bit (unat (d B)) (d A))
             in inst AND' [inst instr [lit (d B), X], lit mask])
       in [rule_if (inst instr [B, inst AND' [X, A]]) replacement False (\<lambda>d. d B < 256),
           rule_if (inst instr [B, inst AND' [A, X]]) replacement False (\<lambda>d. d B < 256)])
       [SHL, SHR])"

definition mulDivShiftRules :: "pattern \<Rightarrow> pattern \<Rightarrow> simplification_rule list" where
  "mulDivShiftRules X Y = [
     rule (inst MUL [X, inst SHL [Y, lit 1]]) (\<lambda>d. inst SHL [Y, X]) True,
     rule (inst MUL [inst SHL [X, lit 1], Y]) (\<lambda>d. inst SHL [X, Y]) False,
     rule (inst DIV [X, inst SHL [Y, lit 1]]) (\<lambda>d. inst SHR [Y, X]) True]"

definition maskedShrFeasible :: "u256 \<Rightarrow> u256 \<Rightarrow> bool" where
  "maskedShrFeasible a b \<longleftrightarrow>
     (if b > 256 then False
      else let bAsUint = unat b in a AND drop_bit bAsUint (NOT 0) = drop_bit bAsUint (NOT 0))"

definition byteShiftRules :: "pattern \<Rightarrow> pattern \<Rightarrow> pattern \<Rightarrow> simplification_rule list" where
  "byteShiftRules A B X = [
     rule_if (inst AND' [A, inst SHR [B, X]]) (\<lambda>d. inst SHR [B, X]) False
       (\<lambda>d. maskedShrFeasible (d A) (d B)),
     rule_if (inst AND' [inst SHR [B, X], A]) (\<lambda>d. inst SHR [B, X]) False
       (\<lambda>d. maskedShrFeasible (d A) (d B)),
     rule_if (inst BYTE [A, inst SHL [B, X]]) (\<lambda>d. inst BYTE [lit (d A + d B div 8), X]) False
       (\<lambda>d. d B mod 8 = 0 \<and> d A \<le> 32 \<and> d B \<le> 256),
     rule_if (inst BYTE [A, inst SHR [B, X]]) (\<lambda>d. lit 0) True
       (\<lambda>d. d A < d B div 8),
     rule_if (inst BYTE [A, inst SHR [B, X]]) (\<lambda>d. inst BYTE [lit (d A - d B div 8), X]) False
       (\<lambda>d. d B mod 8 = 0 \<and> d A < 32 \<and> d B \<le> 256 \<and> d A \<ge> d B div 8)]"

definition simplificationRuleListPart7 ::
  "pattern \<Rightarrow> pattern \<Rightarrow> pattern \<Rightarrow> pattern \<Rightarrow> pattern \<Rightarrow> simplification_rule list" where
  "simplificationRuleListPart7 A B C X Y =
     concat (map (\<lambda>(instr, f). associativeRules A B X Y instr f)
       [(ADD, (+)), (MUL, (*)), (AND', (AND)), (OR', (OR)), (XOR', (XOR))])
     @ shiftShiftRules A B X
     @ maskShiftRules A B X
     @ mulDivShiftRules X Y
     @ byteShiftRules A B X"

definition simplificationRuleListPart8 ::
  "pattern \<Rightarrow> pattern \<Rightarrow> pattern \<Rightarrow> pattern \<Rightarrow> pattern \<Rightarrow> simplification_rule list" where
  "simplificationRuleListPart8 A B C X Y = [
     rule (inst SUB [X, A]) (\<lambda>d. inst ADD [X, lit (0 - d A)]) False,
     rule (inst SUB [inst ADD [X, A], Y]) (\<lambda>d. inst ADD [inst SUB [X, Y], A]) False,
     rule (inst SUB [inst ADD [A, X], Y]) (\<lambda>d. inst ADD [inst SUB [X, Y], A]) False,
     rule (inst SUB [X, inst ADD [Y, A]]) (\<lambda>d. inst ADD [inst SUB [X, Y], lit (0 - d A)]) False,
     rule (inst SUB [X, inst ADD [A, Y]]) (\<lambda>d. inst ADD [inst SUB [X, Y], lit (0 - d A)]) False]"

definition simplificationRuleListPart9 ::
  "pattern \<Rightarrow> pattern \<Rightarrow> pattern \<Rightarrow> pattern \<Rightarrow> pattern \<Rightarrow> pattern \<Rightarrow> pattern \<Rightarrow> simplification_rule list" where
  "simplificationRuleListPart9 A B C W X Y Z = (let mask = push_bit 160 1 - 1 in [
     rule (inst AND' [inst CREATE [W, X, Y], lit mask]) (\<lambda>d. inst CREATE [W, X, Y]) False,
     rule (inst AND' [lit mask, inst CREATE [W, X, Y]]) (\<lambda>d. inst CREATE [W, X, Y]) False,
     rule (inst AND' [inst CREATE2 [W, X, Y, Z], lit mask]) (\<lambda>d. inst CREATE2 [W, X, Y, Z]) False,
     rule (inst AND' [lit mask, inst CREATE2 [W, X, Y, Z]]) (\<lambda>d. inst CREATE2 [W, X, Y, Z]) False])"

definition evmRuleList :: "evm_version \<Rightarrow> simplification_rule list" where
  "evmRuleList version =
     (if hasSelfBalance version
      then [rule (inst BALANCE [inst ADDRESS []]) (\<lambda>d. inst SELFBALANCE []) False] else [])"

text \<open>The parts are called with the placeholders in the positions of the source.\<close>

definition simplificationRuleList ::
  "evm_version option \<Rightarrow> pattern \<Rightarrow> pattern \<Rightarrow> pattern \<Rightarrow> pattern \<Rightarrow> pattern \<Rightarrow> pattern \<Rightarrow> pattern \<Rightarrow> simplification_rule list" where
  "simplificationRuleList version A B C W X Y Z =
     simplificationRuleListPart1 A B C W X
     @ simplificationRuleListPart2 A B C W X
     @ simplificationRuleListPart3 A B C W X
     @ simplificationRuleListPart4 A B C W X
     @ simplificationRuleListPart4_5 A B C W X
     @ simplificationRuleListPart5 A B C W X
     @ simplificationRuleListPart6 A B C W X
     @ simplificationRuleListPart7 A B C W X
     @ simplificationRuleListPart8 A B C W X
     @ simplificationRuleListPart9 A B C W X Y Z
     @ (case version of Some v \<Rightarrow> evmRuleList v | None \<Rightarrow> [])"

text \<open>The placeholders of the constructor \<open>Rules::Rules\<close>.\<close>

definition group_A :: pattern where "group_A = setMatchGroup (any_of Push) 1"
definition group_B :: pattern where "group_B = setMatchGroup (any_of Push) 2"
definition group_C :: pattern where "group_C = setMatchGroup (any_of Push) 3"
definition group_W :: pattern where "group_W = setMatchGroup (any_of UndefinedItem) 4"
definition group_X :: pattern where "group_X = setMatchGroup (any_of UndefinedItem) 5"
definition group_Y :: pattern where "group_Y = setMatchGroup (any_of UndefinedItem) 6"
definition group_Z :: pattern where "group_Z = setMatchGroup (any_of UndefinedItem) 7"

definition rulesFor :: "evm_version option \<Rightarrow> simplification_rule list" where
  "rulesFor version =
     simplificationRuleList version group_A group_B group_C group_W group_X group_Y group_Z"

section \<open>Facts on words\<close>

lemma shlWorkaround_eq: "shlWorkaround x n = push_bit n x"
  by (rule bit_word_eqI) (simp add: shlWorkaround_def bit_simps minus_one_eq_mask)

lemma sgn_uint: "sgn (uint a) = (if uint a = 0 then 0 else 1)"
proof (cases "uint a = 0")
  case False
  then have "0 < uint a" using uint_ge_0 [of a] by linarith
  then show ?thesis using False by (simp only: sgn_pos if_False)
qed simp

lemma divWorkaround_uint: "word_of_int (divWorkaround (uint a) (uint b)) = (a div b :: u256)"
  by (simp add: divWorkaround_def signed_divide_int_def sgn_uint word_div_def)

lemma modWorkaround_uint: "word_of_int (modWorkaround (uint a) (uint b)) = (a mod b :: u256)"
  by (auto simp: modWorkaround_def signed_modulo_int_def sgn_uint word_mod_def)

lemma powm_eq_exp256: "word_of_int (powm (uint a) (uint b) (2 ^ 256)) = exp256 a b"
proof -
  have w: "word_of_int (take_bit 256 k) = (word_of_int k :: u256)" for k
    by (rule bit_word_eqI) (simp add: bit_simps)
  have "word_of_int (uint a ^ unat b) = (a ^ unat b :: u256)"
    by (subst word_of_int_power_hom [symmetric]) (simp only: word_of_int_uint)
  with w [of "uint a ^ unat b"] show ?thesis
    by (simp add: powm_def exp256_eq_power take_bit_eq_mod)
qed

lemma powm_zero: "word_of_int (powm a 0 (2 ^ 256)) = exp256 x 0"
  by (simp add: powm_def exp256_eq_power)

lemma signedWorkarounds:
  "s2u (divWorkaround x y) = s2u (x sdiv y)" "s2u (modWorkaround x y) = s2u (x smod y)"
  by (simp_all only: divWorkaround_def modWorkaround_def)

lemma word_255_less: "255 < (x :: u256) \<longleftrightarrow> 256 \<le> x"
  by (auto simp: word_less_nat_alt word_le_nat_alt)

lemma mod_push_bit_one: "i < 256 \<Longrightarrow> x mod push_bit i 1 = (x AND (push_bit i 1 - 1) :: u256)"
  by (simp add: push_bit_of_1 take_bit_eq_mask flip: take_bit_eq_mod mask_eq_exp_minus_1)

lemma push_bit_one_neq: "i < 256 \<Longrightarrow> push_bit i (1 :: u256) \<noteq> 0"
  by (simp add: push_bit_of_1)

lemma and_mask_160: "(x :: u256) < 2 ^ 160 \<Longrightarrow> x AND (push_bit 160 1 - 1) = x"
  by (simp only: push_bit_of_1 less_mask_eq flip: mask_eq_exp_minus_1)

lemma unat_le_iff_256: "x < 256 \<longleftrightarrow> unat (x :: u256) < 256"
  by (simp add: word_less_nat_alt)

lemma xor_eq_zero_iff: "x XOR y = 0 \<longleftrightarrow> x = (y :: u256)"
  by (auto simp: bit_eq_iff bit_simps)

section \<open>Soundness of the rules\<close>

text \<open>
  \<open>rule_sound ev b r\<close>: with match groups of values \<open>b\<close>, the expression that the rule builds has
  the value of the expression that it replaces.
\<close>

definition rule_sound ::
  "(instruction \<Rightarrow> u256 list \<Rightarrow> u256) \<Rightarrow> (nat \<Rightarrow> u256) \<Rightarrow> simplification_rule \<Rightarrow> bool" where
  "rule_sound ev b r \<longleftrightarrow>
     (rule_feasible r (group_data b) \<longrightarrow>
      pattern_value ev b (sr_action r (group_data b)) = pattern_value ev b (sr_pattern r))"

lemma rule_sound_rule [simp]:
  "rule_sound ev b (rule p a f) \<longleftrightarrow> pattern_value ev b (a (group_data b)) = pattern_value ev b p"
  "rule_sound ev b (rule_if p a f g) \<longleftrightarrow>
     (g (group_data b) \<longrightarrow> pattern_value ev b (a (group_data b)) = pattern_value ev b p)"
  by (simp_all add: rule_sound_def)

lemmas group_defs = group_A_def group_B_def group_C_def group_W_def group_X_def group_Y_def group_Z_def

lemma group_simps [simp]:
  "pattern_value ev b group_A = b 1" "pattern_value ev b group_B = b 2"
  "pattern_value ev b group_C = b 3" "pattern_value ev b group_W = b 4"
  "pattern_value ev b group_X = b 5" "pattern_value ev b group_Y = b 6"
  "pattern_value ev b group_Z = b 7"
  "group_data b group_A = b 1" "group_data b group_B = b 2" "group_data b group_C = b 3"
  by (simp_all add: group_defs)

lemma u2s_simps [simp]: "u2s 0 = 0" "u2s 1 = 1" "s2u 0 = 0"
  by (simp_all add: u2s_eq_sint s2u_eq_word_of_int)

lemma truth_simps [simp]: "truth True = 1" "truth False = 0" "truth p = 0 \<longleftrightarrow> \<not> p"
  "truth (truth p = 0) = truth (\<not> p)"
  by (simp_all add: truth_def)

lemma byte_of_byte:
  "(if x \<ge> 32 then 0 else drop_bit n y AND 0xff) AND 0xff = (if x \<ge> 32 then 0 else drop_bit n y AND 0xff :: u256)"
  by (simp add: and.assoc)

context opcode_values
begin

lemma part1_sound:
  "\<forall>r \<in> set (simplificationRuleListPart1 group_A group_B group_C group_W group_X). rule_sound ev b r"
  by (simp add: simplificationRuleListPart1_def divWorkaround_uint modWorkaround_uint powm_eq_exp256 [simplified]
      powm_zero [simplified] signedWorkarounds Let_def
      truth_def shlWorkaround_eq word_255_less)

lemma part2_sound:
  "\<forall>r \<in> set (simplificationRuleListPart2 group_A group_B group_C group_W group_X). rule_sound ev b r"
  by (simp add: simplificationRuleListPart2_def s2u_u2s word_gt_0 not_eq_complement)

lemma part3_sound:
  "\<forall>r \<in> set (simplificationRuleListPart3 group_A group_B group_C group_W group_X). rule_sound ev b r"
  by (simp add: simplificationRuleListPart3_def)

lemma part4_sound:
  "\<forall>r \<in> set (simplificationRuleListPart4 group_A group_B group_C group_W group_X). rule_sound ev b r"
  by (simp add: simplificationRuleListPart4_def ac_simps)

lemma part4_5_sound:
  "\<forall>r \<in> set (simplificationRuleListPart4_5 group_A group_B group_C group_W group_X). rule_sound ev b r"
  by (simp add: simplificationRuleListPart4_5_def ac_simps)


lemma part5_sound:
  "\<forall>r \<in> set (simplificationRuleListPart5 group_A group_B group_C group_W group_X). rule_sound ev b r"
proof -
  have "rule_sound ev b (let val = push_bit i 1 in
        rule (inst MOD [group_W, lit val]) (\<lambda>d. inst AND' [group_W, lit (val - 1)]) False)"
    if "i < 256" for i
    using mod_push_bit_one [OF that] push_bit_one_neq [OF that]
    by (simp add: Let_def del: push_bit_of_1)
  moreover have "ev i [] AND (push_bit 160 1 - 1) = ev i []"
    if "i \<in> {ADDRESS, CALLER, ORIGIN, COINBASE}" for i
    using that by (intro and_mask_160 address_size)
  ultimately show ?thesis
    by (auto simp: simplificationRuleListPart5_def word_255_less and.commute)
qed

lemma part6_sound:
  "\<forall>r \<in> set (simplificationRuleListPart6 group_A group_B group_C group_W group_X). rule_sound ev b r"
  by (simp add: simplificationRuleListPart6_def truth_def xor_eq_zero_iff)

lemma associative_sound:
  assumes "\<And>x y. ev instr [x, y] = f x y"
    and "\<And>x y z. f (f x y) z = f x (f y z)" "\<And>x y. f x y = f y x"
  shows "\<forall>r \<in> set (associativeRules group_A group_B group_W group_X instr f). rule_sound ev b r"
  using assms by (simp add: associativeRules_def)

lemma mulDivShift_sound:
  "\<forall>r \<in> set (mulDivShiftRules group_W group_X). rule_sound ev b r"
  by (auto simp: mulDivShiftRules_def push_bit_eq_mult drop_bit_eq_div word_less_nat_alt)

lemma part8_sound:
  "\<forall>r \<in> set (simplificationRuleListPart8 group_A group_B group_C group_W group_X). rule_sound ev b r"
  by (simp add: simplificationRuleListPart8_def)

lemma part9_sound:
  "\<forall>r \<in> set (simplificationRuleListPart9 group_A group_B group_C group_W group_X group_Y group_Z).
     rule_sound ev b r"
  by (simp add: simplificationRuleListPart9_def Let_def and.commute
      and_mask_160 [OF create_size(1), simplified] and_mask_160 [OF create_size(2), simplified])

lemma evmRuleList_sound: "\<forall>r \<in> set (evmRuleList version). rule_sound ev b r"
  using own_balance by (simp add: evmRuleList_def)

end

text \<open>Shifts of shifts, bit by bit, over the shift amounts as numbers.\<close>

lemma shl_shl: "m + n < 256 \<Longrightarrow> push_bit m (push_bit n x) = push_bit (m + n) (x :: u256)"
  by (simp add: push_bit_push_bit)

lemma shr_shl_mask:
  fixes x :: u256
  assumes "m < 256" "n < 256"
  shows "drop_bit n (push_bit m x) =
    (if m > n then push_bit (m - n) x else if n > m then drop_bit (n - m) x else x)
     AND drop_bit n (push_bit m (NOT 0))"
  by (rule bit_word_eqI) (use assms in \<open>auto simp: bit_simps not_less add.commute dest: bit_imp_le_length\<close>)

lemma shl_shr_mask:
  fixes x :: u256
  assumes "m < 256" "n < 256"
  shows "push_bit n (drop_bit m x) =
    (if m > n then drop_bit (m - n) x else if n > m then push_bit (n - m) x else x)
     AND push_bit n (drop_bit m (NOT 0))"
  by (rule bit_word_eqI) (use assms in \<open>auto simp: bit_simps not_less add.commute dest: bit_imp_le_length\<close>)

lemma shr_masked:
  fixes x a :: u256
  assumes "a AND drop_bit n (NOT 0) = drop_bit n (NOT 0)"
  shows "a AND drop_bit n x = drop_bit n x"
proof (rule bit_word_eqI)
  fix k assume "k < LENGTH(256)"
  have "bit a k" if "bit (drop_bit n (NOT 0) :: u256) k"
    using that assms by (metis bit_and_iff)
  then show "bit (a AND drop_bit n x) k \<longleftrightarrow> bit (drop_bit n x) k"
    by (auto simp: bit_simps dest: bit_imp_le_length)
qed

lemma byte_shl:
  fixes x :: u256
  assumes "j \<le> 31"
  shows "drop_bit (8 * (31 - j)) (push_bit (8 * k) x) AND 0xff =
    (if j + k < 32 then drop_bit (8 * (31 - (j + k))) x AND 0xff else 0)"
proof -
  have m: "(0xff :: u256) = mask 8" by (simp add: mask_eq_exp_minus_1)
  show ?thesis unfolding m
    by (rule bit_word_eqI) (use assms in \<open>auto simp: bit_simps bit_mask_iff_nat algebra_simps\<close>)
qed

lemma byte_shr:
  fixes x :: u256
  assumes "j \<le> 31"
  shows "drop_bit (8 * (31 - j)) (drop_bit n x) AND 0xff =
    (if j < n div 8 then 0 else drop_bit (8 * (31 - j) + n) x AND 0xff)"
proof -
  have m: "(0xff :: u256) = mask 8" by (simp add: mask_eq_exp_minus_1)
  show ?thesis unfolding m
    by (rule bit_word_eqI) (use assms in \<open>auto simp: bit_simps bit_mask_iff_nat dest: bit_imp_le_length\<close>)
qed

lemma shl_if: "(if 255 < n then 0 else push_bit (unat n) x) = (push_bit (unat (n :: u256)) x :: u256)"
  by (auto simp: word_less_nat_alt push_bit_ge_zero)

lemma shr_if: "(if 255 < n then 0 else drop_bit (unat n) x) = (drop_bit (unat (n :: u256)) x :: u256)"
  by (auto simp: word_less_nat_alt drop_bit_ge_zero)

lemma uint_sum_256: "256 \<le> uint a + uint b \<longleftrightarrow> 256 \<le> unat a + unat (b :: u256)"
  unfolding uint_nat by linarith

lemma unat_sum_256:
  fixes a b :: u256
  assumes "unat a + unat b < 256"
  shows "unat (a + b) = unat a + unat b"
proof -
  have "unat a + unat b < 2 ^ LENGTH(256)" using assms by (rule less_le_trans) simp
  then show ?thesis by (simp only: unat_add_lem)
qed

lemma word_sum: "word_of_int (uint a + uint b) = (a + b :: u256)"
  by simp

lemma unat_diff: "(y :: u256) < x \<Longrightarrow> unat (x - y) = unat x - unat y"
  by (simp add: unat_sub order_less_imp_le)

lemma shr_shl_words:
  fixes m n x :: u256
  assumes "m < 256" "n < 256"
  shows "drop_bit (unat n) (push_bit (unat m) x) =
      (if n < m then push_bit (unat (m - n)) x
       else if m < n then drop_bit (unat (n - m)) x else x)
      AND drop_bit (unat n) (push_bit (unat m) (NOT 0))"
proof -
  have m: "unat m < 256" and n: "unat n < 256" using assms by (simp_all add: word_less_nat_alt)
  consider "n < m" | "m < n" | "m = n" by force
  then show ?thesis
    using shr_shl_mask [OF m n, of x]
    by cases (simp_all only: unat_diff word_less_nat_alt if_True if_False less_irrefl less_not_sym)
qed

lemma shl_shr_words:
  fixes m n x :: u256
  assumes "m < 256" "n < 256"
  shows "push_bit (unat n) (drop_bit (unat m) x) =
      (if n < m then drop_bit (unat (m - n)) x
       else if m < n then push_bit (unat (n - m)) x else x)
      AND push_bit (unat n) (drop_bit (unat m) (NOT 0))"
proof -
  have m: "unat m < 256" and n: "unat n < 256" using assms by (simp_all add: word_less_nat_alt)
  consider "n < m" | "m < n" | "m = n" by force
  then show ?thesis
    using shl_shr_mask [OF m n, of x]
    by cases (simp_all only: unat_diff word_less_nat_alt if_True if_False less_irrefl less_not_sym)
qed

context opcode_values
begin

lemma ev_shifts: "ev SHL [n, x] = push_bit (unat n) x" "ev SHR [n, x] = drop_bit (unat n) x"
  by (simp_all only: ev_arithmetic_simps shl_if shr_if)

lemmas ev_logic = ev_arithmetic_simps(16)

lemma shiftShift_sound:
  "\<forall>r \<in> set (shiftShiftRules group_A group_B group_W). rule_sound ev b r"
proof -
  let ?m = "unat (b 1)" and ?n = "unat (b 2)" and ?x = "b 4"
  have shl: "push_bit ?n (push_bit ?m ?x) =
      (if 256 \<le> ?m + ?n then 0 else push_bit (unat (b 1 + b 2)) ?x)"
    by (simp add: push_bit_push_bit push_bit_ge_zero unat_sum_256 add.commute)
  have shr: "drop_bit ?n (drop_bit ?m ?x) =
      (if 256 \<le> ?m + ?n then 0 else drop_bit (unat (b 1 + b 2)) ?x)"
    by (simp add: drop_bit_drop_bit drop_bit_ge_zero unat_sum_256 add.commute)
  have if_inst: "pattern_value ev b (if c then p else q)
      = (if c then pattern_value ev b p else pattern_value ev b q)" for c p q by simp
  show ?thesis
    unfolding shiftShiftRules_def Let_def list.set ball_simps rule_sound_rule if_inst
      pattern_value_inst list.map group_simps pattern_value_lit ev_shifts ev_logic uint_sum_256
      shlWorkaround_eq word_sum
    by (intro conjI impI TrueI) 
      (simp_all only: shl shr shr_shl_words [of "b 1" "b 2" "b 4"] shl_shr_words [of "b 1" "b 2" "b 4"]
        split: if_split, simp_all)
qed

end

lemma byte_index_unat: "a < 32 \<Longrightarrow> unat (8 * (31 - a) :: u256) = 8 * (31 - unat a)"
proof -
  assume a: "a < 32"
  then have "unat a < 32" by (simp add: word_less_nat_alt)
  moreover have "unat (31 - a) = 31 - unat a"
    using a by (subst unat_sub) (auto simp: word_le_nat_alt word_less_nat_alt)
  moreover have "unat (8 * (31 - a)) = unat (8 :: u256) * unat (31 - a)"
    by (rule unat_mult_lem [THEN iffD1], rule le_less_trans [of _ "8 * 31"])
      (use calculation in simp_all)
  ultimately show ?thesis by simp
qed

definition byte_at :: "nat \<Rightarrow> u256 \<Rightarrow> u256" where
  "byte_at k x = (if 32 \<le> k then 0 else drop_bit (8 * (31 - k)) x AND 0xff)"

lemma byte_value: "(if 32 \<le> (a :: u256) then 0 else drop_bit (unat (8 * (31 - a))) x AND 0xff) = byte_at (unat a) x"
proof (cases "a < 32")
  case True
  then have "unat a < 32" by (simp add: word_less_nat_alt)
  with True show ?thesis by (simp only: byte_at_def byte_index_unat not_le simp_thms if_False)
      (simp only: not_le [symmetric] simp_thms if_False)
next
  case False
  then show ?thesis by (simp add: byte_at_def not_less word_le_nat_alt)
qed

lemma byte_at_shl: "byte_at j (push_bit (8 * k) x) = byte_at (j + k) x"
  using byte_shl [of j k x] by (auto simp: byte_at_def not_le)

lemma byte_at_shr_zero: "j < n div 8 \<Longrightarrow> byte_at j (drop_bit n x) = 0"
  using byte_shr [of j n x] by (auto simp: byte_at_def not_le)

lemma byte_at_shr: "k \<le> j \<Longrightarrow> j < 32 \<Longrightarrow> byte_at j (drop_bit (8 * k) x) = byte_at (j - k) x"
proof -
  assume jk: "k \<le> j" "j < 32"
  then have "8 * (31 - j) + 8 * k = 8 * (31 - (j - k))" by simp
  moreover have "j - k < 32" using jk by simp
  ultimately show ?thesis using jk byte_shr [of j "8 * k" x] by (simp add: byte_at_def)
qed

lemma unat_div_8: "unat (n div 8 :: u256) = unat n div 8"
  by (simp add: unat_div)

lemma unat_mod_8: "n mod 8 = 0 \<longleftrightarrow> unat (n :: u256) mod 8 = 0"
  by (simp add: word_unat_eq_iff unat_mod)

lemma unat_byte_sum:
  fixes j n :: u256
  assumes "j \<le> 32" "n \<le> 256"
  shows "unat (j + n div 8) = unat j + unat n div 8"
proof -
  have "unat j + unat n div 8 < 256" using assms by (auto simp: word_le_nat_alt)
  then show ?thesis by (subst unat_sum_256) (simp_all add: unat_div_8)
qed

context opcode_values
begin

lemma ev_BYTE: "ev BYTE [a, x] = byte_at (unat a) x"
  by (simp only: ev_arithmetic_simps byte_value)

lemma maskShift_sound:
  "\<forall>r \<in> set (maskShiftRules group_A group_B group_W). rule_sound ev b r"
proof -
  have "push_bit n (x AND y) = push_bit n x AND push_bit n y"
    "drop_bit n (x AND y) = drop_bit n x AND drop_bit n y" for n and x y :: u256
    by (simp_all add: bit_eq_iff bit_simps)
  then show ?thesis
    by (simp add: maskShiftRules_def Let_def ev_shifts shlWorkaround_eq and.commute del: ev_arithmetic_simps(20,21))
qed

lemma byteShift_sound:
  "\<forall>r \<in> set (byteShiftRules group_A group_B group_W). rule_sound ev b r"
proof -
  let ?j = "b 1" and ?n = "b 2" and ?x = "b 4"
  have masked: "?j AND drop_bit (unat ?n) ?x = drop_bit (unat ?n) ?x" if "maskedShrFeasible ?j ?n"
  proof (rule shr_masked)
    show "?j AND drop_bit (unat ?n) (NOT 0) = drop_bit (unat ?n) (NOT 0)"
      using that unfolding maskedShrFeasible_def Let_def by (simp only: split: if_splits)
  qed
  have shl: "byte_at (unat ?j) (push_bit (unat ?n) ?x) = byte_at (unat (?j + ?n div 8)) ?x"
    if feas: "?n mod 8 = 0 \<and> ?j \<le> 32 \<and> ?n \<le> 256"
  proof -
    obtain k where "unat ?n = 8 * k"
      using feas by (auto simp: unat_mod_8 mod_eq_0_iff_dvd)
    then show ?thesis using that by (simp add: unat_byte_sum byte_at_shl)
  qed
  have shr0: "byte_at (unat ?j) (drop_bit (unat ?n) ?x) = 0" if "?j < ?n div 8"
    using that by (intro byte_at_shr_zero) (simp add: word_less_nat_alt unat_div_8)
  have shr: "byte_at (unat ?j) (drop_bit (unat ?n) ?x) = byte_at (unat (?j - ?n div 8)) ?x"
    if feas: "?n mod 8 = 0 \<and> ?j < 32 \<and> ?n \<le> 256 \<and> ?n div 8 \<le> ?j"
  proof -
    obtain k where "unat ?n = 8 * k"
      using feas by (auto simp: unat_mod_8 mod_eq_0_iff_dvd)
    moreover have "unat (?j - ?n div 8) = unat ?j - unat ?n div 8"
      using that by (simp add: unat_sub unat_div_8)
    moreover have "unat ?n div 8 \<le> unat ?j" "unat ?j < 32"
      using that by (simp_all add: word_le_nat_alt word_less_nat_alt unat_div_8)
    ultimately show ?thesis by (simp add: byte_at_shr)
  qed
  show ?thesis
    unfolding byteShiftRules_def list.set ball_simps rule_sound_rule pattern_value_inst list.map
      group_simps pattern_value_lit ev_shifts ev_BYTE ev_logic
    by (intro conjI impI TrueI)
      (simp_all only: masked shl shr0 shr if_True if_False, simp_all only: and.commute masked)
qed

lemma part7_sound:
  "\<forall>r \<in> set (simplificationRuleListPart7 group_A group_B group_C group_W group_X). rule_sound ev b r"
  unfolding simplificationRuleListPart7_def set_append ball_Un
  by (intro conjI shiftShift_sound maskShift_sound mulDivShift_sound byteShift_sound)
    (simp only: list.map prod.case concat.simps append_Nil2 set_append ball_Un,
      intro conjI associative_sound, simp_all add: ac_simps)

lemma rulesFor_sound: "\<forall>r \<in> set (rulesFor version). rule_sound ev b r"
proof -
  have "\<forall>r \<in> set (case version of Some v \<Rightarrow> evmRuleList v | None \<Rightarrow> []). rule_sound ev b r"
    by (cases version) (simp_all add: evmRuleList_sound)
  then show ?thesis
    unfolding rulesFor_def simplificationRuleList_def set_append ball_Un
    by (intro conjI part1_sound part2_sound part3_sound part4_sound part4_5_sound part5_sound
        part6_sound part7_sound part8_sound part9_sound)
qed

end

section \<open>What the rules keep\<close>

text \<open>
  \<open>rule_keeps r d\<close>: unless the rule is marked \<open>removesNonConstants\<close>, the expression it builds has
  the operands and the side effects of the one it replaces, in the same order.
\<close>

definition rule_keeps :: "simplification_rule \<Rightarrow> (pattern \<Rightarrow> u256) \<Rightarrow> bool" where
  "rule_keeps r d \<longleftrightarrow>
     (\<not> sr_removesNonConstants r \<longrightarrow> pattern_effects (sr_action r d) = pattern_effects (sr_pattern r))"

lemma rule_keeps_rule [simp]:
  "rule_keeps (rule p a f) d \<longleftrightarrow> (\<not> f \<longrightarrow> pattern_effects (a d) = pattern_effects p)"
  "rule_keeps (rule_if p a f g) d \<longleftrightarrow> (\<not> f \<longrightarrow> pattern_effects (a d) = pattern_effects p)"
  by (simp_all add: rule_keeps_def)

lemma group_effects [simp]:
  "pattern_effects group_A = []" "pattern_effects group_B = []" "pattern_effects group_C = []"
  "pattern_effects group_W = [Inl 4]" "pattern_effects group_X = [Inl 5]"
  "pattern_effects group_Y = [Inl 6]" "pattern_effects group_Z = [Inl 7]"
  by (simp_all add: group_defs)

lemma rules_keep_part1_4:
  "\<forall>r \<in> set (simplificationRuleListPart1 group_A group_B group_C group_W group_X). rule_keeps r d"
  "\<forall>r \<in> set (simplificationRuleListPart2 group_A group_B group_C group_W group_X). rule_keeps r d"
  "\<forall>r \<in> set (simplificationRuleListPart3 group_A group_B group_C group_W group_X). rule_keeps r d"
  "\<forall>r \<in> set (simplificationRuleListPart4 group_A group_B group_C group_W group_X). rule_keeps r d"
  "\<forall>r \<in> set (simplificationRuleListPart4_5 group_A group_B group_C group_W group_X). rule_keeps r d"
  by (simp_all add: simplificationRuleListPart1_def simplificationRuleListPart2_def
      simplificationRuleListPart3_def simplificationRuleListPart4_def
      simplificationRuleListPart4_5_def instructionInfo_eqs)

lemma rules_keep_part5_6:
  "\<forall>r \<in> set (simplificationRuleListPart5 group_A group_B group_C group_W group_X). rule_keeps r d"
  "\<forall>r \<in> set (simplificationRuleListPart6 group_A group_B group_C group_W group_X). rule_keeps r d"
  by (auto simp: simplificationRuleListPart5_def simplificationRuleListPart6_def instructionInfo_eqs
      Let_def)

lemma rules_keep_part7:
  "\<forall>r \<in> set (simplificationRuleListPart7 group_A group_B group_C group_W group_X). rule_keeps r d"
  by (simp add: simplificationRuleListPart7_def associativeRules_def shiftShiftRules_def
      maskShiftRules_def mulDivShiftRules_def byteShiftRules_def instructionInfo_eqs Let_def)

lemma rules_keep_part8_9:
  "\<forall>r \<in> set (simplificationRuleListPart8 group_A group_B group_C group_W group_X). rule_keeps r d"
  "\<forall>r \<in> set (simplificationRuleListPart9 group_A group_B group_C group_W group_X group_Y group_Z).
     rule_keeps r d"
  "\<forall>r \<in> set (evmRuleList v). rule_keeps r d"
  by (simp_all add: simplificationRuleListPart8_def simplificationRuleListPart9_def evmRuleList_def
      instructionInfo_eqs Let_def)

lemma rulesFor_keep: "\<forall>r \<in> set (rulesFor version). rule_keeps r d"
proof -
  have "\<forall>r \<in> set (case version of Some v \<Rightarrow> evmRuleList v | None \<Rightarrow> []). rule_keeps r d"
    by (cases version) (simp_all add: rules_keep_part8_9)
  then show ?thesis
    unfolding rulesFor_def simplificationRuleList_def set_append ball_Un
    by (intro conjI rules_keep_part1_4 rules_keep_part5_6 rules_keep_part7 rules_keep_part8_9)
qed

section \<open>Actions are closed\<close>

text \<open>
  A rule reads only constants that its pattern binds (groups 1 to 3), and builds its result only from
  placeholders that occur in the pattern, so none of the assertions in \<open>matchGroupValue\<close> fails.
  Its pattern and its result consist of placeholders, constants and opcodes with as many arguments
  as the opcode takes.
\<close>

fun pattern_groups :: "pattern \<Rightarrow> nat list" where
  "pattern_groups (Pattern t m i v args g) =
     (if g \<noteq> 0 then [g] else concat (map pattern_groups args))"

declare pattern_groups.simps [simp del]

fun pattern_wf :: "pattern \<Rightarrow> bool" where
  "pattern_wf (Pattern t m i v args g) \<longleftrightarrow>
     (if g \<noteq> 0 then t \<in> {Push, UndefinedItem} \<and> \<not> m \<and> args = [] \<and> (t = Push \<longleftrightarrow> g \<le> 3)
      else if t = Operation then length args = ii_args (instructionInfo i) \<and> (\<forall>p \<in> set args. pattern_wf p)
      else t = Push \<and> m \<and> v \<noteq> None \<and> args = [])"

declare pattern_wf.simps [simp del]

definition rule_closed :: "simplification_rule \<Rightarrow> (nat \<Rightarrow> u256) \<Rightarrow> (nat \<Rightarrow> u256) \<Rightarrow> bool" where
  "rule_closed r b b' \<longleftrightarrow>
     pattern_wf (sr_pattern r) \<and> p_type (sr_pattern r) = Operation \<and> p_matchGroup (sr_pattern r) = 0 \<and>
     pattern_wf (sr_action r (group_data b)) \<and>
     set (pattern_groups (sr_action r (group_data b))) \<subseteq> set (pattern_groups (sr_pattern r)) \<and>
     ((\<forall>g \<in> set (pattern_groups (sr_pattern r)). g \<le> 3 \<longrightarrow> b g = b' g) \<longrightarrow>
      sr_action r (group_data b) = sr_action r (group_data b') \<and>
      rule_feasible r (group_data b) = rule_feasible r (group_data b'))"

lemma rule_closed_rule [simp]:
  "rule_closed (rule p a f) b b' \<longleftrightarrow>
     pattern_wf p \<and> p_type p = Operation \<and> p_matchGroup p = 0 \<and> pattern_wf (a (group_data b)) \<and>
     set (pattern_groups (a (group_data b))) \<subseteq> set (pattern_groups p) \<and>
     ((\<forall>g \<in> set (pattern_groups p). g \<le> 3 \<longrightarrow> b g = b' g) \<longrightarrow> a (group_data b) = a (group_data b'))"
  "rule_closed (rule_if p a f h) b b' \<longleftrightarrow>
     pattern_wf p \<and> p_type p = Operation \<and> p_matchGroup p = 0 \<and> pattern_wf (a (group_data b)) \<and>
     set (pattern_groups (a (group_data b))) \<subseteq> set (pattern_groups p) \<and>
     ((\<forall>g \<in> set (pattern_groups p). g \<le> 3 \<longrightarrow> b g = b' g) \<longrightarrow>
      a (group_data b) = a (group_data b') \<and> h (group_data b) = h (group_data b'))"
  by (simp_all add: rule_closed_def)

lemma pattern_groups_simps [simp]:
  "pattern_groups (lit v) = []" "pattern_groups (inst i args) = concat (map pattern_groups args)"
  "pattern_groups group_A = [1]" "pattern_groups group_B = [2]" "pattern_groups group_C = [3]"
  "pattern_groups group_W = [4]" "pattern_groups group_X = [5]" "pattern_groups group_Y = [6]"
  "pattern_groups group_Z = [7]"
  by (simp_all add: lit_def inst_def group_defs setMatchGroup_def pattern_groups.simps)

lemma pattern_wf_simps [simp]:
  "pattern_wf (lit v)"
  "pattern_wf (inst i args) \<longleftrightarrow>
     length args = ii_args (instructionInfo i) \<and> (\<forall>p \<in> set args. pattern_wf p)"
  "pattern_wf group_A" "pattern_wf group_B" "pattern_wf group_C" "pattern_wf group_W"
  "pattern_wf group_X" "pattern_wf group_Y" "pattern_wf group_Z"
  by (simp_all add: lit_def inst_def group_defs setMatchGroup_def any_of_def pattern_wf.simps)

lemma p_inst [simp]: "p_type (inst i args) = Operation" "p_matchGroup (inst i args) = 0"
  by (simp_all add: inst_def)

lemma rules_closed_part1_4:
  "\<forall>r \<in> set (simplificationRuleListPart1 group_A group_B group_C group_W group_X). rule_closed r b b'"
  "\<forall>r \<in> set (simplificationRuleListPart2 group_A group_B group_C group_W group_X). rule_closed r b b'"
  "\<forall>r \<in> set (simplificationRuleListPart3 group_A group_B group_C group_W group_X). rule_closed r b b'"
  "\<forall>r \<in> set (simplificationRuleListPart4 group_A group_B group_C group_W group_X). rule_closed r b b'"
  "\<forall>r \<in> set (simplificationRuleListPart4_5 group_A group_B group_C group_W group_X). rule_closed r b b'"
  by (simp_all add: simplificationRuleListPart1_def simplificationRuleListPart2_def
      simplificationRuleListPart3_def simplificationRuleListPart4_def
      simplificationRuleListPart4_5_def Let_def instructionInfo_eqs)

lemma rules_closed_part5_6:
  "\<forall>r \<in> set (simplificationRuleListPart5 group_A group_B group_C group_W group_X). rule_closed r b b'"
  "\<forall>r \<in> set (simplificationRuleListPart6 group_A group_B group_C group_W group_X). rule_closed r b b'"
  by (auto simp: simplificationRuleListPart5_def simplificationRuleListPart6_def Let_def
      instructionInfo_eqs)

lemma rules_closed_part7:
  "\<forall>r \<in> set (simplificationRuleListPart7 group_A group_B group_C group_W group_X). rule_closed r b b'"
  by (auto simp: simplificationRuleListPart7_def associativeRules_def shiftShiftRules_def
      maskShiftRules_def mulDivShiftRules_def byteShiftRules_def Let_def instructionInfo_eqs)

lemma rules_closed_part8_9:
  "\<forall>r \<in> set (simplificationRuleListPart8 group_A group_B group_C group_W group_X). rule_closed r b b'"
  "\<forall>r \<in> set (simplificationRuleListPart9 group_A group_B group_C group_W group_X group_Y group_Z).
     rule_closed r b b'"
  "\<forall>r \<in> set (evmRuleList v). rule_closed r b b'"
  by (simp_all add: simplificationRuleListPart8_def simplificationRuleListPart9_def evmRuleList_def
      Let_def instructionInfo_eqs)

lemma rulesFor_closed: "\<forall>r \<in> set (rulesFor version). rule_closed r b b'"
proof -
  have "\<forall>r \<in> set (case version of Some v \<Rightarrow> evmRuleList v | None \<Rightarrow> []). rule_closed r b b'"
    by (cases version) (simp_all add: rules_closed_part8_9)
  then show ?thesis
    unfolding rulesFor_def simplificationRuleList_def set_append ball_Un
    by (intro conjI rules_closed_part1_4 rules_closed_part5_6 rules_closed_part7 rules_closed_part8_9)
qed

section \<open>Properties\<close>

text \<open>
  C1: every simplification rule is correct on all 256-bit words: whenever its feasibility test
  accepts the matched constants, the replacement has the value of the matched expression in
  every state of the interpreter.
\<close>

theorem simplification_rules_sound:
  assumes "r \<in> set (rulesFor version)" "rule_feasible r (group_data b)"
  shows "pattern_value (evalValue keccak s) b (sr_action r (group_data b))
    = pattern_value (evalValue keccak s) b (sr_pattern r)"
  using bspec [OF interp.rulesFor_sound assms(1)] assms(2) by (simp only: rule_sound_def simp_thms)

theorem simplification_rules_sound_witness:
  "\<forall>s. pattern_value (evalValue (\<lambda>_. 0) s) ((\<lambda>_. 7) (2 := 16, 1 := 3))
     (inst BYTE [lit (3 - 16 div 8), group_W])
   = pattern_value (evalValue (\<lambda>_. 0) s) ((\<lambda>_. 7) (2 := 16, 1 := 3))
     (inst BYTE [group_A, inst SHR [group_B, group_W]])"
proof -
  let ?r = "byteShiftRules group_A group_B group_W ! 4"
  have "?r \<in> set (byteShiftRules group_A group_B group_W)"
    by (rule nth_mem) (simp add: byteShiftRules_def)
  then have "?r \<in> set (rulesFor None)"
    unfolding rulesFor_def simplificationRuleList_def simplificationRuleListPart7_def
      set_append Un_iff by blast
  from simplification_rules_sound [OF this, of "(\<lambda>_. 7) (2 := 16, 1 := 3)" "\<lambda>_. 0"]
  show ?thesis by (simp add: byteShiftRules_def word_le_nat_alt word_less_nat_alt)
qed

text \<open>
  C12: a simplification rule that is not marked as removing non-constants keeps the order: the
  replacement has the same operands and the same opcodes with side effects, each exactly as often
  and in the same order as the matched expression.
\<close>

theorem simplification_rules_keep_order:
  "\<forall>r \<in> set (rulesFor version). sr_removesNonConstants r \<or>
     pattern_effects (sr_action r d) = pattern_effects (sr_pattern r)"
  using rulesFor_keep [of version d] by (simp only: rule_keeps_def) blast

theorem simplification_rules_keep_order_witness:
  "pattern_effects (inst ADD [inst ADD [group_W, group_X], group_A])
     = pattern_effects (inst ADD [inst ADD [group_W, group_A], group_X])"
proof -
  let ?r = "associativeRules group_A group_B group_W group_X ADD (+) ! 1"
  have "?r \<in> set (associativeRules group_A group_B group_W group_X ADD (+))"
    by (rule nth_mem) (simp add: associativeRules_def)
  then have "?r \<in> set (rulesFor None)"
    unfolding rulesFor_def simplificationRuleList_def simplificationRuleListPart7_def
      set_append Un_iff by simp
  from bspec [OF simplification_rules_keep_order this, of undefined]
  show ?thesis by (simp add: associativeRules_def)
qed

end
