(* ===== verification/SimplificationRules.thy ===== *)
theory SimplificationRules
  imports RuleList
begin

text \<open>
  \<open>libevmasm/SimplificationRules.cpp\<close>: the rule table, matching a pattern against an expression of
  \<open>ExpressionClasses\<close>, and the template of the replacement. An expression is an item applied to
  classes; a class is known by its representative. The main lemma: if the classes have
  consistent values, a match gives a replacement of the same value.
\<close>

section \<open>Expressions\<close>

record expression =
  e_id :: nat
  e_item :: "assembly_item option"
  e_arguments :: "nat list"
  e_sequenceNumber :: nat

type_synonym representatives = "expression list"

text \<open>\<open>ExpressionClasses::representative\<close>: \<open>at\<close> throws when there is no such class.\<close>

definition representative :: "representatives \<Rightarrow> nat \<Rightarrow> expression result" where
  "representative cls i = (if i < length cls then Inr (cls ! i) else Inl OutOfRange)"

type_synonym match_groups = "nat \<Rightarrow> expression option"

section \<open>Matching\<close>

definition pattern_data :: "pattern \<Rightarrow> u256 result" where
  "pattern_data p = (case p_data p of Some v \<Rightarrow> Inr v | None \<Rightarrow> Inl OptimizerException)"

definition matchesBaseItem :: "pattern \<Rightarrow> assembly_item option \<Rightarrow> bool result" where
  "matchesBaseItem p item =
     (if p_type p = UndefinedItem then Inr True
      else case item of
        None \<Rightarrow> Inr False
      | Some it \<Rightarrow>
          (if p_type p \<noteq> m_type it then Inr False
           else if p_type p = Operation
           then bindR (item_instruction it) (\<lambda>i. Inr (p_instruction p = i))
           else if p_requireDataMatch p
           then bindR (pattern_data p) (\<lambda>v. bindR (item_data it) (\<lambda>w. Inr (v = w)))
           else Inr True))"

fun matches :: "representatives \<Rightarrow> pattern \<Rightarrow> expression \<Rightarrow> match_groups \<Rightarrow> (bool \<times> match_groups) result"
and matches_all ::
  "representatives \<Rightarrow> pattern list \<Rightarrow> nat list \<Rightarrow> match_groups \<Rightarrow> (bool \<times> match_groups) result" where
  "matches cls (Pattern t m i v args g) e gr =
     bindR (matchesBaseItem (Pattern t m i v args g) (e_item e)) (\<lambda>base.
       if \<not> base then Inr (False, gr)
       else
         let (ok, gr1) =
           (if g = 0 then (True, gr)
            else case gr g of
              None \<Rightarrow> (True, gr(g \<mapsto> e))
            | Some e' \<Rightarrow> (e_id e' = e_id e, gr))
         in if \<not> ok then Inr (False, gr1)
            else bindR (assertThrow (args = [] \<or> length (e_arguments e) = length args) OptimizerException)
              (\<lambda>_. matches_all cls args (e_arguments e) gr1))"
| "matches_all cls [] as gr = Inr (True, gr)"
| "matches_all cls (p # ps) [] gr = Inl OptimizerException"
| "matches_all cls (p # ps) (a # as) gr =
     bindR (representative cls a) (\<lambda>e.
     bindR (matches cls p e gr) (\<lambda>(ok, gr1).
       if ok then matches_all cls ps as gr1 else Inr (False, gr1)))"

text \<open>\<open>Pattern::d\<close> and \<open>Pattern::id\<close> of a pattern in a match group.\<close>

definition match_d :: "match_groups \<Rightarrow> pattern \<Rightarrow> u256" where
  "match_d gr p =
     (case gr (p_matchGroup p) of
        Some e \<Rightarrow> (case e_item e of Some it \<Rightarrow> m_data it | None \<Rightarrow> 0)
      | None \<Rightarrow> 0)"

definition match_id :: "match_groups \<Rightarrow> nat \<Rightarrow> nat result" where
  "match_id gr g = (case gr g of Some e \<Rightarrow> Inr (e_id e) | None \<Rightarrow> Inl OptimizerException)"

section \<open>The rule table\<close>

type_synonym rule_table = "instruction \<Rightarrow> simplification_rule list"

definition addRule :: "rule_table \<Rightarrow> simplification_rule \<Rightarrow> rule_table result" where
  "addRule tbl r =
     (if p_type (sr_pattern r) = Operation
      then let i = p_instruction (sr_pattern r) in Inr (tbl(i := tbl i @ [r]))
      else Inl OptimizerException)"

fun addRules :: "rule_table \<Rightarrow> simplification_rule list \<Rightarrow> rule_table result" where
  "addRules tbl [] = Inr tbl"
| "addRules tbl (r # rs) = bindR (addRule tbl r) (\<lambda>tbl'. addRules tbl' rs)"

definition isInitialized :: "rule_table \<Rightarrow> bool" where
  "isInitialized tbl \<longleftrightarrow> tbl ADD \<noteq> []"

definition Rules :: "rule_table result" where
  "Rules = bindR (addRules (\<lambda>_. []) (rulesFor None)) (\<lambda>tbl.
     bindR (assertThrow (isInitialized tbl) OptimizerException) (\<lambda>_. Inr tbl))"

fun findFirstMatch_loop ::
  "representatives \<Rightarrow> expression \<Rightarrow> simplification_rule list \<Rightarrow>
   (simplification_rule \<times> match_groups) option result" where
  "findFirstMatch_loop cls e [] = Inr None"
| "findFirstMatch_loop cls e (r # rs) =
     bindR (matches cls (sr_pattern r) e Map.empty) (\<lambda>(ok, gr).
       if ok \<and> rule_feasible r (match_d gr) then Inr (Some (r, gr))
       else findFirstMatch_loop cls e rs)"

definition findFirstMatch ::
  "rule_table \<Rightarrow> representatives \<Rightarrow> expression \<Rightarrow> (simplification_rule \<times> match_groups) option result" where
  "findFirstMatch tbl cls e =
     (case e_item e of
        None \<Rightarrow> Inl OptimizerException
      | Some it \<Rightarrow> bindR (item_instruction it) (\<lambda>i. findFirstMatch_loop cls e (tbl i)))"

section \<open>Templates\<close>

definition toAssemblyItem :: "pattern \<Rightarrow> source_location \<Rightarrow> assembly_item result" where
  "toAssemblyItem p loc =
     (if p_type p = Operation then Inr (mkOp (p_instruction p) loc)
      else bindR (pattern_data p) (\<lambda>v. Inr (mkItem (p_type p) v loc)))"

datatype expression_template = Template
  (t_hasId: bool) (t_id: nat) (t_item: assembly_item) (t_arguments: "expression_template list")

fun ExpressionTemplate ::
  "match_groups \<Rightarrow> source_location \<Rightarrow> pattern \<Rightarrow> expression_template result"
and ExpressionTemplates ::
  "match_groups \<Rightarrow> source_location \<Rightarrow> pattern list \<Rightarrow> expression_template list result" where
  "ExpressionTemplate gr loc (Pattern t m i v args g) =
     (if g \<noteq> 0
      then bindR (match_id gr g) (\<lambda>k.
        bindR (ExpressionTemplates gr loc args) (\<lambda>as.
          Inr (Template True k (mkItem UndefinedItem 0 noLocation) as)))
      else bindR (toAssemblyItem (Pattern t m i v args g) loc) (\<lambda>it.
        bindR (ExpressionTemplates gr loc args) (\<lambda>as. Inr (Template False (2 ^ 32 - 1) it as))))"
| "ExpressionTemplates gr loc [] = Inr []"
| "ExpressionTemplates gr loc (p # ps) =
     bindR (ExpressionTemplate gr loc p) (\<lambda>a.
     bindR (ExpressionTemplates gr loc ps) (\<lambda>as. Inr (a # as)))"

declare matches.simps [simp del] ExpressionTemplate.simps [simp del]

section \<open>The rule table holds the rules\<close>

lemma addRules_table:
  assumes "\<forall>r \<in> set rs. p_type (sr_pattern r) = Operation"
  shows "addRules tbl rs = Inr (\<lambda>i. tbl i @ filter (\<lambda>r. p_instruction (sr_pattern r) = i) rs)"
  using assms
proof (induction rs arbitrary: tbl)
  case (Cons r rs)
  then show ?case by (auto simp: addRule_def Let_def fun_eq_iff)
qed simp

lemma rules_are_operations: "\<forall>r \<in> set (rulesFor v). p_type (sr_pattern r) = Operation"
  using rulesFor_closed [of v "\<lambda>_. 0" "\<lambda>_. 0"] by (auto simp: rule_closed_def)

lemma first_rule: "\<exists>rs. rulesFor None = rule (inst ADD [group_A, group_B]) (\<lambda>d. lit (d group_A + d group_B)) False # rs"
  by (simp add: rulesFor_def simplificationRuleList_def simplificationRuleListPart1_def)

lemma Rules_table:
  "Rules = Inr (\<lambda>i. filter (\<lambda>r. p_instruction (sr_pattern r) = i) (rulesFor None))"
proof -
  have "filter (\<lambda>r. p_instruction (sr_pattern r) = ADD) (rulesFor None) \<noteq> []"
    using first_rule by (auto simp: inst_def)
  then show ?thesis
    by (simp add: Rules_def addRules_table [OF rules_are_operations] isInitialized_def)
qed

lemma Rules_mem: "Rules = Inr tbl \<Longrightarrow> r \<in> set (tbl i) \<Longrightarrow> r \<in> set (rulesFor None)"
  by (auto simp: Rules_table)

section \<open>Values of classes\<close>

text \<open>
  \<open>val\<close> gives each class a value. It is consistent with the representatives when the class of
  a constant has that constant as value and the class of an opcode that occurs in a rule has the
  value of that opcode on the values of its arguments.
\<close>

fun pattern_opcodes :: "pattern \<Rightarrow> instruction list" where
  "pattern_opcodes (Pattern t m i v args g) =
     (if t = Operation then i # concat (map pattern_opcodes args) else [])"

declare pattern_opcodes.simps [simp del]

definition rule_opcodes :: "instruction set" where
  "rule_opcodes = (\<Union>r \<in> set (rulesFor None). set (pattern_opcodes (sr_pattern r)))"

definition item_value_ok ::
  "(instruction \<Rightarrow> u256 list \<Rightarrow> u256) \<Rightarrow> (nat \<Rightarrow> u256) \<Rightarrow> expression \<Rightarrow> u256 \<Rightarrow> bool" where
  "item_value_ok ev val e v \<longleftrightarrow>
     (case e_item e of
        None \<Rightarrow> True
      | Some it \<Rightarrow>
          (m_type it = Push \<longrightarrow> v = m_data it) \<and>
          (m_type it = Operation \<and> m_instruction it \<in> rule_opcodes \<longrightarrow>
             length (e_arguments e) = ii_args (instructionInfo (m_instruction it)) \<and>
             v = ev (m_instruction it) (map val (e_arguments e))))"

definition consistent ::
  "(instruction \<Rightarrow> u256 list \<Rightarrow> u256) \<Rightarrow> (nat \<Rightarrow> u256) \<Rightarrow> representatives \<Rightarrow> bool" where
  "consistent ev val cls \<longleftrightarrow>
     (\<forall>k < length cls. e_id (cls ! k) = k \<and> item_value_ok ev val (cls ! k) (val k))"

definition group_values :: "(nat \<Rightarrow> u256) \<Rightarrow> match_groups \<Rightarrow> nat \<Rightarrow> u256" where
  "group_values val gr g = (case gr g of Some e \<Rightarrow> val (e_id e) | None \<Rightarrow> 0)"

text \<open>Groups 1 to 3 hold constants.\<close>

definition groups_ok :: "(nat \<Rightarrow> u256) \<Rightarrow> match_groups \<Rightarrow> bool" where
  "groups_ok val gr \<longleftrightarrow>
     (\<forall>g e. gr g = Some e \<and> g \<le> 3 \<longrightarrow> (\<exists>it. e_item e = Some it \<and> m_type it = Push \<and> m_data it = val (e_id e)))"

fun template_value ::
  "(instruction \<Rightarrow> u256 list \<Rightarrow> u256) \<Rightarrow> (nat \<Rightarrow> u256) \<Rightarrow> expression_template \<Rightarrow> u256" where
  "template_value ev val (Template h k it as) =
     (if h then val k
      else if m_type it = Operation then ev (m_instruction it) (map (template_value ev val) as)
      else m_data it)"

lemma template_correct:
  "pattern_wf p \<Longrightarrow> set (pattern_groups p) \<subseteq> dom gr \<Longrightarrow>
   \<exists>t. ExpressionTemplate gr loc p = Inr t \<and>
     template_value ev val t = pattern_value ev (group_values val gr) p"
  "\<forall>p \<in> set ps. pattern_wf p \<and> set (pattern_groups p) \<subseteq> dom gr \<Longrightarrow>
   \<exists>ts. ExpressionTemplates gr loc ps = Inr ts \<and>
     map (template_value ev val) ts = map (pattern_value ev (group_values val gr)) ps"
proof (induction gr loc p and gr loc ps rule: ExpressionTemplate_ExpressionTemplates.induct)
  case (1 gr loc t m i v args g)
  show ?case
  proof (cases "g = 0")
    case False
    then show ?thesis using 1
      by (auto simp: ExpressionTemplate.simps pattern_wf.simps pattern_groups.simps
          pattern_value.simps match_id_def group_values_def)
  next
    case True
    show ?thesis
    proof (cases "t = Operation")
      case op: True
      then obtain ts where "ExpressionTemplates gr loc args = Inr ts"
        "map (template_value ev val) ts = map (pattern_value ev (group_values val gr)) args"
        using 1 True by (auto simp: toAssemblyItem_def pattern_wf.simps pattern_groups.simps subset_iff)
      then show ?thesis using True op
        by (auto simp: ExpressionTemplate.simps toAssemblyItem_def pattern_value.simps mkOp_def)
    next
      case False
      then show ?thesis using 1 True
        by (auto simp: ExpressionTemplate.simps toAssemblyItem_def pattern_value.simps pattern_wf.simps
            mkItem_def pattern_data_def)
    qed
  qed
next
  case (3 gr loc p ps)
  then show ?case by fastforce
qed simp_all


section \<open>Matches are sound\<close>

lemma matchesBaseItem_True:
  assumes "matchesBaseItem p item = Inr True" "p_type p \<noteq> UndefinedItem"
  obtains it where "item = Some it" "m_type it = p_type p"
    "p_type p = Operation \<Longrightarrow> m_instruction it = p_instruction p"
    "p_type p \<noteq> Operation \<Longrightarrow> p_requireDataMatch p \<Longrightarrow> p_data p = Some (m_data it)"
  using assms
  by (auto simp: matchesBaseItem_def item_instruction_def item_data_def pattern_data_def bindR_Inr_iff
      split: option.splits if_splits)

lemma group_values_extend: "gr g = Some e \<Longrightarrow> gr \<subseteq>\<^sub>m gr' \<Longrightarrow> group_values val gr' g = val (e_id e)"
  by (auto simp: group_values_def map_le_def dom_def)

lemma match_placeholder:
  assumes wf: "pattern_wf (Pattern t m i v args g)" "g \<noteq> 0"
    and match: "matches cls (Pattern t m i v args g) e gr = Inr (True, gr')"
    and ok: "groups_ok val gr" "item_value_ok ev val e (val (e_id e))"
  shows "groups_ok val gr' \<and> gr \<subseteq>\<^sub>m gr' \<and> g \<in> dom gr' \<and>
    (\<forall>gr''. gr' \<subseteq>\<^sub>m gr'' \<longrightarrow> group_values val gr'' g = val (e_id e))"
proof -
  have base: "matchesBaseItem (Pattern t m i v args g) (e_item e) = Inr True"
    using match by (auto simp: matches.simps bindR_Inr_iff split: if_splits)
  have args: "args = []" using wf by (simp add: pattern_wf.simps)
  have const: "\<exists>it. e_item e = Some it \<and> m_type it = Push \<and> m_data it = val (e_id e)" if "g \<le> 3"
  proof -
    have "t = Push" using wf that by (simp add: pattern_wf.simps)
    with base obtain it where "e_item e = Some it" "m_type it = Push"
      by (auto elim!: matchesBaseItem_True)
    with ok(2) show ?thesis by (simp add: item_value_ok_def)
  qed
  show ?thesis
  proof (cases "gr g")
    case None
    then have "gr' = gr(g \<mapsto> e)" using match base args wf(2) by (simp add: matches.simps)
    then show ?thesis using None ok(1) const group_values_extend
      by (auto simp: groups_ok_def map_le_def dom_def)
  next
    case (Some e')
    then have "gr' = gr" "e_id e' = e_id e"
      using match base args wf(2) by (auto simp: matches.simps split: if_splits)
    then show ?thesis using Some ok(1) group_values_extend by (auto simp: dom_def)
  qed
qed

lemma matches_sound:
  "matches cls p e gr = Inr (True, gr') \<Longrightarrow> consistent ev val cls \<Longrightarrow> pattern_wf p \<Longrightarrow>
   set (pattern_opcodes p) \<subseteq> rule_opcodes \<Longrightarrow> groups_ok val gr \<Longrightarrow> item_value_ok ev val e v \<Longrightarrow>
   (p_matchGroup p \<noteq> 0 \<longrightarrow> v = val (e_id e)) \<Longrightarrow>
   groups_ok val gr' \<and> gr \<subseteq>\<^sub>m gr' \<and> set (pattern_groups p) \<subseteq> dom gr' \<and>
   (\<forall>gr''. gr' \<subseteq>\<^sub>m gr'' \<longrightarrow> pattern_value ev (group_values val gr'') p = v)"
  "matches_all cls ps as gr = Inr (True, gr') \<Longrightarrow> consistent ev val cls \<Longrightarrow> \<forall>p \<in> set ps. pattern_wf p \<Longrightarrow>
   \<forall>p \<in> set ps. set (pattern_opcodes p) \<subseteq> rule_opcodes \<Longrightarrow> groups_ok val gr \<Longrightarrow>
   groups_ok val gr' \<and> gr \<subseteq>\<^sub>m gr' \<and> (\<forall>p \<in> set ps. set (pattern_groups p) \<subseteq> dom gr') \<and>
   (\<forall>gr''. gr' \<subseteq>\<^sub>m gr'' \<longrightarrow>
      map (pattern_value ev (group_values val gr'')) ps = map val (take (length ps) as))"
proof (induction cls p e gr and cls ps as gr arbitrary: gr' v and gr' rule: matches_matches_all.induct)
  case (1 cls t m i w args g e gr)
  show ?case
  proof (cases "g = 0")
    case False
    then show ?thesis using match_placeholder [OF "1.prems"(3) False "1.prems"(1,5)] "1.prems"(6,7)
      by (auto simp: pattern_groups.simps pattern_value.simps)
  next
    case True
    have base: "matchesBaseItem (Pattern t m i w args g) (e_item e) = Inr True"
      using "1.prems"(1) by (auto simp: matches.simps bindR_Inr_iff split: if_splits)
    have "t \<noteq> UndefinedItem" using "1.prems"(3) True by (auto simp: pattern_wf.simps split: if_splits)
    with base obtain it where it: "e_item e = Some it" "m_type it = t"
      "t = Operation \<Longrightarrow> m_instruction it = i" "t \<noteq> Operation \<Longrightarrow> m \<Longrightarrow> w = Some (m_data it)"
      by (auto elim!: matchesBaseItem_True)
    have all: "matches_all cls args (e_arguments e) gr = Inr (True, gr')"
      using "1.prems"(1) base True by (auto simp: matches.simps bindR_Inr_iff split: if_splits)
    have args: "assertThrow (args = [] \<or> length (e_arguments e) = length args) OptimizerException = Inr ()"
      using "1.prems"(1) base True by (auto simp: matches.simps bindR_Inr_iff split: if_splits)
    have IH: "groups_ok val gr' \<and> gr \<subseteq>\<^sub>m gr' \<and> (\<forall>p \<in> set args. set (pattern_groups p) \<subseteq> dom gr') \<and>
      (\<forall>gr''. gr' \<subseteq>\<^sub>m gr'' \<longrightarrow>
        map (pattern_value ev (group_values val gr'')) args = map val (take (length args) (e_arguments e)))"
      using "1.IH" [of True "(True, gr)" True gr "()" gr'] "1.prems" True all base args
      by (cases "t = Operation") (auto simp: pattern_wf.simps pattern_opcodes.simps)
    show ?thesis
    proof (cases "t = Operation")
      case op: True
      then have "v = ev i (map val (e_arguments e))" "length (e_arguments e) = length args"
        using "1.prems"(3,4,6) it True
        by (auto simp: item_value_ok_def pattern_wf.simps pattern_opcodes.simps)
      then show ?thesis using IH True op by (auto simp: pattern_groups.simps pattern_value.simps)
    next
      case False
      then have "v = m_data it" "w = Some (m_data it)" "args = []"
        using "1.prems"(3,6) it True by (auto simp: item_value_ok_def pattern_wf.simps)
      then show ?thesis using IH True False by (auto simp: pattern_groups.simps pattern_value.simps)
    qed
  qed
next
  case (4 cls p ps a as gr)
  then obtain e gr1 where e: "representative cls a = Inr e" "matches cls p e gr = Inr (True, gr1)"
    "matches_all cls ps as gr1 = Inr (True, gr')"
    by (auto simp: bindR_Inr_iff split: if_splits)
  have a: "e_id e = a" "item_value_ok ev val e (val a)"
    using e(1) "4.prems"(2) by (auto simp: representative_def consistent_def split: if_splits)
  have p: "groups_ok val gr1 \<and> gr \<subseteq>\<^sub>m gr1 \<and> set (pattern_groups p) \<subseteq> dom gr1 \<and>
    (\<forall>gr''. gr1 \<subseteq>\<^sub>m gr'' \<longrightarrow> pattern_value ev (group_values val gr'') p = val a)"
    using "4.IH"(1) [OF e(1,2), of "val a"] "4.prems" a by auto
  have ps: "groups_ok val gr' \<and> gr1 \<subseteq>\<^sub>m gr' \<and> (\<forall>p \<in> set ps. set (pattern_groups p) \<subseteq> dom gr') \<and>
    (\<forall>gr''. gr' \<subseteq>\<^sub>m gr'' \<longrightarrow>
      map (pattern_value ev (group_values val gr'')) ps = map val (take (length ps) as))"
    using "4.IH"(2) [OF e(1,2) refl _ e(3)] "4.prems" p by auto
  have "set (pattern_groups p) \<subseteq> dom gr'"
    using p ps map_le_implies_dom_le [of gr1 gr'] by blast
  then show ?case using p ps by (auto intro: map_le_trans)
qed auto


lemma findFirstMatch_loop_Some:
  "findFirstMatch_loop cls e rs = Inr (Some (r, gr)) \<Longrightarrow>
   r \<in> set rs \<and> matches cls (sr_pattern r) e Map.empty = Inr (True, gr) \<and> rule_feasible r (match_d gr)"
  by (induction rs) (auto simp: bindR_Inr_iff split: if_splits)

lemma findFirstMatch_Some:
  assumes "Rules = Inr tbl" "findFirstMatch tbl cls e = Inr (Some (r, gr))"
  shows "r \<in> set (rulesFor None)" "matches cls (sr_pattern r) e Map.empty = Inr (True, gr)"
    "rule_feasible r (match_d gr)"
proof -
  obtain i where "findFirstMatch_loop cls e (tbl i) = Inr (Some (r, gr))"
    using assms(2) by (auto simp: findFirstMatch_def bindR_Inr_iff split: option.splits)
  note r = findFirstMatch_loop_Some [OF this]
  show "r \<in> set (rulesFor None)" using Rules_mem [OF assms(1)] r by blast
  show "matches cls (sr_pattern r) e Map.empty = Inr (True, gr)" "rule_feasible r (match_d gr)"
    using r by blast+
qed

lemma groups_bound:
  assumes "r \<in> set (rulesFor v)"
  shows "set (pattern_groups (sr_action r (group_data b))) \<subseteq> set (pattern_groups (sr_pattern r))"
    "pattern_wf (sr_pattern r)" "p_matchGroup (sr_pattern r) = 0"
    "pattern_wf (sr_action r (group_data b))"
  using bspec [OF rulesFor_closed assms, of b b] by (auto simp: rule_closed_def)

text \<open>
  \<open>d()\<close> reads the constant of the matched item, which is the value of the group: on the groups of
  the pattern the two agree.
\<close>

lemma closed_agree:
  assumes r: "r \<in> set (rulesFor v)" and ok: "groups_ok val gr"
    and dom: "set (pattern_groups (sr_pattern r)) \<subseteq> dom gr"
  shows "sr_action r (match_d gr) = sr_action r (group_data (group_values val gr))"
    "rule_feasible r (match_d gr) = rule_feasible r (group_data (group_values val gr))"
proof -
  define b where "b g = match_d gr (setMatchGroup group_A g)" for g
  have d: "match_d gr = group_data b"
    by (simp add: fun_eq_iff b_def match_d_def group_data_def setMatchGroup_def)
  have "group_values val gr g = b g" if g: "g \<in> set (pattern_groups (sr_pattern r))" "g \<le> 3" for g
  proof -
    from g dom obtain e where e: "gr g = Some e" by blast
    then obtain it where "e_item e = Some it" "m_data it = val (e_id e)"
      using ok g(2) by (auto simp: groups_ok_def)
    with e show ?thesis by (simp add: b_def match_d_def setMatchGroup_def group_values_def)
  qed
  then show "sr_action r (match_d gr) = sr_action r (group_data (group_values val gr))"
    "rule_feasible r (match_d gr) = rule_feasible r (group_data (group_values val gr))"
    using bspec [OF rulesFor_closed r, of b "group_values val gr"] unfolding d rule_closed_def by auto
qed

context opcode_values
begin

lemma findFirstMatch_value:
  assumes "Rules = Inr tbl" "findFirstMatch tbl cls e = Inr (Some (r, gr))"
    and "consistent ev val cls" "item_value_ok ev val e v"
  shows "r \<in> set (rulesFor None)"
    and "\<exists>t. ExpressionTemplate gr loc (sr_action r (match_d gr)) = Inr t \<and> template_value ev val t = v"
    and "\<exists>b. sr_action r (match_d gr) = sr_action r (group_data b) \<and>
      set (pattern_groups (sr_action r (group_data b))) \<subseteq> dom gr"
proof -
  let ?b = "group_values val gr"
  note r = findFirstMatch_Some [OF assms(1,2)]
  show "r \<in> set (rulesFor None)" by (rule r(1))
  have "set (pattern_opcodes (sr_pattern r)) \<subseteq> rule_opcodes"
    using r(1) by (auto simp: rule_opcodes_def)
  then have m: "groups_ok val gr \<and> set (pattern_groups (sr_pattern r)) \<subseteq> dom gr \<and>
      pattern_value ev ?b (sr_pattern r) = v"
    using matches_sound(1) [OF r(2) assms(3) groups_bound(2) [OF r(1)] _ _ assms(4)]
      groups_bound(3) [OF r(1)] by (auto simp: groups_ok_def)
  then have d: "sr_action r (match_d gr) = sr_action r (group_data ?b)" "rule_feasible r (group_data ?b)"
    using closed_agree [OF r(1)] r(3) by auto
  have "pattern_value ev ?b (sr_action r (group_data ?b)) = v"
    using bspec [OF rulesFor_sound r(1)] d(2) m by (simp add: rule_sound_def)
  moreover have wf: "pattern_wf (sr_action r (group_data ?b))"
    "set (pattern_groups (sr_action r (group_data ?b))) \<subseteq> dom gr"
    using groups_bound(1,4) [OF r(1), of ?b] m by auto
  ultimately show "\<exists>t. ExpressionTemplate gr loc (sr_action r (match_d gr)) = Inr t \<and>
      template_value ev val t = v"
    unfolding d(1) using template_correct(1) by metis
  show "\<exists>b. sr_action r (match_d gr) = sr_action r (group_data b) \<and>
      set (pattern_groups (sr_action r (group_data b))) \<subseteq> dom gr"
    using d(1) wf(2) by blast
qed

end

section \<open>Properties\<close>

text \<open>
  C2: looking up a simplification for an expression is sound: if the classes have consistent
  values, the first matching rule, applied to what it matched, gives a template that is built
  without a failed assertion and whose value is the value of the expression.
\<close>

theorem findFirstMatch_sound:
  assumes "Rules = Inr tbl" "findFirstMatch tbl cls e = Inr (Some (r, gr))"
    and "consistent (evalValue keccak s) val cls" "item_value_ok (evalValue keccak s) val e v"
  shows "\<exists>t. ExpressionTemplate gr loc (sr_action r (match_d gr)) = Inr t \<and>
    template_value (evalValue keccak s) val t = v"
  using interp.findFirstMatch_value(2) [OF assms] by blast

theorem findFirstMatch_sound_witness:
  "\<forall>s. \<exists>t. ExpressionTemplate
       [1 \<mapsto> \<lparr>e_id = 0, e_item = Some (mkPush 5 noLocation), e_arguments = [], e_sequenceNumber = 0\<rparr>,
        2 \<mapsto> \<lparr>e_id = 1, e_item = Some (mkPush 7 noLocation), e_arguments = [], e_sequenceNumber = 0\<rparr>]
       noLocation (lit (5 + 7)) = Inr t \<and>
     template_value (evalValue (\<lambda>_. 0) s) (\<lambda>k. if k = 0 then 5 else 7) t = 12"
proof
  fix s
  let ?c0 = "\<lparr>e_id = 0, e_item = Some (mkPush 5 noLocation), e_arguments = [], e_sequenceNumber = 0\<rparr>"
  let ?c1 = "\<lparr>e_id = 1, e_item = Some (mkPush 7 noLocation), e_arguments = [], e_sequenceNumber = 0\<rparr>"
  let ?e = "\<lparr>e_id = 2, e_item = Some (mkOp ADD noLocation), e_arguments = [0, 1], e_sequenceNumber = 0\<rparr>"
  let ?r = "rule (inst ADD [group_A, group_B]) (\<lambda>d. lit (d group_A + d group_B)) False"
  let ?gr = "[1 \<mapsto> ?c0, 2 \<mapsto> ?c1]"
  let ?val = "\<lambda>k. if k = 0 then 5 else 7 :: u256" and ?ev = "evalValue (\<lambda>_. 0) s"
  obtain tbl where tbl: "Rules = Inr tbl" using Rules_table by blast
  have "matches [?c0, ?c1] (sr_pattern ?r) ?e Map.empty = Inr (True, ?gr)"
    by (simp add: inst_def group_A_def group_B_def setMatchGroup_def any_of_def matches.simps
        matchesBaseItem_def item_instruction_def mkOp_def mkPush_def mkItem_def representative_def)
  moreover obtain rs where "tbl ADD = ?r # rs"
    using tbl first_rule by (auto simp: Rules_table inst_def)
  ultimately have "findFirstMatch tbl [?c0, ?c1] ?e = Inr (Some (?r, ?gr))"
    by (simp add: findFirstMatch_def item_instruction_def mkOp_def)
  moreover have "consistent ?ev ?val [?c0, ?c1]"
    by (simp add: consistent_def item_value_ok_def mkPush_def mkItem_def less_Suc_eq)
  moreover have "item_value_ok ?ev ?val ?e 12"
    by (simp add: item_value_ok_def mkOp_def instructionInfo_eqs)
  ultimately show "\<exists>t. ExpressionTemplate ?gr noLocation (lit (5 + 7)) = Inr t \<and>
      template_value ?ev ?val t = 12"
    using findFirstMatch_sound [OF tbl, of "[?c0, ?c1]" ?e ?r ?gr "\<lambda>_. 0" s ?val 12 noLocation]
    by (simp add: match_d_def group_A_def group_B_def setMatchGroup_def mkPush_def mkItem_def)
qed

end
