(* ===== verification/AsmMachine.thy ===== *)
theory AsmMachine
  imports EVMInterpreter
begin

text \<open>
  The meaning of a list of assembly items: a stack machine over the opcode semantics of the
  instruction interpreter. It is the specification the assembly optimisations are proved
  against. What the assembler decides later, the values of tags, sub-assemblies, data and
  libraries, is the parameter \<open>pushed_value\<close>, and what assigning an immutable stores the
  parameter \<open>assign_immutable\<close>. A jump goes to the tag whose value is on the stack;
  running past the end stops the execution.
\<close>

section \<open>Steps\<close>

record machine_env =
  hash :: "bytes \<Rightarrow> u256"
  pushed_value :: "assembly_item_type \<Rightarrow> u256 \<Rightarrow> u256"
  assign_immutable :: "u256 \<Rightarrow> u256 \<Rightarrow> interpreter_state \<Rightarrow> interpreter_state"

datatype step_result =
    Continue "u256 list" interpreter_state
  | Jump u256 "u256 list" interpreter_state
  | Halt interpreter_exc interpreter_state
  | Fail

definition op_step ::
  "machine_env \<Rightarrow> instruction \<Rightarrow> u256 list \<Rightarrow> interpreter_state \<Rightarrow> step_result" where
  "op_step env i stk s =
     (if isPushInstruction i then Fail
      else if isDupInstruction i then
        (let n = unat (getDupNumber i)
         in if n \<le> length stk then Continue (stk ! (n - 1) # stk) s else Fail)
      else if isSwapInstruction i then
        (let n = unat (getSwapNumber i)
         in if n < length stk then Continue (stk[0 := stk ! n, n := stk ! 0]) s else Fail)
      else if i = JUMPDEST then Continue stk s
      else if i = JUMP then (case stk of d # r \<Rightarrow> Jump d r s | [] \<Rightarrow> Fail)
      else if i = JUMPI then
        (case stk of d # c # r \<Rightarrow> if c \<noteq> 0 then Jump d r s else Continue r s | _ \<Rightarrow> Fail)
      else if \<not> isValidInstruction i \<or> length stk < ii_args (instructionInfo i) then Fail
      else
        let n = ii_args (instructionInfo i)
        in case eval (hash env) i (take n stk) s of
             (Inr v, s') \<Rightarrow>
               Continue (if ii_ret (instructionInfo i) = 0 then drop n stk else v # drop n stk) s'
           | (Inl e, s') \<Rightarrow> if e = YulAssertionFailed then Fail else Halt e s')"

definition item_step ::
  "machine_env \<Rightarrow> assembly_item \<Rightarrow> u256 list \<Rightarrow> interpreter_state \<Rightarrow> step_result" where
  "item_step env it stk s =
     (if m_type it = Operation then op_step env (m_instruction it) stk s
      else if m_type it = Push then Continue (m_data it # stk) s
      else if m_type it = Tag then Continue stk s
      else if m_type it = AssignImmutable then
        (case stk of
           v # r \<Rightarrow> Continue r (assign_immutable env (m_data it) v s)
         | [] \<Rightarrow> Fail)
      else if m_type it = UndefinedItem then Fail
      else Continue (pushed_value env (m_type it) (m_data it) # stk) s)"

section \<open>Executions\<close>

fun find_tag :: "machine_env \<Rightarrow> assembly_items \<Rightarrow> u256 \<Rightarrow> assembly_items option" where
  "find_tag env [] d = None"
| "find_tag env (it # rest) d =
     (if m_type it = Tag \<and> pushed_value env PushTag (m_data it) = d then Some (it # rest)
      else find_tag env rest d)"

datatype exec_result =
    Timeout
  | Stuck
  | Halted interpreter_exc interpreter_state

text \<open>\<open>prog\<close> is the whole program, in which jumps look for their tag; \<open>fuel\<close> bounds the steps.\<close>

fun run ::
  "machine_env \<Rightarrow> assembly_items \<Rightarrow> nat \<Rightarrow> assembly_items \<Rightarrow> u256 list \<Rightarrow> interpreter_state \<Rightarrow> exec_result" where
  "run env prog 0 items stk s = Timeout"
| "run env prog (Suc n) [] stk s = Halted ExplicitlyTerminated s"
| "run env prog (Suc n) (it # rest) stk s =
     (case item_step env it stk s of
        Continue stk' s' \<Rightarrow> run env prog n rest stk' s'
      | Jump d stk' s' \<Rightarrow>
          (case find_tag env prog d of
             Some target \<Rightarrow> run env prog n target stk' s'
           | None \<Rightarrow> Stuck)
      | Halt e s' \<Rightarrow> Halted e s'
      | Fail \<Rightarrow> Stuck)"

text \<open>The execution reaches an outcome: with enough fuel the machine halts, and not by failing.\<close>

definition executes ::
  "machine_env \<Rightarrow> assembly_items \<Rightarrow> assembly_items \<Rightarrow> u256 list \<Rightarrow> interpreter_state \<Rightarrow>
   interpreter_exc \<Rightarrow> interpreter_state \<Rightarrow> bool" where
  "executes env prog items stk s e s' \<longleftrightarrow> (\<exists>n. run env prog n items stk s = Halted e s')"

section \<open>Basic facts\<close>

lemma run_more_fuel: "run env prog n items stk s = Halted e s' \<Longrightarrow> n \<le> m \<Longrightarrow> run env prog m items stk s = Halted e s'"
proof (induction env prog n items stk s arbitrary: m rule: run.induct)
  case (2 env prog n stk s)
  then show ?case by (cases m) auto
next
  case (3 env prog n it rest stk s)
  then obtain k where k: "m = Suc k" "n \<le> k" by (cases m) auto
  show ?case
  proof (cases "item_step env it stk s")
    case (Jump d stk1 s1)
    then obtain t where t: "find_tag env prog d = Some t" "run env prog n t stk1 s1 = Halted e s'"
      using "3.prems"(1) by (auto split: option.splits)
    then have "run env prog k t stk1 s1 = Halted e s'" using "3.IH"(2) [OF Jump t] k by simp
    then show ?thesis using Jump t k by simp
  next
    case (Continue stk1 s1)
    then show ?thesis using "3.IH"(1) [OF Continue, of k] "3.prems"(1) k by simp
  next
    case (Halt e1 s1)
    then show ?thesis using "3.prems"(1) k by simp
  next
    case Fail
    then show ?thesis using "3.prems"(1) by simp
  qed
qed simp

lemma executes_deterministic:
  assumes "executes env prog items stk s e1 s1" "executes env prog items stk s e2 s2"
  shows "e1 = e2 \<and> s1 = s2"
proof -
  obtain n1 n2 where "run env prog n1 items stk s = Halted e1 s1"
    "run env prog n2 items stk s = Halted e2 s2" using assms by (auto simp: executes_def)
  then have "run env prog (max n1 n2) items stk s = Halted e1 s1"
    "run env prog (max n1 n2) items stk s = Halted e2 s2" by (auto intro: run_more_fuel)
  then show ?thesis by simp
qed

lemma executes_Nil [simp]: "executes env prog [] stk s e s' \<longleftrightarrow> e = ExplicitlyTerminated \<and> s' = s"
proof
  assume "executes env prog [] stk s e s'"
  then obtain n where "run env prog n [] stk s = Halted e s'" by (auto simp: executes_def)
  then show "e = ExplicitlyTerminated \<and> s' = s" by (cases n) auto
next
  assume "e = ExplicitlyTerminated \<and> s' = s"
  then have "run env prog 1 [] stk s = Halted e s'" by simp
  then show "executes env prog [] stk s e s'" unfolding executes_def by blast
qed

lemma executes_Cons:
  "executes env prog (it # rest) stk s e s' \<longleftrightarrow>
     (case item_step env it stk s of
        Continue stk1 s1 \<Rightarrow> executes env prog rest stk1 s1 e s'
      | Jump d stk1 s1 \<Rightarrow> (\<exists>target. find_tag env prog d = Some target \<and> executes env prog target stk1 s1 e s')
      | Halt e1 s1 \<Rightarrow> e1 = e \<and> s1 = s'
      | Fail \<Rightarrow> False)" (is "?l \<longleftrightarrow> ?r")
proof
  assume ?l
  then obtain n where "run env prog n (it # rest) stk s = Halted e s'" by (auto simp: executes_def)
  then show ?r by (cases n) (auto simp: executes_def split: step_result.splits option.splits)
next
  assume r: ?r
  show ?l
  proof (cases "item_step env it stk s")
    case (Continue stk1 s1)
    then obtain n where "run env prog n rest stk1 s1 = Halted e s'" using r by (auto simp: executes_def)
    then have "run env prog (Suc n) (it # rest) stk s = Halted e s'" using Continue by simp
    then show ?thesis unfolding executes_def by blast
  next
    case (Jump d stk1 s1)
    then obtain target n where "find_tag env prog d = Some target"
      "run env prog n target stk1 s1 = Halted e s'" using r by (auto simp: executes_def)
    then have "run env prog (Suc n) (it # rest) stk s = Halted e s'" using Jump by simp
    then show ?thesis unfolding executes_def by blast
  next
    case (Halt e1 s1)
    then have "run env prog (Suc 0) (it # rest) stk s = Halted e s'" using r by simp
    then show ?thesis unfolding executes_def by blast
  next
    case Fail
    then show ?thesis using r by simp
  qed
qed

lemma run_Cons:
  "run env prog n (it # rest) stk s = Halted e s' \<longleftrightarrow>
     (\<exists>k. n = Suc k \<and>
       (case item_step env it stk s of
          Continue stk1 s1 \<Rightarrow> run env prog k rest stk1 s1 = Halted e s'
        | Jump d stk1 s1 \<Rightarrow>
            (\<exists>target. find_tag env prog d = Some target \<and> run env prog k target stk1 s1 = Halted e s')
        | Halt e1 s1 \<Rightarrow> e1 = e \<and> s1 = s'
        | Fail \<Rightarrow> False))"
  by (cases n) (auto split: step_result.splits option.splits)

section \<open>Steps of particular items\<close>

lemma item_step_mkOp [simp]: "item_step env (mkOp i loc) stk s = op_step env i stk s"
  by (simp add: item_step_def mkOp_def)

lemma item_step_op: "item_is it i \<Longrightarrow> item_step env it stk s = op_step env i stk s"
  by (simp add: item_step_def item_is_def)


section \<open>Opcodes without effects\<close>

definition effectful_opcodes :: "instruction list" where
  "effectful_opcodes =
     [KECCAK256, CALLDATACOPY, CODECOPY, EXTCODECOPY, RETURNDATACOPY, MLOAD, MSTORE, MSTORE8, SSTORE,
      LOG0, LOG1, LOG2, LOG3, LOG4, STOP, CREATE, CREATE2, CALL, CALLCODE, DELEGATECALL, STATICCALL,
      RETURN, REVERT, INVALID, SELFDESTRUCT]"

lemma eval_parts_pure:
  assumes "i \<notin> set effectful_opcodes"
  shows "eval_blockchain k i args s = None \<or> (\<exists>v. eval_blockchain k i args s = Some (Inr v, s))"
    "eval_memory i args s = None \<or> (\<exists>v. eval_memory i args s = Some (Inr v, s))"
    "eval_calls i args s = None \<or> (\<exists>v. eval_calls i args s = Some (Inr v, s))"
  using assms unfolding effectful_opcodes_def
  by (simp_all add: eval_blockchain_def eval_memory_def eval_calls_def)

lemma eval_pure:
  assumes "i \<notin> set effectful_opcodes"
  shows "fst (eval k i args s) = Inl YulAssertionFailed \<or> (\<exists>v. eval k i args s = (Inr v, s))"
  using eval_parts_pure(1) [OF assms, of k args s] eval_parts_pure(2,3) [OF assms, of args s]
  by (auto simp: eval_def split: option.splits)

lemma effectful_info:
  "\<forall>i \<in> set effectful_opcodes. ii_sideEffects (instructionInfo i) \<or> ii_ret (instructionInfo i) \<noteq> 1"
  by (simp add: effectful_opcodes_def instructionInfo_eqs)

lemma eval_without_sideEffects:
  assumes "ii_ret (instructionInfo i) = 1" "\<not> ii_sideEffects (instructionInfo i)"
  shows "fst (eval k i args s) = Inl YulAssertionFailed \<or> (\<exists>v. eval k i args s = (Inr v, s))"
proof (rule eval_pure)
  show "i \<notin> set effectful_opcodes" using bspec [OF effectful_info, of i] assms by blast
qed

lemma eval_POP: "eval k POP [x] s = (Inr 0, s)"
  by (simp add: eval_def eval_signals_def eval_arithmetic_def eval_blockchain_def eval_memory_def
      eval_calls_def instructionInfo_eqs)

lemma op_step_POP:
  "op_step env POP stk s = (case stk of x # r \<Rightarrow> Continue r s | [] \<Rightarrow> Fail)"
  by (simp add: op_step_def isPushInstruction_def isDupInstruction_def isSwapInstruction_def
      instructionInfo_eqs eval_POP split: list.split)


section \<open>Steps of opcodes\<close>

lemma op_step_dup:
  assumes "isDupInstruction i"
  shows "op_step env i stk s =
    (if unat i - 127 \<le> length stk then Continue (stk ! (unat i - 128) # stk) s else Fail)"
proof -
  have "\<not> isPushInstruction i" "unat (getDupNumber i) = unat i - 127" "unat i - 127 - 1 = unat i - 128"
    using assms by (simp_all add: group_ranges group_numbers)
  then show ?thesis using assms by (simp add: op_step_def Let_def)
qed

lemma op_step_swap:
  assumes "isSwapInstruction i"
  shows "op_step env i stk s =
    (if unat i - 143 < length stk
     then Continue (stk[0 := stk ! (unat i - 143), unat i - 143 := stk ! 0]) s else Fail)"
proof -
  have "\<not> isPushInstruction i" "\<not> isDupInstruction i" "unat (getSwapNumber i) = unat i - 143"
    using assms by (simp_all add: group_ranges group_numbers)
  then show ?thesis using assms by (simp add: op_step_def Let_def)
qed

lemma op_step_DUP1:
  "op_step env DUP1 stk s = (case stk of x # r \<Rightarrow> Continue (x # x # r) s | [] \<Rightarrow> Fail)"
  by (subst op_step_dup) (auto simp: isDupInstruction_def split: list.split)

lemma op_step_SWAP1:
  "op_step env SWAP1 stk s = (case stk of x # y # r \<Rightarrow> Continue (y # x # r) s | _ \<Rightarrow> Fail)"
  by (subst op_step_swap) (auto simp: isSwapInstruction_def split: list.split)

text \<open>An opcode that is neither a stack nor a jump opcode runs through the interpreter.\<close>

definition evaluated :: "instruction \<Rightarrow> bool" where
  "evaluated i \<longleftrightarrow> isValidInstruction i \<and> \<not> isPushInstruction i \<and> \<not> isDupInstruction i \<and>
     \<not> isSwapInstruction i \<and> i \<noteq> JUMPDEST \<and> i \<noteq> JUMP \<and> i \<noteq> JUMPI"

lemma op_step_evaluated:
  "evaluated i \<Longrightarrow> op_step env i stk s =
     (let n = ii_args (instructionInfo i)
      in if length stk < n then Fail
         else case eval (hash env) i (take n stk) s of
             (Inr v, s') \<Rightarrow>
               Continue (if ii_ret (instructionInfo i) = 0 then drop n stk else v # drop n stk) s'
           | (Inl e, s') \<Rightarrow> if e = YulAssertionFailed then Fail else Halt e s')"
  by (simp add: evaluated_def op_step_def Let_def)

lemma op_step_unary:
  assumes "evaluated i" "ii_args (instructionInfo i) = 1" "ii_ret (instructionInfo i) = 1"
    and "\<And>a. eval_arithmetic i [a] = Some (f a)"
  shows "op_step env i stk s = (case stk of a # r \<Rightarrow> Continue (f a # r) s | _ \<Rightarrow> Fail)"
  using assms eval_of_arithmetic [OF assms(4)]
  by (simp add: op_step_evaluated split: list.split)

lemma op_step_binary:
  assumes "evaluated i" "ii_args (instructionInfo i) = 2" "ii_ret (instructionInfo i) = 1"
    and "\<And>a b. eval_arithmetic i [a, b] = Some (f a b)"
  shows "op_step env i stk s = (case stk of a # b # r \<Rightarrow> Continue (f a b # r) s | _ \<Rightarrow> Fail)"
  using assms eval_of_arithmetic [OF assms(4)]
  by (simp add: op_step_evaluated split: list.split)

lemma op_step_arithmetic:
  "op_step env ADD stk s = (case stk of a # b # r \<Rightarrow> Continue ((a + b) # r) s | _ \<Rightarrow> Fail)"
  "op_step env MUL stk s = (case stk of a # b # r \<Rightarrow> Continue ((a * b) # r) s | _ \<Rightarrow> Fail)"
  "op_step env SUB stk s = (case stk of a # b # r \<Rightarrow> Continue ((a - b) # r) s | _ \<Rightarrow> Fail)"
  "op_step env EXP stk s = (case stk of a # b # r \<Rightarrow> Continue (exp256 a b # r) s | _ \<Rightarrow> Fail)"
  "op_step env EQ stk s = (case stk of a # b # r \<Rightarrow> Continue (truth (a = b) # r) s | _ \<Rightarrow> Fail)"
  "op_step env LT stk s = (case stk of a # b # r \<Rightarrow> Continue (truth (a < b) # r) s | _ \<Rightarrow> Fail)"
  "op_step env GT stk s = (case stk of a # b # r \<Rightarrow> Continue (truth (a > b) # r) s | _ \<Rightarrow> Fail)"
  "op_step env SLT stk s = (case stk of a # b # r \<Rightarrow> Continue (truth (u2s a < u2s b) # r) s | _ \<Rightarrow> Fail)"
  "op_step env SGT stk s = (case stk of a # b # r \<Rightarrow> Continue (truth (u2s a > u2s b) # r) s | _ \<Rightarrow> Fail)"
  "op_step env AND' stk s = (case stk of a # b # r \<Rightarrow> Continue ((a AND b) # r) s | _ \<Rightarrow> Fail)"
  "op_step env OR' stk s = (case stk of a # b # r \<Rightarrow> Continue ((a OR b) # r) s | _ \<Rightarrow> Fail)"
  "op_step env XOR' stk s = (case stk of a # b # r \<Rightarrow> Continue ((a XOR b) # r) s | _ \<Rightarrow> Fail)"
  by (rule op_step_binary; simp add: evaluated_def instructionInfo_eqs eval_arithmetic_simps
      group_ranges)+

lemma op_step_NOT_ISZERO:
  "op_step env NOT' stk s = (case stk of a # r \<Rightarrow> Continue (NOT a # r) s | _ \<Rightarrow> Fail)"
  "op_step env ISZERO stk s = (case stk of a # r \<Rightarrow> Continue (truth (a = 0) # r) s | _ \<Rightarrow> Fail)"
  by (rule op_step_unary; simp add: evaluated_def instructionInfo_eqs eval_arithmetic_simps
      group_ranges)+

lemma op_step_JUMPI:
  "op_step env JUMPI stk s =
     (case stk of d # c # r \<Rightarrow> if c \<noteq> 0 then Jump d r s else Continue r s | _ \<Rightarrow> Fail)"
  "op_step env JUMP stk s = (case stk of d # r \<Rightarrow> Jump d r s | [] \<Rightarrow> Fail)"
  by (simp_all add: op_step_def isPushInstruction_def isDupInstruction_def isSwapInstruction_def)

lemmas op_steps =
  op_step_POP op_step_DUP1 op_step_SWAP1 op_step_arithmetic op_step_NOT_ISZERO op_step_JUMPI

end
