(* ===== verification/AsmWindows.thy ===== *)
theory AsmWindows
  imports AsmMachine
begin

text \<open>
  Replacing windows of an assembly program. An optimisation that goes through the items from left
  to right and replaces some consecutive items at each position is correct on whole programs when
  each replacement is: the contract \<open>window_ok\<close> says what that means for one window, \<open>aligned\<close>
  that the output consists of such replacements, and the main lemma lifts it to executions, jumps
  included.
\<close>

section \<open>Sound replacements\<close>

text \<open>
  What the optimiser relies on in an assembly: no two tags have the same value, and tag values
  fit 32 bits (the tag conjunctions assume it).
\<close>

definition program_ok :: "machine_env \<Rightarrow> assembly_items \<Rightarrow> bool" where
  "program_ok env prog \<longleftrightarrow>
     (\<forall>it \<in> set prog. m_type it = PushTag \<longrightarrow> pushed_value env PushTag (m_data it) < 2 ^ 32) \<and>
     distinct (map (\<lambda>it. pushed_value env PushTag (m_data it)) (filter (\<lambda>it. m_type it = Tag) prog))"

text \<open>Executions of up to \<open>k\<close> steps are preserved from \<open>items\<close> to \<open>items'\<close>.\<close>

definition preserved ::
  "machine_env \<Rightarrow> assembly_items \<Rightarrow> assembly_items \<Rightarrow> nat \<Rightarrow> assembly_items \<Rightarrow> assembly_items \<Rightarrow> bool" where
  "preserved env prog prog' k items items' \<longleftrightarrow>
     (\<forall>j < k. \<forall>stk s e s'. run env prog j items stk s = Halted e s' \<longrightarrow>
        executes env prog' items' stk s e s')"

definition tag_free :: "assembly_items \<Rightarrow> bool" where
  "tag_free items \<longleftrightarrow> (\<forall>it \<in> set items. m_type it \<noteq> Tag)"

text \<open>
  Replacing the first \<open>n\<close> items of \<open>items\<close> by \<open>out\<close> is sound: the new items are items of the
  window, operations or pushes of constants and data, a tag is kept at the end of the window or not touched at all, and every execution of the old items is one of the new items,
  provided that the executions of the rest of the program and from all jump targets are preserved.
\<close>

definition from_window :: "assembly_items \<Rightarrow> assembly_items \<Rightarrow> bool" where
  "from_window w out \<longleftrightarrow> (\<forall>it \<in> set out. it \<in> set w \<or> m_type it \<in> {Operation, Push, PushData})"

definition window_ok :: "assembly_items \<Rightarrow> nat \<Rightarrow> assembly_items \<Rightarrow> bool" where
  "window_ok items n out \<longleftrightarrow>
     0 < n \<and> n \<le> length items \<and> from_window (take n items) out \<and>
     (\<exists>a a' ts. take n items = a @ ts \<and> out = a' @ ts \<and> tag_free a \<and> tag_free a' \<and> length ts \<le> 1) \<and>
     (\<forall>env pre prog' rest' k stk s e s'.
        program_ok env (pre @ items) \<longrightarrow>
        preserved env (pre @ items) prog' k (drop n items) rest' \<longrightarrow>
        (\<forall>d t. find_tag env (pre @ items) d = Some t \<longrightarrow>
           (\<exists>t'. find_tag env prog' d = Some t' \<and> preserved env (pre @ items) prog' k t t')) \<longrightarrow>
        run env (pre @ items) k items stk s = Halted e s' \<longrightarrow>
        executes env prog' (out @ rest') stk s e s')"

text \<open>
  A window that contains no tag and does not jump is sound when its steps, run as one straight
  sequence, do what the steps of the replacement do.
\<close>

fun steps :: "machine_env \<Rightarrow> assembly_items \<Rightarrow> u256 list \<Rightarrow> interpreter_state \<Rightarrow> step_result" where
  "steps env [] stk s = Continue stk s"
| "steps env (it # items) stk s =
     (case item_step env it stk s of Continue stk' s' \<Rightarrow> steps env items stk' s' | r \<Rightarrow> r)"

text \<open>One jump, as the last of the steps, is allowed.\<close>

lemma run_steps:
  assumes "run env prog k (w @ rest) stk s = Halted e s'"
  shows "(case steps env w stk s of
      Continue stk1 s1 \<Rightarrow> \<exists>j. run env prog j rest stk1 s1 = Halted e s' \<and> (w = [] \<or> j < k) \<and> j \<le> k
    | Jump d stk1 s1 \<Rightarrow> \<exists>t j. find_tag env prog d = Some t \<and> run env prog j t stk1 s1 = Halted e s' \<and> j < k
    | Halt e1 s1 \<Rightarrow> e1 = e \<and> s1 = s'
    | Fail \<Rightarrow> False)"
  using assms
proof (induction w arbitrary: k stk s)
  case (Cons it w)
  from Cons.prems obtain j where k: "k = Suc j" and c: "case item_step env it stk s of
      Continue stk1 s1 \<Rightarrow> run env prog j (w @ rest) stk1 s1 = Halted e s'
    | Jump d stk1 s1 \<Rightarrow> \<exists>t. find_tag env prog d = Some t \<and> run env prog j t stk1 s1 = Halted e s'
    | Halt e1 s1 \<Rightarrow> e1 = e \<and> s1 = s' | Fail \<Rightarrow> False"
    by (auto simp: run_Cons)
  show ?case
  proof (cases "item_step env it stk s")
    case (Continue stk1 s1)
    then have "run env prog j (w @ rest) stk1 s1 = Halted e s'" using c by simp
    from Cons.IH [OF this] show ?thesis using Continue k
      by (auto split: step_result.splits intro: less_SucI le_imp_less_Suc less_imp_le)
  next
    case (Jump d stk1 s1)
    then show ?thesis using c k by auto
  qed (use c in auto)
qed auto

lemma executes_steps:
  "executes env prog (w @ rest) stk s e s' \<longleftrightarrow>
     (case steps env w stk s of
        Continue stk1 s1 \<Rightarrow> executes env prog rest stk1 s1 e s'
      | Jump d stk1 s1 \<Rightarrow> (\<exists>t. find_tag env prog d = Some t \<and> executes env prog t stk1 s1 e s')
      | Halt e1 s1 \<Rightarrow> e1 = e \<and> s1 = s'
      | Fail \<Rightarrow> False)"
proof (induction w arbitrary: stk s)
  case (Cons it w)
  then show ?case by (cases "item_step env it stk s") (simp_all add: executes_Cons)
qed simp

text \<open>
  The steps of the replacement refine those of the window: they agree unless the window fails.
\<close>

definition steps_refine :: "machine_env \<Rightarrow> assembly_items \<Rightarrow> assembly_items \<Rightarrow> bool" where
  "steps_refine env w out \<longleftrightarrow>
     (\<forall>stk s. steps env w stk s \<noteq> Fail \<longrightarrow> steps env out stk s = steps env w stk s)"

lemma window_ok_straight:
  assumes w: "w = take n items" "0 < n" "n \<le> length items"
    and tags: "tag_free w" "from_window w out"
    and refine: "\<And>env. (\<forall>it \<in> set w. m_type it = PushTag \<longrightarrow> pushed_value env PushTag (m_data it) < 2 ^ 32) \<Longrightarrow>
      steps_refine env w out"
  shows "window_ok items n out"
  unfolding window_ok_def
proof (intro conjI allI impI)
  show "\<exists>a a' ts. take n items = a @ ts \<and> out = a' @ ts \<and> tag_free a \<and> tag_free a' \<and> length ts \<le> 1"
    using w tags
    by (intro exI [of _ w] exI [of _ out] exI [of _ "[]"]) (auto simp: tag_free_def from_window_def)
next
  fix env pre prog' rest' k stk s e s'
  assume prog: "program_ok env (pre @ items)"
    and rest: "preserved env (pre @ items) prog' k (drop n items) rest'"
    and jumps: "\<forall>d t. find_tag env (pre @ items) d = Some t \<longrightarrow>
      (\<exists>t'. find_tag env prog' d = Some t' \<and> preserved env (pre @ items) prog' k t t')"
    and run: "run env (pre @ items) k items stk s = Halted e s'"
  have items: "items = w @ drop n items" and "w \<noteq> []" using w by auto
  have "steps_refine env w out"
    using prog w(1) by (intro refine) (auto simp: program_ok_def dest: in_set_takeD)
  moreover have r: "run env (pre @ items) k (w @ drop n items) stk s = Halted e s'"
    using run items by simp
  ultimately have eq: "steps env out stk s = steps env w stk s"
    using run_steps [OF r] by (cases "steps env w stk s") (auto simp: steps_refine_def)
  show "executes env prog' (out @ rest') stk s e s'"
    unfolding executes_steps eq
    using run_steps [OF r] \<open>w \<noteq> []\<close> rest jumps
    by (fastforce simp: preserved_def split: step_result.splits)
qed (use w tags in auto)


section \<open>Steps of particular items\<close>

lemma item_is_step [simp]: "item_is it i \<Longrightarrow> item_step env it stk s = op_step env i stk s"
  by (simp add: item_step_def item_is_def)

lemma item_is_type: "item_is it i \<Longrightarrow> m_type it = Operation"
  by (simp add: item_is_def)

lemma item_step_Push: "m_type it = Push \<Longrightarrow> item_step env it stk s = Continue (m_data it # stk) s"
  by (simp add: item_step_def)

lemma item_step_PushTag:
  "m_type it = PushTag \<Longrightarrow> item_step env it stk s = Continue (pushed_value env PushTag (m_data it) # stk) s"
  by (simp add: item_step_def)

lemma item_step_Tag: "m_type it = Tag \<Longrightarrow> item_step env it stk s = Continue stk s"
  by (simp add: item_step_def)

lemma item_step_dup:
  "item_isDup it \<Longrightarrow> item_step env it stk s =
     (let n = unat (m_instruction it) - 127
      in if n \<le> length stk then Continue (stk ! (n - 1) # stk) s else Fail)"
  by (auto simp: item_isDup_def item_step_def op_step_dup Let_def split: if_splits)

definition swap_top :: "nat \<Rightarrow> u256 list \<Rightarrow> u256 list" where
  "swap_top n xs = xs[0 := xs ! n, n := xs ! 0]"

lemma length_swap_top [simp]: "length (swap_top n xs) = length xs"
  by (simp add: swap_top_def)

lemma nth_swap_top:
  assumes "n < length xs" "i < length xs"
  shows "swap_top n xs ! i = (if i = n then xs ! 0 else if i = 0 then xs ! n else xs ! i)"
proof -
  have "0 < length xs" using assms(2) by linarith
  with assms show ?thesis by (simp add: swap_top_def nth_list_update)
qed

lemma swap_top_twice:
  assumes "n < length xs"
  shows "swap_top n (swap_top n xs) = xs"
proof (rule nth_equalityI)
  fix i assume "i < length (swap_top n (swap_top n xs))"
  then have "i < length xs" "0 < length xs" using assms by auto
  with assms show "swap_top n (swap_top n xs) ! i = xs ! i" by (simp add: nth_swap_top)
qed simp

lemma item_step_swap:
  "item_isSwap it \<Longrightarrow> item_step env it stk s =
     (let n = unat (m_instruction it) - 143
      in if n < length stk then Continue (swap_top n stk) s else Fail)"
  by (auto simp: item_isSwap_def item_step_def op_step_swap Let_def swap_top_def split: if_splits)

section \<open>Tags\<close>

lemma find_tag_unique:
  assumes "program_ok env (pre @ tag # rest)" "m_type tag = Tag"
  shows "find_tag env (pre @ tag # rest) (pushed_value env PushTag (m_data tag)) = Some (tag # rest)"
  using assms
proof (induction pre)
  case (Cons it pre)
  then have "program_ok env (pre @ tag # rest)" by (auto simp: program_ok_def split: if_splits)
  moreover have "\<not> (m_type it = Tag \<and> pushed_value env PushTag (m_data it) = pushed_value env PushTag (m_data tag))"
    using Cons.prems by (auto simp: program_ok_def split: if_splits)
  ultimately show ?case using Cons by auto
qed simp

lemma executes_tag: "m_type tag = Tag \<Longrightarrow> executes env prog (tag # rest) stk s e s' \<longleftrightarrow> executes env prog rest stk s e s'"
  by (simp add: executes_Cons item_step_Tag)

lemma run_tag:
  "m_type tag = Tag \<Longrightarrow> run env prog k (tag # rest) stk s = Halted e s' \<Longrightarrow>
   \<exists>j < k. run env prog j rest stk s = Halted e s'"
  by (auto simp: run_Cons item_step_Tag)

section \<open>Sequences of windows\<close>

text \<open>The output is made of sound replacements of consecutive windows.\<close>

inductive aligned :: "assembly_items \<Rightarrow> assembly_items \<Rightarrow> bool" where
  aligned_Nil: "aligned [] []"
| aligned_window:
    "window_ok items n out \<Longrightarrow> aligned (drop n items) rest' \<Longrightarrow> aligned items (out @ rest')"

inductive_cases aligned_ConsE: "aligned (it # items) out"

lemma find_tag_append:
  "tag_free a \<Longrightarrow> find_tag env (a @ b) d = find_tag env b d"
  by (induction a) (auto simp: tag_free_def)

text \<open>A tag of the program is still there, followed by the optimised form of what followed it.\<close>

lemma aligned_find_tag:
  "aligned items items' \<Longrightarrow> find_tag env items d = Some t \<Longrightarrow>
   \<exists>it r r'. t = it # r \<and> m_type it = Tag \<and> find_tag env items' d = Some (it # r') \<and> aligned r r' \<and>
     (\<exists>pre. items = pre @ it # r)"
proof (induction rule: aligned.induct)
  case (aligned_window items n out rest')
  obtain a a' ts where w: "take n items = a @ ts" "out = a' @ ts" "tag_free a" "tag_free a'" "length ts \<le> 1"
    using aligned_window.hyps(1) by (auto simp: window_ok_def)
  then have items: "items = a @ ts @ drop n items" by (metis append.assoc append_take_drop_id)
  have find: "find_tag env (ts @ drop n items) d = Some t"
    using aligned_window.prems w(3) items by (metis find_tag_append)
  show ?case
  proof (cases "tag_free ts")
    case True
    then have "find_tag env (drop n items) d = Some t" using find by (simp add: find_tag_append)
    from aligned_window.IH [OF this] obtain it r r' pre where t: "t = it # r" "m_type it = Tag"
      "find_tag env rest' d = Some (it # r')" "aligned r r'" "drop n items = pre @ it # r" by blast
    moreover have "tag_free out" using w True by (auto simp: tag_free_def)
    moreover have "items = (a @ ts @ pre) @ it # r" using items t(5) by simp
    ultimately show ?thesis by (auto simp: find_tag_append)
  next
    case False
    then obtain it where it: "ts = [it]" "m_type it = Tag"
      using w(5) by (cases ts) (auto simp: tag_free_def)
    show ?thesis
    proof (cases "pushed_value env PushTag (m_data it) = d")
      case True
      then have "t = it # drop n items" using find it by simp
      then show ?thesis
        using True it w(2,4) items aligned_window.hyps(2) by (auto simp: find_tag_append)
    next
      case False
      then have "find_tag env (drop n items) d = Some t" using find it by simp
      from aligned_window.IH [OF this] obtain jt r r' pre where t: "t = jt # r" "m_type jt = Tag"
        "find_tag env rest' d = Some (jt # r')" "aligned r r'" "drop n items = pre @ jt # r" by blast
      moreover have "items = (a @ ts @ pre) @ jt # r" using items t(5) by simp
      ultimately show ?thesis using False it w(2,4) by (auto simp: find_tag_append)
    qed
  qed
qed simp

lemma aligned_run:
  assumes prog: "program_ok env prog" "aligned prog prog'"
  shows "aligned items items' \<Longrightarrow> prog = pre @ items \<Longrightarrow> run env prog k items stk s = Halted e s' \<Longrightarrow>
    executes env prog' items' stk s e s'"
proof (induction k arbitrary: items items' pre stk s e s' rule: less_induct)
  case (less k)
  have tags: "\<exists>t'. find_tag env prog' d = Some t' \<and> preserved env prog prog' k t t'"
    if target: "find_tag env prog d = Some t" for d t
  proof -
    obtain it r r' pre' where t: "t = it # r" "m_type it = Tag" "find_tag env prog' d = Some (it # r')"
      "aligned r r'" "prog = pre' @ it # r"
      using aligned_find_tag [OF prog(2) target] by blast
    have "executes env prog' (it # r') stk s e s'"
      if j: "j < k" "run env prog j (it # r) stk s = Halted e s'" for j stk s e s'
    proof -
      obtain i where "i < j" "run env prog i r stk s = Halted e s'" using run_tag [OF t(2) j(2)] by blast
      then have "executes env prog' r' stk s e s'"
        using less.IH [of i r r' "pre' @ [it]"] t(4,5) j(1) by simp
      then show ?thesis using executes_tag [OF t(2)] by simp
    qed
    then show ?thesis using t(1,3) by (auto simp: preserved_def)
  qed
  from less.prems(1) show ?case
  proof cases
    case aligned_Nil
    then show ?thesis using less.prems(3) by (cases k) auto
  next
    case (aligned_window n out rest')
    have "preserved env prog prog' k (drop n items) rest'"
      unfolding preserved_def
    proof (intro allI impI)
      fix j stk s e s'
      assume "j < k" "run env prog j (drop n items) stk s = Halted e s'"
      moreover have "prog = (pre @ take n items) @ drop n items" using less.prems(2) by simp
      ultimately show "executes env prog' rest' stk s e s'"
        using less.IH aligned_window(3) by blast
    qed
    then show ?thesis
      using aligned_window(1,2) tags prog(1) less.prems(2,3) by (simp add: window_ok_def)
  qed
qed

lemma aligned_items:
  "aligned items items' \<Longrightarrow> it \<in> set items' \<Longrightarrow> it \<in> set items \<or> m_type it \<in> {Operation, Push, PushData}"
  by (induction rule: aligned.induct)
    (auto simp: window_ok_def from_window_def dest: in_set_takeD in_set_dropD)

end
