(* ===== verification/PeepholeOptimiser.thy ===== *)
theory PeepholeOptimiser
  imports AsmWindows
begin

text \<open>
  \<open>libevmasm/PeepholeOptimiser.cpp\<close>: the peephole methods, the loop that applies the first one
  that fits at each position, and the decision to keep the result. A method that returns
  \<open>false\<close> is \<open>None\<close>; one that returns \<open>true\<close> gives what it appended to the output. The
  interface \<open>peephole_method\<close> is the contract every method meets, and the optimiser is proved
  correct against it, through the sound windows of \<open>AsmWindows\<close>.
\<close>

section \<open>Optimiser state and windows\<close>

record optimiser_state =
  st_items :: assembly_items
  st_i :: nat
  st_out :: assembly_items

type_synonym peephole = "optimiser_state \<Rightarrow> optimiser_state option"

definition SimplePeepholeOptimizerMethod ::
  "nat \<Rightarrow> (assembly_items \<Rightarrow> assembly_items option) \<Rightarrow> peephole" where
  "SimplePeepholeOptimizerMethod windowSize applyRule st =
     (if st_i st + windowSize \<le> length (st_items st) then
        (case applyRule (drop (st_i st) (st_items st)) of
           Some out \<Rightarrow> Some (st\<lparr>st_i := st_i st + windowSize, st_out := st_out st @ out\<rparr>)
         | None \<Rightarrow> None)
      else None)"

definition applyRule1 :: "(assembly_item \<Rightarrow> 'r) \<Rightarrow> assembly_items \<Rightarrow> 'r" where
  "applyRule1 applySimple input = applySimple (input ! 0)"

definition applyRule2 :: "(assembly_item \<Rightarrow> assembly_item \<Rightarrow> 'r) \<Rightarrow> assembly_items \<Rightarrow> 'r" where
  "applyRule2 applySimple input = applySimple (input ! 0) (input ! 1)"

definition applyRule3 ::
  "(assembly_item \<Rightarrow> assembly_item \<Rightarrow> assembly_item \<Rightarrow> 'r) \<Rightarrow> assembly_items \<Rightarrow> 'r" where
  "applyRule3 applySimple input = applySimple (input ! 0) (input ! 1) (input ! 2)"

definition applyRule4 ::
  "(assembly_item \<Rightarrow> assembly_item \<Rightarrow> assembly_item \<Rightarrow> assembly_item \<Rightarrow> 'r) \<Rightarrow> assembly_items \<Rightarrow> 'r" where
  "applyRule4 applySimple input = applySimple (input ! 0) (input ! 1) (input ! 2) (input ! 3)"

section \<open>The methods\<close>

definition Identity :: "assembly_item \<Rightarrow> assembly_items option" where
  "Identity it = Some [it]"

definition PushPop :: "assembly_item \<Rightarrow> assembly_item \<Rightarrow> assembly_items option" where
  "PushPop push pop =
     (let t = m_type push
      in if item_is pop POP \<and>
            (item_isDup push \<or>
             t = Push \<or> t = PushString \<or> t = PushTag \<or> t = PushSub \<or>
             t = PushSubSize \<or> t = PushProgramSize \<or> t = PushData \<or> t = PushLibraryAddress)
         then Some [] else None)"

definition OpPop :: "assembly_item \<Rightarrow> assembly_item \<Rightarrow> assembly_items option" where
  "OpPop op pop =
     (if item_is pop POP \<and> m_type op = Operation then
        let instr = m_instruction op
        in if ii_ret (instructionInfo instr) = 1 \<and> \<not> ii_sideEffects (instructionInfo instr)
           then Some (replicate (ii_args (instructionInfo instr)) (mkOp POP (m_location op)))
           else None
      else None)"

definition DoubleSwap :: "assembly_item \<Rightarrow> assembly_item \<Rightarrow> assembly_items option" where
  "DoubleSwap s1 s2 = (if item_eq s1 s2 \<and> item_isSwap s1 then Some [] else None)"

definition DoublePush :: "assembly_item \<Rightarrow> assembly_item \<Rightarrow> assembly_items option" where
  "DoublePush push1 push2 =
     (if m_type push1 = Push \<and> m_type push2 = Push \<and> m_data push1 = m_data push2
      then Some [push1, mkOp DUP1 (m_location push2)] else None)"

definition CommutativeSwap :: "assembly_item \<Rightarrow> assembly_item \<Rightarrow> assembly_items option" where
  "CommutativeSwap swap op =
     (if item_is swap SWAP1 \<and> isCommutativeOperation op then Some [op] else None)"

definition swappableOps :: "instruction \<Rightarrow> instruction option" where
  "swappableOps = [LT \<mapsto> GT, GT \<mapsto> LT, SLT \<mapsto> SGT, SGT \<mapsto> SLT]"

definition SwapComparison :: "assembly_item \<Rightarrow> assembly_item \<Rightarrow> assembly_items option" where
  "SwapComparison swap op =
     (if item_is swap SWAP1 \<and> m_type op = Operation then
        (case swappableOps (m_instruction op) of
           Some i \<Rightarrow> Some [mkOp i noLocation]
         | None \<Rightarrow> None)
      else None)"

definition DupSwap :: "assembly_item \<Rightarrow> assembly_item \<Rightarrow> assembly_items option" where
  "DupSwap dupN swapN =
     (if item_isDup dupN \<and> item_isSwap swapN \<and>
         getDupNumber (m_instruction dupN) = getSwapNumber (m_instruction swapN)
      then Some [dupN] else None)"

definition IsZeroIsZeroJumpI ::
  "assembly_item \<Rightarrow> assembly_item \<Rightarrow> assembly_item \<Rightarrow> assembly_item \<Rightarrow> assembly_items option" where
  "IsZeroIsZeroJumpI iszero1 iszero2 pushTag jumpi =
     (if item_is iszero1 ISZERO \<and> item_is iszero2 ISZERO \<and> m_type pushTag = PushTag \<and>
         item_is jumpi JUMPI
      then Some [pushTag, jumpi] else None)"

definition JumpToNext ::
  "assembly_item \<Rightarrow> assembly_item \<Rightarrow> assembly_item \<Rightarrow> assembly_items option" where
  "JumpToNext pushTag jump tag =
     (if m_type pushTag = PushTag \<and> (item_is jump JUMP \<or> item_is jump JUMPI) \<and>
         m_type tag = Tag \<and> m_data pushTag = m_data tag
      then Some ((if item_is jump JUMPI then [mkOp POP (m_location jump)] else []) @ [tag])
      else None)"

definition TagConjunctions ::
  "assembly_item \<Rightarrow> assembly_item \<Rightarrow> assembly_item \<Rightarrow> assembly_items option" where
  "TagConjunctions pushTag pushConstant andOp =
     (if \<not> item_is andOp AND' then None
      else if m_type pushTag = PushTag \<and> m_type pushConstant = Push \<and>
              m_data pushConstant AND 0xFFFFFFFF = 0xFFFFFFFF
      then Some [pushTag]
      else if m_type pushConstant = PushTag \<and> m_type pushTag = Push \<and>
              m_data pushTag AND 0xFFFFFFFF = 0xFFFFFFFF
      then Some [pushConstant]
      else None)"

definition TruthyAnd ::
  "assembly_item \<Rightarrow> assembly_item \<Rightarrow> assembly_item \<Rightarrow> assembly_items option" where
  "TruthyAnd push notOp andOp =
     (if m_type push = Push \<and> m_data push = 0 \<and> item_is notOp NOT' \<and> item_is andOp AND'
      then Some [] else None)"

definition UnreachableCode :: peephole where
  "UnreachableCode st =
     (case drop (st_i st) (st_items st) of
        [] \<Rightarrow> None
      | it # rest \<Rightarrow>
          (if \<not> item_is it JUMP \<and> \<not> item_is it RETURN \<and> \<not> item_is it STOP \<and> \<not> item_is it INVALID \<and>
              \<not> item_is it SELFDESTRUCT \<and> \<not> item_is it REVERT
           then None
           else
             let i = 1 + length (takeWhile (\<lambda>x. m_type x \<noteq> Tag) rest)
             in if i > 1 then Some (st\<lparr>st_i := st_i st + i, st_out := st_out st @ [it]\<rparr>) else None))"

definition peephole_methods :: "peephole list" where
  "peephole_methods =
     [SimplePeepholeOptimizerMethod 2 (applyRule2 PushPop),
      SimplePeepholeOptimizerMethod 2 (applyRule2 OpPop),
      SimplePeepholeOptimizerMethod 2 (applyRule2 DoublePush),
      SimplePeepholeOptimizerMethod 2 (applyRule2 DoubleSwap),
      SimplePeepholeOptimizerMethod 2 (applyRule2 CommutativeSwap),
      SimplePeepholeOptimizerMethod 2 (applyRule2 SwapComparison),
      SimplePeepholeOptimizerMethod 2 (applyRule2 DupSwap),
      SimplePeepholeOptimizerMethod 4 (applyRule4 IsZeroIsZeroJumpI),
      SimplePeepholeOptimizerMethod 3 (applyRule3 JumpToNext),
      UnreachableCode,
      SimplePeepholeOptimizerMethod 3 (applyRule3 TagConjunctions),
      SimplePeepholeOptimizerMethod 3 (applyRule3 TruthyAnd),
      SimplePeepholeOptimizerMethod 1 (applyRule1 Identity)]"

fun applyMethods :: "optimiser_state \<Rightarrow> peephole list \<Rightarrow> optimiser_state result" where
  "applyMethods st [] = Inl OptimizerException"
| "applyMethods st (method # others) =
     (case method st of Some st' \<Rightarrow> Inr st' | None \<Rightarrow> applyMethods st others)"

definition numberOfPops :: "assembly_items \<Rightarrow> nat" where
  "numberOfPops items = length (filter (\<lambda>it. item_is it POP) items)"

section \<open>Every replacement refines its window\<close>

named_theorems refine

lemma refine_Identity: "Identity it = Some out \<Longrightarrow> out = [it]"
  by (simp add: Identity_def)

lemma pushes_one:
  assumes "item_isDup it \<or> m_type it \<in> {Push, PushString, PushTag, PushSub, PushSubSize,
    PushProgramSize, PushData, PushLibraryAddress}" "item_step env it stk s \<noteq> Fail"
  shows "\<exists>v. item_step env it stk s = Continue (v # stk) s"
  using assms by (auto simp: item_step_dup Let_def split: if_splits) (auto simp: item_step_def)

lemma refine_PushPop [refine]:
  assumes "PushPop push pop = Some out"
  shows "steps_refine env [push, pop] out"
proof -
  have out: "out = []" "item_is pop POP" and p: "item_isDup push \<or> m_type push \<in> {Push, PushString,
      PushTag, PushSub, PushSubSize, PushProgramSize, PushData, PushLibraryAddress}"
    using assms by (auto simp: PushPop_def Let_def split: if_splits)
  show ?thesis
    unfolding steps_refine_def
  proof (intro allI impI)
    fix stk s
    assume "steps env [push, pop] stk s \<noteq> Fail"
    then have "item_step env push stk s \<noteq> Fail" by auto
    then obtain v where "item_step env push stk s = Continue (v # stk) s"
      using pushes_one [OF p, of env stk s] by auto
    then show "steps env out stk s = steps env [push, pop] stk s"
      using out by (simp add: op_step_POP)
  qed
qed

lemma steps_pops:
  "n \<le> length stk \<Longrightarrow> steps env (replicate n (mkOp POP loc)) stk s = Continue (drop n stk) s"
proof (induction n arbitrary: stk)
  case (Suc n)
  then obtain x r where "stk = x # r" by (cases stk) auto
  with Suc show ?case by (simp add: op_step_POP)
qed simp

lemma stack_opcodes_ret:
  assumes "isDupInstruction i \<or> isSwapInstruction i"
  shows "ii_ret (instructionInfo i) \<noteq> 1"
proof -
  have "\<forall>n \<in> set [128..<160]. ii_ret (instructionInfo (of_nat n)) \<noteq> 1"
    by (simp add: instructionInfo_eqs upt_rec)
  moreover have "unat i \<in> set [128..<160]" unfolding set_upt using assms by (auto simp: group_ranges)
  ultimately have "ii_ret (instructionInfo (of_nat (unat i))) \<noteq> 1" by blast
  then show ?thesis by simp
qed

lemma refine_OpPop [refine]:
  assumes "OpPop op pop = Some out"
  shows "steps_refine env [op, pop] out"
proof -
  let ?i = "m_instruction op"
  have out: "out = replicate (ii_args (instructionInfo ?i)) (mkOp POP (m_location op))"
    and pop: "item_is pop POP" and op: "item_is op ?i"
    and info: "ii_ret (instructionInfo ?i) = 1" "\<not> ii_sideEffects (instructionInfo ?i)"
    using assms by (auto simp: OpPop_def Let_def item_is_def split: if_splits)
  show ?thesis
    unfolding steps_refine_def
  proof (intro allI impI)
    fix stk s
    assume nofail: "steps env [op, pop] stk s \<noteq> Fail"
    then have step: "op_step env ?i stk s \<noteq> Fail" using op by auto
    have "evaluated ?i"
      using step info stack_opcodes_ret [of ?i]
      by (auto simp: evaluated_def op_step_def instructionInfo_eqs split: if_splits)
    then obtain v where "length stk \<ge> ii_args (instructionInfo ?i)"
      "op_step env ?i stk s = Continue (v # drop (ii_args (instructionInfo ?i)) stk) s"
      using step eval_without_sideEffects [OF info, of "hash env" "take (ii_args (instructionInfo ?i)) stk" s]
        info by (auto simp: op_step_evaluated Let_def split: if_splits prod.splits sum.splits)
    then show "steps env out stk s = steps env [op, pop] stk s"
      using op pop by (simp add: out steps_pops op_step_POP)
  qed
qed

lemma refine_DoublePush [refine]:
  "DoublePush p1 p2 = Some out \<Longrightarrow> steps_refine env [p1, p2] out"
  by (auto simp: DoublePush_def steps_refine_def item_step_Push op_step_DUP1 split: if_splits)

lemma refine_DoubleSwap [refine]:
  assumes "DoubleSwap s1 s2 = Some out"
  shows "steps_refine env [s1, s2] out"
proof -
  have "out = []" "item_isSwap s1" "item_isSwap s2" "m_instruction s2 = m_instruction s1"
    using assms by (auto simp: DoubleSwap_def item_eq_def item_isSwap_def split: if_splits)
  then show ?thesis
    by (auto simp: steps_refine_def item_step_swap Let_def swap_top_twice split: if_splits)
qed

lemma commutative_step:
  assumes "i \<in> set [ADD, MUL, EQ, AND', OR', XOR']"
  shows "op_step env i (x # y # r) s = op_step env i (y # x # r) s"
  using assms by (auto simp: op_step_arithmetic ac_simps intro: arg_cong [of _ _ truth])

lemma refine_CommutativeSwap [refine]:
  assumes "CommutativeSwap swap op = Some out"
  shows "steps_refine env [swap, op] out"
proof -
  have c: "out = [op]" "item_is swap SWAP1" "m_type op = Operation"
    "m_instruction op \<in> set [ADD, MUL, EQ, AND', OR', XOR']"
    using assms by (auto simp: CommutativeSwap_def isCommutativeOperation_def simp del: list.set split: if_splits)
  have op: "item_step env op stk s = op_step env (m_instruction op) stk s" for stk s
    using c(3) by (simp add: item_step_def)
  show ?thesis
    unfolding steps_refine_def using c(1,2) commutative_step [OF c(4)]
    by (auto simp: op op_step_SWAP1 split: list.splits)
qed

lemma refine_SwapComparison [refine]:
  "SwapComparison swap op = Some out \<Longrightarrow> steps_refine env [swap, op] out"
  by (auto simp: SwapComparison_def swappableOps_def steps_refine_def item_step_def item_is_def mkOp_def
      op_steps split: if_splits list.splits)

lemma refine_DupSwap [refine]:
  assumes "DupSwap d sw = Some out"
  shows "steps_refine env [d, sw] out"
proof -
  let ?n = "unat (m_instruction d) - 127"
  have d: "out = [d]" "item_isDup d" "item_isSwap sw"
    and num: "getDupNumber (m_instruction d) = getSwapNumber (m_instruction sw)"
    using assms by (auto simp: DupSwap_def split: if_splits)
  have g: "isDupInstruction (m_instruction d)" "isSwapInstruction (m_instruction sw)"
    using d by (auto simp: item_isDup_def item_isSwap_def split: if_splits)
  then have sw: "unat (m_instruction sw) - 143 = ?n" "0 < ?n"
    using num group_numbers(2) [OF g(1)] group_numbers(3) [OF g(2)] by (auto simp: group_ranges)
  have "swap_top ?n (xs ! (?n - 1) # xs) = xs ! (?n - 1) # xs" if "?n \<le> length xs" for xs
    by (rule nth_equalityI) (use that sw(2) in \<open>auto simp: nth_swap_top nth_Cons'\<close>)
  then show ?thesis using d sw
    by (auto simp: steps_refine_def item_step_dup item_step_swap Let_def split: if_splits)
qed

lemma refine_IsZeroIsZeroJumpI [refine]:
  "IsZeroIsZeroJumpI z1 z2 t j = Some out \<Longrightarrow> steps_refine env [z1, z2, t, j] out"
  by (auto simp: IsZeroIsZeroJumpI_def steps_refine_def item_step_PushTag op_steps truth_def
      split: if_splits list.splits)

lemma mask_keeps_tag:
  fixes t c :: u256
  assumes "t < 2 ^ 32" "c AND 0xFFFFFFFF = 0xFFFFFFFF"
  shows "t AND c = t" "c AND t = t"
proof -
  have m: "(0xFFFFFFFF :: u256) = mask 32" by (simp add: mask_eq_exp_minus_1)
  have "t AND mask 32 = t" using assms(1) by (simp only: less_mask_eq)
  then have "t AND c = (t AND mask 32) AND c" by simp
  also have "\<dots> = t AND (c AND mask 32)" by (simp only: and.assoc and.commute [of "mask 32" c])
  also have "\<dots> = t" using assms(2) \<open>t AND mask 32 = t\<close> unfolding m by simp
  finally show "t AND c = t" .
  then show "c AND t = t" by (simp only: and.commute)
qed

lemma refine_TagConjunctions:
  assumes "TagConjunctions p q a = Some out"
    and "\<forall>it \<in> {p, q}. m_type it = PushTag \<longrightarrow> pushed_value env PushTag (m_data it) < 2 ^ 32"
  shows "steps_refine env [p, q, a] out"
proof -
  have a: "item_is a AND'" using assms(1) by (auto simp: TagConjunctions_def split: if_splits)
  consider "m_type p = PushTag" "m_type q = Push" "m_data q AND 0xFFFFFFFF = 0xFFFFFFFF" "out = [p]"
    | "m_type q = PushTag" "m_type p = Push" "m_data p AND 0xFFFFFFFF = 0xFFFFFFFF" "out = [q]"
    using assms(1) by (auto simp: TagConjunctions_def split: if_splits)
  then show ?thesis
  proof cases
    case 1
    then have "m_data q AND pushed_value env PushTag (m_data p) = pushed_value env PushTag (m_data p)"
      using assms(2) by (intro mask_keeps_tag(2) [OF _ 1(3)]) blast
    then show ?thesis
      using 1(1,2,4) a by (simp add: steps_refine_def item_step_Push item_step_PushTag op_step_arithmetic)
  next
    case 2
    then have "pushed_value env PushTag (m_data q) AND m_data p = pushed_value env PushTag (m_data q)"
      using assms(2) by (intro mask_keeps_tag(1) [OF _ 2(3)]) blast
    then show ?thesis
      using 2(1,2,4) a by (simp add: steps_refine_def item_step_Push item_step_PushTag op_step_arithmetic)
  qed
qed

lemma refine_TruthyAnd [refine]:
  assumes "TruthyAnd p n a = Some out"
  shows "steps_refine env [p, n, a] out"
proof -
  have c: "out = []" "m_type p = Push" "m_data p = 0" "item_is n NOT'" "item_is a AND'"
    using assms by (auto simp: TruthyAnd_def split: if_splits)
  show ?thesis
    unfolding steps_refine_def
  proof (intro allI impI)
    fix stk s
    assume "steps env [p, n, a] stk s \<noteq> Fail"
    then obtain x r where "stk = x # r"
      using c by (cases stk) (simp_all add: item_step_Push op_step_NOT_ISZERO op_step_arithmetic)
    then show "steps env out stk s = steps env [p, n, a] stk s"
      using c by (simp add: item_step_Push op_step_NOT_ISZERO op_step_arithmetic)
  qed
qed

section \<open>The interface\<close>

locale peephole_method =
  fixes transform :: peephole
  assumes window: "transform st = Some st' \<Longrightarrow>
    \<exists>n out. st' = st\<lparr>st_i := st_i st + n, st_out := st_out st @ out\<rparr> \<and>
      window_ok (drop (st_i st) (st_items st)) n out"
begin

lemma progress:
  assumes "transform st = Some st'"
  shows "st_items st' = st_items st" "st_i st < st_i st'" "st_i st' \<le> length (st_items st)"
proof -
  from window [OF assms] obtain n out where
    "st' = st\<lparr>st_i := st_i st + n, st_out := st_out st @ out\<rparr>" "0 < n"
    "n \<le> length (st_items st) - st_i st"
    by (auto simp: window_ok_def)
  then show "st_items st' = st_items st" "st_i st < st_i st'" "st_i st' \<le> length (st_items st)"
    by auto
qed

end

text \<open>A simple method meets the contract when its rule does, on every window.\<close>

lemma simple_method:
  assumes "0 < n" "\<And>items out. n \<le> length items \<Longrightarrow> f items = Some out \<Longrightarrow> window_ok items n out"
  shows "peephole_method (SimplePeepholeOptimizerMethod n f)"
proof
  fix st st'
  assume "SimplePeepholeOptimizerMethod n f st = Some st'"
  then obtain out where "st_i st + n \<le> length (st_items st)" "f (drop (st_i st) (st_items st)) = Some out"
    "st' = st\<lparr>st_i := st_i st + n, st_out := st_out st @ out\<rparr>"
    by (auto simp: SimplePeepholeOptimizerMethod_def split: if_splits option.splits)
  then show "\<exists>n out. st' = st\<lparr>st_i := st_i st + n, st_out := st_out st @ out\<rparr> \<and>
      window_ok (drop (st_i st) (st_items st)) n out"
    using assms(2) [of "drop (st_i st) (st_items st)" out] by (intro exI [of _ n] exI [of _ out]) simp
qed

lemma window2:
  assumes "\<And>a b out. f a b = Some out \<Longrightarrow>
    m_type a \<noteq> Tag \<and> m_type b \<noteq> Tag \<and> from_window [a, b] out \<and> (\<forall>env. steps_refine env [a, b] out)"
  shows "peephole_method (SimplePeepholeOptimizerMethod 2 (applyRule2 f))"
proof (rule simple_method)
  fix items out
  assume l: "2 \<le> length items" and f: "applyRule2 f items = Some out"
  then obtain a b r where i: "items = a # b # r" by (cases items rule: remdups_adj.cases) auto
  then have "f a b = Some out" using f by (simp add: applyRule2_def)
  from assms [OF this] show "window_ok items 2 out"
    by (intro window_ok_straight [of "[a, b]"]) (auto simp: i tag_free_def)
qed simp

lemma window3:
  assumes "\<And>a b c out. f a b c = Some out \<Longrightarrow>
    m_type a \<noteq> Tag \<and> m_type b \<noteq> Tag \<and> m_type c \<noteq> Tag \<and> from_window [a, b, c] out \<and>
    (\<forall>env. (\<forall>it \<in> {a, b}. m_type it = PushTag \<longrightarrow> pushed_value env PushTag (m_data it) < 2 ^ 32) \<longrightarrow>
       steps_refine env [a, b, c] out)"
  shows "peephole_method (SimplePeepholeOptimizerMethod 3 (applyRule3 f))"
proof (rule simple_method)
  fix items out
  assume l: "3 \<le> length items" and f: "applyRule3 f items = Some out"
  then obtain a b c r where i: "items = a # b # c # r"
    by (metis (no_types, lifting) Suc_le_length_iff numeral_3_eq_3)
  then have "f a b c = Some out" using f by (simp add: applyRule3_def)
  from assms [OF this] show "window_ok items 3 out"
    by (intro window_ok_straight [of "[a, b, c]"]) (auto simp: i tag_free_def)
qed simp

lemma op_not_tag: "item_is it i \<Longrightarrow> m_type it \<noteq> Tag" "item_isDup it \<Longrightarrow> m_type it \<noteq> Tag"
  "item_isSwap it \<Longrightarrow> m_type it \<noteq> Tag" "isCommutativeOperation it \<Longrightarrow> m_type it \<noteq> Tag"
  "m_type (mkOp i loc) = Operation"
  by (auto simp: item_is_def item_isDup_def item_isSwap_def isCommutativeOperation_def mkOp_def
      split: if_splits)

interpretation push_pop: peephole_method "SimplePeepholeOptimizerMethod 2 (applyRule2 PushPop)"
  using refine_PushPop
  by (intro window2) (auto simp: PushPop_def Let_def from_window_def op_not_tag split: if_splits)

interpretation op_pop: peephole_method "SimplePeepholeOptimizerMethod 2 (applyRule2 OpPop)"
  using refine_OpPop
  by (intro window2) (auto simp: OpPop_def Let_def from_window_def op_not_tag split: if_splits)

interpretation double_push: peephole_method "SimplePeepholeOptimizerMethod 2 (applyRule2 DoublePush)"
  using refine_DoublePush
  by (intro window2) (auto simp: DoublePush_def from_window_def op_not_tag split: if_splits)

interpretation double_swap: peephole_method "SimplePeepholeOptimizerMethod 2 (applyRule2 DoubleSwap)"
  using refine_DoubleSwap
  by (intro window2)
    (auto simp: DoubleSwap_def item_eq_def from_window_def op_not_tag dest: op_not_tag(3) split: if_splits)

interpretation commutative_swap: peephole_method "SimplePeepholeOptimizerMethod 2 (applyRule2 CommutativeSwap)"
  using refine_CommutativeSwap
  by (intro window2) (auto simp: CommutativeSwap_def from_window_def op_not_tag split: if_splits)

interpretation swap_comparison: peephole_method "SimplePeepholeOptimizerMethod 2 (applyRule2 SwapComparison)"
  using refine_SwapComparison
  by (intro window2)
    (auto simp: SwapComparison_def from_window_def op_not_tag split: if_splits option.splits)

interpretation dup_swap: peephole_method "SimplePeepholeOptimizerMethod 2 (applyRule2 DupSwap)"
  using refine_DupSwap
  by (intro window2) (auto simp: DupSwap_def from_window_def op_not_tag split: if_splits)

interpretation tag_conjunctions: peephole_method "SimplePeepholeOptimizerMethod 3 (applyRule3 TagConjunctions)"
  using refine_TagConjunctions
  by (intro window3) (auto simp: TagConjunctions_def from_window_def op_not_tag split: if_splits)

interpretation truthy_and: peephole_method "SimplePeepholeOptimizerMethod 3 (applyRule3 TruthyAnd)"
  using refine_TruthyAnd
  by (intro window3) (auto simp: TruthyAnd_def from_window_def op_not_tag split: if_splits)

interpretation is_zero_jumpi: peephole_method "SimplePeepholeOptimizerMethod 4 (applyRule4 IsZeroIsZeroJumpI)"
proof (rule simple_method)
  fix items out
  assume l: "4 \<le> length items" and f: "applyRule4 IsZeroIsZeroJumpI items = Some out"
  then obtain a b c d r where i: "items = a # b # c # d # r"
    by (auto simp: Suc_le_length_iff numeral_eq_Suc)
  then have "IsZeroIsZeroJumpI a b c d = Some out" using f by (simp add: applyRule4_def)
  then show "window_ok items 4 out"
    using refine_IsZeroIsZeroJumpI [of a b c d out]
    by (intro window_ok_straight [of "[a, b, c, d]"])
      (auto simp: i tag_free_def from_window_def IsZeroIsZeroJumpI_def op_not_tag split: if_splits)
qed simp

subsection \<open>Methods that touch tags or drop code\<close>

interpretation identity: peephole_method "SimplePeepholeOptimizerMethod 1 (applyRule1 Identity)"
proof (rule simple_method)
  fix items out
  assume "1 \<le> length items" "applyRule1 Identity items = Some out"
  then obtain it r where i: "items = it # r" "out = [it]"
    by (cases items) (auto simp: applyRule1_def Identity_def)
  show "window_ok items 1 out"
  proof (cases "m_type it = Tag")
    case True
    then show ?thesis unfolding i window_ok_def
      by (intro conjI allI impI exI [of _ "[]"] exI [of _ "[it]"])
        (auto simp: tag_free_def from_window_def executes_tag preserved_def dest: run_tag)
  next
    case False
    then show ?thesis
      by (intro window_ok_straight [of "[it]"]) (auto simp: i tag_free_def from_window_def steps_refine_def)
  qed
qed simp

interpretation jump_to_next: peephole_method "SimplePeepholeOptimizerMethod 3 (applyRule3 JumpToNext)"
proof (rule simple_method)
  fix items out
  assume l: "3 \<le> length items" and f: "applyRule3 JumpToNext items = Some out"
  then obtain p j t r where i: "items = p # j # t # r"
    by (metis (no_types, lifting) Suc_le_length_iff numeral_3_eq_3)
  then have "JumpToNext p j t = Some out" using f by (simp add: applyRule3_def)
  then have jump: "m_type p = PushTag" "item_is j JUMP \<or> item_is j JUMPI" "m_type t = Tag"
    "m_data p = m_data t"
    and out: "out = (if item_is j JUMPI then [mkOp POP (m_location j)] else []) @ [t]"
    by (auto simp: JumpToNext_def split: if_splits)
  show "window_ok items 3 out"
    unfolding window_ok_def
  proof (intro conjI allI impI)
    show "\<exists>a a' ts. take 3 items = a @ ts \<and> out = a' @ ts \<and> tag_free a \<and> tag_free a' \<and> length ts \<le> 1"
      using jump op_not_tag
      by (intro exI [of _ "[p, j]"] exI [of _ "if item_is j JUMPI then [mkOp POP (m_location j)] else []"]
          exI [of _ "[t]"]) (auto simp: i out tag_free_def)
    show "from_window (take 3 items) out" by (auto simp: i out from_window_def op_not_tag)
  next
    fix env pre prog' rest' k stk s e s'
    assume prog: "program_ok env (pre @ items)"
      and rest: "preserved env (pre @ items) prog' k (drop 3 items) rest'"
      and run: "run env (pre @ items) k items stk s = Halted e s'"
    have target: "find_tag env (pre @ items) (pushed_value env PushTag (m_data t)) = Some (t # r)"
      using find_tag_unique [of env "pre @ [p, j]" t r] prog jump(3) by (simp add: i)
    have r: "run env (pre @ items) k ([p, j] @ t # r) stk s = Halted e s'" using run i by simp
    obtain m stk' where m: "run env (pre @ items) m (t # r) stk' s = Halted e s'" "m < k"
      and stk: "\<exists>c. stk = (if item_is j JUMPI then [c] else []) @ stk'"
    proof (cases "item_is j JUMPI")
      case True
      obtain c stk' where c: "stk = c # stk'"
        using run_steps [OF r] jump(1) True by (cases stk) (simp_all add: item_step_PushTag op_step_JUMPI)
      then have "\<exists>m < k. run env (pre @ items) m (t # r) stk' s = Halted e s'"
        using run_steps [OF r] jump True target
        by (cases "c = 0") (auto simp: item_step_PushTag op_step_JUMPI)
      then show ?thesis using that c True by auto
    next
      case False
      then have "\<exists>m < k. run env (pre @ items) m (t # r) stk s = Halted e s'"
        using run_steps [OF r] jump target by (auto simp: item_step_PushTag op_step_JUMPI)
      then show ?thesis using that False by auto
    qed
    obtain m' where "m' < k" "run env (pre @ items) m' r stk' s = Halted e s'"
      using run_tag [OF jump(3) m(1)] m(2) less_trans by blast
    then have "executes env prog' rest' stk' s e s'" using rest by (auto simp: preserved_def i)
    then show "executes env prog' (out @ rest') stk s e s'"
      using stk jump(3) by (auto simp: out executes_Cons item_step_Tag op_step_POP)
  qed (use l in auto)
qed simp

lemma thenThrow_Inl: "\<exists>x s'. thenThrow r e = (Inl x, s')"
  by (auto simp: thenThrow_def split: prod.splits sum.splits)

lemma eval_calls_terminating:
  "\<forall>i \<in> {RETURN, STOP, INVALID, SELFDESTRUCT, REVERT}. \<exists>e s'. eval_calls i args s = Some (Inl e, s')"
proof -
  have "\<exists>e s'. eval_calls RETURN args s = Some (Inl e, s')"
    using thenThrow_Inl by (simp add: eval_calls_def split: prod.split sum.split) blast
  moreover have "\<exists>e s'. eval_calls STOP args s = Some (Inl e, s')"
    "\<exists>e s'. eval_calls INVALID args s = Some (Inl e, s')"
    "\<exists>e s'. eval_calls SELFDESTRUCT args s = Some (Inl e, s')"
    "\<exists>e s'. eval_calls REVERT args s = Some (Inl e, s')"
    by (simp_all add: eval_calls_def Let_def thenThrow_Inl del: split_paired_All)
  ultimately show ?thesis by blast
qed

lemma eval_parts_terminating:
  "\<forall>i \<in> {RETURN, STOP, INVALID, SELFDESTRUCT, REVERT}. eval_signals i = None \<and>
     eval_arithmetic i args = None \<and> eval_blockchain k i args s = None \<and> eval_memory i args s = None"
  by (simp add: eval_signals_def eval_arithmetic_def eval_blockchain_def eval_memory_def)

lemma eval_terminating:
  assumes "i \<in> {RETURN, STOP, INVALID, SELFDESTRUCT, REVERT}"
  shows "\<exists>e. fst (eval k i args s) = Inl e"
  using bspec [OF eval_parts_terminating assms, of args k s] bspec [OF eval_calls_terminating assms, of args s]
  by (auto simp: eval_def)

lemma terminating_step:
  assumes "item_is it JUMP \<or> item_is it RETURN \<or> item_is it STOP \<or> item_is it INVALID \<or>
    item_is it SELFDESTRUCT \<or> item_is it REVERT"
  shows "item_step env it stk s \<noteq> Continue stk' s'"
proof (cases "item_is it JUMP")
  case True
  then show ?thesis by (simp add: op_step_JUMPI split: list.split)
next
  case False
  let ?i = "m_instruction it"
  have i: "item_is it ?i" "?i \<in> {RETURN, STOP, INVALID, SELFDESTRUCT, REVERT}"
    using assms False by (auto simp: item_is_def)
  then have "evaluated ?i" by (auto simp: evaluated_def instructionInfo_eqs group_ranges)
  then show ?thesis
    using i(1) eval_terminating [OF i(2), of "hash env" "take (ii_args (instructionInfo ?i)) stk" s]
    by (auto simp: op_step_evaluated Let_def split: prod.splits sum.splits)
qed

interpretation unreachable_code: peephole_method UnreachableCode
proof
  fix st st'
  assume "UnreachableCode st = Some st'"
  then obtain it rest where items: "drop (st_i st) (st_items st) = it # rest"
    and ends: "item_is it JUMP \<or> item_is it RETURN \<or> item_is it STOP \<or> item_is it INVALID \<or>
      item_is it SELFDESTRUCT \<or> item_is it REVERT"
    and st': "st' = st\<lparr>st_i := st_i st + (1 + length (takeWhile (\<lambda>x. m_type x \<noteq> Tag) rest)),
      st_out := st_out st @ [it]\<rparr>"
    by (auto simp: UnreachableCode_def Let_def split: list.splits if_splits)
  let ?n = "1 + length (takeWhile (\<lambda>x. m_type x \<noteq> Tag) rest)"
  have "window_ok (it # rest) ?n [it]"
  proof (rule window_ok_straight [of "it # takeWhile (\<lambda>x. m_type x \<noteq> Tag) rest"])
    show "it # takeWhile (\<lambda>x. m_type x \<noteq> Tag) rest = take ?n (it # rest)"
      by (simp add: takeWhile_eq_take [symmetric])
    show "?n \<le> length (it # rest)" by (simp add: length_takeWhile_le)
    have it: "m_type it \<noteq> Tag" using ends op_not_tag by auto
    then show "tag_free (it # takeWhile (\<lambda>x. m_type x \<noteq> Tag) rest)"
      "from_window (it # takeWhile (\<lambda>x. m_type x \<noteq> Tag) rest) [it]"
      by (auto simp: tag_free_def from_window_def dest: set_takeWhileD)
    show "steps_refine env (it # takeWhile (\<lambda>x. m_type x \<noteq> Tag) rest) [it]" for env
      using terminating_step [OF ends, of env]
      by (auto simp: steps_refine_def split: step_result.splits)
  qed simp
  then show "\<exists>n out. st' = st\<lparr>st_i := st_i st + n, st_out := st_out st @ out\<rparr> \<and>
      window_ok (drop (st_i st) (st_items st)) n out"
    unfolding items st' by blast
qed

lemma peephole_methods_ok: "\<forall>m \<in> set peephole_methods. peephole_method m"
  unfolding peephole_methods_def list.set ball_simps
  by (intro conjI TrueI push_pop.peephole_method_axioms op_pop.peephole_method_axioms
      double_push.peephole_method_axioms double_swap.peephole_method_axioms
      commutative_swap.peephole_method_axioms swap_comparison.peephole_method_axioms
      dup_swap.peephole_method_axioms is_zero_jumpi.peephole_method_axioms
      jump_to_next.peephole_method_axioms unreachable_code.peephole_method_axioms
      tag_conjunctions.peephole_method_axioms truthy_and.peephole_method_axioms
      identity.peephole_method_axioms)

lemma applyMethods_from:
  "applyMethods st ms = Inr st' \<Longrightarrow> \<exists>m \<in> set ms. m st = Some st'"
  by (induction ms) (auto split: option.splits)

lemma identity_applies:
  "st_i st < length (st_items st) \<Longrightarrow> SimplePeepholeOptimizerMethod 1 (applyRule1 Identity) st \<noteq> None"
  by (simp add: SimplePeepholeOptimizerMethod_def applyRule1_def Identity_def)

lemma applyMethods_total:
  "m \<in> set ms \<Longrightarrow> m st \<noteq> None \<Longrightarrow> \<exists>st'. applyMethods st ms = Inr st'"
  by (induction ms) (auto split: option.splits)

section \<open>The optimiser\<close>

function (sequential) optimise_loop :: "optimiser_state \<Rightarrow> optimiser_state result" where
  "optimise_loop st =
     (if st_i st < length (st_items st)
      then bindR (applyMethods st peephole_methods) optimise_loop
      else Inr st)"
  by pat_completeness auto
termination
proof (relation "measure (\<lambda>st. length (st_items st) - st_i st)")
  fix st st'
  assume i: "st_i st < length (st_items st)" and "applyMethods st peephole_methods = Inr st'"
  then obtain m where "m \<in> set peephole_methods" "m st = Some st'" using applyMethods_from by blast
  then show "(st', st) \<in> measure (\<lambda>st. length (st_items st) - st_i st)"
    using peephole_methods_ok peephole_method.progress [of m st st'] by auto
qed simp

declare optimise_loop.simps [simp del]

definition optimise :: "assembly_items \<Rightarrow> (bool \<times> assembly_items) result" where
  "optimise items =
     bindR (optimise_loop \<lparr>st_items = items, st_i = 0, st_out = []\<rparr>) (\<lambda>st.
       let optimised = st_out st in
       if length optimised < length items then Inr (True, optimised)
       else if length optimised = length items then
         bindR (items_bytesRequired optimised 3) (\<lambda>b'.
         bindR (items_bytesRequired items 3) (\<lambda>b.
           if b' < b \<or> numberOfPops optimised > numberOfPops items
           then Inr (True, optimised) else Inr (False, items)))
       else Inr (False, items))"

section \<open>Correctness of the optimiser\<close>

lemma applyMethods_window:
  assumes "applyMethods st peephole_methods = Inr st'"
  obtains n out where "st' = st\<lparr>st_i := st_i st + n, st_out := st_out st @ out\<rparr>"
    "window_ok (drop (st_i st) (st_items st)) n out"
proof -
  obtain m where "m \<in> set peephole_methods" "m st = Some st'"
    using assms applyMethods_from by blast
  then show ?thesis
    using that peephole_methods_ok peephole_method.window [of m st st'] by blast
qed

lemma optimise_loop_aligned:
  "optimise_loop st = Inr st' \<Longrightarrow>
   \<exists>out. st_out st' = st_out st @ out \<and> aligned (drop (st_i st) (st_items st)) out"
proof (induction st rule: optimise_loop.induct)
  case (1 st)
  show ?case
  proof (cases "st_i st < length (st_items st)")
    case True
    then obtain st1 where st1: "applyMethods st peephole_methods = Inr st1" "optimise_loop st1 = Inr st'"
      using "1.prems" by (subst (asm) optimise_loop.simps) (auto simp: bindR_Inr_iff)
    obtain n out where n: "st1 = st\<lparr>st_i := st_i st + n, st_out := st_out st @ out\<rparr>"
      "window_ok (drop (st_i st) (st_items st)) n out"
      using applyMethods_window [OF st1(1)] by blast
    obtain out' where "st_out st' = st_out st1 @ out'" "aligned (drop (st_i st1) (st_items st1)) out'"
      using "1.IH" [OF True st1] by blast
    moreover have "drop (st_i st1) (st_items st1) = drop n (drop (st_i st) (st_items st))"
      using n(1) by (simp add: add.commute)
    ultimately show ?thesis
      using aligned_window [OF n(2)] n(1) by (intro exI [of _ "out @ out'"]) simp
  next
    case False
    then show ?thesis using "1.prems" by (subst (asm) optimise_loop.simps) (simp add: aligned_Nil)
  qed
qed

lemma optimise_loop_total: "\<exists>st'. optimise_loop st = Inr st'"
proof (induction st rule: optimise_loop.induct)
  case (1 st)
  show ?case
  proof (cases "st_i st < length (st_items st)")
    case True
    let ?id = "SimplePeepholeOptimizerMethod 1 (applyRule1 Identity)"
    have "?id \<in> set peephole_methods" by (simp add: peephole_methods_def)
    then obtain st1 where st1: "applyMethods st peephole_methods = Inr st1"
      using applyMethods_total [of ?id peephole_methods st] identity_applies [OF True] by blast
    with "1.IH" [OF True st1] True show ?thesis by (subst optimise_loop.simps) simp
  next
    case False
    then show ?thesis by (subst optimise_loop.simps) simp
  qed
qed

lemma optimise_aligned:
  assumes "optimise items = Inr (changed, items')"
  shows "items' = items \<or> aligned items items'"
proof -
  obtain st where "optimise_loop \<lparr>st_items = items, st_i = 0, st_out = []\<rparr> = Inr st"
    using optimise_loop_total by blast
  then show ?thesis
    using assms optimise_loop_aligned
    by (fastforce simp: optimise_def Let_def bindR_Inr_iff split: if_splits)
qed

lemma optimise_total:
  assumes "\<forall>it \<in> set items. m_type it \<noteq> UndefinedItem"
  shows "\<exists>changed items'. optimise items = Inr (changed, items') \<and> length items' \<le> length items \<and>
    (changed \<or> items' = items)"
proof -
  obtain st where st: "optimise_loop \<lparr>st_items = items, st_i = 0, st_out = []\<rparr> = Inr st"
    using optimise_loop_total by blast
  then have "\<forall>it \<in> set (st_out st). m_type it \<noteq> UndefinedItem"
    using optimise_loop_aligned [OF st] aligned_items assms by fastforce
  then obtain n n' where "items_bytesRequired items 3 = Inr n" "items_bytesRequired (st_out st) 3 = Inr n'"
    using assms bytesRequired_defined unfolding items_bytesRequired_def by metis
  then show ?thesis by (auto simp: optimise_def st Let_def)
qed

section \<open>Properties\<close>

text \<open>
  C4: the peephole optimiser preserves executions: whatever a program with distinct tags of
  32 bits computes, from any stack and state, the optimised program computes as well, with the
  same final state and the same way of ending.
\<close>

theorem peephole_preserves_execution:
  assumes "optimise items = Inr (changed, items')" "program_ok env items"
    and "executes env items items stk s e s'"
  shows "executes env items' items' stk s e s'"
proof -
  obtain k where run: "run env items k items stk s = Halted e s'"
    using assms(3) by (auto simp: executes_def)
  show ?thesis
  proof (cases "items' = items")
    case False
    then have "aligned items items'" using optimise_aligned [OF assms(1)] by blast
    then show ?thesis using aligned_run [OF assms(2) _ _ _ run, of items' items' "[]"] by simp
  qed (use assms(3) in simp)
qed

lemmas peephole_eval =
  optimise_loop.simps peephole_methods_def SimplePeepholeOptimizerMethod_def applyRule1_def
  applyRule2_def applyRule3_def applyRule4_def PushPop_def OpPop_def DoublePush_def DoubleSwap_def
  CommutativeSwap_def SwapComparison_def DupSwap_def IsZeroIsZeroJumpI_def JumpToNext_def
  UnreachableCode_def TagConjunctions_def TruthyAnd_def Identity_def Let_def
  item_is_def item_isDup_def item_isSwap_def item_eq_def isCommutativeOperation_def swappableOps_def
  mkOp_def mkPush_def mkItem_def instructionInfo_eqs isDupInstruction_def isSwapInstruction_def

theorem peephole_preserves_execution_witness:
  "\<forall>s. executes
     \<lparr>hash = \<lambda>_. 0, pushed_value = \<lambda>t d. d, assign_immutable = \<lambda>_ _ s. s\<rparr>
     [mkItem Tag 1 noLocation, mkPush 2 noLocation] [mkItem Tag 1 noLocation, mkPush 2 noLocation]
     [] s ExplicitlyTerminated s"
proof
  fix s
  let ?env = "\<lparr>hash = \<lambda>_. 0, pushed_value = \<lambda>t d. d, assign_immutable = \<lambda>_ _ s. s\<rparr>"
  let ?p = "[mkItem PushTag 1 noLocation, mkOp JUMP noLocation, mkItem Tag 1 noLocation, mkPush 2 noLocation]"
  have "optimise ?p = Inr (True, [mkItem Tag 1 noLocation, mkPush 2 noLocation])"
    by (simp add: optimise_def peephole_eval)
  moreover have "program_ok ?env ?p"
    by (simp add: program_ok_def mkItem_def mkOp_def mkPush_def)
  moreover have "executes ?env ?p ?p [] s ExplicitlyTerminated s"
    by (simp add: executes_Cons item_step_def mkItem_def mkOp_def mkPush_def op_step_JUMPI)
  ultimately show "executes ?env [mkItem Tag 1 noLocation, mkPush 2 noLocation]
      [mkItem Tag 1 noLocation, mkPush 2 noLocation] [] s ExplicitlyTerminated s"
    by (rule peephole_preserves_execution)
qed

text \<open>
  C13: the peephole optimiser is total: on items of known types it terminates, no assertion fails
  (some method applies at every position), the result is not longer than the input, and the input
  is returned unchanged when the optimiser reports no change.
\<close>

theorem peephole_total:
  assumes "\<forall>it \<in> set items. m_type it \<noteq> UndefinedItem"
  shows "\<exists>changed items'. optimise items = Inr (changed, items') \<and> length items' \<le> length items \<and>
    (changed \<or> items' = items)"
  by (rule optimise_total [OF assms])

theorem peephole_total_witness:
  "\<exists>changed items'. optimise [mkPush 7 noLocation, mkOp POP noLocation] = Inr (changed, items') \<and>
    length items' \<le> 2 \<and> (changed \<or> items' = [mkPush 7 noLocation, mkOp POP noLocation])"
  using peephole_total [of "[mkPush 7 noLocation, mkOp POP noLocation]"]
  by (simp add: mkPush_def mkItem_def mkOp_def numeral_2_eq_2)


end
