(* ===== verification/GasMeter.thy ===== *)
theory GasMeter
  imports AssemblyItem
begin

text \<open>
  \<open>libevmasm/GasMeter.{h,cpp}\<close>: the gas costs, gas consumption with its infinite value, the gas
  of simple instructions and of data, and the memory and word gas over known constants. The
  costs are small unsigned numbers, natural numbers here; sums with them are computed in
  unbounded integers by the code that uses them. \<open>estimateMax\<close> needs the symbolic state of
  \<open>KnownState\<close> and is not part of this theory.
\<close>

section \<open>Gas costs\<close>

definition stackLimit :: nat where "stackLimit = 1024"
definition tier0Gas :: nat where "tier0Gas = 0"
definition tier1Gas :: nat where "tier1Gas = 2"
definition tier2Gas :: nat where "tier2Gas = 3"
definition tier3Gas :: nat where "tier3Gas = 5"
definition tier4Gas :: nat where "tier4Gas = 8"
definition tier5Gas :: nat where "tier5Gas = 10"
definition tier6Gas :: nat where "tier6Gas = 20"
definition tier7Gas :: nat where "tier7Gas = 0"

definition extCodeGas :: "evm_version \<Rightarrow> nat" where
  "extCodeGas v = (if v \<ge> TangerineWhistle then 700 else 20)"

definition balanceGas :: "evm_version \<Rightarrow> nat" where
  "balanceGas v = (if v \<ge> Istanbul then 700 else if v \<ge> TangerineWhistle then 400 else 20)"

definition expGas :: nat where "expGas = 10"

definition expByteGas :: "evm_version \<Rightarrow> nat" where
  "expByteGas v = (if v \<ge> SpuriousDragon then 50 else 10)"

definition keccak256Gas :: nat where "keccak256Gas = 30"
definition keccak256WordGas :: nat where "keccak256WordGas = 6"

definition sloadGas :: "evm_version \<Rightarrow> nat" where
  "sloadGas v = (if v \<ge> Istanbul then 800 else if v \<ge> TangerineWhistle then 200 else 50)"

definition sstoreSetGas :: nat where "sstoreSetGas = 20000"
definition sstoreResetGas :: nat where "sstoreResetGas = 5000"
definition jumpdestGas :: nat where "jumpdestGas = 1"
definition logGas :: nat where "logGas = 375"
definition logDataGas :: nat where "logDataGas = 8"
definition logTopicGas :: nat where "logTopicGas = 375"
definition createGas :: nat where "createGas = 32000"

definition callGas :: "evm_version \<Rightarrow> nat" where
  "callGas v = (if v \<ge> TangerineWhistle then 700 else 40)"

definition callValueTransferGas :: nat where "callValueTransferGas = 9000"
definition callNewAccountGas :: nat where "callNewAccountGas = 25000"

definition selfdestructGas :: "evm_version \<Rightarrow> nat" where
  "selfdestructGas v = (if v \<ge> TangerineWhistle then 5000 else 0)"

definition memoryGasCost :: nat where "memoryGasCost = 3"
definition quadCoeffDiv :: nat where "quadCoeffDiv = 512"
definition createDataGas :: nat where "createDataGas = 200"
definition txDataZeroGas :: nat where "txDataZeroGas = 4"

definition txDataNonZeroGas :: "evm_version \<Rightarrow> nat" where
  "txDataNonZeroGas v = (if v \<ge> Istanbul then 16 else 68)"

definition copyGas :: nat where "copyGas = 3"

section \<open>Gas consumption\<close>

record gas_consumption =
  gas_value :: u256
  isInfinite :: bool

definition finiteGas :: "u256 \<Rightarrow> gas_consumption" where
  "finiteGas v = \<lparr>gas_value = v, isInfinite = False\<rparr>"

definition infiniteGas :: gas_consumption where
  "infiniteGas = \<lparr>gas_value = 0, isInfinite = True\<rparr>"

definition gas_add :: "gas_consumption \<Rightarrow> gas_consumption \<Rightarrow> gas_consumption" where
  "gas_add a b =
     (let a' = (if isInfinite b \<and> \<not> isInfinite a then infiniteGas else a)
      in if isInfinite a' then a'
         else
           let v = uint (gas_value a') + uint (gas_value b)
           in if v > uint (- 1 :: u256) then infiniteGas else a'\<lparr>gas_value := word_of_int v\<rparr>)"

definition gas_less :: "gas_consumption \<Rightarrow> gas_consumption \<Rightarrow> bool" where
  "gas_less a b \<longleftrightarrow>
     (\<not> isInfinite a \<and> isInfinite b) \<or> (isInfinite a = isInfinite b \<and> gas_value a < gas_value b)"

section \<open>Gas of instructions, data and memory\<close>

definition runGas :: "instruction \<Rightarrow> nat result" where
  "runGas i =
     (if i = JUMPDEST then Inr 1
      else case ii_gasPriceTier (instructionInfo i) of
        Tier_Zero \<Rightarrow> Inr tier0Gas
      | Base \<Rightarrow> Inr tier1Gas
      | VeryLow \<Rightarrow> Inr tier2Gas
      | Low \<Rightarrow> Inr tier3Gas
      | Mid \<Rightarrow> Inr tier4Gas
      | High \<Rightarrow> Inr tier5Gas
      | Ext \<Rightarrow> Inr tier6Gas
      | _ \<Rightarrow> Inl OptimizerException)"

definition dataGas :: "bytes \<Rightarrow> bool \<Rightarrow> evm_version \<Rightarrow> u256 result" where
  "dataGas d inCreation v =
     (let gas = (if inCreation
                 then sum_list (map (\<lambda>b. if b \<noteq> 0 then int (txDataNonZeroGas v) else int txDataZeroGas) d)
                 else int createDataGas * int (length d))
      in bindR (assertThrow (gas < uint (- 1 :: u256)) OptimizerException) (\<lambda>_. Inr (word_of_int gas)))"

text \<open>\<open>value\<close> is what \<open>knownConstant\<close> finds for the class of the operand.\<close>

definition wordGas :: "u256 \<Rightarrow> u256 option \<Rightarrow> gas_consumption" where
  "wordGas multiplier val =
     (case val of
        None \<Rightarrow> infiniteGas
      | Some v \<Rightarrow> finiteGas (multiplier * ((v + 31) div 32)))"

definition memGas :: "u256 \<Rightarrow> u256" where
  "memGas pos =
     (let sz = (pos + 31) div 32
      in of_nat memoryGasCost * sz + sz * sz div of_nat quadCoeffDiv)"

text \<open>The second result is the new \<open>m_largestMemoryAccess\<close>.\<close>

definition memoryGas :: "u256 option \<Rightarrow> u256 \<Rightarrow> gas_consumption \<times> u256" where
  "memoryGas position largest =
     (case position of
        None \<Rightarrow> (infiniteGas, largest)
      | Some v \<Rightarrow>
          if v < largest then (finiteGas 0, largest)
          else (finiteGas (memGas v - memGas largest), v))"

section \<open>Lemmas\<close>

text \<open>
  Gas consumption as a number: the meaning of a consumption is a natural number or infinite.
\<close>

definition gas_num :: "gas_consumption \<Rightarrow> nat option" where
  "gas_num g = (if isInfinite g then None else Some (unat (gas_value g)))"

lemma uint_max: "uint (- 1 :: u256) = 2 ^ 256 - 1"
  by (simp add: minus_one_eq_mask unsigned_minus_1_eq_mask mask_eq_exp_minus_1)

lemma gas_add_num:
  "gas_num (gas_add a b) =
     (case (gas_num a, gas_num b) of
        (Some m, Some n) \<Rightarrow> if m + n < 2 ^ 256 then Some (m + n) else None
      | _ \<Rightarrow> None)"
proof (cases "isInfinite a \<or> isInfinite b")
  case True
  then show ?thesis by (auto simp: gas_add_def gas_num_def infiniteGas_def Let_def)
next
  case False
  let ?m = "unat (gas_value a)" and ?n = "unat (gas_value b)"
  have *: "uint (gas_value a) + uint (gas_value b) > uint (- 1 :: u256) \<longleftrightarrow> \<not> ?m + ?n < 2 ^ 256"
  proof -
    have "uint (gas_value a) + uint (gas_value b) = int (?m + ?n)" by simp
    moreover have "(2 ^ 256 - 1 < int (?m + ?n)) = (int (2 ^ 256) \<le> int (?m + ?n))"
      by (simp only: of_nat_power of_nat_numeral) linarith
    ultimately show ?thesis unfolding uint_max by (simp only: of_nat_le_iff not_less)
  qed
  have "unat (word_of_int (uint (gas_value a) + uint (gas_value b)) :: u256) = ?m + ?n" if "?m + ?n < 2 ^ 256"
    using that by (subst unat_add_lem [THEN iffD1, symmetric]) (simp_all add: wi_hom_syms)
  then show ?thesis
    using False * by (simp add: gas_add_def gas_num_def Let_def infiniteGas_def)
qed

lemma unat_add_small: "unat a + unat b < 2 ^ 256 \<Longrightarrow> unat (a + b :: u256) = unat a + unat b"
  using unat_add_lem [of a b] by simp

lemma unat_mult_small: "unat a * unat b < 2 ^ 256 \<Longrightarrow> unat (a * b :: u256) = unat a * unat b"
  using unat_mult_lem [of a b] by simp

lemma words_of_bytes:
  assumes "unat v < 2 ^ 256 - 31"
  shows "unat ((v + 31) div 32 :: u256) = (unat v + 31) div 32"
proof -
  have "unat v + unat (31 :: u256) < 2 ^ 256" using assms by simp
  then have "unat (v + 31) = unat v + 31" by (subst unat_add_small) simp_all
  then show ?thesis by (simp add: unat_div)
qed

text \<open>Memory gas as a number: no operation of \<open>memGas\<close> wraps below \<open>2 ^ 128\<close>.\<close>

definition mem_gas_num :: "nat \<Rightarrow> nat" where
  "mem_gas_num pos = 3 * ((pos + 31) div 32) + ((pos + 31) div 32) * ((pos + 31) div 32) div 512"

lemma memGas_num:
  assumes "unat pos < 2 ^ 128"
  shows "unat (memGas pos) = mem_gas_num (unat pos)"
proof -
  let ?sz = "(pos + 31) div 32" and ?n = "(unat pos + 31) div 32"
  have sz: "unat ?sz = ?n" using assms by (intro words_of_bytes) simp
  have n: "?n < 2 ^ 124" using assms by simp
  then have "?n * ?n < 2 ^ 124 * 2 ^ 124" by (intro mult_strict_mono) simp_all
  then have sq: "?n * ?n < 2 ^ 248" by simp
  have "unat (?sz * ?sz) = ?n * ?n" using sz sq by (subst unat_mult_small) simp_all
  then have quad: "unat (?sz * ?sz div of_nat quadCoeffDiv) = ?n * ?n div 512"
    by (simp add: unat_div quadCoeffDiv_def)
  have "unat (of_nat memoryGasCost * ?sz) = 3 * ?n"
    using sz n by (subst unat_mult_small) (simp_all add: memoryGasCost_def)
  moreover have "3 * ?n + ?n * ?n div 512 < 2 ^ 256"
  proof -
    have "?n * ?n div 512 \<le> ?n * ?n" by (rule div_le_dividend)
    then show ?thesis using n sq by simp
  qed
  ultimately show ?thesis
    unfolding memGas_def Let_def mem_gas_num_def using quad by (subst unat_add_small) simp_all
qed

lemma mem_gas_num_mono: "m \<le> n \<Longrightarrow> mem_gas_num m \<le> mem_gas_num n"
  unfolding mem_gas_num_def by (intro add_mono mult_le_mono div_le_mono) simp_all

text \<open>The memory gas charged for a sequence of accesses, and the largest access after it.\<close>

fun memory_charges :: "u256 list \<Rightarrow> u256 \<Rightarrow> gas_consumption \<times> u256" where
  "memory_charges [] largest = (finiteGas 0, largest)"
| "memory_charges (v # vs) largest =
     (case memoryGas (Some v) largest of
        (g, largest') \<Rightarrow> (case memory_charges vs largest' of (gs, largest'') \<Rightarrow> (gas_add g gs, largest'')))"

lemma gas_num_finite [simp]: "gas_num (finiteGas v) = Some (unat v)"
  by (simp add: gas_num_def finiteGas_def)

lemma gas_num_infinite [simp]: "gas_num infiniteGas = None"
  by (simp add: gas_num_def infiniteGas_def)

lemma mem_gas_num_bound: "n < 2 ^ 128 \<Longrightarrow> mem_gas_num n < 2 ^ 256"
proof -
  assume "n < 2 ^ 128"
  then have "mem_gas_num n \<le> mem_gas_num (2 ^ 128)" by (intro mem_gas_num_mono) simp
  also have "\<dots> < 2 ^ 256" unfolding mem_gas_num_def by simp
  finally show ?thesis .
qed

lemma memoryGas_num:
  assumes "unat v < 2 ^ 128" "unat largest < 2 ^ 128"
  shows "gas_num (fst (memoryGas (Some v) largest)) =
      Some (mem_gas_num (unat (max largest v)) - mem_gas_num (unat largest))"
    and "snd (memoryGas (Some v) largest) = max largest v"
proof -
  show "snd (memoryGas (Some v) largest) = max largest v"
    by (auto simp: memoryGas_def max_def)
  have "memGas largest \<le> memGas v" if "largest \<le> v"
    using that assms mem_gas_num_mono [of "unat largest" "unat v"]
    by (simp add: word_le_nat_alt memGas_num)
  then show "gas_num (fst (memoryGas (Some v) largest)) =
      Some (mem_gas_num (unat (max largest v)) - mem_gas_num (unat largest))"
    using assms by (auto simp: memoryGas_def max_def unat_sub memGas_num)
qed

lemma memory_charges_num:
  assumes "\<forall>v \<in> set vs. unat v < 2 ^ 128" "unat largest < 2 ^ 128"
  shows "snd (memory_charges vs largest) = foldl max largest vs"
    and "unat largest \<le> unat (foldl max largest vs) \<and> unat (foldl max largest vs) < 2 ^ 128"
    and "gas_num (fst (memory_charges vs largest)) =
      Some (mem_gas_num (unat (foldl max largest vs)) - mem_gas_num (unat largest))"
  using assms
proof (induction vs arbitrary: largest)
  case (Cons v vs)
  {
    case 1
    let ?l = "max largest v"
    from 1 have "unat ?l < 2 ^ 128" by (simp add: max_def)
    then show ?case using 1 Cons.IH(1) [of ?l] memoryGas_num(2) [of v largest]
      by (auto split: prod.split)
  next
    case 2
    let ?l = "max largest v"
    from 2 show ?case using Cons.IH(2) [of ?l]
      by (auto simp: max_def word_le_nat_alt split: if_splits)
  next
    case 3
    let ?l = "max largest v"
    from 3 have l: "unat ?l < 2 ^ 128" "unat largest \<le> unat ?l" by (auto simp: max_def word_le_nat_alt)
    have b: "unat ?l \<le> unat (foldl max ?l vs)" "unat (foldl max ?l vs) < 2 ^ 128"
      using Cons.IH(2) [of ?l] 3 l by auto
    have g: "gas_num (fst (memory_charges vs ?l)) =
        Some (mem_gas_num (unat (foldl max ?l vs)) - mem_gas_num (unat ?l))"
      using Cons.IH(3) [of ?l] 3 l by simp
    have "mem_gas_num (unat largest) \<le> mem_gas_num (unat ?l)"
        "mem_gas_num (unat ?l) \<le> mem_gas_num (unat (foldl max ?l vs))"
        "mem_gas_num (unat (foldl max ?l vs)) < 2 ^ 256"
      using l b mem_gas_num_bound [OF b(2)] by (auto intro: mem_gas_num_mono)
    then show ?case
      using g memoryGas_num [of v largest] 3 by (auto simp: gas_add_num split: prod.splits)
  }
qed simp_all

section \<open>Properties\<close>

text \<open>
  C20: gas consumptions add as numbers: the sum is exact as long as it fits 256 bits and both
  parts are finite, and infinite otherwise; it never wraps around.
\<close>

theorem gas_add_saturates:
  "gas_num (gas_add a b) =
     (case (gas_num a, gas_num b) of
        (Some m, Some n) \<Rightarrow> if m + n < 2 ^ 256 then Some (m + n) else None
      | _ \<Rightarrow> None)"
  by (rule gas_add_num)

text \<open>
  C19: memory gas telescopes: for every sequence of accesses below \<open>2 ^ 128\<close> bytes the sum of the
  charges is the cost of the memory up to the largest access, less what was paid before, and the
  meter remembers that largest access; nothing wraps around.
\<close>

theorem memory_gas_telescopes:
  assumes "\<forall>v \<in> set vs. unat v < 2 ^ 128" "unat largest < 2 ^ 128"
  shows "\<exists>g. memory_charges vs largest = (g, foldl max largest vs) \<and>
    gas_num g = Some (mem_gas_num (unat (foldl max largest vs)) - mem_gas_num (unat largest))"
  using memory_charges_num [OF assms] by (cases "memory_charges vs largest") simp

theorem memory_gas_telescopes_witness:
  "\<exists>g. memory_charges [64, 1024, 32] 0 = (g, foldl max 0 [64, 1024, 32]) \<and>
     gas_num g = Some (mem_gas_num (unat (foldl max (0 :: u256) [64, 1024, 32])) - mem_gas_num (unat (0 :: u256)))"
  by (rule memory_gas_telescopes) simp_all

text \<open>
  C21: the word gas, \<open>multiplier * (value + 31) / 32\<close>, is computed in 256 bits: it is exact while
  neither the sum nor the product exceeds them, but for the largest values the sum wraps and
  the charge is 0, although the exact cost is \<open>multiplier * 2 ^ 251\<close>.
\<close>

theorem wordGas_exact_unless_wraps:
  assumes "unat v + 31 < 2 ^ 256" "unat multiplier * ((unat v + 31) div 32) < 2 ^ 256"
  shows "gas_num (wordGas multiplier (Some v)) = Some (unat multiplier * ((unat v + 31) div 32)) \<and>
    gas_num (wordGas multiplier (Some (- 1))) = Some 0"
proof -
  have w: "unat ((v + 31) div 32) = (unat v + 31) div 32"
    using assms(1) by (intro words_of_bytes) simp
  then have "unat (multiplier * ((v + 31) div 32)) = unat multiplier * ((unat v + 31) div 32)"
    using assms(2) by (subst unat_mult_small) simp_all
  then show ?thesis by (simp add: wordGas_def word_div_def)
qed

theorem wordGas_exact_unless_wraps_witness:
  "gas_num (wordGas 6 (Some 100)) = Some (unat (6 :: u256) * ((unat (100 :: u256) + 31) div 32)) \<and>
    gas_num (wordGas 6 (Some (- 1))) = Some 0"
  by (rule wordGas_exact_unless_wraps) simp_all

end
