(* ===== verification/ConstantOptimiser.thy ===== *)
theory ConstantOptimiser
  imports GasMeter AsmWindows
begin

text \<open>
  \<open>libevmasm/ConstantOptimiser.{h,cpp}\<close>: the three ways of putting a constant on the stack (as a
  literal, by copying it from the code, by computing it), their gas estimates, and the choice
  between them. The counter \<open>m_maxSteps\<close> of \<open>ComputeMethod\<close> is threaded through the search for a
  representation. The hash that names a data item is the parameter \<open>keccak\<close>.
\<close>

section \<open>Gas estimates\<close>

record params =
  pr_isCreation :: bool
  pr_runs :: nat
  pr_multiplicity :: nat
  pr_evmVersion :: evm_version

fun simpleRunGas :: "assembly_items \<Rightarrow> bigint result" where
  "simpleRunGas [] = Inr 0"
| "simpleRunGas (it # its) =
     bindR (if m_type it = Push then bindR (runGas PUSH1) (\<lambda>g. Inr (int g))
            else if m_type it = Operation then
              (if m_instruction it = EXP then Inr (int expGas)
               else bindR (runGas (m_instruction it)) (\<lambda>g. Inr (int g)))
            else Inr 0)
       (\<lambda>g. bindR (simpleRunGas its) (\<lambda>gs. Inr (g + gs)))"

definition const_dataGas :: "params \<Rightarrow> bytes \<Rightarrow> bigint result" where
  "const_dataGas p d =
     bindR (assertThrow (length d > 0) OptimizerException) (\<lambda>_.
     bindR (dataGas d (pr_isCreation p) (pr_evmVersion p)) (\<lambda>g. Inr (uint g)))"

definition const_bytesRequired :: "assembly_items \<Rightarrow> nat result" where
  "const_bytesRequired items = items_bytesRequired items 3"

definition combineGas :: "params \<Rightarrow> bigint \<Rightarrow> bigint \<Rightarrow> bigint \<Rightarrow> bigint" where
  "combineGas p runG repeatedData uniqueData =
     int (pr_runs p) * runG + int (pr_multiplicity p) * repeatedData + uniqueData"

definition byteGas :: "params \<Rightarrow> bigint" where
  "byteGas p = (if pr_isCreation p then int (txDataNonZeroGas (pr_evmVersion p)) else int createDataGas)"

definition literal_gasNeeded :: "params \<Rightarrow> u256 \<Rightarrow> bigint result" where
  "literal_gasNeeded p v =
     bindR (simpleRunGas [mkOp PUSH1 noLocation]) (\<lambda>runG.
     bindR (const_dataGas p (toCompactBigEndian v 1)) (\<lambda>d.
       Inr (combineGas p runG (byteGas p + d) 0)))"

definition copyRoutine :: assembly_items where
  "copyRoutine =
     [mkPush 0 noLocation,
      mkOp DUP1 noLocation, mkOp MLOAD noLocation,
      mkPush 32 noLocation, mkItem PushData (push_bit 16 1) noLocation, mkOp DUP4 noLocation,
      mkOp CODECOPY noLocation,
      mkOp DUP2 noLocation, mkOp MLOAD noLocation,
      mkOp SWAP2 noLocation, mkOp MSTORE noLocation]"

definition copy_gasNeeded :: "params \<Rightarrow> u256 \<Rightarrow> bigint result" where
  "copy_gasNeeded p v =
     bindR (simpleRunGas copyRoutine) (\<lambda>runG.
     bindR (const_bytesRequired copyRoutine) (\<lambda>n.
     bindR (const_dataGas p (toBigEndian v)) (\<lambda>d.
       Inr (combineGas p (runG + int copyGas) (int n * byteGas p) d))))"

definition compute_gasNeeded :: "params \<Rightarrow> assembly_items \<Rightarrow> bigint result" where
  "compute_gasNeeded p routine =
     (let numExps = length (filter (\<lambda>it. item_is it EXP) routine) in
      bindR (simpleRunGas routine) (\<lambda>runG.
      bindR (const_bytesRequired routine) (\<lambda>n.
        Inr (combineGas p (runG + int numExps * int (expGas + expByteGas (pr_evmVersion p)))
          (int n * byteGas p) 0))))"

section \<open>Computing a constant\<close>

text \<open>
  The decomposition of the loop body: \<open>value = upperPart * 2 ** bits + lowerPart\<close>, with a negative
  lower part where that is closer; \<open>None\<close> where the body continues with the next \<open>bits\<close>.
\<close>

definition decompose :: "u256 \<Rightarrow> nat \<Rightarrow> (u256 \<times> bigint) option" where
  "decompose val bits =
     (let gapDetector = drop_bit (bits - 8) val AND 0x1ff in
      if gapDetector \<noteq> 0xff \<and> gapDetector \<noteq> 0x100 then None
      else
        let powerOfTwo = push_bit bits 1 :: u256;
            upper = drop_bit bits val;
            lower = uint (val AND (powerOfTwo - 1));
            (lowerPart, upperPart) =
              (if uint powerOfTwo - lower < lower then (lower - uint powerOfTwo, upper + 1)
               else (lower, upper))
        in if upperPart = 0 then None
           else if \<bar>lowerPart\<bar> \<ge> uint (drop_bit 8 powerOfTwo) then None
           else Some (upperPart, lowerPart))"

lemma uint_drop_bit_div: "uint (drop_bit n (w :: u256)) = uint w div 2 ^ n"
  unfolding unsigned_drop_bit_eq by (simp add: drop_bit_eq_div bintr_uint)

lemma decompose_words:
  fixes val :: u256
  assumes "8 < bits" "bits \<le> 255"
  shows "uint (push_bit bits 1 :: u256) = 2 ^ bits"
    "uint (drop_bit bits val) = uint val div 2 ^ bits"
    "uint (val AND (push_bit bits 1 - 1)) = uint val mod 2 ^ bits"
    "uint (drop_bit bits val + 1) = uint val div 2 ^ bits + 1"
    "uint (drop_bit 8 (push_bit bits 1 :: u256)) = 2 ^ (bits - 8)"
proof -
  show p: "uint (push_bit bits 1 :: u256) = 2 ^ bits"
    using assms by (simp add: uint_2p word_gt_0)
  show d: "uint (drop_bit bits val) = uint val div 2 ^ bits"
    by (rule uint_drop_bit_div)
  have "val AND (push_bit bits 1 - 1) = take_bit bits val"
    by (simp only: push_bit_of_1 take_bit_eq_mask flip: mask_eq_exp_minus_1)
  then have "uint (val AND (push_bit bits 1 - 1)) = take_bit bits (uint val)"
    by (simp only: unsigned_take_bit_eq)
  also have "\<dots> = uint val mod 2 ^ bits" by (rule take_bit_eq_mod)
  finally show "uint (val AND (push_bit bits 1 - 1)) = uint val mod 2 ^ bits" .
  have "uint val div 2 ^ bits \<le> uint val div 2" using assms
    by (intro zdiv_mono2) (simp_all add: self_le_power)
  then have "uint val div 2 ^ bits + 1 < 2 ^ 256" using uint_lt2p [of val] by simp
  then show "uint (drop_bit bits val + 1) = uint val div 2 ^ bits + 1"
    using d uint_add_lem [of "drop_bit bits val" 1] by simp
  show "uint (drop_bit 8 (push_bit bits 1 :: u256)) = 2 ^ (bits - 8)"
    unfolding uint_drop_bit_div p using assms by (simp add: power_diff)
qed

lemma decompose_Some:
  assumes "decompose val bits = Some (upper, lower)" and bits: "8 < bits" "bits \<le> 255"
  shows "uint val = uint upper * 2 ^ bits + lower" "\<bar>lower\<bar> < 2 ^ (bits - 8)" "upper \<noteq> 0"
    "uint upper < uint val" "\<bar>lower\<bar> < uint val"
proof -
  let ?P = "2 ^ bits :: int" and ?v = "uint val"
  let ?u = "?v div ?P" and ?l = "?v mod ?P"
  note w = decompose_words(1) [OF bits] decompose_words(2-4) [OF bits, of val] decompose_words(5) [OF bits]
  have "upper \<noteq> 0 \<and> \<bar>lower\<bar> < 2 ^ (bits - 8) \<and>
    (if ?P - ?l < ?l then lower = ?l - ?P \<and> upper = drop_bit bits val + 1
     else lower = ?l \<and> upper = drop_bit bits val)"
    using assms(1) unfolding decompose_def Let_def w
    by (auto simp: not_le simp del: push_bit_of_1 split: if_splits)
  then have c: "upper \<noteq> 0" "\<bar>lower\<bar> < 2 ^ (bits - 8)"
    "?P - ?l < ?l \<and> lower = ?l - ?P \<and> uint upper = ?u + 1 \<or>
     \<not> ?P - ?l < ?l \<and> lower = ?l \<and> uint upper = ?u"
    using w(2,4) by (auto split: if_splits)
  have v: "?v = ?u * ?P + ?l" by (rule div_mult_mod_eq [symmetric])
  show eq: "uint val = uint upper * 2 ^ bits + lower"
    using c(3)
  proof
    assume "?P - ?l < ?l \<and> lower = ?l - ?P \<and> uint upper = ?u + 1"
    then have "uint upper * ?P + lower = ?u * ?P + ?l" by (simp add: distrib_right)
    then show ?thesis using v by simp
  next
    assume "\<not> ?P - ?l < ?l \<and> lower = ?l \<and> uint upper = ?u"
    then show ?thesis using v by simp
  qed
  show "\<bar>lower\<bar> < 2 ^ (bits - 8)" "upper \<noteq> 0" using c by simp_all
  let ?Q = "2 ^ (bits - 8) :: int" and ?U = "uint upper"
  have "?P = 2 ^ (8 + (bits - 8))" using bits by simp
  also have "\<dots> = 256 * ?Q" by (simp only: power_add) simp
  finally have Q: "?P = 256 * ?Q" "2 \<le> ?Q"
    using bits power_increasing [of 1 "bits - 8" "2 :: int"] by simp_all
  have "?U \<noteq> 0" using c(1) by (simp add: uint_0_iff)
  then have pos: "1 \<le> ?U" using uint_ge_0 [of upper] by linarith
  have "?Q \<le> ?U * ?Q" "2 * ?U \<le> ?U * ?Q"
    using mult_right_mono [OF pos, of ?Q] mult_left_mono [OF Q(2), of ?U] pos by simp_all
  moreover have "?v = 256 * (?U * ?Q) + lower" using eq Q(1) by simp
  ultimately show "?U < ?v" "\<bar>lower\<bar> < ?v" using c(2) pos by linarith+
qed

lemma unat_less_uint: "unat (a :: u256) < unat b \<longleftrightarrow> uint a < uint b"
  by (simp only: uint_nat of_nat_less_iff)

lemma unat_abs_less: "\<bar>x\<bar> < uint (b :: u256) \<Longrightarrow> unat (word_of_int \<bar>x\<bar> :: u256) < unat b"
proof -
  assume x: "\<bar>x\<bar> < uint b"
  then have "\<bar>x\<bar> < 2 ^ 256" using uint_lt2p [of b] by simp
  then have "uint (word_of_int \<bar>x\<bar> :: u256) = \<bar>x\<bar>"
    by (simp add: uint_word_of_int take_bit_eq_mod)
  then show ?thesis using x by (simp only: unat_less_uint)
qed

lemma negated_smaller:
  assumes "bytesRequired (NOT v) < bytesRequired v"
  shows "unat (NOT v) < unat v"
proof (rule ccontr)
  assume "\<not> unat (NOT v) < unat v"
  then have "unat v < 256 ^ bytesRequired (NOT v)"
    using bytesRequired_le_iff [of "NOT v" "bytesRequired (NOT v)"] by simp
  then have "bytesRequired v \<le> bytesRequired (NOT v)" by (simp add: bytesRequired_le_iff)
  with assms show False by simp
qed

text \<open>
  \<open>findRepresentation\<close> and its loop over \<open>bits\<close>, which starts at 255 and stops at 8 or when the
  steps are used up.
\<close>

function (sequential) findRepresentation :: "params \<Rightarrow> u256 \<Rightarrow> nat \<Rightarrow> (assembly_items \<times> nat) result"
and findRepresentation_loop ::
  "params \<Rightarrow> u256 \<Rightarrow> nat \<Rightarrow> assembly_items \<Rightarrow> bigint \<Rightarrow> nat \<Rightarrow> (assembly_items \<times> nat) result" where
  "findRepresentation p val maxSteps =
     (if val < 0x10000 then Inr ([mkPush val noLocation], maxSteps)
      else if bytesRequired (NOT val) < bytesRequired val then
        bindR (findRepresentation p (NOT val) maxSteps) (\<lambda>(r, steps).
          Inr (r @ [mkOp NOT' noLocation], steps))
      else
        bindR (compute_gasNeeded p [mkPush val noLocation]) (\<lambda>bestGas.
          findRepresentation_loop p val 255 [mkPush val noLocation] bestGas maxSteps))"
| "findRepresentation_loop p val bits routine bestGas maxSteps =
     (if bits > 8 \<and> bits \<le> 255 \<and> maxSteps > 0 then
        case decompose val bits of
          None \<Rightarrow> findRepresentation_loop p val (bits - 1) routine bestGas maxSteps
        | Some (upperPart, lowerPart) \<Rightarrow>
            bindR (if lowerPart \<noteq> 0 then findRepresentation p (word_of_int \<bar>lowerPart\<bar>) maxSteps
                   else Inr ([], maxSteps)) (\<lambda>(lower, steps1).
            bindR (if hasBitwiseShifting (pr_evmVersion p) then
                     bindR (findRepresentation p upperPart steps1) (\<lambda>(upper, steps2).
                       Inr (upper @ [mkPush (of_nat bits) noLocation, mkOp SHL noLocation], steps2))
                   else
                     bindR (if upperPart \<noteq> 1 then
                              bindR (findRepresentation p upperPart steps1) (\<lambda>(upper, steps2).
                                Inr (upper @ [mkOp MUL noLocation], steps2))
                            else Inr ([], steps1)) (\<lambda>(upper, steps2).
                       Inr ([mkPush (of_nat bits) noLocation, mkPush 2 noLocation, mkOp EXP noLocation]
                            @ upper, steps2)))
              (\<lambda>(upper, steps2).
            let newRoutine = lower @ upper @
                  (if lowerPart > 0 then [mkOp ADD noLocation]
                   else if lowerPart < 0 then [mkOp SUB noLocation] else []);
                steps3 = (if steps2 > 0 then steps2 - 1 else steps2)
            in bindR (compute_gasNeeded p newRoutine) (\<lambda>newGas.
                 if newGas < bestGas
                 then findRepresentation_loop p val (bits - 1) newRoutine newGas steps3
                 else findRepresentation_loop p val (bits - 1) routine bestGas steps3)))
      else Inr (routine, maxSteps))"
  by pat_completeness auto

termination
proof (relation "measures
    [case_sum (\<lambda>(p, val, n). unat val) (\<lambda>(p, val, bits, r, g, n). unat val),
     case_sum (\<lambda>_. 256) (\<lambda>(p, val, bits, r, g, n). bits)]", goal_cases)
  case (2 p val maxSteps)
  then show ?case using negated_smaller by simp
next
  case (5 p val bits routine bestGas maxSteps ul upper lower)
  then show ?case using decompose_Some(5) [of val bits upper lower] by (simp add: unat_abs_less)
next
  case (6 p val bits routine bestGas maxSteps ul upper lower)
  then show ?case using decompose_Some(4) [of val bits upper lower] by (simp add: unat_less_uint)
next
  case (7 p val bits routine bestGas maxSteps ul upper lower)
  then show ?case using decompose_Some(4) [of val bits upper lower] by (simp add: unat_less_uint)
qed simp_all

declare findRepresentation.simps [simp del] findRepresentation_loop.simps [simp del]

text \<open>
  \<open>checkRepresentation\<close>: the tiny EVM. The head of the list is the top of the stack; \<open>None\<close> is
  \<open>return false\<close>.
\<close>

definition tiny_step :: "params \<Rightarrow> assembly_item \<Rightarrow> u256 list \<Rightarrow> u256 list option result" where
  "tiny_step p it stack =
     (if m_type it = Operation then
        if length stack < item_arguments it then Inr None
        else
          let i = m_instruction it; sp0 = stack ! 0; sp1 = stack ! 1; rest = drop 2 stack in
          if i = MUL then Inr (Some ((sp0 * sp1) # rest))
          else if i = EXP then
            (if sp1 > 0xff then Inr None else Inr (Some ((sp0 ^ unat sp1) # rest)))
          else if i = ADD then Inr (Some ((sp0 + sp1) # rest))
          else if i = SUB then Inr (Some ((sp0 - sp1) # rest))
          else if i = NOT' then Inr (Some (NOT sp0 # drop 1 stack))
          else if i = SHL then
            bindR (assertThrow (hasBitwiseShifting (pr_evmVersion p)) OptimizerException) (\<lambda>_.
            bindR (assertThrow (sp0 \<le> 255) OptimizerException) (\<lambda>_.
              Inr (Some (word_of_int (push_bit (unat sp0) (uint sp1)) # rest))))
          else if i = SHR then
            bindR (assertThrow (hasBitwiseShifting (pr_evmVersion p)) OptimizerException) (\<lambda>_.
            bindR (assertThrow (sp0 \<le> 255) OptimizerException) (\<lambda>_.
              Inr (Some (drop_bit (unat sp0) sp1 # rest))))
          else Inr None
      else if m_type it = Push then Inr (Some (m_data it # stack))
      else Inr None)"

fun tiny_evm :: "params \<Rightarrow> assembly_items \<Rightarrow> u256 list \<Rightarrow> u256 list option result" where
  "tiny_evm p [] stack = Inr (Some stack)"
| "tiny_evm p (it # its) stack =
     bindR (tiny_step p it stack) (\<lambda>r.
       case r of None \<Rightarrow> Inr None | Some stack' \<Rightarrow> tiny_evm p its stack')"

definition checkRepresentation :: "params \<Rightarrow> u256 \<Rightarrow> assembly_items \<Rightarrow> bool result" where
  "checkRepresentation p val routine =
     bindR (tiny_evm p routine []) (\<lambda>r.
       Inr (case r of Some stack \<Rightarrow> length stack = 1 \<and> hd stack = val | None \<Rightarrow> False))"

definition ComputeMethod :: "params \<Rightarrow> u256 \<Rightarrow> assembly_items result" where
  "ComputeMethod p val =
     bindR (findRepresentation p val 10000) (\<lambda>(routine, _).
     bindR (checkRepresentation p val routine) (\<lambda>ok.
     bindR (assertThrow ok OptimizerException) (\<lambda>_. Inr routine)))"

section \<open>Representations are right\<close>

definition routine_ok :: "assembly_items \<Rightarrow> bool" where
  "routine_ok items \<longleftrightarrow>
     (\<forall>it \<in> set items. m_type it = Push \<or>
        m_type it = Operation \<and> m_instruction it \<in> {NOT', SHL, EXP, MUL, ADD, SUB})"

lemma routine_ok_simps [simp]:
  "routine_ok []" "routine_ok (mkPush v loc # items) = routine_ok items"
  "routine_ok (mkOp i loc # items) \<longleftrightarrow> i \<in> {NOT', SHL, EXP, MUL, ADD, SUB} \<and> routine_ok items"
  "routine_ok (xs @ ys) \<longleftrightarrow> routine_ok xs \<and> routine_ok ys"
  by (auto simp: routine_ok_def mkPush_def mkItem_def mkOp_def)

text \<open>The routine puts one value on the stack, on top of whatever is there.\<close>

definition represents :: "params \<Rightarrow> assembly_items \<Rightarrow> u256 \<Rightarrow> bool" where
  "represents p routine v \<longleftrightarrow>
     routine_ok routine \<and> (\<forall>stack. tiny_evm p routine stack = Inr (Some (v # stack)))"

lemma tiny_evm_append:
  "tiny_evm p (xs @ ys) stack =
     bindR (tiny_evm p xs stack) (\<lambda>r. case r of None \<Rightarrow> Inr None | Some stack' \<Rightarrow> tiny_evm p ys stack')"
proof (induction xs arbitrary: stack)
  case (Cons it xs)
  then show ?case by (cases "tiny_step p it stack") (auto split: option.splits)
qed simp

lemma item_arguments_op: "item_arguments (mkOp i loc) = ii_args (instructionInfo i)"
  by (simp add: item_arguments_def mkOp_def)

lemma tiny_step_simps:
  "tiny_step p (mkPush v loc) st = Inr (Some (v # st))"
  "tiny_step p (mkOp MUL loc) (a # b # st) = Inr (Some ((a * b) # st))"
  "tiny_step p (mkOp ADD loc) (a # b # st) = Inr (Some ((a + b) # st))"
  "tiny_step p (mkOp SUB loc) (a # b # st) = Inr (Some ((a - b) # st))"
  "tiny_step p (mkOp NOT' loc) (a # st) = Inr (Some (NOT a # st))"
  "b \<le> 0xff \<Longrightarrow> tiny_step p (mkOp EXP loc) (a # b # st) = Inr (Some (a ^ unat b # st))"
  by (simp_all add: tiny_step_def mkPush_def mkItem_def mkOp_def item_arguments_def instructionInfo_eqs
      Let_def not_less)

lemma tiny_step_SHL:
  assumes "hasBitwiseShifting (pr_evmVersion p)" "a \<le> 255"
  shows "tiny_step p (mkOp SHL loc) (a # b # st) = Inr (Some (push_bit (unat a) b # st))"
proof -
  have "word_of_int (push_bit n (uint b)) = push_bit n b" for n
    by (rule bit_word_eqI) (simp add: bit_simps)
  then show ?thesis using assms
    by (simp add: tiny_step_def mkOp_def item_arguments_def instructionInfo_eqs Let_def)
qed

lemma represents_push: "represents p [mkPush v loc] v"
  by (simp add: represents_def tiny_step_simps)

lemma represents_append:
  assumes "represents p xs a" "routine_ok ys" "\<And>st. tiny_evm p ys (a # st) = Inr (Some (b # st))"
  shows "represents p (xs @ ys) b"
  using assms by (auto simp: represents_def tiny_evm_append)

lemma runGas_routine:
  "\<forall>i \<in> {NOT', SHL, MUL, ADD, SUB, PUSH1}. \<exists>g. runGas i = Inr g"
  by (simp add: runGas_def instructionInfo_eqs)

lemma simpleRunGas_total: "routine_ok items \<Longrightarrow> \<exists>g. simpleRunGas items = Inr g"
proof (induction items)
  case (Cons it items)
  then obtain gs where gs: "simpleRunGas items = Inr gs" by (auto simp: routine_ok_def)
  have "m_type it = Push \<or> m_type it = Operation \<and> m_instruction it \<in> {NOT', SHL, EXP, MUL, ADD, SUB}"
    using Cons.prems by (simp add: routine_ok_def)
  then show ?case using gs runGas_routine by auto
qed simp

lemma compute_gasNeeded_total:
  assumes "routine_ok items"
  shows "\<exists>g. compute_gasNeeded p items = Inr g"
proof -
  have "\<forall>it \<in> set items. m_type it \<noteq> UndefinedItem" using assms by (auto simp: routine_ok_def)
  then have "\<exists>n. items_bytesRequired_loop 3 items 0 = Inr n" by (rule bytesRequired_defined)
  then show ?thesis using simpleRunGas_total [OF assms]
    by (auto simp: compute_gasNeeded_def const_bytesRequired_def items_bytesRequired_def Let_def)
qed

lemma decompose_value:
  assumes "decompose val bits = Some (upper, lower)" "8 < bits" "bits \<le> 255"
  shows "val = push_bit bits upper + word_of_int lower"
proof -
  have "word_of_int (uint val) = (word_of_int (uint upper * 2 ^ bits + lower) :: u256)"
    using decompose_Some(1) [OF assms] by simp
  then have "val = upper * 2 ^ bits + word_of_int lower"
    by (simp add: wi_hom_syms flip: word_of_int_power_hom)
  then show ?thesis by (simp add: push_bit_eq_mult)
qed

text \<open>The upper part, shifted or multiplied into place.\<close>

lemma upper_shifted:
  assumes "represents p r u" "hasBitwiseShifting (pr_evmVersion p)" "bits \<le> 255"
  shows "represents p (r @ [mkPush (of_nat bits) noLocation, mkOp SHL noLocation]) (push_bit bits u)"
proof (rule represents_append [OF assms(1)])
  show "routine_ok [mkPush (of_nat bits) noLocation, mkOp SHL noLocation]" by simp
  have "(of_nat bits :: u256) \<le> 255" "unat (of_nat bits :: u256) = bits"
    using assms(3) by (simp_all add: word_le_nat_alt unat_of_nat)
  then show "tiny_evm p [mkPush (of_nat bits) noLocation, mkOp SHL noLocation] (u # st)
      = Inr (Some (push_bit bits u # st))" for st
    using assms(2) by (simp add: tiny_step_simps tiny_step_SHL)
qed

lemma power_pushed:
  assumes "bits \<le> 255"
  shows "represents p [mkPush (of_nat bits) noLocation, mkPush 2 noLocation, mkOp EXP noLocation] (2 ^ bits)"
proof -
  have "(of_nat bits :: u256) \<le> 0xff" "unat (of_nat bits :: u256) = bits"
    using assms by (simp_all add: word_le_nat_alt unat_of_nat)
  then show ?thesis
    by (simp add: represents_def tiny_step_simps)
qed

lemma represents_two:
  assumes "represents p xs a" "represents p ys b" "routine_ok zs"
    "\<And>st. tiny_evm p zs (b # a # st) = Inr (Some (c # st))"
  shows "represents p (xs @ ys @ zs) c"
  using assms by (auto simp: represents_def tiny_evm_append)

text \<open>One iteration of the loop builds a representation from those of the parts.\<close>

lemma represents_decomposition:
  assumes d: "decompose val bits = Some (u, l)" "8 < bits" "bits \<le> 255"
    and lower: "if l \<noteq> 0 then represents p lo (word_of_int \<bar>l\<bar>) else lo = []"
    and upper: "represents p up (push_bit bits u)"
  shows "represents p (lo @ up @ (if l > 0 then [mkOp ADD noLocation]
    else if l < 0 then [mkOp SUB noLocation] else [])) val"
proof -
  note val = decompose_value [OF d]
  consider "l = 0" | "0 < l" | "l < 0" by linarith
  then show ?thesis
  proof cases
    case 1
    then show ?thesis using lower upper val by simp
  next
    case 2
    then have lo: "represents p lo (word_of_int l)" using lower by simp
    show ?thesis using 2 represents_two [OF lo upper, of "[mkOp ADD noLocation]" val] val
      by (simp add: tiny_step_simps)
  next
    case 3
    then have lo: "represents p lo (- word_of_int l)" using lower by simp
    show ?thesis using 3 represents_two [OF lo upper, of "[mkOp SUB noLocation]" val] val
      by (simp add: tiny_step_simps)
  qed
qed

lemma findRepresentation_represents:
  "\<exists>r n'. findRepresentation p val n = Inr (r, n') \<and> represents p r val"
  "represents p routine val \<Longrightarrow>
   \<exists>r n'. findRepresentation_loop p val bits routine bestGas n = Inr (r, n') \<and> represents p r val"
proof (induction p val n and p val bits routine bestGas n
    rule: findRepresentation_findRepresentation_loop.induct)
  case (1 p val n)
  show ?case
  proof (cases "val < 0x10000")
    case True
    then show ?thesis by (simp add: findRepresentation.simps represents_push)
  next
    case large: False
    show ?thesis
    proof (cases "bytesRequired (NOT val) < bytesRequired val")
      case True
      then obtain r n' where r: "findRepresentation p (NOT val) n = Inr (r, n')" "represents p r (NOT val)"
        using 1(1) large by blast
      have "represents p (r @ [mkOp NOT' noLocation]) val"
        by (rule represents_append [OF r(2)]) (simp_all add: tiny_step_simps)
      then show ?thesis using r large True by (subst findRepresentation.simps) simp
    next
      case False
      obtain g where g: "compute_gasNeeded p [mkPush val noLocation] = Inr g"
        using compute_gasNeeded_total [of "[mkPush val noLocation]"] by auto
      from 1(2) [OF large False g represents_push] show ?thesis
        using large False g by (subst findRepresentation.simps) simp
    qed
  qed
next
  case (2 p val bits routine bestGas n)
  show ?case
  proof (cases "8 < bits \<and> bits \<le> 255 \<and> 0 < n")
    case False
    then show ?thesis using "2.prems" by (subst findRepresentation_loop.simps) auto
  next
    case c: True
    show ?thesis
    proof (cases "decompose val bits")
      case None
      then show ?thesis using "2.IH"(1) [OF c None "2.prems"] c
        by (subst findRepresentation_loop.simps) simp
    next
      case (Some ul)
      obtain u l where ul: "(u, l) = ul" by (cases ul) auto
      note d = Some
      let ?lower = "if l \<noteq> 0 then findRepresentation p (word_of_int \<bar>l\<bar>) n else Inr ([], n)"
      obtain lo n1 where lo: "?lower = Inr (lo, n1)"
        "if l \<noteq> 0 then represents p lo (word_of_int \<bar>l\<bar>) else lo = []"
        using "2.IH"(2) [OF c d ul] by (cases "l = 0") auto
      let ?upper = "if hasBitwiseShifting (pr_evmVersion p) then
          bindR (findRepresentation p u n1) (\<lambda>(upper, steps2).
            Inr (upper @ [mkPush (of_nat bits) noLocation, mkOp SHL noLocation], steps2))
        else
          bindR (if u \<noteq> 1 then bindR (findRepresentation p u n1) (\<lambda>(upper, steps2).
              Inr (upper @ [mkOp MUL noLocation], steps2)) else Inr ([], n1)) (\<lambda>(upper, steps2).
            Inr ([mkPush (of_nat bits) noLocation, mkPush 2 noLocation, mkOp EXP noLocation] @ upper, steps2))"
      have "\<exists>up n2. ?upper = Inr (up, n2) \<and> represents p up (push_bit bits u)"
      proof (cases "hasBitwiseShifting (pr_evmVersion p)")
        case True
        then show ?thesis using "2.IH"(3) [OF c d ul lo(1) refl True] upper_shifted c by fastforce
      next
        case noshift: False
        show ?thesis
        proof (cases "u = 1")
          case True
          then show ?thesis using noshift power_pushed [of bits p] c by simp
        next
          case False
          obtain r n2 where r: "findRepresentation p u n1 = Inr (r, n2)" "represents p r u"
            using "2.IH"(4) [OF c d ul lo(1) refl noshift False] by blast
          have "represents p ([mkPush (of_nat bits) noLocation, mkPush 2 noLocation, mkOp EXP noLocation]
              @ r @ [mkOp MUL noLocation]) (push_bit bits u)"
            using c by (intro represents_two [OF power_pushed r(2)])
              (simp_all add: tiny_step_simps push_bit_eq_mult)
          then show ?thesis using noshift False r(1) by simp
        qed
      qed
      then obtain up n2 where up: "?upper = Inr (up, n2)" "represents p up (push_bit bits u)" by blast
      let ?new = "lo @ up @ (if l > 0 then [mkOp ADD noLocation]
        else if l < 0 then [mkOp SUB noLocation] else [])"
      have new: "represents p ?new val"
        using represents_decomposition [OF _ _ _ lo(2) up(2), of val] c d ul by simp
      then have "routine_ok ?new" unfolding represents_def by blast
      then obtain g where g: "compute_gasNeeded p ?new = Inr g" using compute_gasNeeded_total by blast
      let ?n3 = "if 0 < n2 then n2 - 1 else n2"
      have loop: "findRepresentation_loop p val bits routine bestGas n =
          (if g < bestGas then findRepresentation_loop p val (bits - 1) ?new g ?n3
           else findRepresentation_loop p val (bits - 1) routine bestGas ?n3)"
        using c d ul [symmetric] lo(1) up(1) g
        by (subst findRepresentation_loop.simps) (simp del: bindR_cong)
      show ?thesis
      proof (cases "g < bestGas")
        case True
        then show ?thesis unfolding loop
          using "2.IH"(5) [OF c d ul lo(1) refl up(1) refl refl refl g True new] by simp
      next
        case False
        then show ?thesis unfolding loop
          using "2.IH"(6) [OF c d ul lo(1) refl up(1) refl refl refl g False "2.prems"] by simp
      qed
    qed
  qed
qed

lemma ComputeMethod_represents:
  "\<exists>routine. ComputeMethod p v = Inr routine \<and> represents p routine v"
proof -
  obtain r n where r: "findRepresentation p v 10000 = Inr (r, n)" "represents p r v"
    using findRepresentation_represents(1) by blast
  then have "checkRepresentation p v r = Inr True"
    by (simp add: checkRepresentation_def represents_def)
  then show ?thesis using r by (simp add: ComputeMethod_def)
qed

section \<open>Choosing a method\<close>

text \<open>The part of the class \<open>Assembly\<close> that the constant optimiser changes.\<close>

record assembly =
  asm_items :: assembly_items
  asm_data :: "u256 \<Rightarrow> bytes option"

definition newData :: "(bytes \<Rightarrow> u256) \<Rightarrow> bytes \<Rightarrow> assembly \<Rightarrow> assembly_item \<times> assembly" where
  "newData keccak d asm =
     (let h = keccak d in (mkItem PushData h noLocation, asm\<lparr>asm_data := (asm_data asm)(h \<mapsto> d)\<rparr>))"

definition copy_execute ::
  "(bytes \<Rightarrow> u256) \<Rightarrow> u256 \<Rightarrow> assembly \<Rightarrow> (assembly_items \<times> assembly) result" where
  "copy_execute keccak val asm =
     (let d = toBigEndian val in
      bindR (assertThrow (length d = 32) OptimizerException) (\<lambda>_.
        let (it, asm') = newData keccak d asm in Inr (copyRoutine[4 := it], asm')))"

text \<open>
  The body of the loop over the constants: what it adds to \<open>optimisations\<close>, the replacement, which
  stays empty for the literal, and the assembly.
\<close>

definition chooseReplacement ::
  "(bytes \<Rightarrow> u256) \<Rightarrow> params \<Rightarrow> u256 \<Rightarrow> assembly \<Rightarrow> (nat \<times> assembly_items \<times> assembly) result" where
  "chooseReplacement keccak p val asm =
     bindR (literal_gasNeeded p val) (\<lambda>literalGas.
     bindR (copy_gasNeeded p val) (\<lambda>copyGas.
     bindR (ComputeMethod p val) (\<lambda>routine.
     bindR (compute_gasNeeded p routine) (\<lambda>computeGas.
       if copyGas < literalGas \<and> copyGas < computeGas then
         bindR (copy_execute keccak val asm) (\<lambda>(replacement, asm'). Inr (1, replacement, asm'))
       else if computeGas < literalGas \<and> computeGas \<le> copyGas then Inr (1, routine, asm)
       else Inr (0, [], asm)))))"

fun optimiseConstants_loop ::
  "(bytes \<Rightarrow> u256) \<Rightarrow> params \<Rightarrow> (u256 \<times> nat) list \<Rightarrow> nat \<Rightarrow> (u256 \<Rightarrow> assembly_items option) \<Rightarrow> assembly \<Rightarrow>
   (nat \<times> (u256 \<Rightarrow> assembly_items option) \<times> assembly) result" where
  "optimiseConstants_loop keccak p [] n pending asm = Inr (n, pending, asm)"
| "optimiseConstants_loop keccak p ((val, multiplicity) # rest) n pending asm =
     (if val < 0x100 then optimiseConstants_loop keccak p rest n pending asm
      else
        bindR (chooseReplacement keccak (p\<lparr>pr_multiplicity := multiplicity\<rparr>) val asm)
          (\<lambda>(k, replacement, asm').
            optimiseConstants_loop keccak p rest (n + k)
              (if replacement \<noteq> [] then pending(val \<mapsto> replacement) else pending) asm'))"

text \<open>
  \<open>map<AssemblyItem, size_t> pushes\<close>: the pushed constants in increasing order, each with the
  number of its occurrences.
\<close>

definition countPushes :: "assembly_items \<Rightarrow> (u256 \<times> nat) list" where
  "countPushes items =
     (let vs = map m_data (filter (\<lambda>it. m_type it = Push) items)
      in map (\<lambda>v. (v, length (filter (\<lambda>w. w = v) vs))) (sort (remdups vs)))"

fun replaceConstants :: "assembly_items \<Rightarrow> (u256 \<Rightarrow> assembly_items option) \<Rightarrow> assembly_items" where
  "replaceConstants [] replacements = []"
| "replaceConstants (it # its) replacements =
     (if m_type it = Push then
        (case replacements (m_data it) of
           Some r \<Rightarrow> r @ replaceConstants its replacements
         | None \<Rightarrow> it # replaceConstants its replacements)
      else it # replaceConstants its replacements)"

definition optimiseConstants ::
  "(bytes \<Rightarrow> u256) \<Rightarrow> bool \<Rightarrow> nat \<Rightarrow> evm_version \<Rightarrow> assembly \<Rightarrow> (nat \<times> assembly) result" where
  "optimiseConstants keccak isCreation runs version asm =
     bindR (optimiseConstants_loop keccak
         \<lparr>pr_isCreation = isCreation, pr_runs = runs, pr_multiplicity = 0, pr_evmVersion = version\<rparr>
         (countPushes (asm_items asm)) 0 Map.empty asm)
       (\<lambda>(n, pending, asm').
         if pending \<noteq> Map.empty
         then Inr (n, asm'\<lparr>asm_items := replaceConstants (asm_items asm') pending\<rparr>)
         else Inr (n, asm'))"

section \<open>Constants on the machine\<close>

lemma op_step_SHL:
  "op_step env SHL stk s =
     (case stk of a # b # r \<Rightarrow> Continue ((if a > 255 then 0 else push_bit (unat a) b) # r) s | _ \<Rightarrow> Fail)"
  by (rule op_step_binary; simp add: evaluated_def instructionInfo_eqs eval_arithmetic_simps group_ranges)

lemma tiny_step_machine:
  assumes "tiny_step p it st = Inr (Some st')" "routine_ok [it]"
  shows "item_step env it st s = Continue st' s"
proof (cases "m_type it = Push")
  case True
  then show ?thesis using assms by (simp add: tiny_step_def item_step_def)
next
  case False
  then have op: "m_type it = Operation" "m_instruction it \<in> {NOT', SHL, EXP, MUL, ADD, SUB}"
    using assms(2) by (auto simp: routine_ok_def)
  have len: "ii_args (instructionInfo (m_instruction it)) \<le> length st"
    using assms(1) op(1) by (auto simp: tiny_step_def item_arguments_def split: if_splits)
  have shl: "word_of_int (push_bit n (uint b)) = push_bit n b" for n and b :: u256
    by (rule bit_word_eqI) (simp add: bit_simps)
  from op(2) consider "m_instruction it = NOT'" | "m_instruction it = SHL" | "m_instruction it = EXP"
    | "m_instruction it = MUL" | "m_instruction it = ADD" | "m_instruction it = SUB" by blast
  then show ?thesis
  proof cases
    case 1
    then obtain a r where "st = a # r" using len by (cases st) (auto simp: instructionInfo_eqs)
    then show ?thesis using assms(1) op(1) 1
      by (simp add: tiny_step_def item_step_def item_arguments_def instructionInfo_eqs op_steps)
  next
    case 2
    then obtain a b r where "st = a # b # r"
      using len by (cases st rule: remdups_adj.cases) (auto simp: instructionInfo_eqs)
    then show ?thesis using assms(1) op(1) 2
      by (auto simp: tiny_step_def item_step_def item_arguments_def instructionInfo_eqs op_step_SHL
          bindR_Inr_iff assertThrow_def shl split: if_splits)
  qed (use len assms(1) op(1) in
    \<open>cases st rule: remdups_adj.cases; simp add: tiny_step_def item_step_def item_arguments_def
      instructionInfo_eqs op_steps exp256_eq_power split: if_splits\<close>)+
qed

lemma represents_steps:
  assumes "represents p r v"
  shows "steps env r stk s = Continue (v # stk) s"
proof -
  have "tiny_evm p items st = Inr (Some st') \<Longrightarrow> routine_ok items \<Longrightarrow> steps env items st s = Continue st' s"
    for items st st'
  proof (induction items arbitrary: st)
    case (Cons it items)
    then obtain st1 where "tiny_step p it st = Inr (Some st1)" "tiny_evm p items st1 = Inr (Some st')"
      by (auto simp: bindR_Inr_iff split: option.splits)
    moreover have "routine_ok [it]" "routine_ok items" using Cons.prems(2) by (auto simp: routine_ok_def)
    ultimately show ?case using Cons.IH tiny_step_machine by simp
  qed simp
  then show ?thesis using assms by (simp add: represents_def)
qed

text \<open>
  A replacement that pushes the value and changes nothing else keeps all executions.
\<close>

lemma Push_replacement_ok:
  assumes "m_type it = Push" "represents p r (m_data it)"
  shows "window_ok (it # rest) 1 r"
proof (rule window_ok_straight [of "[it]"])
  show "tag_free [it]" using assms(1) by (simp add: tag_free_def)
  show "from_window [it] r" using assms(2) by (auto simp: from_window_def represents_def routine_ok_def)
  show "steps_refine env [it] r" for env
    using represents_steps [OF assms(2)] assms(1) by (simp add: steps_refine_def item_step_Push)
qed simp_all

lemma same_item_ok: "window_ok (it # rest) 1 [it]"
proof (cases "m_type it = Tag")
  case True
  then show ?thesis unfolding window_ok_def
    by (intro conjI allI impI exI [of _ "[]"] exI [of _ "[it]"])
      (auto simp: tag_free_def from_window_def executes_tag preserved_def dest: run_tag)
next
  case False
  then show ?thesis
    by (intro window_ok_straight [of "[it]"]) (auto simp: tag_free_def from_window_def steps_refine_def)
qed

lemma replaceConstants_aligned:
  assumes "\<forall>v r. replacements v = Some r \<longrightarrow> represents p r v"
  shows "aligned items (replaceConstants items replacements)"
proof (induction items)
  case (Cons it items)
  have *: "aligned (it # items) (r @ replaceConstants items replacements)" if "window_ok (it # items) 1 r" for r
    using aligned_window [OF that] Cons by simp
  show ?case
  proof (cases "m_type it = Push \<and> replacements (m_data it) \<noteq> None")
    case True
    then obtain r where r: "m_type it = Push" "replacements (m_data it) = Some r" by auto
    then have "represents p r (m_data it)" using assms by blast
    then show ?thesis using * [OF Push_replacement_ok [OF r(1)]] r by simp
  next
    case False
    then have "replaceConstants (it # items) replacements = [it] @ replaceConstants items replacements"
      by (auto split: option.splits)
    then show ?thesis using * [OF same_item_ok] by (simp only:)
  qed
qed (simp add: aligned_Nil)

section \<open>Properties\<close>

text \<open>
  C9: the constant optimiser finds a correct representation of every constant: the constructor of
  \<open>ComputeMethod\<close> returns for every value, on every EVM version and for all gas parameters, so the
  assertion "Invalid constant expression created" never fails, and the routine it stores, run by
  the machine, pushes exactly the constant and changes nothing else.
\<close>

theorem compute_method_correct:
  "\<exists>routine. ComputeMethod p val = Inr routine \<and> checkRepresentation p val routine = Inr True \<and>
     (\<forall>env stk s. steps env routine stk s = Continue (val # stk) s)"
proof -
  obtain r where r: "ComputeMethod p val = Inr r" "represents p r val"
    using ComputeMethod_represents by blast
  then have "checkRepresentation p val r = Inr True"
    by (simp add: checkRepresentation_def represents_def)
  then show ?thesis using r represents_steps by blast
qed

text \<open>
  C11: replacing constants by representations preserves executions of the whole program.
\<close>

theorem replaceConstants_preserves_execution:
  assumes "\<forall>v r. replacements v = Some r \<longrightarrow> represents p r v" "program_ok env items"
    and "executes env items items stk s e s'"
  shows "executes env (replaceConstants items replacements) (replaceConstants items replacements) stk s e s'"
proof -
  obtain k where "run env items k items stk s = Halted e s'" using assms(3) by (auto simp: executes_def)
  then show ?thesis
    using aligned_run [OF assms(2) replaceConstants_aligned [OF assms(1)]
        replaceConstants_aligned [OF assms(1)], of "[]"] by simp
qed

theorem replaceConstants_preserves_execution_witness:
  "\<forall>env s. executes env
     (replaceConstants [mkPush (- 1) noLocation, mkPush 7 noLocation, mkOp SSTORE noLocation]
        (Map.empty(- 1 \<mapsto> [mkPush 0 noLocation, mkOp NOT' noLocation])))
     (replaceConstants [mkPush (- 1) noLocation, mkPush 7 noLocation, mkOp SSTORE noLocation]
        (Map.empty(- 1 \<mapsto> [mkPush 0 noLocation, mkOp NOT' noLocation])))
     [] s ExplicitlyTerminated (s\<lparr>storage := (storage s)(7 := - 1)\<rparr>)"
proof (intro allI)
  fix env s
  let ?items = "[mkPush (- 1) noLocation, mkPush 7 noLocation, mkOp SSTORE noLocation]"
  let ?r = "Map.empty(- 1 \<mapsto> [mkPush 0 noLocation, mkOp NOT' noLocation])"
  let ?p = "\<lparr>pr_isCreation = True, pr_runs = 200, pr_multiplicity = 1, pr_evmVersion = Istanbul\<rparr>"
  have "\<forall>v r. ?r v = Some r \<longrightarrow> represents ?p r v"
    by (simp add: represents_def tiny_step_simps)
  moreover have "program_ok env ?items"
    by (simp add: program_ok_def mkPush_def mkItem_def mkOp_def)
  moreover have "executes env ?items ?items [] s ExplicitlyTerminated (s\<lparr>storage := (storage s)(7 := - 1)\<rparr>)"
    by (simp add: executes_Cons item_step_Push mkPush_def mkItem_def op_step_evaluated evaluated_def
        group_ranges instructionInfo_eqs eval_def eval_signals_def eval_arithmetic_def
        eval_blockchain_def eval_memory_def Let_def)
  ultimately show "executes env (replaceConstants ?items ?r) (replaceConstants ?items ?r) [] s
      ExplicitlyTerminated (s\<lparr>storage := (storage s)(7 := - 1)\<rparr>)"
    by (rule replaceConstants_preserves_execution)
qed

end
