(* ===== verification/MemoryWords.thy ===== *)
theory MemoryWords
  imports EVMInterpreter
begin

text \<open>
  Words in the memory of the interpreter: what \<open>writeMemoryWord\<close> leaves in each byte and what
  \<open>readMemoryWord\<close> returns afterwards, at the same address and at a distance of at least 32.
\<close>

lemma foldl_memory_update:
  assumes "n \<le> 2 ^ 256"
  shows "foldl (\<lambda>m i. m(a + of_nat i := f i)) m [0..<n] =
    (\<lambda>x :: u256. if unat (x - a) < n then f (unat (x - a)) else m x)"
  using assms
proof (induction n)
  case (Suc n)
  then have "unat (of_nat n :: u256) = n" by (simp add: unat_of_nat take_bit_eq_mod)
  then have "x = a + of_nat n \<longleftrightarrow> unat (x - a) = n" for x :: u256
    by (metis add_diff_cancel_left' diff_add_cancel add.commute of_nat_unat ucast_id)
  then show ?case using Suc by (auto simp: fun_eq_iff less_Suc_eq)
qed simp

lemma be_bytes_nth: "i < n \<Longrightarrow> be_bytes n v ! i = ucast (drop_bit (8 * (n - 1 - i)) v)"
proof (induction n arbitrary: v)
  case (Suc n)
  show ?case
  proof (cases "i < n")
    case True
    then have e: "8 * (n - i) = 8 * (n - 1 - i) + 8" by simp
    have "drop_bit (8 * (n - i)) v = drop_bit (8 * (n - 1 - i)) (drop_bit 8 v)"
      by (simp only: e drop_bit_drop_bit)
    then show ?thesis using Suc.IH True by (simp add: nth_append)
  next
    case False
    then have "i = n" using Suc.prems by simp
    then show ?thesis by (simp add: nth_append)
  qed
qed simp

lemma toBigEndian_nth: "i < 32 \<Longrightarrow> toBigEndian v ! i = ucast (drop_bit (8 * (31 - i)) v AND 0xff)"
  by (simp add: toBigEndian_eq be_bytes_nth ucast_and_255)

lemma writeMemoryWord_eq:
  "writeMemoryWord a v s =
     s\<lparr>memory := (\<lambda>x. if unat (x - a) < 32 then toBigEndian v ! unat (x - a) else memory s x)\<rparr>"
  using foldl_memory_update [of 32 a "\<lambda>i. ucast (drop_bit (8 * (31 - i)) v AND 0xff)" "memory s"]
  by (simp add: writeMemoryWord_def toBigEndian_nth cong: if_cong)

lemma readMemoryWord_eq: "readMemoryWord a s = fromBigEndian (map (\<lambda>i. memory s (a + of_nat i)) [0..<32])"
  by (simp add: readMemoryWord_def readMemory_def)

lemma toBigEndian_readMemoryWord:
  "toBigEndian (readMemoryWord a s) = map (\<lambda>i. memory s (a + of_nat i)) [0..<32]"
  by (simp add: readMemoryWord_eq toBigEndian_fromBigEndian)

lemma read_written_word: "readMemoryWord a (writeMemoryWord a v s) = v"
proof -
  have "map (\<lambda>i. memory (writeMemoryWord a v s) (a + of_nat i)) [0..<32] = toBigEndian v"
    by (rule nth_equalityI) (simp_all add: writeMemoryWord_eq unat_of_nat take_bit_eq_mod)
  then show ?thesis by (simp only: readMemoryWord_eq fromBigEndian_toBigEndian)
qed

lemma read_distant_word:
  assumes "62 < b - a + 31"
  shows "readMemoryWord b (writeMemoryWord a v s) = readMemoryWord b s"
proof -
  have far: "\<not> unat (b + of_nat i - a) < 32" if i: "i < 32" for i
  proof -
    have "b + of_nat i - a = (b - a + 31) - of_nat (31 - i)" using i by (simp add: of_nat_diff)
    also have "unat \<dots> = unat (b - a + 31) - unat (of_nat (31 - i) :: u256)"
    proof (rule unat_sub)
      show "of_nat (31 - i) \<le> b - a + 31"
        using assms by (simp add: word_le_nat_alt word_less_nat_alt unat_of_nat take_bit_eq_mod)
    qed
    finally show ?thesis using assms by (simp add: word_less_nat_alt unat_of_nat take_bit_eq_mod)
  qed
  have "map (\<lambda>i. memory (writeMemoryWord a v s) (b + of_nat i)) [0..<32] = map (\<lambda>i. memory s (b + of_nat i)) [0..<32]"
    by (rule map_cong) (simp_all add: writeMemoryWord_eq far)
  then show ?thesis by (simp only: readMemoryWord_eq)
qed

lemma write_known_word: "readMemoryWord a s = v \<Longrightarrow> memory (writeMemoryWord a v s) = memory s"
proof
  fix x
  assume v: "readMemoryWord a s = v"
  show "memory (writeMemoryWord a v s) x = memory s x"
    by (simp add: writeMemoryWord_eq toBigEndian_readMemoryWord flip: v)
qed

end
