(* ===== verification/ConstantRoutines.thy ===== *)
theory ConstantRoutines
  imports ConstantOptimiser MemoryWords
begin

text \<open>
  What the replacements chosen by the constant optimiser do on the machine. The class
  \<open>ConstantOptimisationMethod\<close> with its virtual methods \<open>gasNeeded\<close> and \<open>execute\<close> is the locale
  \<open>constant_method\<close>; its subclasses \<open>CodeCopyMethod\<close> and \<open>ComputeMethod\<close> are interpretations.
\<close>

section \<open>Memory words\<close>

lemma writeMemoryWord_0:
  "writeMemoryWord 0 v s =
     s\<lparr>memory := (\<lambda>a. if unat a < 32 then toBigEndian v ! unat a else memory s a)\<rparr>"
  by (simp add: writeMemoryWord_eq cong: if_cong)

lemma toBigEndian_readMemoryWord_0:
  "unat a < 32 \<Longrightarrow> toBigEndian (readMemoryWord 0 s) ! unat a = memory s a"
  by (simp add: toBigEndian_readMemoryWord)

lemma readMemoryWord_0_eq:
  assumes "\<And>i. i < 32 \<Longrightarrow> memory s (of_nat i) = toBigEndian v ! i"
  shows "readMemoryWord 0 s = v"
proof -
  have "map (\<lambda>i. memory s (0 + of_nat i)) [0..<32] = toBigEndian v"
    by (rule nth_equalityI) (simp_all add: assms)
  then show ?thesis by (simp only: readMemoryWord_eq fromBigEndian_toBigEndian)
qed

lemma accessMemory_word: "accessMemory 0 0x20 s = (True, s\<lparr>msize := max (msize s) 32\<rparr>)"
  by (simp add: accessMemory_def)

lemma copyZeroExtended_word:
  assumes "off + 32 \<le> length code" "off + 32 < 2 ^ 64" "unat (o64 :: size_t) = off"
  shows "copyZeroExtended m code 0 o64 32 = (\<lambda>a. if unat a < 32 then code ! (off + unat a) else m a)"
proof -
  have src: "unat (o64 + of_nat i) = off + i" if "i < 32" for i
    using assms that by (subst unat_add_lem [THEN iffD1]) (simp_all add: unat_of_nat take_bit_eq_mod)
  have tgt: "(ucast (of_nat i :: size_t) :: u256) = of_nat i" if "i < 32" for i
    using that by (simp add: word_eq_iff_unsigned unsigned_ucast_eq unsigned_of_nat take_bit_nat_eq_self)
  have "foldl (\<lambda>t i. t(ucast (0 + of_nat i :: size_t) :=
          if unat (o64 + of_nat i) < length code then code ! unat (o64 + of_nat i) else 0)) m [0..<32] =
      foldl (\<lambda>t i. t(of_nat i := code ! (off + i))) m [0..<32]"
    by (rule foldl_cong) (use assms(1) src tgt in auto)
  also have "\<dots> = (\<lambda>a. if unat a < 32 then code ! (off + unat a) else m a)"
    using foldl_memory_update [of 32 0 "\<lambda>i. code ! (off + i)" m] by (simp cong: if_cong)
  finally show ?thesis by (simp add: copyZeroExtended_def)
qed

section \<open>The copy routine\<close>

lemma op_step_memory:
  "op_step env MLOAD stk s =
     (case stk of a # r \<Rightarrow>
        (let s1 = snd (accessMemory a 0x20 s) in Continue (readMemoryWord a s1 # r) s1) | _ \<Rightarrow> Fail)"
  "op_step env MSTORE stk s =
     (case stk of a # b # r \<Rightarrow>
        (let s1 = snd (accessMemory a 0x20 s) in Continue r (writeMemoryWord a b s1)) | _ \<Rightarrow> Fail)"
  "op_step env CODECOPY stk s =
     (case stk of a # b # c # r \<Rightarrow>
        (case accessMemory a c s of (ok, s1) \<Rightarrow>
          Continue r (if ok then s1\<lparr>memory := copyZeroExtended (memory s1) (evmcode s1)
                                  (ucast a) (ucast b) (ucast c)\<rparr> else s1)) | _ \<Rightarrow> Fail)"
  by (simp_all add: op_step_evaluated evaluated_def group_ranges instructionInfo_eqs eval_def
      eval_signals_def eval_arithmetic_def eval_blockchain_def eval_memory_def Let_def
      split: list.split prod.split)

lemma op_step_DUP2_DUP4_SWAP2:
  "op_step env DUP2 (a # b # stk) s = Continue (b # a # b # stk) s"
  "op_step env DUP4 (a # b # c # d # stk) s = Continue (d # a # b # c # d # stk) s"
  "op_step env SWAP2 (a # b # c # stk) s = Continue (c # b # a # stk) s"
  by (subst op_step_dup op_step_swap; simp add: isDupInstruction_def isSwapInstruction_def)+

text \<open>The data of the assembly stand in the code, at the offsets their items push.\<close>

definition data_placed ::
  "machine_env \<Rightarrow> (u256 \<Rightarrow> bytes option) \<Rightarrow> interpreter_state \<Rightarrow> bool" where
  "data_placed env dat s \<longleftrightarrow>
     (\<forall>h d. dat h = Some d \<longrightarrow>
        (let off = unat (pushed_value env PushData h)
         in off + length d < 2 ^ 64 \<and> off + length d \<le> length (evmcode s) \<and>
            take (length d) (drop off (evmcode s)) = d))"

lemma copyRoutine_steps:
  assumes "data_placed env dat s" "dat h = Some (toBigEndian v)"
  shows "steps env (copyRoutine[4 := mkItem PushData h noLocation]) stk s =
    Continue (v # stk) (s\<lparr>msize := max (msize s) 32\<rparr>)"
proof -
  let ?off = "pushed_value env PushData h"
  let ?m = "\<lambda>a. if unat a < 32 then evmcode s ! (unat ?off + unat a) else memory s a"
  let ?s1 = "s\<lparr>msize := max (msize s) 32\<rparr>"
  have off: "unat ?off + 32 < 2 ^ 64" "unat ?off + 32 \<le> length (evmcode s)"
      "take 32 (drop (unat ?off) (evmcode s)) = toBigEndian v"
    using assms(1) [unfolded data_placed_def, rule_format, OF assms(2)] by (simp_all add: Let_def)
  have code: "evmcode s ! (unat ?off + i) = toBigEndian v ! i" if "i < 32" for i
    using that off(2) by (simp flip: off(3))
  have u: "unat (ucast ?off :: size_t) = unat ?off"
    using off(1) by (simp add: unsigned_ucast_eq take_bit_nat_eq_self)
  have copied: "copyZeroExtended (memory s) (evmcode s) 0 (ucast ?off) 32 = ?m"
    using off u by (intro copyZeroExtended_word) simp_all
  have loaded: "readMemoryWord 0 (s\<lparr>memory := ?m, msize := max (msize s) 32\<rparr>) = v"
    by (rule readMemoryWord_0_eq) (simp add: unat_of_nat take_bit_eq_mod code)
  have restored: "writeMemoryWord 0 (readMemoryWord 0 ?s1) (s\<lparr>memory := ?m, msize := max (msize s) 32\<rparr>) = ?s1"
    using toBigEndian_readMemoryWord_0 [of _ ?s1] by (simp add: writeMemoryWord_0 fun_eq_iff cong: if_cong)
  have push: "item_step env (mkItem PushData h noLocation) st s' = Continue (?off # st) s'" for st s'
    by (simp add: item_step_def mkItem_def)
  have pushv: "item_step env (mkPush x noLocation) st s' = Continue (x # st) s'" for x st s'
    by (simp add: item_step_def mkPush_def mkItem_def)
  show ?thesis
    using copied loaded restored
    by (simp add: copyRoutine_def push pushv op_steps op_step_memory op_step_DUP2_DUP4_SWAP2
        accessMemory_word Let_def)
qed

section \<open>The methods\<close>

text \<open>
  The data of an assembly are stored under their hash; the hash has no collisions among the data
  \<open>D\<close> the assembly may get. \<open>newData\<close> keeps it that way and loses no data.
\<close>

definition data_hashed :: "(bytes \<Rightarrow> u256) \<Rightarrow> bytes set \<Rightarrow> assembly \<Rightarrow> bool" where
  "data_hashed keccak D asm \<longleftrightarrow>
     inj_on keccak D \<and> (\<forall>h d. asm_data asm h = Some d \<longrightarrow> h = keccak d \<and> d \<in> D)"

lemma newData_hashed:
  assumes "data_hashed keccak D asm" "d \<in> D"
  shows "data_hashed keccak D (snd (newData keccak d asm))"
    and "asm_data asm \<subseteq>\<^sub>m asm_data (snd (newData keccak d asm))"
  using assms by (auto simp: data_hashed_def newData_def Let_def map_le_def dest: inj_onD)

text \<open>
  The routine pushes the constant and leaves everything else as it was, except that it may
  enlarge the memory.
\<close>

definition pushes_constant :: "(u256 \<Rightarrow> bytes option) \<Rightarrow> assembly_items \<Rightarrow> u256 \<Rightarrow> bool" where
  "pushes_constant dat routine v \<longleftrightarrow>
     (\<forall>env s stk. data_placed env dat s \<longrightarrow>
        (\<exists>m. steps env routine stk s = Continue (v # stk) (s\<lparr>msize := m\<rparr>)))"

lemma data_placed_mono: "data_placed env dat' s \<Longrightarrow> dat \<subseteq>\<^sub>m dat' \<Longrightarrow> data_placed env dat s"
  by (simp add: data_placed_def map_le_def dom_def)

lemma pushes_constant_mono:
  "pushes_constant dat r v \<Longrightarrow> dat \<subseteq>\<^sub>m dat' \<Longrightarrow> pushes_constant dat' r v"
  unfolding pushes_constant_def using data_placed_mono by blast

locale constant_method =
  fixes keccak :: "bytes \<Rightarrow> u256"
    and gasNeeded :: "params \<Rightarrow> u256 \<Rightarrow> bigint result"
    and execute :: "params \<Rightarrow> u256 \<Rightarrow> assembly \<Rightarrow> (assembly_items \<times> assembly) result"
  assumes gas_returns: "\<exists>g. gasNeeded p v = Inr g"
    and execute_returns: "\<exists>r asm'. execute p v asm = Inr (r, asm')"
    and keeps_items: "execute p v asm = Inr (r, asm') \<Longrightarrow> asm_items asm' = asm_items asm"
    and keeps_hashes: "execute p v asm = Inr (r, asm') \<Longrightarrow> data_hashed keccak D asm \<Longrightarrow>
      toBigEndian v \<in> D \<Longrightarrow> data_hashed keccak D asm'"
    and keeps_data: "execute p v asm = Inr (r, asm') \<Longrightarrow> data_hashed keccak D asm \<Longrightarrow>
      toBigEndian v \<in> D \<Longrightarrow> asm_data asm \<subseteq>\<^sub>m asm_data asm'"
    and pushes: "execute p v asm = Inr (r, asm') \<Longrightarrow> pushes_constant (asm_data asm') r v"
begin

text \<open>What the optimiser relies on when it has chosen the method.\<close>

lemma chosen:
  "\<exists>r asm'. execute p v asm = Inr (r, asm') \<and> asm_items asm' = asm_items asm \<and>
     pushes_constant (asm_data asm') r v \<and>
     (data_hashed keccak D asm \<and> toBigEndian v \<in> D \<longrightarrow>
        data_hashed keccak D asm' \<and> asm_data asm \<subseteq>\<^sub>m asm_data asm')"
proof -
  obtain r asm' where r: "execute p v asm = Inr (r, asm')" using execute_returns by blast
  show ?thesis
    by (rule exI [of _ r], rule exI [of _ asm'])
      (use keeps_data [OF r, of D] in \<open>simp add: r keeps_items [OF r] keeps_hashes [OF r] pushes [OF r]\<close>)
qed

end

text \<open>The gas of the literal and of the copy is always defined.\<close>

lemma dataGas_small:
  assumes "length d \<le> 32"
  shows "\<exists>g. dataGas d c v = Inr g"
proof -
  have "sum_list (map (\<lambda>b :: byte. if b \<noteq> 0 then int (txDataNonZeroGas v) else int txDataZeroGas) d) \<le> 68 * int (length d)"
    by (induction d) (auto simp: txDataNonZeroGas_def txDataZeroGas_def)
  then show ?thesis using assms
    by (simp add: dataGas_def Let_def createDataGas_def assertThrow_def uint_max)
qed

lemma literal_gas_returns: "\<exists>g. literal_gasNeeded p v = Inr g"
proof -
  have "toCompactBigEndian v 1 \<noteq> []" using length_toCompactBigEndian [of v 1] by auto
  moreover have "length (toCompactBigEndian v 1) \<le> 32"
    using length_toCompactBigEndian [of v 1] bytesRequired_le_32 [of v] by simp
  ultimately show ?thesis
    using dataGas_small [of "toCompactBigEndian v 1" "pr_isCreation p" "pr_evmVersion p"]
    by (auto simp: literal_gasNeeded_def const_dataGas_def runGas_def instructionInfo_eqs mkOp_def)
qed

lemma copy_gas_returns: "\<exists>g. copy_gasNeeded p v = Inr g"
proof -
  have "toBigEndian v \<noteq> []" using length_toBigEndian [of v] by force
  moreover have "\<exists>g. simpleRunGas copyRoutine = Inr g"
    by (simp add: copyRoutine_def mkPush_def mkItem_def mkOp_def runGas_def instructionInfo_eqs)
  moreover have "\<exists>n. const_bytesRequired copyRoutine = Inr n"
    unfolding const_bytesRequired_def items_bytesRequired_def
    by (rule bytesRequired_defined) (simp add: copyRoutine_def mkPush_def mkItem_def mkOp_def)
  ultimately show ?thesis
    using dataGas_small [of "toBigEndian v" "pr_isCreation p" "pr_evmVersion p"]
    by (auto simp: copy_gasNeeded_def const_dataGas_def)
qed

interpretation code_copy: constant_method keccak copy_gasNeeded "\<lambda>p. copy_execute keccak" for keccak
proof
  fix p v asm r asm' D
  show "\<exists>g. copy_gasNeeded p v = Inr g" by (rule copy_gas_returns)
  show "\<exists>r asm'. copy_execute keccak v asm = Inr (r, asm')"
    by (simp add: copy_execute_def newData_def Let_def)
  assume "copy_execute keccak v asm = Inr (r, asm')"
  then have asm': "asm' = snd (newData keccak (toBigEndian v) asm)"
    and r: "r = copyRoutine[4 := mkItem PushData (keccak (toBigEndian v)) noLocation]"
    and d: "asm_data asm' (keccak (toBigEndian v)) = Some (toBigEndian v)"
    by (auto simp: copy_execute_def newData_def Let_def)
  show "asm_items asm' = asm_items asm" by (simp add: asm' newData_def Let_def)
  show "data_hashed keccak D asm'" "asm_data asm \<subseteq>\<^sub>m asm_data asm'"
    if "data_hashed keccak D asm" "toBigEndian v \<in> D"
    using newData_hashed [OF that] by (simp_all add: asm')
  show "pushes_constant (asm_data asm') r v"
    using copyRoutine_steps [of _ "asm_data asm'", OF _ d] by (auto simp: pushes_constant_def r)
qed

interpretation compute: constant_method keccak
  "\<lambda>p v. bindR (ComputeMethod p v) (compute_gasNeeded p)"
  "\<lambda>p v asm. bindR (ComputeMethod p v) (\<lambda>routine. Inr (routine, asm))" for keccak
proof
  fix p v r D and asm asm' :: assembly
  obtain routine where c: "ComputeMethod p v = Inr routine" "represents p routine v"
    using ComputeMethod_represents by blast
  then show "\<exists>g. bindR (ComputeMethod p v) (compute_gasNeeded p) = Inr g"
    using compute_gasNeeded_total by (simp add: represents_def)
  show "\<exists>r asm'. bindR (ComputeMethod p v) (\<lambda>routine. Inr (routine, asm)) = Inr (r, asm')"
    using c by simp
  assume "bindR (ComputeMethod p v) (\<lambda>routine. Inr (routine, asm)) = Inr (r, asm')"
  then have [simp]: "r = routine" "asm' = asm" using c by simp_all
  show "asm_items asm' = asm_items asm" by simp
  show "data_hashed keccak D asm'" "asm_data asm \<subseteq>\<^sub>m asm_data asm'" if "data_hashed keccak D asm"
    using that by simp_all
  have "s\<lparr>msize := msize s\<rparr> = s" for s :: interpreter_state by simp
  then show "pushes_constant (asm_data asm') r v"
    using represents_steps [OF c(2)] unfolding pushes_constant_def by (metis \<open>r = routine\<close>)
qed

section \<open>The optimiser\<close>

lemma chooseReplacement_ok:
  "\<exists>k r asm'. chooseReplacement keccak p v asm = Inr (k, r, asm') \<and> asm_items asm' = asm_items asm \<and>
     k = (if r = [] then 0 else 1) \<and>
     (r \<noteq> [] \<longrightarrow> pushes_constant (asm_data asm') r v) \<and>
     (data_hashed keccak D asm \<and> toBigEndian v \<in> D \<longrightarrow>
        data_hashed keccak D asm' \<and> asm_data asm \<subseteq>\<^sub>m asm_data asm')"
proof -
  obtain lg where lg: "literal_gasNeeded p v = Inr lg" using literal_gas_returns by blast
  obtain cg where cg: "copy_gasNeeded p v = Inr cg" using code_copy.gas_returns by blast
  obtain routine where c: "ComputeMethod p v = Inr routine" "represents p routine v"
    using ComputeMethod_represents by blast
  then obtain g where g: "compute_gasNeeded p routine = Inr g"
    using compute_gasNeeded_total [of routine p] by (auto simp: represents_def)
  have ne: "routine \<noteq> []" using c(2) by (auto simp: represents_def)
  have chosen: "chooseReplacement keccak p v asm =
      (if cg < lg \<and> cg < g then bindR (copy_execute keccak v asm) (\<lambda>(r, asm'). Inr (1, r, asm'))
       else if g < lg \<and> g \<le> cg then Inr (1, routine, asm) else Inr (0, [], asm))"
    by (simp add: chooseReplacement_def lg cg c g)
  consider "cg < lg \<and> cg < g" | "\<not> (cg < lg \<and> cg < g)" "g < lg \<and> g \<le> cg"
    | "\<not> (cg < lg \<and> cg < g)" "\<not> (g < lg \<and> g \<le> cg)" by blast
  then show ?thesis
  proof cases
    case 1
    obtain r asm' where r: "copy_execute keccak v asm = Inr (r, asm')"
      using code_copy.execute_returns by blast
    then have "r \<noteq> []" by (auto simp: copy_execute_def copyRoutine_def newData_def Let_def)
    then show ?thesis using 1 chosen code_copy.chosen [of keccak v asm D] r by simp
  next
    case 2
    then show ?thesis using chosen ne compute.pushes [of p v asm routine asm] c by simp
  next
    case 3
    then have "chooseReplacement keccak p v asm = Inr (0, [], asm)" using chosen by argo
    then show ?thesis by simp
  qed
qed

lemma optimiseConstants_loop_ok:
  assumes "\<forall>v r. pending v = Some r \<longrightarrow> 256 \<le> v \<and> pushes_constant (asm_data asm) r v"
    and "data_hashed keccak D asm" "\<forall>(v, k) \<in> set pushes. toBigEndian v \<in> D"
  shows "\<exists>n' pending' asm'. optimiseConstants_loop keccak p pushes n pending asm = Inr (n', pending', asm') \<and>
    asm_items asm' = asm_items asm \<and> asm_data asm \<subseteq>\<^sub>m asm_data asm' \<and> data_hashed keccak D asm' \<and>
    (\<forall>v r. pending' v = Some r \<longrightarrow> 256 \<le> v \<and> pushes_constant (asm_data asm') r v)"
  using assms
proof (induction pushes arbitrary: n pending asm)
  case (Cons vm pushes)
  obtain v k where vm: "vm = (v, k)" by (cases vm)
  then have D: "toBigEndian v \<in> D" "\<forall>(v, k) \<in> set pushes. toBigEndian v \<in> D"
    using Cons.prems(3) by auto
  show ?case
  proof (cases "v < 0x100")
    case True
    then show ?thesis using Cons.IH [OF Cons.prems(1,2) D(2)] by (simp add: vm)
  next
    case False
    obtain j r asm1 where ch: "chooseReplacement keccak (p\<lparr>pr_multiplicity := k\<rparr>) v asm = Inr (j, r, asm1)"
      and items: "asm_items asm1 = asm_items asm"
      and r: "r \<noteq> [] \<longrightarrow> pushes_constant (asm_data asm1) r v"
      and dat: "data_hashed keccak D asm1" "asm_data asm \<subseteq>\<^sub>m asm_data asm1"
      using chooseReplacement_ok [of keccak "p\<lparr>pr_multiplicity := k\<rparr>" v asm D] Cons.prems(2) D(1) by auto
    let ?pending = "if r \<noteq> [] then pending(v \<mapsto> r) else pending"
    have "\<forall>v r. ?pending v = Some r \<longrightarrow> 256 \<le> v \<and> pushes_constant (asm_data asm1) r v"
      using Cons.prems(1) r False dat(2) by (auto intro: pushes_constant_mono)
    from Cons.IH [OF this dat(1) D(2), of "n + j"]
    obtain n' pending' asm2 where
      l: "optimiseConstants_loop keccak p pushes (n + j) ?pending asm1 = Inr (n', pending', asm2)"
        "asm_items asm2 = asm_items asm1" "asm_data asm1 \<subseteq>\<^sub>m asm_data asm2" "data_hashed keccak D asm2"
        "\<forall>v r. pending' v = Some r \<longrightarrow> 256 \<le> v \<and> pushes_constant (asm_data asm2) r v" by blast
    have "optimiseConstants_loop keccak p (vm # pushes) n pending asm = Inr (n', pending', asm2)"
      using ch l(1) False by (simp add: vm)
    then show ?thesis using l(2-5) items map_le_trans [OF dat(2) l(3)] by simp
  qed
qed simp

lemma replaceConstants_empty: "replaceConstants items Map.empty = items"
  by (induction items) simp_all

section \<open>Properties\<close>

text \<open>
  C10: the constant optimiser always returns. Its result is the old program with some pushes of
  constants of at least two bytes replaced, no data of the assembly is lost, and each
  replacement, computed or copied from the code, pushes exactly the constant it replaces and
  changes nothing else except that it may enlarge the memory, wherever the assembler has placed
  the data. The hypothesis is that the data are stored under their hash and that the hash has no
  collision among the data of the assembly and the constants of the program.
\<close>

theorem optimiseConstants_correct:
  assumes "data_hashed keccak D asm"
    and "\<forall>it \<in> set (asm_items asm). m_type it = Push \<longrightarrow> toBigEndian (m_data it) \<in> D"
  shows "\<exists>n asm' pending. optimiseConstants keccak isCreation runs version asm = Inr (n, asm') \<and>
    asm_items asm' = replaceConstants (asm_items asm) pending \<and> asm_data asm \<subseteq>\<^sub>m asm_data asm' \<and>
    (\<forall>v r. pending v = Some r \<longrightarrow> 256 \<le> v \<and> pushes_constant (asm_data asm') r v)"
proof -
  let ?p = "\<lparr>pr_isCreation = isCreation, pr_runs = runs, pr_multiplicity = 0, pr_evmVersion = version\<rparr>"
  have "\<forall>(v, k) \<in> set (countPushes (asm_items asm)). toBigEndian v \<in> D"
    using assms(2) by (auto simp: countPushes_def Let_def)
  from optimiseConstants_loop_ok [where pending = Map.empty, OF _ assms(1) this, of ?p 0]
  obtain n pending asm1 where
    l: "optimiseConstants_loop keccak ?p (countPushes (asm_items asm)) 0 Map.empty asm = Inr (n, pending, asm1)"
      "asm_items asm1 = asm_items asm" "asm_data asm \<subseteq>\<^sub>m asm_data asm1"
      "\<forall>v r. pending v = Some r \<longrightarrow> 256 \<le> v \<and> pushes_constant (asm_data asm1) r v" by auto
  show ?thesis
    using l by (cases "pending = Map.empty")
      (auto simp: optimiseConstants_def replaceConstants_empty intro!: exI [of _ pending])
qed

theorem optimiseConstants_correct_witness:
  "\<exists>n asm' pending. optimiseConstants fromBigEndian True 200 Istanbul
       \<lparr>asm_items = [mkPush (2 ^ 255) noLocation], asm_data = Map.empty\<rparr> = Inr (n, asm') \<and>
     asm_items asm' = replaceConstants [mkPush (2 ^ 255) noLocation] pending \<and>
     (\<forall>v r. pending v = Some r \<longrightarrow> 256 \<le> v \<and> pushes_constant (asm_data asm') r v)"
  using optimiseConstants_correct [of fromBigEndian "{toBigEndian (2 ^ 255)}"
      "\<lparr>asm_items = [mkPush (2 ^ 255) noLocation], asm_data = Map.empty\<rparr>" True 200 Istanbul]
  by (simp add: data_hashed_def mkPush_def mkItem_def)

end
