(* ===== verification/JumpdestRemover.thy ===== *)
theory JumpdestRemover
  imports AsmWindows
begin

text \<open>
  \<open>libevmasm/JumpdestRemover.{h,cpp}\<close>: tags that nothing refers to are removed. The function
  object given to \<open>remove_if\<close> is \<open>removable\<close>; it can throw. Executions are preserved as long as
  they jump only to tags that are kept.
\<close>

section \<open>The code\<close>

fun referencedTags :: "assembly_items \<Rightarrow> size_t \<Rightarrow> size_t set result" where
  "referencedTags [] subId = Inr {}"
| "referencedTags (it # items) subId =
     (if m_type it = PushTag then
        bindR (splitForeignPushTag it) (\<lambda>subAndTag.
        bindR (referencedTags items subId) (\<lambda>ret.
          Inr (if fst subAndTag = subId then insert (snd subAndTag) ret else ret)))
      else referencedTags items subId)"

definition removable :: "size_t set \<Rightarrow> assembly_item \<Rightarrow> bool result" where
  "removable references it =
     (if m_type it \<noteq> Tag then Inr False
      else
        bindR (splitForeignPushTag it) (\<lambda>asmIdAndTag.
        bindR (assertThrow (fst asmIdAndTag = - 1) OptimizerException) (\<lambda>_.
          Inr (snd asmIdAndTag \<notin> references))))"

fun removeTags :: "size_t set \<Rightarrow> assembly_items \<Rightarrow> assembly_items result" where
  "removeTags references [] = Inr []"
| "removeTags references (it # items) =
     bindR (removable references it) (\<lambda>r.
     bindR (removeTags references items) (\<lambda>rest. Inr (if r then rest else it # rest)))"

definition jumpdest_optimise :: "size_t set \<Rightarrow> assembly_items \<Rightarrow> (bool \<times> assembly_items) result" where
  "jumpdest_optimise tagsReferencedFromOutside items =
     bindR (referencedTags items (- 1)) (\<lambda>refs.
     bindR (removeTags (refs \<union> tagsReferencedFromOutside) items) (\<lambda>items'.
       Inr (length items' \<noteq> length items, items')))"

section \<open>Lemmas\<close>

text \<open>The tag number of an item, and whether it belongs to this assembly.\<close>

definition tag_of :: "assembly_item \<Rightarrow> size_t" where
  "tag_of it = ucast (m_data it AND 0xffffffffffffffff)"

definition sub_of :: "assembly_item \<Rightarrow> size_t" where
  "sub_of it = ucast (drop_bit 64 (m_data it) - 1)"

definition references_of :: "assembly_items \<Rightarrow> size_t set" where
  "references_of items = tag_of ` {it \<in> set items. m_type it = PushTag \<and> sub_of it = - 1}"

definition kept :: "size_t set \<Rightarrow> assembly_item \<Rightarrow> bool" where
  "kept refs it \<longleftrightarrow> m_type it \<noteq> Tag \<or> tag_of it \<in> refs"

lemma referencedTags_eq: "referencedTags items (- 1) = Inr (references_of items)"
  by (induction items) (auto simp: splitForeignPushTag_def Let_def references_of_def tag_of_def sub_of_def)

lemma removable_eq:
  "removable refs it =
     (if m_type it = Tag \<and> sub_of it \<noteq> - 1 then Inl OptimizerException else Inr (\<not> kept refs it))"
  by (simp add: removable_def splitForeignPushTag_def Let_def kept_def tag_of_def sub_of_def assertThrow_def)

lemma removeTags_eq:
  "removeTags refs items =
     (if \<forall>it \<in> set items. m_type it = Tag \<longrightarrow> sub_of it = - 1 then Inr (filter (kept refs) items)
      else Inl OptimizerException)"
proof (induction items)
  case (Cons it items)
  then show ?case by (cases "\<forall>it \<in> set items. m_type it = Tag \<longrightarrow> sub_of it = - 1") (auto simp: removable_eq)
qed simp

lemma find_tag_filter:
  assumes "find_tag env items d = Some target" "kept refs (hd target)"
  shows "find_tag env (filter (kept refs) items) d = Some (filter (kept refs) target)"
  using assms by (induction items) (auto simp: kept_def split: if_splits)

text \<open>Up to \<open>n\<close> steps of the execution jump only to tags in \<open>refs\<close>.\<close>

fun jumps_within ::
  "size_t set \<Rightarrow> machine_env \<Rightarrow> assembly_items \<Rightarrow> nat \<Rightarrow> assembly_items \<Rightarrow> u256 list \<Rightarrow> interpreter_state \<Rightarrow> bool" where
  "jumps_within refs env prog (Suc n) (it # rest) stk s =
     (case item_step env it stk s of
        Continue stk' s' \<Rightarrow> jumps_within refs env prog n rest stk' s'
      | Jump d stk' s' \<Rightarrow>
          (case find_tag env prog d of
             Some target \<Rightarrow> kept refs (hd target) \<and> jumps_within refs env prog n target stk' s'
           | None \<Rightarrow> True)
      | _ \<Rightarrow> True)"
| "jumps_within refs env prog n items stk s = True"

lemma run_filter:
  assumes "run env prog k items stk s = Halted e s'" "jumps_within refs env prog k items stk s"
  shows "executes env (filter (kept refs) prog) (filter (kept refs) items) stk s e s'"
  using assms
proof (induction env prog k items stk s rule: run.induct)
  case (3 env prog n it rest stk s)
  show ?case
  proof (cases "item_step env it stk s")
    case (Continue stk1 s1)
    then have "executes env (filter (kept refs) prog) (filter (kept refs) rest) stk1 s1 e s'"
      using "3.IH"(1) [OF Continue] "3.prems" by simp
    moreover have "stk1 = stk \<and> s1 = s" if "\<not> kept refs it"
      using that Continue by (simp add: kept_def item_step_Tag)
    ultimately show ?thesis using Continue by (auto simp: executes_Cons)
  next
    case (Jump d stk1 s1)
    obtain target where target: "find_tag env prog d = Some target" "kept refs (hd target)"
        "run env prog n target stk1 s1 = Halted e s'" "jumps_within refs env prog n target stk1 s1"
      using "3.prems" Jump by (auto split: option.splits)
    have "kept refs it" using Jump by (auto simp: kept_def item_step_Tag)
    then show ?thesis
      using "3.IH"(2) [OF Jump target(1,3,4)] find_tag_filter [OF target(1,2)] Jump
      by (simp add: executes_Cons)
  next
    case (Halt e1 s1)
    then have "kept refs it" by (auto simp: kept_def item_step_Tag)
    then show ?thesis using Halt "3.prems" by (simp add: executes_Cons)
  qed (use "3.prems" in simp)
qed simp_all

section \<open>Properties\<close>

text \<open>
  C22: the jumpdest remover succeeds on every assembly whose labels are its own (and throws
  otherwise); it removes exactly the tags that no item and nothing outside refers to, it says so
  in its result, and every execution that jumps only to tags that are referred to is an execution
  of the result.
\<close>

theorem jumpdest_optimise_correct:
  assumes "\<forall>it \<in> set items. m_type it = Tag \<longrightarrow> sub_of it = - 1"
  shows "\<exists>changed items'. jumpdest_optimise outside items = Inr (changed, items') \<and>
    items' = filter (kept (references_of items \<union> outside)) items \<and> (changed \<longleftrightarrow> items' \<noteq> items) \<and>
    (\<forall>env k stk s e s'. run env items k items stk s = Halted e s' \<longrightarrow>
       jumps_within (references_of items \<union> outside) env items k items stk s \<longrightarrow>
       executes env items' items' stk s e s')"
proof -
  let ?refs = "references_of items \<union> outside"
  have "length (filter (kept ?refs) items) \<noteq> length items \<longleftrightarrow> filter (kept ?refs) items \<noteq> items"
    by (metis filter_id_conv length_filter_less nat_neq_iff)
  then have "jumpdest_optimise outside items = Inr (filter (kept ?refs) items \<noteq> items, filter (kept ?refs) items)"
    using assms by (simp add: jumpdest_optimise_def referencedTags_eq removeTags_eq)
  then show ?thesis using run_filter by blast
qed

theorem jumpdest_optimise_correct_witness:
  "\<exists>changed items'. jumpdest_optimise {} [mkItem Tag 1 noLocation, mkOp STOP noLocation] = Inr (changed, items') \<and>
     items' = [mkOp STOP noLocation] \<and> changed"
proof -
  let ?items = "[mkItem Tag 1 noLocation, mkOp STOP noLocation]"
  have "\<forall>it \<in> set ?items. m_type it = Tag \<longrightarrow> sub_of it = - 1"
    by (simp add: mkItem_def mkOp_def sub_of_def, rule bit_word_eqI, simp add: bit_simps)
  from jumpdest_optimise_correct [OF this, of "{}"] show ?thesis
    by (auto simp: references_of_def mkItem_def mkOp_def kept_def)
qed

end
