(* ===== verification/LinkerObject.thy ===== *)
theory LinkerObject
  imports CommonData
begin

text \<open>
  \<open>libevmasm/LinkerObject.{h,cpp}\<close>: bytecode with references to libraries. A \<open>std::map\<close> is the
  list of its entries in the order of the keys (\<open>map_put\<close>). An address
  (\<open>h160\<close>) is its 20 bytes. The unchecked writes of \<open>link\<close> and \<open>toHex\<close> outside the bytecode are
  undefined behaviour in the source and the value \<open>None\<close> here. Keccak-256 is the parameter
  \<open>keccak\<close>.
\<close>

section \<open>The code\<close>

record linker_object =
  bytecode :: bytes
  linkReferences :: "(nat \<times> string) list"
  immutableReferences :: "(u256 \<times> string \<times> nat list) list"

definition append_object :: "linker_object \<Rightarrow> linker_object \<Rightarrow> linker_object" where
  "append_object obj other =
     obj\<lparr>linkReferences :=
           foldl (\<lambda>refs ref. map_put (fst ref + length (bytecode obj)) (snd ref) refs)
             (linkReferences obj) (linkReferences other),
         bytecode := bytecode obj @ bytecode other\<rparr>"

definition matchLibrary :: "string \<Rightarrow> (string \<Rightarrow> bytes option) \<Rightarrow> bytes option" where
  "matchLibrary linkRefName libraryAddresses =
     (case libraryAddresses linkRefName of
        Some a \<Rightarrow> Some a
      | None \<Rightarrow>
          if CHR '':'' \<notin> set linkRefName then None
          else libraryAddresses (tl (dropWhile (\<lambda>c. c \<noteq> CHR '':'') linkRefName)))"

text \<open>\<open>copy\<close> of an address into the bytecode.\<close>

definition copyBytes :: "bytes \<Rightarrow> nat \<Rightarrow> bytes \<Rightarrow> bytes option" where
  "copyBytes address pos code =
     (if pos + length address \<le> length code
      then Some (take pos code @ address @ drop (pos + length address) code) else None)"

fun link_loop ::
  "(string \<Rightarrow> bytes option) \<Rightarrow> (nat \<times> string) list \<Rightarrow> bytes \<Rightarrow> (bytes \<times> (nat \<times> string) list) option" where
  "link_loop libraryAddresses [] code = Some (code, [])"
| "link_loop libraryAddresses ((pos, name) # refs) code =
     (case matchLibrary name libraryAddresses of
        Some address \<Rightarrow>
          (case copyBytes address pos code of
             Some code' \<Rightarrow> link_loop libraryAddresses refs code'
           | None \<Rightarrow> None)
      | None \<Rightarrow>
          map_option (\<lambda>(code', remaining). (code', (pos, name) # remaining))
            (link_loop libraryAddresses refs code))"

definition link_object :: "(string \<Rightarrow> bytes option) \<Rightarrow> linker_object \<Rightarrow> linker_object option" where
  "link_object libraryAddresses obj =
     map_option (\<lambda>(code, refs). obj\<lparr>bytecode := code, linkReferences := refs\<rparr>)
       (link_loop libraryAddresses (linkReferences obj) (bytecode obj))"

definition libraryPlaceholder :: "(string \<Rightarrow> u256) \<Rightarrow> string \<Rightarrow> string" where
  "libraryPlaceholder keccak name = ''$'' @ take 34 (toHex (toBigEndian (keccak name)) DontAdd Lower) @ ''$''"

definition putPlaceholder :: "string \<Rightarrow> nat \<Rightarrow> string \<Rightarrow> string option" where
  "putPlaceholder hash pos hex =
     (if pos + 39 < length hex \<and> 36 \<le> length hash
      then Some (foldl (\<lambda>h i. h[pos + 2 + i := hash ! i])
             (hex[pos := CHR ''_'', pos + 1 := CHR ''_'', pos + 38 := CHR ''_'', pos + 39 := CHR ''_''])
             [0..<36])
      else None)"

fun toHex_refs :: "(string \<Rightarrow> u256) \<Rightarrow> (nat \<times> string) list \<Rightarrow> string \<Rightarrow> string option" where
  "toHex_refs keccak [] hex = Some hex"
| "toHex_refs keccak ((pos, name) # refs) hex =
     (case putPlaceholder (libraryPlaceholder keccak name) (pos * 2) hex of
        Some hex' \<Rightarrow> toHex_refs keccak refs hex'
      | None \<Rightarrow> None)"

definition object_toHex :: "(string \<Rightarrow> u256) \<Rightarrow> linker_object \<Rightarrow> string option" where
  "object_toHex keccak obj = toHex_refs keccak (linkReferences obj) (toHex (bytecode obj) DontAdd Lower)"

section \<open>Well-formed objects\<close>

text \<open>References are in order, do not overlap, and lie within the bytecode.\<close>

fun refs_ok :: "nat \<Rightarrow> (nat \<times> string) list \<Rightarrow> nat \<Rightarrow> bool" where
  "refs_ok low [] n \<longleftrightarrow> True"
| "refs_ok low ((pos, name) # refs) n \<longleftrightarrow> low \<le> pos \<and> pos + 20 \<le> n \<and> refs_ok (pos + 20) refs n"

definition object_ok :: "linker_object \<Rightarrow> bool" where
  "object_ok obj \<longleftrightarrow> refs_ok 0 (linkReferences obj) (length (bytecode obj))"

lemma refs_ok_weaken: "refs_ok low refs n \<Longrightarrow> low' \<le> low \<Longrightarrow> n \<le> n' \<Longrightarrow> refs_ok low' refs n'"
  by (induction low refs n arbitrary: low' rule: refs_ok.induct) auto

lemma refs_ok_append:
  "refs_ok low (xs @ ys) n \<longleftrightarrow>
     refs_ok low xs n \<and> refs_ok (if xs = [] then low else fst (last xs) + 20) ys n"
  by (induction low xs n rule: refs_ok.induct) auto

lemma refs_ok_below: "refs_ok low refs n \<Longrightarrow> (k, v) \<in> set refs \<Longrightarrow> low \<le> k \<and> k + 20 \<le> n"
  by (induction low refs n rule: refs_ok.induct) fastforce+

lemma shifted_refs:
  assumes "refs_ok 0 refs n" "refs_ok low other m" "\<forall>(p, s) \<in> set pre. p < low \<or> other = []"
  shows "foldl (\<lambda>refs ref. map_put (fst ref + n) (snd ref) refs) (refs @ map (\<lambda>(p, s). (p + n, s)) pre) other =
    refs @ map (\<lambda>(p, s). (p + n, s)) (pre @ other)"
  using assms(2,3)
proof (induction low other m arbitrary: pre rule: refs_ok.induct)
  case (2 low pos name other m)
  have "\<forall>(k', v') \<in> set (refs @ map (\<lambda>(p, s). (p + n, s)) pre). k' < pos + n"
    using refs_ok_below [OF assms(1)] 2 by fastforce
  then have "map_put (pos + n) name (refs @ map (\<lambda>(p, s). (p + n, s)) pre) =
      refs @ map (\<lambda>(p, s). (p + n, s)) (pre @ [(pos, name)])"
    by (subst map_put_last) simp_all
  moreover have "\<forall>(p, s) \<in> set (pre @ [(pos, name)]). p < pos + 20 \<or> other = []" using 2 by fastforce
  ultimately show ?case using "2.IH" [of "pre @ [(pos, name)]"] 2 by simp
qed simp

lemma append_refs:
  assumes "object_ok obj" "object_ok other"
  shows "linkReferences (append_object obj other) =
    linkReferences obj @ map (\<lambda>(p, s). (p + length (bytecode obj), s)) (linkReferences other)"
  using shifted_refs [OF assms [unfolded object_ok_def], of "[]"] by (simp add: append_object_def)

lemma refs_ok_shift: "refs_ok low refs n \<Longrightarrow> refs_ok (low + k) (map (\<lambda>(p, s). (p + k, s)) refs) (n + k)"
  by (induction low refs n rule: refs_ok.induct) (auto simp: ac_simps)

lemma append_ok: "object_ok obj \<Longrightarrow> object_ok other \<Longrightarrow> object_ok (append_object obj other)"
proof -
  assume ok: "object_ok obj" "object_ok other"
  let ?n = "length (bytecode obj)" and ?m = "length (bytecode other)"
  have "refs_ok ?n (map (\<lambda>(p, s). (p + ?n, s)) (linkReferences other)) (?m + ?n)"
    using refs_ok_shift [of 0 _ ?m ?n] ok(2) by (simp add: object_ok_def)
  moreover have "fst (last (linkReferences obj)) + 20 \<le> ?n" if "linkReferences obj \<noteq> []"
    using refs_ok_below [of 0 "linkReferences obj" ?n "fst (last (linkReferences obj))" "snd (last (linkReferences obj))"]
      ok(1) last_in_set [OF that] by (simp add: object_ok_def)
  ultimately show ?thesis using ok
    unfolding object_ok_def append_refs [OF ok] refs_ok_append
    by (auto simp: append_object_def add.commute intro: refs_ok_weaken)
qed

section \<open>Linking\<close>

text \<open>What linking should do: unresolved references stay, resolved ones are filled in.\<close>

lemma link_loop_ok:
  assumes "refs_ok low refs (length code)" "\<forall>name a. lib name = Some a \<longrightarrow> length a = 20"
  shows "\<exists>code'. link_loop lib refs code = Some (code', filter (\<lambda>(p, name). matchLibrary name lib = None) refs) \<and>
    length code' = length code \<and> take low code' = take low code \<and>
    (\<forall>(p, name) \<in> set refs. take 20 (drop p code') =
        (case matchLibrary name lib of Some a \<Rightarrow> a | None \<Rightarrow> take 20 (drop p code))) \<and>
    (\<forall>i < length code. (\<forall>(p, name) \<in> set refs. i < p \<or> p + 20 \<le> i) \<longrightarrow> code' ! i = code ! i)"
  using assms(1)
proof (induction low refs "length code" arbitrary: code rule: refs_ok.induct)
  case (2 low pos name refs)
  let ?code1 = "case matchLibrary name lib of Some a \<Rightarrow> take pos code @ a @ drop (pos + 20) code | None \<Rightarrow> code"
  have a20: "length a = 20" if "matchLibrary name lib = Some a" for a
    using that assms(2) by (auto simp: matchLibrary_def split: option.splits if_splits)
  have pos: "low \<le> pos" "pos + 20 \<le> length code" "refs_ok (pos + 20) refs (length code)"
    using 2 by auto
  have l1: "length ?code1 = length code" using pos a20 by (simp split: option.split)
  obtain code' where IH: "link_loop lib refs ?code1 = Some (code', filter (\<lambda>(p, name). matchLibrary name lib = None) refs)"
      "length code' = length code" "take (pos + 20) code' = take (pos + 20) ?code1"
      "\<forall>(p, name) \<in> set refs. take 20 (drop p code') =
        (case matchLibrary name lib of Some a \<Rightarrow> a | None \<Rightarrow> take 20 (drop p ?code1))"
      "\<forall>i < length code. (\<forall>(p, name) \<in> set refs. i < p \<or> p + 20 \<le> i) \<longrightarrow> code' ! i = ?code1 ! i"
    using 2(1) [of ?code1] pos l1 by auto
  have step: "link_loop lib ((pos, name) # refs) code =
      Some (code', filter (\<lambda>(p, name). matchLibrary name lib = None) ((pos, name) # refs))"
    using IH(1) pos(2) a20 by (auto simp: copyBytes_def split: option.splits)
  have before: "?code1 ! i = code ! i" if "i < pos \<or> pos + 20 \<le> i" "i < length code" for i
    using that pos a20 by (auto simp: nth_append split: option.split)
  have "take low code' = take low code"
  proof -
    have "take low code' = take low (take (pos + 20) code')" using pos by (simp add: min_def)
    also have "\<dots> = take low ?code1" using pos IH(3) by (simp add: min_def)
    also have "\<dots> = take low code" using pos by (auto split: option.split)
    finally show ?thesis .
  qed
  moreover have "take 20 (drop pos code') = (case matchLibrary name lib of Some a \<Rightarrow> a | None \<Rightarrow> take 20 (drop pos code))"
  proof -
    have "take 20 (drop pos code') = drop pos (take (pos + 20) code')" by (simp add: drop_take)
    also have "\<dots> = take 20 (drop pos ?code1)" unfolding IH(3) by (simp add: drop_take)
    also have "\<dots> = (case matchLibrary name lib of Some a \<Rightarrow> a | None \<Rightarrow> take 20 (drop pos code))"
      using pos a20 by (auto split: option.split)
    finally show ?thesis .
  qed
  moreover have "take 20 (drop p ?code1) = take 20 (drop p code)" if "(p, n) \<in> set refs" for p n
  proof (rule nth_equalityI)
    have "pos + 20 \<le> p" "p + 20 \<le> length code" using refs_ok_below [OF pos(3) that] by auto
    then show "take 20 (drop p ?code1) ! i = take 20 (drop p code) ! i" if "i < length (take 20 (drop p ?code1))" for i
      using that before [of "p + i"] l1 by simp
  qed (simp add: l1)
  then have "\<forall>(p, name) \<in> set refs. take 20 (drop p code') =
        (case matchLibrary name lib of Some a \<Rightarrow> a | None \<Rightarrow> take 20 (drop p code))"
    using IH(4) by (fastforce split: option.splits)
  moreover have "code' ! i = code ! i"
    if "i < length code" "\<forall>(p, name) \<in> set ((pos, name) # refs). i < p \<or> p + 20 \<le> i" for i
    using that IH(5) before [of i] by simp
  ultimately show ?case using step IH(2) by (intro exI [of _ code']) auto
qed simp

lemma length_library_address:
  "\<forall>name a. lib name = Some a \<longrightarrow> length a = 20 \<Longrightarrow> matchLibrary name lib = Some a \<Longrightarrow> length a = 20"
  by (auto simp: matchLibrary_def split: option.splits if_splits)

lemma link_loop_append:
  "link_loop lib (xs @ ys) code =
     (case link_loop lib xs code of
        None \<Rightarrow> None
      | Some (code1, r1) \<Rightarrow> map_option (\<lambda>(code2, r2). (code2, r1 @ r2)) (link_loop lib ys code1))"
proof (induction lib xs code rule: link_loop.induct)
  case (1 lib code)
  then show ?case by (simp add: option.map_ident case_prod_unfold)
next
  case (2 lib pos name refs code)
  then show ?case
    by (auto simp: option.map_comp comp_def case_prod_unfold split: option.split prod.split)
qed

lemma link_loop_left:
  assumes "refs_ok low refs (length c1)" "\<forall>name a. lib name = Some a \<longrightarrow> length a = 20"
  shows "link_loop lib refs (c1 @ c2) = map_option (\<lambda>(c, r). (c @ c2, r)) (link_loop lib refs c1)"
  using assms(1)
proof (induction low refs "length c1" arbitrary: c1 rule: refs_ok.induct)
  case (2 low pos name refs)
  show ?case
  proof (cases "matchLibrary name lib")
    case None
    then show ?thesis using 2 by (auto simp: option.map_comp comp_def case_prod_unfold)
  next
    case (Some a)
    let ?c = "take pos c1 @ a @ drop (pos + 20) c1"
    have "length a = 20" using length_library_address [OF assms(2) Some] .
    then have "copyBytes a pos (c1 @ c2) = Some (?c @ c2)" "copyBytes a pos c1 = Some ?c" "length ?c = length c1"
      using 2 by (auto simp: copyBytes_def)
    moreover have "link_loop lib refs (?c @ c2) = map_option (\<lambda>(c, r). (c @ c2, r)) (link_loop lib refs ?c)"
      using 2(1) [of ?c] 2(2) calculation(3) by simp
    ultimately show ?thesis by (simp add: Some)
  qed
qed simp

lemma link_loop_right:
  assumes "refs_ok low refs (length c2)" "\<forall>name a. lib name = Some a \<longrightarrow> length a = 20"
  shows "link_loop lib (map (\<lambda>(p, s). (p + length c1, s)) refs) (c1 @ c2) =
    map_option (\<lambda>(c, r). (c1 @ c, map (\<lambda>(p, s). (p + length c1, s)) r)) (link_loop lib refs c2)"
  using assms(1)
proof (induction low refs "length c2" arbitrary: c2 rule: refs_ok.induct)
  case (2 low pos name refs)
  show ?case
  proof (cases "matchLibrary name lib")
    case None
    then show ?thesis using 2 by (auto simp: option.map_comp comp_def case_prod_unfold)
  next
    case (Some a)
    let ?c = "take pos c2 @ a @ drop (pos + 20) c2"
    have "length a = 20" using length_library_address [OF assms(2) Some] .
    then have "copyBytes a (pos + length c1) (c1 @ c2) = Some (c1 @ ?c)" "copyBytes a pos c2 = Some ?c"
        "length ?c = length c2"
      using 2 by (auto simp: copyBytes_def)
    moreover have "link_loop lib (map (\<lambda>(p, s). (p + length c1, s)) refs) (c1 @ ?c) =
        map_option (\<lambda>(c, r). (c1 @ c, map (\<lambda>(p, s). (p + length c1, s)) r)) (link_loop lib refs ?c)"
      using 2(1) [of ?c] 2(2) calculation(3) by simp
    ultimately show ?thesis by (simp add: Some)
  qed
qed simp

lemma link_object_ok:
  assumes "object_ok obj" "\<forall>name a. lib name = Some a \<longrightarrow> length a = 20"
  shows "\<exists>obj'. link_object lib obj = Some obj' \<and> object_ok obj' \<and>
    linkReferences obj' = filter (\<lambda>(p, name). matchLibrary name lib = None) (linkReferences obj) \<and>
    immutableReferences obj' = immutableReferences obj \<and>
    length (bytecode obj') = length (bytecode obj) \<and>
    (\<forall>(p, name) \<in> set (linkReferences obj). take 20 (drop p (bytecode obj')) =
       (case matchLibrary name lib of Some a \<Rightarrow> a | None \<Rightarrow> take 20 (drop p (bytecode obj)))) \<and>
    (\<forall>i < length (bytecode obj). (\<forall>(p, name) \<in> set (linkReferences obj). i < p \<or> p + 20 \<le> i) \<longrightarrow>
       bytecode obj' ! i = bytecode obj ! i)"
proof -
  have "refs_ok low (filter (\<lambda>(p, name). matchLibrary name lib = None) refs) n" if "refs_ok low refs n" for low refs n
    using that by (induction low refs n rule: refs_ok.induct) (auto intro: refs_ok_weaken)
  then show ?thesis
    using link_loop_ok [OF assms(1) [unfolded object_ok_def] assms(2)] assms(1)
    by (auto simp: link_object_def object_ok_def)
qed

section \<open>Hexadecimal output\<close>

lemma foldl_update:
  "p + n \<le> length h \<Longrightarrow> n \<le> length xs \<Longrightarrow>
   foldl (\<lambda>h i. h[p + i := xs ! i]) h [0..<n] = take p h @ take n xs @ drop (p + n) h"
proof (induction n)
  case (Suc n)
  have "(take p h @ take n xs @ drop (p + n) h)[p + n := xs ! n] = take p h @ take n xs @ (drop (p + n) h)[0 := xs ! n]"
    using Suc by (simp add: list_update_append min_def)
  also have "(drop (p + n) h)[0 := xs ! n] = xs ! n # drop (p + Suc n) h"
    using Suc.prems by (simp add: Cons_nth_drop_Suc [symmetric])
  finally show ?case using Suc by (simp add: take_Suc_conv_app_nth)
qed simp

lemma length_placeholder: "length (libraryPlaceholder keccak name) = 36"
  by (simp add: libraryPlaceholder_def toHex_def length_toHex_loop)

lemma putPlaceholder_ok:
  assumes "pos + 40 \<le> length hex" "length hash = 36"
  shows "\<exists>hex'. putPlaceholder hash pos hex = Some hex' \<and> length hex' = length hex \<and>
    (\<forall>i < length hex. i < pos \<or> pos + 40 \<le> i \<longrightarrow> hex' ! i = hex ! i) \<and>
    take 40 (drop pos hex') = ''__'' @ hash @ ''__''"
proof -
  let ?h = "hex[pos := CHR ''_'', pos + 1 := CHR ''_'', pos + 38 := CHR ''_'', pos + 39 := CHR ''_'']"
  let ?r = "take (pos + 2) ?h @ hash @ drop (pos + 38) ?h"
  have r: "putPlaceholder hash pos hex = Some ?r"
    using assms foldl_update [of "pos + 2" 36 ?h hash]
    by (simp add: putPlaceholder_def add.commute [of pos])
  have "?r ! i = hex ! i" if "i < length hex" "i < pos \<or> pos + 40 \<le> i" for i
    using that assms by (auto simp: nth_append nth_list_update)
  moreover have "take 40 (drop pos ?r) = ''__'' @ hash @ ''__''"
  proof (rule nth_equalityI)
    show "take 40 (drop pos ?r) ! i = (''__'' @ hash @ ''__'') ! i" if i: "i < length (take 40 (drop pos ?r))" for i
    proof -
      consider "i = 0" | "i = 1" | "2 \<le> i" "i < 38" | "i = 38" | "i = 39" using i assms by fastforce
      then show ?thesis using assms by cases (auto simp: nth_append nth_list_update nth_Cons' numeral_2_eq_2)
    qed
  qed (use assms in simp)
  ultimately show ?thesis using r assms by (intro exI [of _ ?r]) auto
qed

lemma toHex_refs_ok:
  assumes "refs_ok low refs n" "length hex = 2 * n"
  shows "\<exists>hex'. toHex_refs keccak refs hex = Some hex' \<and> length hex' = length hex \<and>
    (\<forall>i < length hex. (\<forall>(p, name) \<in> set refs. i < 2 * p \<or> 2 * p + 40 \<le> i) \<longrightarrow> hex' ! i = hex ! i) \<and>
    (\<forall>(p, name) \<in> set refs. take 40 (drop (2 * p) hex') = ''__'' @ libraryPlaceholder keccak name @ ''__'') \<and>
    (\<forall>i < 2 * low. i < length hex \<longrightarrow> hex' ! i = hex ! i)"
  using assms
proof (induction low refs n arbitrary: hex rule: refs_ok.induct)
  case (2 low pos name refs n)
  obtain hex1 where h1: "putPlaceholder (libraryPlaceholder keccak name) (pos * 2) hex = Some hex1"
      "length hex1 = length hex" "\<forall>i < length hex. i < pos * 2 \<or> pos * 2 + 40 \<le> i \<longrightarrow> hex1 ! i = hex ! i"
      "take 40 (drop (pos * 2) hex1) = ''__'' @ libraryPlaceholder keccak name @ ''__''"
    using putPlaceholder_ok [of "pos * 2" hex "libraryPlaceholder keccak name"] 2 by (auto simp: length_placeholder)
  have r: "refs_ok (pos + 20) refs n" using "2.prems"(1) by simp
  obtain hex2 where h2: "toHex_refs keccak refs hex1 = Some hex2" "length hex2 = length hex"
      "\<forall>i < length hex. (\<forall>(p, name) \<in> set refs. i < 2 * p \<or> 2 * p + 40 \<le> i) \<longrightarrow> hex2 ! i = hex1 ! i"
      "\<forall>(p, name) \<in> set refs. take 40 (drop (2 * p) hex2) = ''__'' @ libraryPlaceholder keccak name @ ''__''"
      "\<forall>i < 2 * (pos + 20). i < length hex \<longrightarrow> hex2 ! i = hex1 ! i"
    using "2.IH" [OF r, of hex1] unfolding h1(2) "2.prems"(2) by blast
  have "take 40 (drop (2 * pos) hex2) = take 40 (drop (2 * pos) hex1)"
    using h2(2,5) h1(2) by (intro nth_equalityI) auto
  then show ?case using h1 h2 2 by (intro exI [of _ hex2]) (auto simp: mult.commute)
qed simp

section \<open>Properties\<close>

text \<open>
  C23: linking fills in exactly the references whose library is known: for an object whose
  references lie within the bytecode and do not overlap it never writes outside, every reference
  whose library (by its full or by its simple name) has an address gets the 20 bytes of the
  address, the other references stay in the object with their bytes, no other byte changes, and
  the result is again such an object.
\<close>

theorem link_correct:
  assumes "object_ok obj" "\<forall>name a. lib name = Some a \<longrightarrow> length a = 20"
  shows "\<exists>obj'. link_object lib obj = Some obj' \<and> object_ok obj' \<and>
    linkReferences obj' = filter (\<lambda>(p, name). matchLibrary name lib = None) (linkReferences obj) \<and>
    length (bytecode obj') = length (bytecode obj) \<and>
    (\<forall>(p, name) \<in> set (linkReferences obj). take 20 (drop p (bytecode obj')) =
       (case matchLibrary name lib of Some a \<Rightarrow> a | None \<Rightarrow> take 20 (drop p (bytecode obj)))) \<and>
    (\<forall>i < length (bytecode obj). (\<forall>(p, name) \<in> set (linkReferences obj). i < p \<or> p + 20 \<le> i) \<longrightarrow>
       bytecode obj' ! i = bytecode obj ! i)"
  using link_object_ok [OF assms] by blast

theorem link_correct_witness:
  "\<exists>obj'. link_object [''L'' \<mapsto> replicate 20 7]
     \<lparr>bytecode = 0x73 # replicate 20 0 @ [0x50], linkReferences = [(1, ''a.sol:L'')], immutableReferences = []\<rparr> = Some obj' \<and>
     linkReferences obj' = [] \<and> take 20 (drop 1 (bytecode obj')) = replicate 20 7"
proof -
  let ?obj = "\<lparr>bytecode = 0x73 # replicate 20 0 @ [0x50], linkReferences = [(1, ''a.sol:L'')], immutableReferences = []\<rparr>"
  have "object_ok ?obj" by (simp add: object_ok_def)
  moreover have "\<forall>name a. [''L'' \<mapsto> replicate 20 (7 :: byte)] name = Some a \<longrightarrow> length a = 20" by simp
  ultimately show ?thesis
    using link_correct [of ?obj "[''L'' \<mapsto> replicate 20 7]"] by (auto simp: matchLibrary_def)
qed

text \<open>
  C24: linking distributes over appending: linking the concatenation of two objects is the
  concatenation of the linked objects, references included.
\<close>

theorem link_append:
  assumes "object_ok a" "object_ok b" "\<forall>name x. lib name = Some x \<longrightarrow> length x = 20"
  shows "\<exists>a' b'. link_object lib a = Some a' \<and> link_object lib b = Some b' \<and>
    object_ok (append_object a b) \<and> link_object lib (append_object a b) = Some (append_object a' b')"
proof -
  let ?n = "length (bytecode a)"
  obtain a' where a': "link_object lib a = Some a'" "object_ok a'" "length (bytecode a') = ?n"
      "immutableReferences a' = immutableReferences a"
    using link_object_ok [OF assms(1,3)] by blast
  obtain b' where b': "link_object lib b = Some b'" "object_ok b'"
    using link_object_ok [OF assms(2,3)] by blast
  have la: "link_loop lib (linkReferences a) (bytecode a) = Some (bytecode a', linkReferences a')"
    and lb: "link_loop lib (linkReferences b) (bytecode b) = Some (bytecode b', linkReferences b')"
    using a' b' by (auto simp: link_object_def)
  have "link_loop lib (linkReferences a) (bytecode a @ bytecode b) = Some (bytecode a' @ bytecode b, linkReferences a')"
    using link_loop_left [OF assms(1) [unfolded object_ok_def] assms(3)] la by simp
  moreover have "link_loop lib (map (\<lambda>(p, s). (p + ?n, s)) (linkReferences b)) (bytecode a' @ bytecode b) =
      Some (bytecode a' @ bytecode b', map (\<lambda>(p, s). (p + ?n, s)) (linkReferences b'))"
    using link_loop_right [OF assms(2) [unfolded object_ok_def] assms(3), of "bytecode a'"] lb a'(3) by simp
  ultimately have "link_loop lib (linkReferences (append_object a b)) (bytecode (append_object a b)) =
      Some (bytecode a' @ bytecode b', linkReferences (append_object a' b'))"
    unfolding append_refs [OF assms(1,2)] append_refs [OF a'(2) b'(2)]
    by (simp add: append_object_def link_loop_append a'(3))
  then have "link_object lib (append_object a b) = Some (append_object a' b')"
    using a'(4) by (simp add: link_object_def append_object_def)
  then show ?thesis using a' b' append_ok [OF assms(1,2)] by blast
qed

theorem link_append_witness:
  "\<exists>a' b'. link_object [''L'' \<mapsto> replicate 20 7]
       \<lparr>bytecode = replicate 20 0, linkReferences = [(0, ''L'')], immutableReferences = []\<rparr> = Some a' \<and>
     link_object [''L'' \<mapsto> replicate 20 7]
       \<lparr>bytecode = replicate 21 0, linkReferences = [(1, ''M'')], immutableReferences = []\<rparr> = Some b' \<and>
     link_object [''L'' \<mapsto> replicate 20 7]
       (append_object \<lparr>bytecode = replicate 20 0, linkReferences = [(0, ''L'')], immutableReferences = []\<rparr>
          \<lparr>bytecode = replicate 21 0, linkReferences = [(1, ''M'')], immutableReferences = []\<rparr>) =
       Some (append_object a' b')"
proof -
  let ?a = "\<lparr>bytecode = replicate 20 0, linkReferences = [(0, ''L'')], immutableReferences = []\<rparr>"
  let ?b = "\<lparr>bytecode = replicate 21 0, linkReferences = [(1, ''M'')], immutableReferences = []\<rparr>"
  have "object_ok ?a" "object_ok ?b" by (simp_all add: object_ok_def)
  moreover have "\<forall>name x. [''L'' \<mapsto> replicate 20 (7 :: byte)] name = Some x \<longrightarrow> length x = 20" by simp
  ultimately show ?thesis using link_append by blast
qed

text \<open>
  C25: the hexadecimal output of an object is defined, has two digits for each byte, shows every
  open reference as the placeholder of its library between two underscores on each side, agrees with the
  digits of the bytecode everywhere else, and for an object without references reads back as the
  bytecode.
\<close>

theorem object_toHex_correct:
  assumes "object_ok obj"
  shows "\<exists>hex. object_toHex keccak obj = Some hex \<and> length hex = 2 * length (bytecode obj) \<and>
    (\<forall>(p, name) \<in> set (linkReferences obj).
       take 40 (drop (2 * p) hex) = ''__'' @ libraryPlaceholder keccak name @ ''__'') \<and>
    (\<forall>i < length hex. (\<forall>(p, name) \<in> set (linkReferences obj). i < 2 * p \<or> 2 * p + 40 \<le> i) \<longrightarrow>
       hex ! i = toHex (bytecode obj) DontAdd Lower ! i) \<and>
    (linkReferences obj = [] \<longrightarrow> fromHex hex Throw = Inr (bytecode obj))"
proof -
  have l: "length (toHex (bytecode obj) DontAdd Lower) = 2 * length (bytecode obj)"
    by (simp add: toHex_def length_toHex_loop)
  show ?thesis
    using toHex_refs_ok [OF assms [unfolded object_ok_def] l, of keccak] l
      fromHex_toHex [of "bytecode obj" DontAdd Lower Throw]
    by (auto simp: object_toHex_def)
qed

theorem object_toHex_correct_witness:
  "\<exists>hex. object_toHex (\<lambda>_. 0) \<lparr>bytecode = replicate 21 0, linkReferences = [(1, ''L'')], immutableReferences = []\<rparr> = Some hex \<and>
     length hex = 42 \<and> take 40 (drop 2 hex) = ''__'' @ libraryPlaceholder (\<lambda>_. 0) ''L'' @ ''__''"
  using object_toHex_correct [of "\<lparr>bytecode = replicate 21 0, linkReferences = [(1, ''L'')], immutableReferences = []\<rparr>" "\<lambda>_. 0"]
  by (auto simp: object_ok_def)

end
