(* ===== verification/UTF8.thy ===== *)
theory UTF8
  imports Prelude
begin

text \<open>
  \<open>libsolutil/UTF8.cpp\<close>: validation of UTF-8. The input is the byte string; the loop variables
  \<open>i\<close> and \<open>valid\<close> are arguments, and the result is the pair of \<open>valid\<close> and the position the
  code reports. The main lemma relates the loop to the encoding of Unicode scalar values.
\<close>

section \<open>The code\<close>

definition isWellFormed :: "byte \<Rightarrow> byte \<Rightarrow> bool" where
  "isWellFormed byte1 byte2 =
     (if byte1 = 0xc0 \<or> byte1 = 0xc1 then False
      else if byte1 \<ge> 0xc2 \<and> byte1 \<le> 0xdf then True
      else if byte1 = 0xe0 then (if byte2 < 0xa0 then False else True)
      else if byte1 \<ge> 0xe1 \<and> byte1 \<le> 0xec then True
      else if byte1 = 0xed then (if byte2 > 0x9f then False else True)
      else if byte1 = 0xee \<or> byte1 = 0xef then True
      else if byte1 = 0xf0 then (if byte2 < 0x90 then False else True)
      else if byte1 \<ge> 0xf1 \<and> byte1 \<le> 0xf3 then True
      else if byte1 = 0xf4 then (if byte2 > 0x8f then False else True)
      else False)"

definition utf8_count :: "byte \<Rightarrow> nat" where
  "utf8_count b =
     (if b \<ge> 0xc0 \<and> b \<le> 0xdf then 1
      else if b \<ge> 0xe0 \<and> b \<le> 0xef then 2
      else if b \<ge> 0xf0 \<and> b \<le> 0xf7 then 3
      else 0)"

text \<open>The inner loop; \<open>n\<close> is the number of iterations left, \<open>first\<close> is \<open>j == 0\<close>.\<close>

fun utf8_inner :: "bytes \<Rightarrow> nat \<Rightarrow> bool \<Rightarrow> nat \<Rightarrow> bool \<times> nat" where
  "utf8_inner input 0 first i = (True, i)"
| "utf8_inner input (Suc n) first i =
     (let i' = i + 1 in
      if input ! i' AND 0xc0 \<noteq> 0x80 then (False, i')
      else if first \<and> \<not> isWellFormed (input ! (i' - 1)) (input ! i') then (False, i')
      else utf8_inner input n False i')"

lemma utf8_inner_ge: "i \<le> snd (utf8_inner input n first i)"
  by (induction n arbitrary: first i) (auto simp: Let_def intro: Suc_leD)

function utf8_loop :: "bytes \<Rightarrow> bool \<Rightarrow> nat \<Rightarrow> bool \<times> nat" where
  "utf8_loop input valid i =
     (if i < length input then
        if input ! i < 0x80 then utf8_loop input valid (i + 1)
        else
          let count = utf8_count (input ! i) in
          if count = 0 then (False, i)
          else if i + count \<ge> length input then (False, i)
          else
            let (ok, i') = utf8_inner input count True i
            in utf8_loop input (valid \<and> ok) (i' + 1)
      else (valid, i))"
  by pat_completeness auto
termination
proof (relation "measure (\<lambda>(input, valid, i). length input - i)")
  fix input :: bytes and valid i count r ok i'
  assume *: "i < length input" "r = utf8_inner input count True i" "(ok, i') = r"
  then have "i \<le> i'" using utf8_inner_ge [of i input count True] by (metis snd_conv)
  then show "((input, valid \<and> ok, i' + 1), input, valid, i) \<in> measure (\<lambda>(input, valid, i). length input - i)"
    using *(1) by simp
qed auto

declare utf8_loop.simps [simp del]

definition validateUTF8 :: "bytes \<Rightarrow> bool \<times> nat" where
  "validateUTF8 input = utf8_loop input True 0"

section \<open>The encoding of scalar values\<close>

definition scalar_value :: "nat \<Rightarrow> bool" where
  "scalar_value c \<longleftrightarrow> c < 0xd800 \<or> 0xe000 \<le> c \<and> c < 0x110000"

definition utf8_encode :: "nat \<Rightarrow> bytes" where
  "utf8_encode c =
     map of_nat
       (if c < 0x80 then [c]
        else if c < 0x800 then [0xc0 + c div 64, 0x80 + c mod 64]
        else if c < 0x10000 then [0xe0 + c div 4096, 0x80 + c div 64 mod 64, 0x80 + c mod 64]
        else [0xf0 + c div 262144, 0x80 + c div 4096 mod 64, 0x80 + c div 64 mod 64, 0x80 + c mod 64])"

definition utf8_wf :: "bytes \<Rightarrow> bool" where
  "utf8_wf input \<longleftrightarrow> (\<exists>cs. (\<forall>c \<in> set cs. scalar_value c) \<and> input = concat (map utf8_encode cs))"

section \<open>Lemmas\<close>

definition continuation :: "byte \<Rightarrow> bool" where
  "continuation b \<longleftrightarrow> b AND 0xc0 = 0x80"

lemma continuation_iff: "continuation b \<longleftrightarrow> 128 \<le> unat b \<and> unat b < 192"
proof -
  have "(0xc0 :: byte) = push_bit 6 (mask 2)" by (simp add: mask_numeral)
  then have "b AND 0xc0 = push_bit 6 (drop_bit 6 b)"
    by (auto simp: bit_eq_iff bit_simps)
  then have "unat (b AND 0xc0) = unat b div 64 * 64 mod 256"
    by (simp add: push_bit_eq_mult unat_word_ariths unat_drop_bit_div)
  moreover have "unat b < 256" using unsigned_less [of b] by simp
  then have "unat b div 64 * 64 mod 256 = unat b div 64 * 64" by simp
  ultimately have "b AND 0xc0 = 0x80 \<longleftrightarrow> unat b div 64 * 64 = 128" by (simp add: word_unat_eq_iff)
  also have "\<dots> \<longleftrightarrow> 128 \<le> unat b \<and> unat b < 192" by auto
  finally show ?thesis by (simp add: continuation_def)
qed

text \<open>The conditions of the code on numbers.\<close>

lemma isWellFormed_unat:
  "isWellFormed b c \<longleftrightarrow>
     194 \<le> unat b \<and> unat b \<le> 244 \<and> (unat b = 224 \<longrightarrow> 160 \<le> unat c) \<and> (unat b = 237 \<longrightarrow> unat c \<le> 159) \<and>
     (unat b = 240 \<longrightarrow> 144 \<le> unat c) \<and> (unat b = 244 \<longrightarrow> unat c \<le> 143)"
  by (auto simp: isWellFormed_def word_le_nat_alt word_less_nat_alt word_unat_eq_iff)

lemma utf8_count_unat:
  "utf8_count b = (if unat b < 192 then 0 else if unat b < 224 then 1 else if unat b < 240 then 2
     else if unat b < 248 then 3 else 0)"
  by (auto simp: utf8_count_def word_le_nat_alt)

lemma map_of_nat_eq: "\<forall>n \<in> set ns. n < 256 \<Longrightarrow> (bs :: bytes) = map of_nat ns \<longleftrightarrow> map unat bs = ns"
proof
  assume small: "\<forall>n \<in> set ns. n < 256" and "bs = map of_nat ns"
  then show "map unat bs = ns" by (auto simp: unat_of_nat take_bit_nat_eq_self intro!: map_idI)
next
  assume "map unat bs = ns"
  then have "map of_nat ns = map (\<lambda>b. b) bs" by (auto simp: comp_def)
  then show "bs = map of_nat ns" by simp
qed

lemma encode_unat:
  "scalar_value c \<Longrightarrow> bs = utf8_encode c \<longleftrightarrow> map unat bs =
     (if c < 0x80 then [c]
      else if c < 0x800 then [0xc0 + c div 64, 0x80 + c mod 64]
      else if c < 0x10000 then [0xe0 + c div 4096, 0x80 + c div 64 mod 64, 0x80 + c mod 64]
      else [0xf0 + c div 262144, 0x80 + c div 4096 mod 64, 0x80 + c div 64 mod 64, 0x80 + c mod 64])"
  unfolding utf8_encode_def by (rule map_of_nat_eq) (auto simp: scalar_value_def)

lemma encode2: "(\<exists>c. scalar_value c \<and> [b, b1] = utf8_encode c) \<longleftrightarrow>
    utf8_count b = 1 \<and> continuation b1 \<and> isWellFormed b b1" (is "?L = ?R")
proof
  assume ?L
  then obtain c where c: "scalar_value c" "[b, b1] = utf8_encode c" by blast
  have "0x80 \<le> c" "c < 0x800" "unat b = 0xc0 + c div 64" "unat b1 = 0x80 + c mod 64"
    using c by (auto simp: encode_unat split: if_splits)
  then show ?R by (simp add: utf8_count_unat continuation_iff isWellFormed_unat) linarith
next
  assume ?R
  then obtain x y where xy: "unat b = 192 + x" "unat b1 = 128 + y" "2 \<le> x" "x < 32" "y < 64"
    by (auto simp: utf8_count_unat continuation_iff isWellFormed_unat le_iff_add split: if_splits)
  let ?c = "x * 64 + y"
  have "scalar_value ?c" using xy by (simp add: scalar_value_def)
  moreover have "[b, b1] = utf8_encode ?c" using xy \<open>scalar_value ?c\<close> by (simp add: encode_unat)
  ultimately show ?L by blast
qed


text \<open>The digits of a code point in base 64.\<close>

lemma base64_digits:
  fixes c :: nat
  obtains x y z where "c = (x * 64 + y) * 64 + z" "y < 64" "z < 64"
  using that [of "c div 64 div 64" "c div 64 mod 64" "c mod 64"] by simp

lemma base64_div:
  assumes "y < 64" "z < (64 :: nat)"
  shows "((x * 64 + y) * 64 + z) div 64 = x * 64 + y" "((x * 64 + y) * 64 + z) mod 64 = z"
    "((x * 64 + y) * 64 + z) div 4096 = x" "(x * 64 + y) mod 64 = y"
proof -
  have *: "(q * 64 + r) div 64 = q \<and> (q * 64 + r) mod 64 = r" if "r < 64" for q r :: nat using that by simp
  show d: "((x * 64 + y) * 64 + z) div 64 = x * 64 + y" "((x * 64 + y) * 64 + z) mod 64 = z"
      "(x * 64 + y) mod 64 = y"
    using * assms by blast+
  have "((x * 64 + y) * 64 + z) div 4096 = ((x * 64 + y) * 64 + z) div 64 div 64"
    by (simp only: div_mult2_eq [symmetric]) simp
  then show "((x * 64 + y) * 64 + z) div 4096 = x" unfolding d using * [OF assms(1), of x] by simp
qed

lemma encode3: "(\<exists>c. scalar_value c \<and> [b, b1, b2] = utf8_encode c) \<longleftrightarrow>
    utf8_count b = 2 \<and> continuation b1 \<and> continuation b2 \<and> isWellFormed b b1" (is "?L = ?R")
proof
  assume ?L
  then obtain c where c: "scalar_value c" "[b, b1, b2] = utf8_encode c" by blast
  obtain x y z where xyz: "c = (x * 64 + y) * 64 + z" "y < 64" "z < 64" by (rule base64_digits)
  have "0x800 \<le> c" "c < 0x10000" "unat b = 0xe0 + c div 4096" "unat b1 = 0x80 + c div 64 mod 64"
      "unat b2 = 0x80 + c mod 64" "c < 0xd800 \<or> 0xe000 \<le> c"
    using c by (auto simp: encode_unat scalar_value_def split: if_splits)
  then show ?R unfolding xyz(1) base64_div [OF xyz(2,3)] using xyz(2,3)
    by (auto simp: utf8_count_unat continuation_iff isWellFormed_unat)
next
  assume R: ?R
  obtain x y z where xyz: "unat b = 224 + x" "unat b1 = 128 + y" "unat b2 = 128 + z" "x < 16" "y < 64"
      "z < 64" "x = 0 \<longrightarrow> 32 \<le> y" "x = 13 \<longrightarrow> y < 32"
    by (rule that [of "unat b - 224" "unat b1 - 128" "unat b2 - 128"])
      (use R in \<open>auto simp: utf8_count_unat continuation_iff isWellFormed_unat split: if_splits\<close>)
  let ?c = "(x * 64 + y) * 64 + z"
  have "x \<le> 12 \<or> x = 13 \<or> 14 \<le> x" by linarith
  then have c: "scalar_value ?c" "0x800 \<le> ?c" "?c < 0x10000"
    using xyz by (auto simp: scalar_value_def)
  then have "[b, b1, b2] = utf8_encode ?c"
    unfolding encode_unat [OF c(1)] base64_div [OF xyz(5,6)] using xyz(1-3) by simp
  then show ?L using c(1) by blast
qed

lemma encode4: "(\<exists>c. scalar_value c \<and> [b, b1, b2, b3] = utf8_encode c) \<longleftrightarrow>
    utf8_count b = 3 \<and> continuation b1 \<and> continuation b2 \<and> continuation b3 \<and> isWellFormed b b1" (is "?L = ?R")
proof
  assume ?L
  then obtain c where c: "scalar_value c" "[b, b1, b2, b3] = utf8_encode c" by blast
  obtain w y z where wyz: "c = (w * 64 + y) * 64 + z" "y < 64" "z < 64" by (rule base64_digits)
  have "c div 262144 = c div 4096 div 64" by (simp only: div_mult2_eq [symmetric]) simp
  then have d: "c div 262144 = w div 64" "c div 4096 = w" "c div 64 mod 64 = y" "c mod 64 = z"
    unfolding wyz(1) base64_div [OF wyz(2,3)] by (simp_all add: wyz)
  have "0x10000 \<le> c" "c < 0x110000" "unat b = 0xf0 + w div 64" "unat b1 = 0x80 + w mod 64"
      "unat b2 = 0x80 + y" "unat b3 = 0x80 + z"
    using c by (auto simp: encode_unat scalar_value_def d split: if_splits)
  moreover obtain v x where "w = v * 64 + x" "x < 64" using that [of "w div 64" "w mod 64"] by simp
  ultimately show ?R using wyz
    by (auto simp: utf8_count_unat continuation_iff isWellFormed_unat)
next
  assume R: ?R
  obtain v x y z where xyz: "unat b = 240 + v" "unat b1 = 128 + x" "unat b2 = 128 + y" "unat b3 = 128 + z"
      "v < 5" "x < 64" "y < 64" "z < 64" "v = 0 \<longrightarrow> 16 \<le> x" "v = 4 \<longrightarrow> x < 16"
    by (rule that [of "unat b - 240" "unat b1 - 128" "unat b2 - 128" "unat b3 - 128"])
      (use R in \<open>auto simp: utf8_count_unat continuation_iff isWellFormed_unat split: if_splits\<close>)
  let ?c = "((v * 64 + x) * 64 + y) * 64 + z"
  have "?c div 262144 = ?c div 4096 div 64" by (simp only: div_mult2_eq [symmetric]) simp
  then have d: "?c div 262144 = v" unfolding base64_div [OF xyz(7,8)] using xyz(6) by simp
  have c: "scalar_value ?c" "0x10000 \<le> ?c"
    using xyz by (auto simp: scalar_value_def)
  then have "[b, b1, b2, b3] = utf8_encode ?c"
    unfolding encode_unat [OF c(1)] d base64_div [OF xyz(7,8)] using xyz(1-4,6) by simp
  then show ?L using c(1) by blast
qed

lemma encode1: "(\<exists>c. scalar_value c \<and> [b] = utf8_encode c) \<longleftrightarrow> unat b < 128"
  by (auto simp: encode_unat scalar_value_def intro!: exI [of _ "unat b"] split: if_splits)

text \<open>One encoded scalar value starts with a byte that determines its length.\<close>

definition sequence_ok :: "bytes \<Rightarrow> bool" where
  "sequence_ok bs \<longleftrightarrow> (\<exists>c. scalar_value c \<and> bs = utf8_encode c)"

lemma sequence_ok_iff:
  "sequence_ok (b # bs) \<longleftrightarrow>
     (if unat b < 128 then bs = []
      else utf8_count b \<noteq> 0 \<and> length bs = utf8_count b \<and> (\<forall>x \<in> set bs. continuation x) \<and> isWellFormed b (hd bs))"
proof -
  consider "bs = []" | b1 where "bs = [b1]" | b1 b2 where "bs = [b1, b2]" | b1 b2 b3 where "bs = [b1, b2, b3]"
    | "3 < length bs"
    by (cases bs; cases "tl bs"; cases "tl (tl bs)"; cases "tl (tl (tl bs))") auto
  then show ?thesis
  proof cases
    case 1
    then show ?thesis using encode1 by (auto simp: sequence_ok_def)
  next
    case 2
    then show ?thesis using encode2 [of b b1] by (auto simp: sequence_ok_def utf8_count_unat)
  next
    case 3
    then show ?thesis using encode3 [of b b1 b2] by (auto simp: sequence_ok_def utf8_count_unat)
  next
    case 4
    then show ?thesis using encode4 [of b b1 b2 b3] by (auto simp: sequence_ok_def utf8_count_unat)
  next
    case 5
    then have "b # bs \<noteq> utf8_encode c" for c by (auto simp: utf8_encode_def dest: arg_cong [of _ _ length])
    then show ?thesis using 5 by (auto simp: sequence_ok_def utf8_count_def)
  qed
qed

lemma utf8_wf_Nil [simp]: "utf8_wf []"
  unfolding utf8_wf_def by (rule exI [of _ "[]"]) simp

lemma utf8_encode_not_Nil [simp]: "utf8_encode c \<noteq> []"
  by (simp add: utf8_encode_def)

lemma utf8_wf_append: "sequence_ok bs \<Longrightarrow> utf8_wf rest \<Longrightarrow> utf8_wf (bs @ rest)"
proof -
  assume "sequence_ok bs" "utf8_wf rest"
  then obtain c cs where "scalar_value c" "bs = utf8_encode c" "\<forall>c \<in> set cs. scalar_value c"
      "rest = concat (map utf8_encode cs)"
    by (auto simp: utf8_wf_def sequence_ok_def)
  then show ?thesis unfolding utf8_wf_def by (intro exI [of _ "c # cs"]) simp
qed

lemma utf8_wf_Cons:
  assumes "n = (if unat b < 128 then 0 else utf8_count b)"
  shows "utf8_wf (b # rest) \<longleftrightarrow> n \<le> length rest \<and> sequence_ok (b # take n rest) \<and> utf8_wf (drop n rest)"
proof
  assume "utf8_wf (b # rest)"
  then obtain cs where cs: "\<forall>c \<in> set cs. scalar_value c" "b # rest = concat (map utf8_encode cs)"
    by (auto simp: utf8_wf_def)
  then obtain c cs' where [simp]: "cs = c # cs'" by (cases cs) auto
  obtain bs where bs: "utf8_encode c = b # bs" "rest = bs @ concat (map utf8_encode cs')"
    using cs(2) by (cases "utf8_encode c") auto
  then have "sequence_ok (b # bs)" using cs(1) by (metis sequence_ok_def list.set_intros(1) \<open>cs = c # cs'\<close>)
  moreover have "length bs = n" using calculation assms by (auto simp: sequence_ok_iff split: if_splits)
  moreover have "utf8_wf (concat (map utf8_encode cs'))" using cs(1) by (auto simp: utf8_wf_def)
  ultimately show "n \<le> length rest \<and> sequence_ok (b # take n rest) \<and> utf8_wf (drop n rest)"
    using bs by simp
next
  assume "n \<le> length rest \<and> sequence_ok (b # take n rest) \<and> utf8_wf (drop n rest)"
  then show "utf8_wf (b # rest)" using utf8_wf_append [of "b # take n rest" "drop n rest"] by simp
qed

lemma utf8_inner_rest:
  "i + n < length input \<Longrightarrow>
   fst (utf8_inner input n False i) = (\<forall>x \<in> set (take n (drop (Suc i) input)). continuation x) \<and>
   (fst (utf8_inner input n False i) \<longrightarrow> snd (utf8_inner input n False i) = i + n)"
proof (induction n arbitrary: i)
  case (Suc n)
  have "take (Suc n) (drop (Suc i) input) = input ! Suc i # take n (drop (Suc (Suc i)) input)"
    using Suc.prems by (simp add: take_Suc_conv_app_nth Cons_nth_drop_Suc [symmetric])
  then show ?case using Suc by (simp add: Let_def continuation_def)
qed simp

lemma utf8_inner_first:
  assumes "i + n < length input" "0 < n"
  shows "fst (utf8_inner input n True i) =
      ((\<forall>x \<in> set (take n (drop (Suc i) input)). continuation x) \<and>
       isWellFormed (input ! i) (hd (take n (drop (Suc i) input))))"
    and "fst (utf8_inner input n True i) \<Longrightarrow> snd (utf8_inner input n True i) = i + n"
proof -
  obtain m where m: "n = Suc m" using assms(2) by (cases n) auto
  have t: "take n (drop (Suc i) input) = input ! Suc i # take m (drop (Suc (Suc i)) input)"
    using assms(1) by (simp add: m Cons_nth_drop_Suc [symmetric])
  show "fst (utf8_inner input n True i) =
      ((\<forall>x \<in> set (take n (drop (Suc i) input)). continuation x) \<and>
       isWellFormed (input ! i) (hd (take n (drop (Suc i) input))))"
    unfolding t using utf8_inner_rest [of "Suc i" m input] assms(1) by (simp add: m Let_def continuation_def)
  show "snd (utf8_inner input n True i) = i + n" if "fst (utf8_inner input n True i)"
    using that utf8_inner_rest [of "Suc i" m input] assms(1) by (auto simp: m Let_def split: if_splits)
qed

lemma utf8_loop_False: "fst (utf8_loop input False i) = False"
proof (induction input False i rule: utf8_loop.induct)
  case (1 input i)
  then show ?case by (subst utf8_loop.simps) (auto simp: Let_def split: prod.split)
qed

lemma utf8_loop_wf: "fst (utf8_loop input True i) \<longleftrightarrow> utf8_wf (drop i input)"
proof (induction "length input - i" arbitrary: i rule: less_induct)
  case less
  show ?case
  proof (cases "i < length input")
    case False
    then show ?thesis by (subst utf8_loop.simps) simp
  next
    case True
    let ?b = "input ! i" and ?rest = "drop (Suc i) input"
    have d: "drop i input = ?b # ?rest" using True by (simp add: Cons_nth_drop_Suc)
    show ?thesis
    proof (cases "unat ?b < 128")
      case ascii: True
      then have "?b < 0x80" by (simp add: word_less_nat_alt)
      then show ?thesis using less [of "i + 1"] True ascii d utf8_wf_Cons [OF refl, of ?b ?rest]
        by (subst utf8_loop.simps) (simp add: sequence_ok_iff)
    next
      case multi: False
      then have nb: "\<not> ?b < 0x80" by (simp add: word_less_nat_alt)
      let ?n = "utf8_count ?b"
      have wf: "utf8_wf (drop i input) \<longleftrightarrow> ?n \<le> length ?rest \<and> sequence_ok (?b # take ?n ?rest) \<and> utf8_wf (drop ?n ?rest)"
        unfolding d by (rule utf8_wf_Cons) (simp add: multi)
      show ?thesis
      proof (cases "?n = 0 \<or> length input \<le> i + ?n")
        case bad: True
        then have "\<not> utf8_wf (drop i input)" using wf multi True by (auto simp: sequence_ok_iff)
        then show ?thesis using bad nb True by (subst utf8_loop.simps) (auto simp: Let_def)
      next
        case False
        then have n: "0 < ?n" "i + ?n < length input" by auto
        obtain ok i' where inner: "utf8_inner input ?n True i = (ok, i')" by fastforce
        have ok: "ok \<longleftrightarrow> sequence_ok (?b # take ?n ?rest)" "ok \<Longrightarrow> i' = i + ?n"
          using utf8_inner_first [OF n(2,1)] inner n multi by (auto simp: sequence_ok_iff)
        have "utf8_loop input True i = utf8_loop input ok (i' + 1)"
          using nb n True inner by (subst utf8_loop.simps) (simp add: Let_def)
        moreover have "drop (i + ?n + 1) input = drop ?n ?rest" by (simp add: add.commute)
        ultimately show ?thesis using wf ok n less [of "i + ?n + 1"] utf8_loop_False [of input "i' + 1"]
          by (cases ok) auto
      qed
    qed
  qed
qed

lemma utf8_loop_ascii:
  "\<forall>k. i \<le> k \<and> k < length input \<longrightarrow> input ! k < 0x80 \<Longrightarrow> i \<le> length input \<Longrightarrow>
   utf8_loop input valid i = (valid, length input)"
proof (induction "length input - i" arbitrary: i)
  case 0
  then show ?case by (subst utf8_loop.simps) simp
next
  case (Suc n)
  then show ?case by (subst utf8_loop.simps) simp
qed

section \<open>Properties\<close>

text \<open>
  C26: \<open>validateUTF8\<close> accepts a byte string exactly when it is the UTF-8 encoding of a sequence of
  Unicode scalar values: no overlong forms, no surrogates, nothing above U+10FFFF and no
  truncated sequence is accepted, and every encoding is.
\<close>

theorem validateUTF8_iff_encoding:
  "fst (validateUTF8 input) \<longleftrightarrow>
     (\<exists>cs. list_all scalar_value cs \<and> input = concat (map utf8_encode cs))"
  using utf8_loop_wf [of input 0] by (simp add: validateUTF8_def utf8_wf_def list_all_iff)



end
