(* ===== verification/ExpressionClasses.thy ===== *)
theory ExpressionClasses
  imports SimplificationRules
begin

text \<open>
  \<open>libevmasm/ExpressionClasses.{h,cpp}\<close>: classes of equivalent expressions. \<open>find\<close> simplifies the
  expression with the rules before it makes a new class, and the replacement of a rule is itself
  built with \<open>find\<close>. Nothing in the source bounds that recursion, so the model has fuel: \<open>None\<close>
  means that the fuel was not enough, and more fuel never changes a result. The set
  \<open>m_expressions\<close> is the list of its elements in the order they were inserted. Copies of items
  (\<open>m_spareAssemblyItems\<close>) are not needed: an expression holds its item. Class identifiers are
  unbounded: the source assumes fewer than \<open>2^32\<close> classes, so that the \<open>Id(-1)\<close> of an expression
  that no rule simplifies, \<open>None\<close> here, is never an identifier.
\<close>

section \<open>Results with fuel\<close>

type_synonym 'a fueled = "'a result option"

definition bindF :: "'a fueled \<Rightarrow> ('a \<Rightarrow> 'b fueled) \<Rightarrow> 'b fueled" where
  "bindF r f = (case r of None \<Rightarrow> None | Some (Inl e) \<Rightarrow> Some (Inl e) | Some (Inr x) \<Rightarrow> f x)"

lemma bindF_simps [simp]:
  "bindF None f = None" "bindF (Some (Inl e)) f = Some (Inl e)" "bindF (Some (Inr x)) f = f x"
  by (simp_all add: bindF_def)

lemma bindF_cong [fundef_cong]:
  "r = r' \<Longrightarrow> (\<And>x. r' = Some (Inr x) \<Longrightarrow> f x = f' x) \<Longrightarrow> bindF r f = bindF r' f'"
  by (auto simp: bindF_def split: option.split sum.split)

lemma bindF_Inr_iff: "bindF r f = Some (Inr y) \<longleftrightarrow> (\<exists>x. r = Some (Inr x) \<and> f x = Some (Inr y))"
  by (auto simp: bindF_def split: option.split sum.split)

lemma bindF_Some_iff:
  "bindF r f = Some y \<longleftrightarrow> (\<exists>e. r = Some (Inl e) \<and> y = Inl e) \<or> (\<exists>x. r = Some (Inr x) \<and> f x = Some y)"
  by (auto simp: bindF_def split: option.split sum.split)

section \<open>The order of expressions\<close>

fun ids_less :: "nat list \<Rightarrow> nat list \<Rightarrow> bool" where
  "ids_less [] [] = False"
| "ids_less [] (b # bs) = True"
| "ids_less (a # as) [] = False"
| "ids_less (a # as) (b # bs) = (if a < b then True else if b < a then False else ids_less as bs)"

definition expression_less :: "expression \<Rightarrow> expression \<Rightarrow> bool result" where
  "expression_less a b =
     (case (e_item a, e_item b) of
        (Some it, Some it') \<Rightarrow>
          Inr (if m_type it \<noteq> m_type it' then type_rank (m_type it) < type_rank (m_type it')
               else
                 let rest = (if e_arguments a \<noteq> e_arguments b
                             then ids_less (e_arguments a) (e_arguments b)
                             else e_sequenceNumber a < e_sequenceNumber b)
                 in if m_type it = Operation
                    then (if m_instruction it \<noteq> m_instruction it'
                          then m_instruction it < m_instruction it' else rest)
                    else (if m_data it \<noteq> m_data it' then m_data it < m_data it' else rest))
      | _ \<Rightarrow> Inl OptimizerException)"

text \<open>\<open>std::set<Expression>::find\<close> and \<open>insert\<close>.\<close>

definition expression_equiv :: "expression \<Rightarrow> expression \<Rightarrow> bool result" where
  "expression_equiv a b =
     bindR (expression_less a b) (\<lambda>l. bindR (expression_less b a) (\<lambda>g. Inr (\<not> l \<and> \<not> g)))"

fun set_find :: "expression \<Rightarrow> expression list \<Rightarrow> expression option result" where
  "set_find e [] = Inr None"
| "set_find e (e' # es) =
     bindR (expression_equiv e e') (\<lambda>eq. if eq then Inr (Some e') else set_find e es)"

definition set_insert :: "expression \<Rightarrow> expression list \<Rightarrow> expression list result" where
  "set_insert e es =
     bindR (set_find e es) (\<lambda>r. Inr (case r of Some _ \<Rightarrow> es | None \<Rightarrow> es @ [e]))"

section \<open>The classes\<close>

record expression_classes =
  m_representatives :: "expression list"
  m_expressions :: "expression list"

definition emptyClasses :: expression_classes where
  "emptyClasses = \<lparr>m_representatives = [], m_expressions = []\<rparr>"

text \<open>\<open>Id(-1)\<close> for the 32-bit type \<open>Id\<close>.\<close>

definition noId :: nat where
  "noId = 2 ^ 32 - 1"

definition commonExpression :: "nat \<Rightarrow> assembly_item \<Rightarrow> nat list \<Rightarrow> nat \<Rightarrow> expression" where
  "commonExpression i it arguments sequenceNumber =
     \<lparr>e_id = i, e_item = Some it,
      e_arguments = (if isCommutativeOperation it then sort arguments else arguments),
      e_sequenceNumber = sequenceNumber\<rparr>"

text \<open>The end of \<open>find\<close>: a new class unless the expression was simplified to an existing one.\<close>

definition addExpression ::
  "expression \<Rightarrow> nat option \<Rightarrow> expression_classes \<Rightarrow> (nat \<times> expression_classes) result" where
  "addExpression e i cls =
     (let n = length (m_representatives cls);
          known = (case i of Some k \<Rightarrow> k < n | None \<Rightarrow> False);
          e' = e\<lparr>e_id := (if known then the i else n)\<rparr>;
          reps = (if known then m_representatives cls else m_representatives cls @ [e'])
      in bindR (set_insert e' (m_expressions cls)) (\<lambda>es.
           Inr (e_id e', \<lparr>m_representatives = reps, m_expressions = es\<rparr>)))"

function (sequential) find_class ::
  "nat \<Rightarrow> expression_classes \<Rightarrow> assembly_item \<Rightarrow> nat list \<Rightarrow> nat \<Rightarrow> (nat \<times> expression_classes) fueled"
and tryToSimplify :: "nat \<Rightarrow> expression_classes \<Rightarrow> expression \<Rightarrow> (nat option \<times> expression_classes) fueled"
and rebuildExpression ::
  "nat \<Rightarrow> expression_classes \<Rightarrow> expression_template \<Rightarrow> (nat \<times> expression_classes) fueled"
and rebuildExpressions ::
  "nat \<Rightarrow> expression_classes \<Rightarrow> expression_template list \<Rightarrow> (nat list \<times> expression_classes) fueled" where
  "find_class 0 cls it arguments sequenceNumber = None"
| "find_class (Suc n) cls it arguments sequenceNumber =
     (let e = commonExpression noId it arguments sequenceNumber in
      bindF (Some (if isDeterministic it then set_find e (m_expressions cls) else Inr None)) (\<lambda>found.
        case found of
          Some e' \<Rightarrow> Some (Inr (e_id e', cls))
        | None \<Rightarrow>
            bindF (tryToSimplify n cls e) (\<lambda>(i, cls'). Some (addExpression e i cls'))))"
| "tryToSimplify n cls e =
     bindF (Some Rules) (\<lambda>rules.
     bindF (Some (assertThrow (isInitialized rules) OptimizerException)) (\<lambda>_.
       case e_item e of
         None \<Rightarrow> Some (Inr (None, cls))
       | Some it \<Rightarrow>
           if m_type it \<noteq> Operation \<or> \<not> isDeterministic it then Some (Inr (None, cls))
           else bindF (Some (findFirstMatch rules (m_representatives cls) e)) (\<lambda>found.
             case found of
               None \<Rightarrow> Some (Inr (None, cls))
             | Some (r, gr) \<Rightarrow>
                 bindF (Some (ExpressionTemplate gr (m_location it) (sr_action r (match_d gr)))) (\<lambda>t.
                   bindF (rebuildExpression n cls t) (\<lambda>(i, cls'). Some (Inr (Some i, cls')))))))"
| "rebuildExpression n cls (Template hasId i it arguments) =
     (if hasId then Some (Inr (i, cls))
      else bindF (rebuildExpressions n cls arguments) (\<lambda>(ids, cls'). find_class n cls' it ids 0))"
| "rebuildExpressions n cls [] = Some (Inr ([], cls))"
| "rebuildExpressions n cls (t # ts) =
     bindF (rebuildExpression n cls t) (\<lambda>(i, cls').
     bindF (rebuildExpressions n cls' ts) (\<lambda>(ids, cls''). Some (Inr (i # ids, cls''))))"
  by pat_completeness auto

termination
  by (relation "inv_image (less_than <*lex*> less_than <*lex*> less_than)
      (\<lambda>x. case x of
         Inl (Inl (n, _)) \<Rightarrow> (n, 0, 0)
       | Inl (Inr (n, _)) \<Rightarrow> (n, 2, 0)
       | Inr (Inl (n, _, t)) \<Rightarrow> (n, 1, size t)
       | Inr (Inr (n, _, ts)) \<Rightarrow> (n, 1, size_list size ts))") auto

declare find_class.simps [simp del] tryToSimplify.simps [simp del]

definition forceEqual ::
  "expression_classes \<Rightarrow> nat \<Rightarrow> assembly_item \<Rightarrow> nat list \<Rightarrow> expression_classes result" where
  "forceEqual cls i it arguments =
     bindR (set_insert (commonExpression i it arguments 0) (m_expressions cls)) (\<lambda>es.
       Inr (cls\<lparr>m_expressions := es\<rparr>))"

definition newClass :: "expression_classes \<Rightarrow> source_location \<Rightarrow> (nat \<times> expression_classes) result" where
  "newClass cls loc =
     (let i = length (m_representatives cls);
          e = \<lparr>e_id = i, e_item = Some (mkItem UndefinedItem (push_bit 255 1 + of_nat i) loc),
               e_arguments = [], e_sequenceNumber = 0\<rparr>
      in bindR (set_insert e (m_expressions cls)) (\<lambda>es.
           Inr (i, \<lparr>m_representatives = m_representatives cls @ [e], m_expressions = es\<rparr>)))"

section \<open>Known values\<close>

definition knownZero :: "expression_classes \<Rightarrow> nat \<Rightarrow> bool result" where
  "knownZero cls c =
     bindR (representative (m_representatives cls) c) (\<lambda>e.
     bindR (matches (m_representatives cls) (lit 0) e Map.empty) (\<lambda>(ok, _). Inr ok))"

definition knownConstant :: "expression_classes \<Rightarrow> nat \<Rightarrow> u256 option result" where
  "knownConstant cls c =
     (let constant = setMatchGroup (any_of Push) 1 in
      bindR (representative (m_representatives cls) c) (\<lambda>e.
      bindR (matches (m_representatives cls) constant e Map.empty) (\<lambda>(ok, gr).
        Inr (if ok then Some (match_d gr constant) else None))))"

definition knownNonZero :: "nat \<Rightarrow> expression_classes \<Rightarrow> nat \<Rightarrow> (bool \<times> expression_classes) fueled" where
  "knownNonZero n cls c =
     bindF (find_class n cls (mkOp ISZERO noLocation) [c] 0) (\<lambda>(i, cls').
     bindF (Some (knownZero cls' i)) (\<lambda>z. Some (Inr (z, cls'))))"

definition knownToBeDifferent ::
  "nat \<Rightarrow> expression_classes \<Rightarrow> nat \<Rightarrow> nat \<Rightarrow> (bool \<times> expression_classes) fueled" where
  "knownToBeDifferent n cls a b =
     bindF (find_class n cls (mkOp SUB noLocation) [a, b] 0) (\<lambda>(i, cls'). knownNonZero n cls' i)"

definition knownToBeDifferentBy32 ::
  "nat \<Rightarrow> expression_classes \<Rightarrow> nat \<Rightarrow> nat \<Rightarrow> (bool \<times> expression_classes) fueled" where
  "knownToBeDifferentBy32 n cls a b =
     bindF (find_class n cls (mkOp SUB noLocation) [a, b] 0) (\<lambda>(i, cls').
     bindF (Some (knownConstant cls' i)) (\<lambda>v.
       Some (Inr (case v of Some w \<Rightarrow> w + 31 > 62 | None \<Rightarrow> False, cls'))))"

lemma Rules_initialized: "\<exists>tbl. Rules = Inr tbl \<and> isInitialized tbl"
  using first_rule by (auto simp: Rules_table isInitialized_def inst_def)

section \<open>Fuel\<close>

text \<open>More fuel does not change a result.\<close>

lemma more_fuel:
  "find_class n cls it arguments sq = Some r \<Longrightarrow> find_class (Suc n) cls it arguments sq = Some r"
  "tryToSimplify n cls e = Some q \<Longrightarrow> tryToSimplify (Suc n) cls e = Some q"
  "rebuildExpression n cls t = Some r \<Longrightarrow> rebuildExpression (Suc n) cls t = Some r"
  "rebuildExpressions n cls ts = Some r' \<Longrightarrow> rebuildExpressions (Suc n) cls ts = Some r'"
proof (induction n cls it arguments sq and n cls e and n cls t and n cls ts
    arbitrary: r and q and r and r' rule: find_class_tryToSimplify_rebuildExpression_rebuildExpressions.induct)
  case (2 n cls it arguments sq)
  show ?case
  proof (cases "if isDeterministic it then set_find (commonExpression noId it arguments sq) (m_expressions cls) else Inr None")
    case (Inr found)
    then show ?thesis
      using 2(2) 2(1) [OF refl, of found]
      by (subst find_class.simps, subst (asm) find_class.simps)
        (cases found; auto simp: Let_def bindF_Some_iff)
  qed (use 2(2) in \<open>subst find_class.simps, subst (asm) find_class.simps, simp\<close>)
next
  case (3 n cls e)
  obtain tbl where tbl: "Rules = Inr tbl" "isInitialized tbl" using Rules_initialized by blast
  show ?case
  proof (cases "e_item e")
    case (Some it)
    show ?thesis
    proof (cases "findFirstMatch tbl (m_representatives cls) e")
      case (Inr found)
      show ?thesis
      proof (cases found)
        case None
        then show ?thesis using 3(2) Some Inr by (simp add: tryToSimplify.simps tbl split: if_splits)
      next
        case (Some rg)
        then show ?thesis using 3 \<open>e_item e = Some it\<close> Inr
          by (cases rg) (auto simp: tryToSimplify.simps tbl bindF_Some_iff split: if_splits)
      qed
    qed (use 3(2) Some in \<open>auto simp: tryToSimplify.simps tbl split: if_splits\<close>)
  qed (use 3(2) in \<open>simp add: tryToSimplify.simps tbl\<close>)
next
  case (6 n cls t ts)
  then show ?case by (fastforce simp: bindF_Some_iff)
qed (auto simp: find_class.simps bindF_Some_iff)

section \<open>Lookup\<close>

definition same_key :: "expression \<Rightarrow> expression \<Rightarrow> bool" where
  "same_key a b \<longleftrightarrow>
     (\<exists>it it'. e_item a = Some it \<and> e_item b = Some it' \<and> item_eq it it') \<and>
     e_arguments a = e_arguments b \<and> e_sequenceNumber a = e_sequenceNumber b"

lemma ids_less_total: "\<not> ids_less as bs \<Longrightarrow> \<not> ids_less bs as \<Longrightarrow> as = bs"
  by (induction as bs rule: ids_less.induct) (auto split: if_splits)

lemma type_rank_inj: "type_rank a = type_rank b \<longleftrightarrow> a = b"
  by (cases a; cases b) simp_all

lemma expression_equiv_key: "expression_equiv a b = Inr True \<Longrightarrow> same_key a b"
proof -
  assume eq: "expression_equiv a b = Inr True"
  then obtain it it' where it: "e_item a = Some it" "e_item b = Some it'"
    by (auto simp: expression_equiv_def expression_less_def bindR_Inr_iff split: option.splits)
  have t: "m_type it = m_type it'"
    using eq it by (auto simp: expression_equiv_def expression_less_def type_rank_inj not_less
        dest!: antisym [of "type_rank _"] split: if_splits)
  have args: "e_arguments a = e_arguments b"
    using eq it t by (auto simp: expression_equiv_def expression_less_def Let_def
        dest: ids_less_total split: if_splits)
  then show ?thesis using eq it t
    by (auto simp: same_key_def expression_equiv_def expression_less_def Let_def item_eq_def split: if_splits)
qed

lemma set_find_key: "set_find e es = Inr (Some e') \<Longrightarrow> e' \<in> set es \<and> same_key e e'"
proof (induction es)
  case (Cons x es)
  then show ?case by (auto simp: bindR_Inr_iff dest: expression_equiv_key split: if_splits)
qed simp

lemma set_insert_set: "set_insert e es = Inr es' \<Longrightarrow> set es' \<subseteq> insert e (set es)"
  by (auto simp: set_insert_def bindR_Inr_iff split: option.splits)

lemma addExpression_mono:
  "addExpression e i cls = Inr (k, cls') \<Longrightarrow> length (m_representatives cls) \<le> length (m_representatives cls')"
  by (auto simp: addExpression_def Let_def bindR_Inr_iff split: if_splits)

lemma find_class_Inr:
  assumes "find_class n cls it arguments sq = Some (Inr (i, cls'))"
  obtains (known) e' where "isDeterministic it" "i = e_id e'" "cls' = cls"
      "set_find (commonExpression noId it arguments sq) (m_expressions cls) = Inr (Some e')"
    | (added) m j cls1 where "n = Suc m"
      "tryToSimplify m cls (commonExpression noId it arguments sq) = Some (Inr (j, cls1))"
      "addExpression (commonExpression noId it arguments sq) j cls1 = Inr (i, cls')"
proof -
  let ?e = "commonExpression noId it arguments sq"
  obtain m where n: "n = Suc m" using assms by (cases n) (auto simp: find_class.simps)
  obtain found where f: "(if isDeterministic it then set_find ?e (m_expressions cls) else Inr None) = Inr found"
    using assms by (auto simp: n find_class.simps Let_def bindF_Inr_iff)
  show thesis
  proof (cases found)
    case None
    then show ?thesis using assms f added [OF n]
      by (auto simp: n find_class.simps Let_def bindF_Inr_iff)
  next
    case (Some e')
    then show ?thesis using assms f known by (auto simp: n find_class.simps Let_def split: if_splits)
  qed
qed

lemma tryToSimplify_Inr:
  assumes "tryToSimplify n cls e = Some (Inr (i, cls'))"
  obtains (unchanged) "i = None" "cls' = cls"
    | (simplified) tbl it r gr t j where "Rules = Inr tbl" "e_item e = Some it"
      "m_type it = Operation" "isDeterministic it"
      "findFirstMatch tbl (m_representatives cls) e = Inr (Some (r, gr))"
      "ExpressionTemplate gr (m_location it) (sr_action r (match_d gr)) = Inr t"
      "i = Some j" "rebuildExpression n cls t = Some (Inr (j, cls'))"
proof -
  obtain tbl where tbl: "Rules = Inr tbl" "isInitialized tbl" using Rules_initialized by blast
  show thesis
  proof (cases "\<exists>it. e_item e = Some it \<and> m_type it = Operation \<and> isDeterministic it")
    case False
    then show ?thesis using assms unchanged
      by (auto simp: tryToSimplify.simps tbl split: option.splits if_splits)
  next
    case True
    then obtain it where it: "e_item e = Some it" "m_type it = Operation" "isDeterministic it" by blast
    obtain found where f: "findFirstMatch tbl (m_representatives cls) e = Inr found"
      using assms it by (auto simp: tryToSimplify.simps tbl bindF_Inr_iff)
    then show ?thesis
    proof (cases found)
      case None
      then show ?thesis using assms unchanged it f by (auto simp: tryToSimplify.simps tbl)
    next
      case (Some rg)
      then show ?thesis using assms it f simplified [OF tbl(1) it]
        by (cases rg) (auto simp: tryToSimplify.simps tbl bindF_Inr_iff)
    qed
  qed
qed

lemma rebuild_mono:
  assumes find: "\<And>cls it arguments sq i cls'. find_class n cls it arguments sq = Some (Inr (i, cls')) \<Longrightarrow>
    length (m_representatives cls) \<le> length (m_representatives cls')"
  shows "rebuildExpression n cls t = Some (Inr (i, cls')) \<Longrightarrow>
      length (m_representatives cls) \<le> length (m_representatives cls')"
proof (induction t arbitrary: cls i cls')
  case (Template hasId k it ts)
  have "length (m_representatives cls) \<le> length (m_representatives cls1)"
    if "rebuildExpressions n cls ts1 = Some (Inr (ids, cls1))" "set ts1 \<subseteq> set ts" for ts1 ids cls cls1
    using that
  proof (induction ts1 arbitrary: cls ids)
    case (Cons t ts1)
    then show ?case using Template.IH [of t] by (fastforce simp: bindF_Inr_iff)
  qed simp
  then show ?case using Template.prems find by (fastforce simp: bindF_Inr_iff split: if_splits)
qed

lemma find_class_mono:
  "find_class n cls it arguments sq = Some (Inr (i, cls')) \<Longrightarrow>
     length (m_representatives cls) \<le> length (m_representatives cls')"
proof (induction n arbitrary: cls it arguments sq i cls')
  case (Suc n)
  from Suc.prems show ?case
  proof (cases rule: find_class_Inr)
    case (added m j cls1)
    from added(2) have "length (m_representatives cls) \<le> length (m_representatives cls1)"
      by (cases rule: tryToSimplify_Inr) (use rebuild_mono [OF Suc.IH] added(1) in auto)
    then show ?thesis using addExpression_mono [OF added(3)] by simp
  qed simp
qed (simp add: find_class.simps)

lemma rebuildExpressions_mono:
  "rebuildExpressions n cls ts = Some (Inr (ids, cls')) \<Longrightarrow>
     length (m_representatives cls) \<le> length (m_representatives cls')"
proof (induction ts arbitrary: cls ids)
  case (Cons t ts)
  then show ?case using rebuild_mono [OF find_class_mono] by (fastforce simp: bindF_Inr_iff)
qed simp

end
