(* ===== verification/KnownState.thy ===== *)
theory KnownState
  imports ExpressionClasses GasMeter "HOL-Library.List_Lexorder"
begin

text \<open>
  \<open>libevmasm/KnownState.{h,cpp}\<close>: what is known about the stack, the storage and the memory at
  an instruction, in terms of expression classes. The classes are shared between states
  (\<open>m_expressionClasses\<close> is a shared pointer), so they are a second component that every
  operation takes and returns. Operations are functions from both to a result and both, with the
  fuel of \<open>find\<close>; \<open>int\<close> heights are unbounded. Keccak-256 is the parameter \<open>keccak\<close>. The output
  function \<open>stream\<close> is not modelled.
\<close>

section \<open>State\<close>

record known_state =
  m_stackHeight :: int
  m_stackElements :: "(int \<times> nat) list"
  m_sequenceNumber :: nat
  m_storageContent :: "(nat \<times> nat) list"
  m_memoryContent :: "(nat \<times> nat) list"
  m_knownKeccak256Hashes :: "(nat list \<times> nat) list"
  m_tagUnions :: "(nat \<times> u256 set) list"

definition initialState :: known_state where
  "initialState = \<lparr>m_stackHeight = 0, m_stackElements = [], m_sequenceNumber = 1, m_storageContent = [],
     m_memoryContent = [], m_knownKeccak256Hashes = [], m_tagUnions = []\<rparr>"

datatype store_target = InvalidTarget | MemoryTarget | StorageTarget

record store_operation =
  so_target :: store_target
  so_slot :: nat
  so_sequenceNumber :: nat
  so_expression :: nat

definition noStore :: store_operation where
  "noStore = \<lparr>so_target = InvalidTarget, so_slot = noId, so_sequenceNumber = noId, so_expression = noId\<rparr>"

section \<open>Sequencing\<close>

type_synonym kstate = "known_state \<times> expression_classes"
type_synonym 'a known = "kstate \<Rightarrow> ('a \<times> kstate) fueled"

definition retK :: "'a \<Rightarrow> 'a known" where
  "retK x st = Some (Inr (x, st))"

definition bindK :: "'a known \<Rightarrow> ('a \<Rightarrow> 'b known) \<Rightarrow> 'b known" where
  "bindK m f st = bindF (m st) (\<lambda>(x, st'). f x st')"

definition getK :: "(known_state \<Rightarrow> 'a) \<Rightarrow> 'a known" where
  "getK f st = Some (Inr (f (fst st), st))"

definition modifyK :: "(known_state \<Rightarrow> known_state) \<Rightarrow> unit known" where
  "modifyK f st = Some (Inr ((), (f (fst st), snd st)))"

text \<open>A call of a member of the expression classes that changes them, and one that only reads.\<close>

definition classesK :: "(expression_classes \<Rightarrow> ('a \<times> expression_classes) fueled) \<Rightarrow> 'a known" where
  "classesK f st = bindF (f (snd st)) (\<lambda>(x, cls). Some (Inr (x, (fst st, cls))))"

definition readK :: "(expression_classes \<Rightarrow> 'a result) \<Rightarrow> 'a known" where
  "readK f st = bindF (Some (f (snd st))) (\<lambda>x. Some (Inr (x, st)))"

definition assertK :: "bool \<Rightarrow> exc \<Rightarrow> unit known" where
  "assertK b e st = bindF (Some (assertThrow b e)) (\<lambda>_. Some (Inr ((), st)))"

fun mapK :: "('a \<Rightarrow> 'b known) \<Rightarrow> 'a list \<Rightarrow> 'b list known" where
  "mapK f [] = retK []"
| "mapK f (x # xs) = bindK (f x) (\<lambda>y. bindK (mapK f xs) (\<lambda>ys. retK (y # ys)))"

lemma known_simps [simp]:
  "retK x st = Some (Inr (x, st))"
  "bindK m f st = bindF (m st) (\<lambda>(x, st'). f x st')"
  "getK g st = Some (Inr (g (fst st), st))"
  "modifyK h st = Some (Inr ((), (h (fst st), snd st)))"
  by (simp_all add: retK_def bindK_def getK_def modifyK_def)

section \<open>The stack\<close>

definition find_item :: "nat \<Rightarrow> assembly_item \<Rightarrow> nat list \<Rightarrow> nat \<Rightarrow> nat known" where
  "find_item n it arguments sequenceNumber =
     classesK (\<lambda>cls. find_class n cls it arguments sequenceNumber)"

definition setStackElement :: "int \<Rightarrow> nat \<Rightarrow> unit known" where
  "setStackElement h c = modifyK (\<lambda>ks. ks\<lparr>m_stackElements := map_put h c (m_stackElements ks)\<rparr>)"

definition stackElement :: "nat \<Rightarrow> int \<Rightarrow> source_location \<Rightarrow> nat known" where
  "stackElement n h loc =
     bindK (getK m_stackElements) (\<lambda>elements.
       case map_of elements h of
         Some c \<Rightarrow> retK c
       | None \<Rightarrow>
           bindK (find_item n (mkItem UndefinedItem (word_of_int h) loc) [] 0) (\<lambda>c.
           bindK (setStackElement h c) (\<lambda>_. retK c)))"

definition relativeStackElement :: "nat \<Rightarrow> int \<Rightarrow> source_location \<Rightarrow> nat known" where
  "relativeStackElement n offset loc =
     bindK (getK m_stackHeight) (\<lambda>h. stackElement n (h + offset) loc)"

definition swapStackElements :: "nat \<Rightarrow> int \<Rightarrow> int \<Rightarrow> source_location \<Rightarrow> unit known" where
  "swapStackElements n a b loc =
     bindK (assertK (a \<noteq> b) OptimizerException) (\<lambda>_.
     bindK (stackElement n a loc) (\<lambda>ca.
     bindK (stackElement n b loc) (\<lambda>cb.
     bindK (setStackElement a cb) (\<lambda>_. setStackElement b ca))))"

section \<open>Storage and memory\<close>

definition resetStorage :: "known_state \<Rightarrow> known_state" where
  "resetStorage ks = ks\<lparr>m_storageContent := []\<rparr>"

definition resetMemory :: "known_state \<Rightarrow> known_state" where
  "resetMemory ks = ks\<lparr>m_memoryContent := []\<rparr>"

definition resetStack :: "known_state \<Rightarrow> known_state" where
  "resetStack ks = ks\<lparr>m_stackElements := [], m_stackHeight := 0\<rparr>"

definition resetKnown :: "known_state \<Rightarrow> known_state" where
  "resetKnown ks = resetStack (resetMemory (resetStorage ks))"

definition incSequenceNumber :: "nat \<Rightarrow> unit known" where
  "incSequenceNumber k = modifyK (\<lambda>ks. ks\<lparr>m_sequenceNumber := m_sequenceNumber ks + k\<rparr>)"

text \<open>The loops that keep the entries a store cannot change.\<close>

fun keepEntries :: "(nat \<Rightarrow> nat \<Rightarrow> bool known) \<Rightarrow> (nat \<times> nat) list \<Rightarrow> (nat \<times> nat) list known" where
  "keepEntries keep [] = retK []"
| "keepEntries keep ((slot, v) # entries) =
     bindK (keep slot v) (\<lambda>k.
     bindK (keepEntries keep entries) (\<lambda>rest. retK (if k then (slot, v) # rest else rest)))"

definition storeInStorage :: "nat \<Rightarrow> nat \<Rightarrow> nat \<Rightarrow> source_location \<Rightarrow> store_operation known" where
  "storeInStorage n slot val loc =
     bindK (getK m_storageContent) (\<lambda>content.
       if map_of content slot = Some val then retK noStore
       else
         bindK (incSequenceNumber 1) (\<lambda>_.
         bindK (keepEntries (\<lambda>slot' val'.
             bindK (classesK (\<lambda>cls. knownToBeDifferent n cls slot' slot)) (\<lambda>d. retK (d \<or> val' = val))) content)
           (\<lambda>contents.
         bindK (modifyK (\<lambda>ks. ks\<lparr>m_storageContent := contents\<rparr>)) (\<lambda>_.
         bindK (getK m_sequenceNumber) (\<lambda>sq.
         bindK (find_item n (mkOp SSTORE loc) [slot, val] sq) (\<lambda>i.
         bindK (modifyK (\<lambda>ks. ks\<lparr>m_storageContent := map_put slot val (m_storageContent ks)\<rparr>)) (\<lambda>_.
         bindK (incSequenceNumber 1) (\<lambda>_.
           retK \<lparr>so_target = StorageTarget, so_slot = slot, so_sequenceNumber = sq, so_expression = i\<rparr>))))))))"

definition loadFromStorage :: "nat \<Rightarrow> nat \<Rightarrow> source_location \<Rightarrow> nat known" where
  "loadFromStorage n slot loc =
     bindK (getK m_storageContent) (\<lambda>content.
       case map_of content slot of
         Some c \<Rightarrow> retK c
       | None \<Rightarrow>
           bindK (getK m_sequenceNumber) (\<lambda>sq.
           bindK (find_item n (mkOp SLOAD loc) [slot] sq) (\<lambda>c.
           bindK (modifyK (\<lambda>ks. ks\<lparr>m_storageContent := map_put slot c (m_storageContent ks)\<rparr>)) (\<lambda>_.
             retK c))))"

definition storeInMemory :: "nat \<Rightarrow> nat \<Rightarrow> nat \<Rightarrow> source_location \<Rightarrow> store_operation known" where
  "storeInMemory n slot val loc =
     bindK (getK m_memoryContent) (\<lambda>content.
       if map_of content slot = Some val then retK noStore
       else
         bindK (incSequenceNumber 1) (\<lambda>_.
         bindK (keepEntries (\<lambda>slot' val'. classesK (\<lambda>cls. knownToBeDifferentBy32 n cls slot' slot)) content)
           (\<lambda>contents.
         bindK (modifyK (\<lambda>ks. ks\<lparr>m_memoryContent := contents\<rparr>)) (\<lambda>_.
         bindK (getK m_sequenceNumber) (\<lambda>sq.
         bindK (find_item n (mkOp MSTORE loc) [slot, val] sq) (\<lambda>i.
         bindK (modifyK (\<lambda>ks. ks\<lparr>m_memoryContent := map_put slot val (m_memoryContent ks)\<rparr>)) (\<lambda>_.
         bindK (incSequenceNumber 1) (\<lambda>_.
           retK \<lparr>so_target = MemoryTarget, so_slot = slot, so_sequenceNumber = sq, so_expression = i\<rparr>))))))))"

definition loadFromMemory :: "nat \<Rightarrow> nat \<Rightarrow> source_location \<Rightarrow> nat known" where
  "loadFromMemory n slot loc =
     bindK (getK m_memoryContent) (\<lambda>content.
       case map_of content slot of
         Some c \<Rightarrow> retK c
       | None \<Rightarrow>
           bindK (getK m_sequenceNumber) (\<lambda>sq.
           bindK (find_item n (mkOp MLOAD loc) [slot] sq) (\<lambda>c.
           bindK (modifyK (\<lambda>ks. ks\<lparr>m_memoryContent := map_put slot c (m_memoryContent ks)\<rparr>)) (\<lambda>_.
             retK c))))"

text \<open>The offsets \<open>0, 32, ...\<close> below a length of at most 128.\<close>

definition wordOffsets :: "u256 \<Rightarrow> u256 list" where
  "wordOffsets l = filter (\<lambda>i. i < l) [0, 32, 64, 96]"

definition applyKeccak256 :: "(bytes \<Rightarrow> u256) \<Rightarrow> nat \<Rightarrow> nat \<Rightarrow> nat \<Rightarrow> source_location \<Rightarrow> nat known" where
  "applyKeccak256 keccak n start len loc =
     (let keccak256Item = mkOp KECCAK256 loc in
      bindK (readK (\<lambda>cls. knownConstant cls len)) (\<lambda>l.
        case l of
          None \<Rightarrow> bindK (getK m_sequenceNumber) (\<lambda>sq. find_item n keccak256Item [start, len] sq)
        | Some l \<Rightarrow>
            if l > 128 then bindK (getK m_sequenceNumber) (\<lambda>sq. find_item n keccak256Item [start, len] sq)
            else
              bindK (mapK (\<lambda>i.
                  bindK (find_item n (mkPush i noLocation) [] 0) (\<lambda>ic.
                  bindK (find_item n (mkOp ADD loc) [start, ic] 0) (\<lambda>slot.
                    loadFromMemory n slot loc))) (wordOffsets l)) (\<lambda>arguments.
              bindK (getK m_knownKeccak256Hashes) (\<lambda>hashes.
                case map_of hashes arguments of
                  Some v \<Rightarrow> retK v
                | None \<Rightarrow>
                    bindK (mapK (\<lambda>a. readK (\<lambda>cls. knownConstant cls a)) arguments) (\<lambda>constants.
                    bindK (if \<forall>c \<in> set constants. c \<noteq> None
                        then
                          let dat = concat (map (\<lambda>c. toBigEndian (the c)) constants)
                          in find_item n (mkPush (keccak (take (unat l) dat)) loc) [] 0
                        else bindK (getK m_sequenceNumber) (\<lambda>sq. find_item n keccak256Item [start, len] sq))
                      (\<lambda>v.
                    bindK (modifyK (\<lambda>ks. ks\<lparr>m_knownKeccak256Hashes :=
                        map_put arguments v (m_knownKeccak256Hashes ks)\<rparr>)) (\<lambda>_. retK v)))))))"

section \<open>Feeding items\<close>

definition dropAbove :: "int \<Rightarrow> unit known" where
  "dropAbove h = modifyK (\<lambda>ks. ks\<lparr>m_stackElements := filter (\<lambda>(k, c). k \<le> h) (m_stackElements ks)\<rparr>)"

text \<open>The \<open>default\<close> case of the \<open>switch\<close>.\<close>

definition feedOther :: "nat \<Rightarrow> assembly_item \<Rightarrow> nat list \<Rightarrow> unit known" where
  "feedOther n it arguments =
     (let i = m_instruction it;
          invMem = invalidatesMemory i;
          invStor = invalidatesStorage i;
          row = instructionInfo i in
      bindK (modifyK (\<lambda>ks. if invMem then resetMemory ks else ks)) (\<lambda>_.
      bindK (modifyK (\<lambda>ks. if invStor then resetStorage ks else ks)) (\<lambda>_.
      bindK (if invMem \<or> invStor then incSequenceNumber 2 else retK ()) (\<lambda>_.
      bindK (assertK (ii_ret row \<le> 1) InvalidDeposit) (\<lambda>_.
        if ii_ret row = 1
        then bindK (getK m_stackHeight) (\<lambda>h.
          bindK (find_item n it arguments 0) (\<lambda>c. setStackElement (h + item_deposit it) c))
        else retK ())))))"

definition feedOperation :: "(bytes \<Rightarrow> u256) \<Rightarrow> nat \<Rightarrow> assembly_item \<Rightarrow> store_operation known" where
  "feedOperation keccak n it =
     (let i = m_instruction it; loc = m_location it in
      bindK (getK m_stackHeight) (\<lambda>h.
        if item_isDup it then
          bindK (stackElement n (h - uint i + uint DUP1) loc) (\<lambda>c.
          bindK (setStackElement (h + 1) c) (\<lambda>_. retK noStore))
        else if item_isSwap it then
          bindK (swapStackElements n h (h - 1 - uint i + uint SWAP1) loc) (\<lambda>_. retK noStore)
        else if i \<noteq> POP then
          bindK (mapK (\<lambda>k. stackElement n (h - int k) loc) [0..<ii_args (instructionInfo i)]) (\<lambda>arguments.
            if i = SSTORE then storeInStorage n (arguments ! 0) (arguments ! 1) loc
            else if i = SLOAD then
              bindK (loadFromStorage n (arguments ! 0) loc) (\<lambda>c.
              bindK (setStackElement (h + item_deposit it) c) (\<lambda>_. retK noStore))
            else if i = MSTORE then storeInMemory n (arguments ! 0) (arguments ! 1) loc
            else if i = MLOAD then
              bindK (loadFromMemory n (arguments ! 0) loc) (\<lambda>c.
              bindK (setStackElement (h + item_deposit it) c) (\<lambda>_. retK noStore))
            else if i = KECCAK256 then
              bindK (applyKeccak256 keccak n (arguments ! 0) (arguments ! 1) loc) (\<lambda>c.
              bindK (setStackElement (h + item_deposit it) c) (\<lambda>_. retK noStore))
            else bindK (feedOther n it arguments) (\<lambda>_. retK noStore))
        else retK noStore))"

text \<open>The operation, then the end of the branch: elements above the new height are forgotten.\<close>

definition feedOp :: "(bytes \<Rightarrow> u256) \<Rightarrow> nat \<Rightarrow> assembly_item \<Rightarrow> store_operation known" where
  "feedOp keccak n it =
     bindK (feedOperation keccak n it) (\<lambda>op.
     bindK (getK m_stackHeight) (\<lambda>h.
     bindK (dropAbove (h + item_deposit it)) (\<lambda>_.
     bindK (modifyK (\<lambda>ks. ks\<lparr>m_stackHeight := m_stackHeight ks + item_deposit it\<rparr>)) (\<lambda>_. retK op))))"

definition feedPush :: "nat \<Rightarrow> assembly_item \<Rightarrow> store_operation known" where
  "feedPush n it =
     bindK (assertK (item_deposit it = 1) InvalidDeposit) (\<lambda>_.
     bindK (modifyK (\<lambda>ks. ks\<lparr>m_stackHeight := m_stackHeight ks + 1\<rparr>)) (\<lambda>_.
     bindK (getK m_stackHeight) (\<lambda>h.
     bindK (case m_pushedValue it of
              Some v \<Rightarrow> find_item n (mkPush v noLocation) [] 0
            | None \<Rightarrow> find_item n it [] 0) (\<lambda>c.
     bindK (setStackElement h c) (\<lambda>_. retK noStore)))))"

definition feedItem :: "(bytes \<Rightarrow> u256) \<Rightarrow> nat \<Rightarrow> assembly_item \<Rightarrow> store_operation known" where
  "feedItem keccak n it =
     (if m_type it = Tag then retK noStore
      else if m_type it = AssignImmutable then feedOp keccak n (mkOp POP noLocation)
      else if m_type it \<noteq> Operation then feedPush n it
      else feedOp keccak n it)"

section \<open>Common knowledge\<close>

definition intersect :: "('k \<times> 'v) list \<Rightarrow> ('k \<times> 'v) list \<Rightarrow> ('k \<times> 'v) list" where
  "intersect this other = filter (\<lambda>(k, v). map_of other k = Some v) this"

definition tagsInExpression :: "nat \<Rightarrow> u256 set known" where
  "tagsInExpression i =
     bindK (getK m_tagUnions) (\<lambda>unions.
       case map_of unions i of
         Some tags \<Rightarrow> retK tags
       | None \<Rightarrow>
           bindK (readK (\<lambda>cls. representative (m_representatives cls) i)) (\<lambda>e.
             retK (case e_item e of
                     Some it \<Rightarrow> if m_type it = PushTag then {m_data it} else {}
                   | None \<Rightarrow> {})))"

definition tagUnion :: "u256 set \<Rightarrow> nat known" where
  "tagUnion tags =
     bindK (getK m_tagUnions) (\<lambda>unions.
       case List.find (\<lambda>(i, ts). ts = tags) unions of
         Some (i, _) \<Rightarrow> retK i
       | None \<Rightarrow>
           bindK (classesK (\<lambda>cls. Some (newClass cls noLocation))) (\<lambda>i.
           bindK (modifyK (\<lambda>ks. ks\<lparr>m_tagUnions := m_tagUnions ks @ [(i, tags)]\<rparr>)) (\<lambda>_. retK i)))"

text \<open>The loop over the stack elements; \<open>elems\<close> are those of the other state.\<close>

fun reduceStack :: "int \<Rightarrow> (int \<times> nat) list \<Rightarrow> (int \<times> nat) list \<Rightarrow> (int \<times> nat) list known" where
  "reduceStack stackDiff elems [] = retK []"
| "reduceStack stackDiff elems ((h, c) # rest) =
     (case map_of elems (h - stackDiff) of
        None \<Rightarrow> reduceStack stackDiff elems rest
      | Some c' \<Rightarrow>
          if c = c' then bindK (reduceStack stackDiff elems rest) (\<lambda>r. retK ((h, c) # r))
          else
            bindK (tagsInExpression c) (\<lambda>theseTags.
            bindK (tagsInExpression c') (\<lambda>otherTags.
              if theseTags \<noteq> {} \<and> otherTags \<noteq> {}
              then bindK (tagUnion (theseTags \<union> otherTags)) (\<lambda>u.
                bindK (reduceStack stackDiff elems rest) (\<lambda>r. retK ((h, u) # r)))
              else reduceStack stackDiff elems rest)))"

definition reduceToCommonKnowledge :: "known_state \<Rightarrow> bool \<Rightarrow> unit known" where
  "reduceToCommonKnowledge other combineSequenceNumbers =
     bindK (getK (\<lambda>ks. ks)) (\<lambda>this.
       let stackDiff = m_stackHeight this - m_stackHeight other in
       bindK (reduceStack stackDiff (m_stackElements other) (m_stackElements this)) (\<lambda>elements.
         modifyK (\<lambda>ks.
           let shifted = m_stackHeight this > m_stackHeight other in
           ks\<lparr>m_stackElements := (if shifted then map (\<lambda>(h, c). (h - stackDiff, c)) elements else elements),
              m_stackHeight := (if shifted then m_stackHeight other else m_stackHeight this),
              m_storageContent := intersect (m_storageContent this) (m_storageContent other),
              m_memoryContent := intersect (m_memoryContent this) (m_memoryContent other),
              m_sequenceNumber := (if combineSequenceNumbers
                then max (m_sequenceNumber this) (m_sequenceNumber other) else m_sequenceNumber this)\<rparr>)))"

definition known_eq :: "known_state \<Rightarrow> known_state \<Rightarrow> bool" where
  "known_eq this other =
     (if m_storageContent this \<noteq> m_storageContent other \<or> m_memoryContent this \<noteq> m_memoryContent other
      then False
      else
        let stackDiff = m_stackHeight this - m_stackHeight other
        in map (\<lambda>(h, c). (h - stackDiff, c)) (m_stackElements this) = m_stackElements other)"

definition clearTagUnions :: "known_state \<Rightarrow> known_state" where
  "clearTagUnions ks =
     ks\<lparr>m_stackElements := filter (\<lambda>(h, c). map_of (m_tagUnions ks) c = None) (m_stackElements ks)\<rparr>"

end
