(* ===== verification/ExpressionMeaning.thy ===== *)
theory ExpressionMeaning
  imports ExpressionClasses "HOL-Library.Multiset"
begin

text \<open>
  Soundness of the expression classes. What an item means on given argument values is an
  interface (\<open>expression_meaning\<close>): a relation between an item, the values of its arguments, the
  sequence number and a value. Classes are sound for a valuation when every expression means the
  value of its class. The operations of \<open>ExpressionClasses\<close> extend a sound valuation and give an
  expression the class of its value; no known class changes its value.
\<close>

section \<open>Templates of rules\<close>

definition action_opcodes :: "instruction set" where
  "action_opcodes =
     (\<Union>r \<in> set (rulesFor None). \<Union>b. set (pattern_opcodes (sr_action r (group_data b))))"

text \<open>The opcodes that the operations of the classes and their clients apply themselves.\<close>

definition query_opcodes :: "instruction set" where
  "query_opcodes = {SUB, ISZERO, ADD}"

fun template_ok :: "nat \<Rightarrow> expression_template \<Rightarrow> bool" where
  "template_ok n (Template hasId i it as) \<longleftrightarrow>
     (if hasId then i < n
      else if m_type it = Operation
      then m_instruction it \<in> action_opcodes \<and> length as = ii_args (instructionInfo (m_instruction it)) \<and>
        (\<forall>a \<in> set as. template_ok n a)
      else m_type it = Push \<and> as = [])"

lemma template_ok_mono: "template_ok n t \<Longrightarrow> n \<le> m \<Longrightarrow> template_ok m t"
  by (induction t) (auto split: if_splits)

lemma template_built:
  "ExpressionTemplate gr loc p = Inr t \<Longrightarrow> pattern_wf p \<Longrightarrow> set (pattern_opcodes p) \<subseteq> action_opcodes \<Longrightarrow>
   (\<forall>g e. gr g = Some e \<longrightarrow> e_id e < n) \<Longrightarrow> template_ok n t"
  "ExpressionTemplates gr loc ps = Inr ts \<Longrightarrow> \<forall>p \<in> set ps. pattern_wf p \<Longrightarrow>
   \<forall>p \<in> set ps. set (pattern_opcodes p) \<subseteq> action_opcodes \<Longrightarrow>
   (\<forall>g e. gr g = Some e \<longrightarrow> e_id e < n) \<Longrightarrow> length ts = length ps \<and> (\<forall>t \<in> set ts. template_ok n t)"
proof (induction gr loc p and gr loc ps arbitrary: t and ts
    rule: ExpressionTemplate_ExpressionTemplates.induct)
  case (1 gr loc ty m i v args g)
  show ?case
  proof (cases "g = 0")
    case False
    then show ?thesis using 1
      by (auto simp: ExpressionTemplate.simps match_id_def bindR_Inr_iff split: option.splits)
  next
    case True
    show ?thesis
    proof (cases "ty = Operation")
      case op: True
      then have wf: "length args = ii_args (instructionInfo i)" "\<forall>p \<in> set args. pattern_wf p"
        using 1 True by (auto simp: pattern_wf.simps)
      have ops: "i \<in> action_opcodes" "\<forall>p \<in> set args. set (pattern_opcodes p) \<subseteq> action_opcodes"
        using 1 op by (auto simp: pattern_opcodes.simps)
      obtain as where "ExpressionTemplates gr loc args = Inr as" "t = Template False (2 ^ 32 - 1) (mkOp i loc) as"
        using "1.prems"(1) True op by (auto simp: ExpressionTemplate.simps toAssemblyItem_def bindR_Inr_iff)
      then show ?thesis using "1.IH"(2) [OF _ _ _ wf(2) ops(2) "1.prems"(4)] wf(1) ops(1) True op
        by (auto simp: toAssemblyItem_def mkOp_def)
    next
      case no: False
      then have "ty = Push" "args = []" using 1 True by (auto simp: pattern_wf.simps)
      then show ?thesis using "1.prems"(1) True
        by (auto simp: ExpressionTemplate.simps toAssemblyItem_def bindR_Inr_iff mkItem_def)
    qed
  qed
next
  case (3 gr loc p ps)
  then show ?case by (fastforce simp: bindR_Inr_iff)
qed (auto simp: bindR_Inr_iff)

lemma matches_representatives:
  assumes ids: "\<forall>k < length cls. e_id (cls ! k) = k"
  shows "matches cls p e gr = Inr (ok, gr') \<Longrightarrow> p_matchGroup p = 0 \<or> e_id e < length cls \<Longrightarrow>
     \<forall>g x. gr g = Some x \<longrightarrow> e_id x < length cls \<Longrightarrow> \<forall>g x. gr' g = Some x \<longrightarrow> e_id x < length cls"
proof (induction p arbitrary: e gr ok gr')
  case (Pattern t m i v args g)
  define gr1 where "gr1 = (if g = 0 then gr else case gr g of None \<Rightarrow> gr(g \<mapsto> e) | Some e' \<Rightarrow> gr)"
  have gr1: "\<forall>g x. gr1 g = Some x \<longrightarrow> e_id x < length cls"
    using Pattern.prems by (auto simp: gr1_def split: option.splits)
  have all: "\<forall>g x. gr2 g = Some x \<longrightarrow> e_id x < length cls"
    if "matches_all cls ps as gr1 = Inr (ok, gr2)" "set ps \<subseteq> set args"
      "\<forall>g x. gr1 g = Some x \<longrightarrow> e_id x < length cls" for ps as gr1 ok gr2
    using that
  proof (induction ps arbitrary: as gr1)
    case (Cons p ps)
    then obtain a as' where [simp]: "as = a # as'" by (cases as) auto
    from Cons.prems(1) obtain ok1 gr3 where m: "a < length cls" "matches cls p (cls ! a) gr1 = Inr (ok1, gr3)"
        "ok1 \<longrightarrow> matches_all cls ps as' gr3 = Inr (ok, gr2)" "\<not> ok1 \<longrightarrow> gr2 = gr3"
      by (auto simp: bindR_Inr_iff representative_def split: if_splits)
    have "\<forall>g x. gr3 g = Some x \<longrightarrow> e_id x < length cls"
      using Pattern.IH [OF _ m(2)] m(1) ids Cons.prems by simp
    then show ?case using Cons.IH [of as' gr3] Cons.prems(2) m by (cases ok1) auto
  qed simp
  have "gr' = gr \<or> gr' = gr1 \<or> (\<exists>ok. matches_all cls args (e_arguments e) gr1 = Inr (ok, gr'))"
    using Pattern.prems(1) unfolding gr1_def
    by (auto simp: matches.simps bindR_Inr_iff Let_def split: if_splits option.splits)
  then show ?case using all [OF _ subset_refl gr1] gr1 Pattern.prems(3) by blast
qed

lemma findFirstMatch_groups:
  assumes "Rules = Inr tbl" "findFirstMatch tbl cls e = Inr (Some (r, gr))" "\<forall>k < length cls. e_id (cls ! k) = k"
  shows "\<forall>g x. gr g = Some x \<longrightarrow> e_id x < length cls"
proof -
  note r = findFirstMatch_Some [OF assms(1,2)]
  show ?thesis
    by (rule matches_representatives [OF assms(3) r(2)]) (simp_all add: groups_bound(3) [OF r(1)])
qed

section \<open>The meaning of items\<close>

definition expression_sound ::
  "(assembly_item \<Rightarrow> u256 list \<Rightarrow> nat \<Rightarrow> u256 \<Rightarrow> bool) \<Rightarrow> (nat \<Rightarrow> u256) \<Rightarrow> nat \<Rightarrow> expression \<Rightarrow> u256 \<Rightarrow> bool" where
  "expression_sound meaning val n e v \<longleftrightarrow>
     (\<forall>a \<in> set (e_arguments e). a < n) \<and>
     (\<exists>it. e_item e = Some it \<and> meaning it (map val (e_arguments e)) (e_sequenceNumber e) v)"

definition classes_sound ::
  "(assembly_item \<Rightarrow> u256 list \<Rightarrow> nat \<Rightarrow> u256 \<Rightarrow> bool) \<Rightarrow> (nat \<Rightarrow> u256) \<Rightarrow> expression_classes \<Rightarrow> bool" where
  "classes_sound meaning val cls \<longleftrightarrow>
     (\<forall>k < length (m_representatives cls). e_id (m_representatives cls ! k) = k) \<and>
     (\<forall>e \<in> set (m_representatives cls) \<union> set (m_expressions cls).
        e_id e < length (m_representatives cls) \<and>
        expression_sound meaning val (length (m_representatives cls)) e (val (e_id e)))"

text \<open>A valuation extends another one on the first \<open>n\<close> classes.\<close>

definition extends :: "nat \<Rightarrow> (nat \<Rightarrow> 'a) \<Rightarrow> (nat \<Rightarrow> 'a) \<Rightarrow> bool" where
  "extends n val val' \<longleftrightarrow> (\<forall>k < n. val' k = val k)"

lemma extends_refl [simp]: "extends n val val"
  by (simp add: extends_def)

lemma extends_trans: "extends n val val' \<Longrightarrow> extends m val' val'' \<Longrightarrow> n \<le> m \<Longrightarrow> extends n val val''"
  by (simp add: extends_def)

lemma extends_map: "extends n val val' \<Longrightarrow> \<forall>a \<in> set as. a < n \<Longrightarrow> map val' as = map val as"
  by (simp add: extends_def)

locale expression_meaning = opcode_values ev for ev +
  fixes meaning :: "assembly_item \<Rightarrow> u256 list \<Rightarrow> nat \<Rightarrow> u256 \<Rightarrow> bool"
  assumes unique_value: "isDeterministic it \<Longrightarrow> meaning it vs sq v \<Longrightarrow> meaning it vs sq w \<Longrightarrow> v = w"
    and same_item: "item_eq it it' \<Longrightarrow> meaning it vs sq v \<Longrightarrow> meaning it' vs sq v"
    and pushed_constant: "m_type it = Push \<Longrightarrow> meaning it vs sq v \<Longrightarrow> v = m_data it"
    and pushed: "m_type it = Push \<Longrightarrow> meaning it [] 0 (m_data it)"
    and operation: "m_type it = Operation \<Longrightarrow> m_instruction it \<in> rule_opcodes \<Longrightarrow> meaning it vs sq v \<Longrightarrow>
      length vs = ii_args (instructionInfo (m_instruction it)) \<and> v = ev (m_instruction it) vs"
    and computed: "i \<in> action_opcodes \<union> query_opcodes \<Longrightarrow> length vs = ii_args (instructionInfo i) \<Longrightarrow>
      meaning (mkOp i loc) vs 0 (ev i vs)"
    and commutes: "isCommutativeOperation it \<Longrightarrow> meaning it vs sq v \<Longrightarrow> mset vs' = mset vs \<Longrightarrow>
      meaning it vs' sq v"
begin

lemma expression_sound_extends:
  assumes "expression_sound meaning val n e v" "extends n val val'" "n \<le> m"
  shows "expression_sound meaning val' m e v"
proof -
  have "map val' (e_arguments e) = map val (e_arguments e)"
    using assms extends_map [of n val val' "e_arguments e"] by (auto simp: expression_sound_def)
  then show ?thesis using assms unfolding expression_sound_def by (metis less_le_trans)
qed

lemma expression_sound_item_value:
  assumes "expression_sound meaning val n e v"
  shows "item_value_ok ev val e v"
proof -
  obtain it where it: "e_item e = Some it" "meaning it (map val (e_arguments e)) (e_sequenceNumber e) v"
    using assms by (auto simp: expression_sound_def)
  then show ?thesis using pushed_constant [OF _ it(2)] operation [OF _ _ it(2)]
    by (simp add: item_value_ok_def)
qed

lemma classes_sound_representative:
  assumes "classes_sound meaning val cls" "k < length (m_representatives cls)"
  shows "e_id (m_representatives cls ! k) = k"
    and "expression_sound meaning val (length (m_representatives cls)) (m_representatives cls ! k) (val k)"
proof -
  show i: "e_id (m_representatives cls ! k) = k" using assms by (simp add: classes_sound_def)
  have "m_representatives cls ! k \<in> set (m_representatives cls)" using assms(2) by simp
  then show "expression_sound meaning val (length (m_representatives cls)) (m_representatives cls ! k) (val k)"
    using assms(1) i by (metis Un_iff classes_sound_def)
qed

lemma classes_sound_consistent: "classes_sound meaning val cls \<Longrightarrow> consistent ev val (m_representatives cls)"
  unfolding consistent_def
  by (intro allI impI conjI classes_sound_representative(1)
      expression_sound_item_value [OF classes_sound_representative(2)])

lemma commonExpression_sound:
  assumes "meaning it (map val arguments) sq v" "\<forall>a \<in> set arguments. a < n"
  shows "expression_sound meaning val n (commonExpression i it arguments sq) v"
proof -
  have "mset (map val (sort arguments)) = mset (map val arguments)" by simp
  then show ?thesis using assms commutes [OF _ assms(1)]
    by (auto simp: expression_sound_def commonExpression_def)
qed

text \<open>A new expression at the end of \<open>find\<close>.\<close>

lemma addExpression_sound:
  assumes sound: "classes_sound meaning val cls"
    and e: "expression_sound meaning val (length (m_representatives cls)) e v"
    and i: "\<forall>k. i = Some k \<longrightarrow> k < length (m_representatives cls) \<longrightarrow> val k = v"
    and add: "addExpression e i cls = Inr (k, cls')"
  shows "\<exists>val'. extends (length (m_representatives cls)) val val' \<and> classes_sound meaning val' cls' \<and>
    k < length (m_representatives cls') \<and> val' k = v"
proof -
  let ?n = "length (m_representatives cls)"
  let ?known = "case i of Some k \<Rightarrow> k < ?n | None \<Rightarrow> False"
  let ?k = "if ?known then the i else ?n"
  let ?val = "if ?known then val else val(?n := v)"
  let ?e = "e\<lparr>e_id := ?k\<rparr>"
  obtain es where es: "set_insert ?e (m_expressions cls) = Inr es" "k = ?k"
      "cls' = \<lparr>m_representatives = (if ?known then m_representatives cls else m_representatives cls @ [?e]),
               m_expressions = es\<rparr>"
    using add by (auto simp: addExpression_def Let_def bindR_Inr_iff split: if_splits)
  let ?m = "length (m_representatives cls')"
  have m: "?n \<le> ?m" "?k < ?m" using es(3) by (auto split: option.splits)
  have ext: "extends ?n val ?val" by (simp add: extends_def)
  have v: "?val ?k = v" using i by (auto split: option.splits)
  have "expression_sound meaning ?val ?m e v" by (rule expression_sound_extends [OF e ext m(1)])
  then have new: "expression_sound meaning ?val ?m ?e (?val ?k)"
    unfolding v by (simp add: expression_sound_def)
  have old: "e_id x < ?m \<and> expression_sound meaning ?val ?m x (?val (e_id x))"
    if "x \<in> set (m_representatives cls) \<union> set (m_expressions cls)" for x
  proof -
    have x: "e_id x < ?n" "expression_sound meaning val ?n x (val (e_id x))"
      using sound that by (auto simp: classes_sound_def)
    then have "?val (e_id x) = val (e_id x)" by simp
    then show ?thesis using expression_sound_extends [OF x(2) ext m(1)] x(1) m(1) by simp
  qed
  have "e_id (m_representatives cls' ! j) = j" if "j < ?m" for j
    using that sound es(3) by (auto simp: classes_sound_def nth_append less_Suc_eq)
  moreover have "set (m_representatives cls') \<union> set (m_expressions cls') \<subseteq>
      insert ?e (set (m_representatives cls) \<union> set (m_expressions cls))"
    using set_insert_set [OF es(1)] es(3) by auto
  ultimately have "classes_sound meaning ?val cls'"
    using old new m(2) unfolding classes_sound_def by fastforce
  then show ?thesis using ext v m es(2) by blast
qed

lemma known_expression:
  assumes sound: "classes_sound meaning val cls" and it: "isDeterministic it"
    and found: "set_find (commonExpression noId it arguments sq) (m_expressions cls) = Inr (Some e')"
    and args: "\<forall>a \<in> set arguments. a < length (m_representatives cls)"
    and v: "meaning it (map val arguments) sq v"
  shows "e_id e' < length (m_representatives cls) \<and> val (e_id e') = v"
proof -
  let ?n = "length (m_representatives cls)"
  note e' = set_find_key [OF found]
  have s: "e_id e' < ?n" "expression_sound meaning val ?n e' (val (e_id e'))"
    using sound e' by (auto simp: classes_sound_def)
  have "expression_sound meaning val ?n (commonExpression noId it arguments sq) v"
    by (rule commonExpression_sound [OF v args])
  then have "meaning it (map val (e_arguments e')) (e_sequenceNumber e') v"
    using e' by (auto simp: expression_sound_def same_key_def commonExpression_def)
  moreover have "meaning it (map val (e_arguments e')) (e_sequenceNumber e') (val (e_id e'))"
    using s(2) e' by (auto simp: expression_sound_def same_key_def commonExpression_def intro: same_item
        simp: item_eq_def split: if_splits)
  ultimately show ?thesis using unique_value [OF it] s(1) by blast
qed

text \<open>What \<open>find\<close> guarantees with the given fuel.\<close>

definition find_ok :: "nat \<Rightarrow> bool" where
  "find_ok n \<longleftrightarrow>
     (\<forall>cls it arguments sq i cls' val v.
        find_class n cls it arguments sq = Some (Inr (i, cls')) \<longrightarrow>
        classes_sound meaning val cls \<longrightarrow>
        (\<forall>a \<in> set arguments. a < length (m_representatives cls)) \<longrightarrow>
        meaning it (map val arguments) sq v \<longrightarrow>
        (\<exists>val'. extends (length (m_representatives cls)) val val' \<and> classes_sound meaning val' cls' \<and>
           i < length (m_representatives cls') \<and> val' i = v))"

lemma template_value_extends:
  "template_ok n t \<Longrightarrow> extends n val val' \<Longrightarrow> template_value ev val' t = template_value ev val t"
proof (induction t)
  case (Template hasId i it as)
  show ?case
  proof (cases "hasId \<or> m_type it \<noteq> Operation")
    case True
    then show ?thesis using Template.prems by (auto simp: extends_def split: if_splits)
  next
    case False
    then have "map (template_value ev val') as = map (template_value ev val) as"
      using Template by auto
    then show ?thesis using False by (simp del: map_eq_conv)
  qed
qed

text \<open>Rebuilding a template gives the class of its value.\<close>

lemma rebuild_sound:
  assumes find: "find_ok n"
  shows "rebuildExpression n cls t = Some (Inr (i, cls')) \<Longrightarrow>
    classes_sound meaning val cls \<Longrightarrow> template_ok (length (m_representatives cls)) t \<Longrightarrow>
    \<exists>val'. extends (length (m_representatives cls)) val val' \<and> classes_sound meaning val' cls' \<and>
      i < length (m_representatives cls') \<and> val' i = template_value ev val t"
proof (induction t arbitrary: cls i cls' val)
  case (Template hasId k it ts)
  have list: "\<exists>val'. extends (length (m_representatives cls)) val val' \<and> classes_sound meaning val' cls1 \<and>
      (\<forall>i \<in> set ids. i < length (m_representatives cls1)) \<and>
      map val' ids = map (template_value ev val) ts1"
    if "rebuildExpressions n cls ts1 = Some (Inr (ids, cls1))" "set ts1 \<subseteq> set ts"
      "classes_sound meaning val cls"
      "\<forall>t \<in> set ts1. template_ok (length (m_representatives cls)) t" for ts1 ids cls cls1 val
    using that
  proof (induction ts1 arbitrary: cls ids val)
    case Nil
    then show ?case by (auto simp: extends_def)
  next
    case (Cons t ts1)
    let ?n = "length (m_representatives cls)"
    obtain j cls2 js where r: "rebuildExpression n cls t = Some (Inr (j, cls2))"
        "rebuildExpressions n cls2 ts1 = Some (Inr (js, cls1))" "ids = j # js"
      using Cons.prems(1) by (auto simp: bindF_Inr_iff)
    note m = rebuild_mono [OF find_class_mono r(1)] rebuildExpressions_mono [OF r(2)]
    have t: "t \<in> set ts" "template_ok ?n t" using Cons.prems by auto
    obtain val1 where v1: "extends ?n val val1" "classes_sound meaning val1 cls2"
        "j < length (m_representatives cls2)" "val1 j = template_value ev val t"
      using Template.IH [OF t(1) r(1) Cons.prems(3) t(2)] by blast
    obtain val2 where v2: "extends (length (m_representatives cls2)) val1 val2" "classes_sound meaning val2 cls1"
        "\<forall>i \<in> set js. i < length (m_representatives cls1)" "map val2 js = map (template_value ev val1) ts1"
      using Cons.IH [OF r(2) _ v1(2)] Cons.prems(2,4) m template_ok_mono by force
    have "map (template_value ev val1) ts1 = map (template_value ev val) ts1"
      using Cons.prems(4) template_value_extends [OF _ v1(1)] by simp
    moreover have "val2 j = template_value ev val t" using v1(3,4) v2(1) by (simp add: extends_def)
    ultimately show ?case
      using extends_trans [OF v1(1) v2(1) m(1)] v2 v1(3) m(2) r(3) by (intro exI [of _ val2]) auto
  qed
  show ?case
  proof (cases hasId)
    case True
    then show ?thesis using Template.prems by (auto simp: extends_def)
  next
    case False
    obtain ids cls1 where r: "rebuildExpressions n cls ts = Some (Inr (ids, cls1))"
        "find_class n cls1 it ids 0 = Some (Inr (i, cls'))"
      using Template.prems(1) False by (auto simp: bindF_Inr_iff)
    note m = rebuildExpressions_mono [OF r(1)] find_class_mono [OF r(2)]
    have ok: "\<forall>t \<in> set ts. template_ok (length (m_representatives cls)) t"
      using Template.prems(3) False by (auto split: if_splits)
    obtain val1 where v1: "extends (length (m_representatives cls)) val val1" "classes_sound meaning val1 cls1"
        "\<forall>i \<in> set ids. i < length (m_representatives cls1)" "map val1 ids = map (template_value ev val) ts"
      using list [OF r(1) subset_refl Template.prems(2) ok] by auto
    have "meaning it (map val1 ids) 0 (template_value ev val (Template hasId k it ts))"
    proof (cases "m_type it = Operation")
      case True
      then have "meaning (mkOp (m_instruction it) noLocation) (map val1 ids) 0 (ev (m_instruction it) (map val1 ids))"
        using Template.prems(3) False v1(4) by (intro computed) (auto simp flip: length_map [of val1 ids])
      moreover have "item_eq (mkOp (m_instruction it) noLocation) it" using True by (simp add: item_eq_def mkOp_def)
      ultimately show ?thesis using True False same_item v1(4) by simp
    next
      case no: False
      then have "m_type it = Push" "ids = []"
        using Template.prems(3) False v1(4) by (auto split: if_splits)
      then show ?thesis using False pushed by simp
    qed
    then show ?thesis
      using find r(2) v1 extends_trans [OF v1(1) _ m(1)] unfolding find_ok_def by meson
  qed
qed

lemma find_sound: "find_ok n"
proof (induction n)
  case 0
  then show ?case by (simp add: find_ok_def find_class.simps)
next
  case (Suc n)
  show ?case unfolding find_ok_def
  proof (intro allI impI)
    fix cls it arguments sq i cls' val v
    assume f: "find_class (Suc n) cls it arguments sq = Some (Inr (i, cls'))"
      and sound: "classes_sound meaning val cls"
      and args: "\<forall>a \<in> set arguments. a < length (m_representatives cls)"
      and v: "meaning it (map val arguments) sq v"
    let ?n = "length (m_representatives cls)" and ?e = "commonExpression noId it arguments sq"
    from f show "\<exists>val'. extends ?n val val' \<and> classes_sound meaning val' cls' \<and>
        i < length (m_representatives cls') \<and> val' i = v"
    proof (cases rule: find_class_Inr)
      case (known e')
      then show ?thesis using known_expression [OF sound known(1,4) args v] sound by (auto simp: extends_def)
    next
      case (added m j cls1)
      have e: "expression_sound meaning val ?n ?e v" by (rule commonExpression_sound [OF v args])
      have "\<exists>val1. extends ?n val val1 \<and> classes_sound meaning val1 cls1 \<and>
          (\<forall>k. j = Some k \<longrightarrow> k < length (m_representatives cls1) \<longrightarrow> val1 k = v) \<and> ?n \<le> length (m_representatives cls1)"
        using added(2)
      proof (cases rule: tryToSimplify_Inr)
        case unchanged
        then show ?thesis using sound by (intro exI [of _ val]) simp
      next
        case (simplified tbl it1 r gr t k)
        note c = classes_sound_consistent [OF sound]
        note f = findFirstMatch_value [OF simplified(1,5) c expression_sound_item_value [OF e]]
        have tv: "template_value ev val t = v" using f(2) [of "m_location it1"] simplified(6) by auto
        obtain b where b: "sr_action r (match_d gr) = sr_action r (group_data b)" using f(3) by blast
        have "\<forall>g x. gr g = Some x \<longrightarrow> e_id x < ?n"
          using findFirstMatch_groups [OF simplified(1,5)] sound by (simp add: classes_sound_def)
        moreover have "set (pattern_opcodes (sr_action r (match_d gr))) \<subseteq> action_opcodes"
          using f(1) b by (auto simp: action_opcodes_def)
        ultimately have "template_ok ?n t"
          using template_built(1) [OF simplified(6)] groups_bound(4) [OF f(1), of b] b by auto
        from rebuild_sound [OF Suc.IH _ sound this] simplified(7,8) added(1)
        show ?thesis using tv rebuild_mono [OF find_class_mono simplified(8)] by auto
      qed
      then obtain val1 where v1: "extends ?n val val1" "classes_sound meaning val1 cls1"
          "\<forall>k. j = Some k \<longrightarrow> k < length (m_representatives cls1) \<longrightarrow> val1 k = v" "?n \<le> length (m_representatives cls1)" by blast
      have "expression_sound meaning val1 (length (m_representatives cls1)) ?e v"
        by (rule expression_sound_extends [OF e v1(1,4)])
      from addExpression_sound [OF v1(2) this v1(3) added(3)] show ?thesis
        using extends_trans [OF v1(1) _ v1(4)] by blast
    qed
  qed
qed

lemma find_value:
  assumes "find_class n cls it arguments sq = Some (Inr (i, cls'))"
    and "classes_sound meaning val cls" "\<forall>a \<in> set arguments. a < length (m_representatives cls)"
    and "meaning it (map val arguments) sq v"
  obtains val' where "extends (length (m_representatives cls)) val val'" "classes_sound meaning val' cls'"
    "i < length (m_representatives cls')" "val' i = v"
  using find_sound assms unfolding find_ok_def by meson

section \<open>Known values\<close>

lemma knownZero_sound:
  assumes "classes_sound meaning val cls" "knownZero cls c = Inr True"
  shows "val c = 0"
proof -
  let ?e = "m_representatives cls ! c"
  have c: "c < length (m_representatives cls)"
    using assms(2) by (auto simp: knownZero_def representative_def bindR_Inr_iff split: if_splits)
  then have "\<exists>gr. matches (m_representatives cls) (lit 0) ?e Map.empty = Inr (True, gr)"
    using assms(2) by (auto simp: knownZero_def representative_def bindR_Inr_iff)
  then have "matchesBaseItem (lit 0) (e_item ?e) = Inr True"
    by (auto simp: lit_def matches.simps bindR_Inr_iff split: if_splits)
  then obtain it where "e_item ?e = Some it" "m_type it = Push" "m_data it = 0"
    by (elim matchesBaseItem_True) (auto simp: lit_def)
  then show ?thesis
    using classes_sound_representative(2) [OF assms(1) c] pushed_constant by (auto simp: expression_sound_def)
qed

lemma knownConstant_sound:
  assumes "classes_sound meaning val cls" "knownConstant cls c = Inr (Some w)"
  shows "c < length (m_representatives cls) \<and> val c = w"
proof -
  let ?e = "m_representatives cls ! c" and ?p = "setMatchGroup (any_of Push) 1"
  have c: "c < length (m_representatives cls)"
    using assms(2) by (auto simp: knownConstant_def representative_def bindR_Inr_iff Let_def split: if_splits)
  obtain gr where m: "matches (m_representatives cls) ?p ?e Map.empty = Inr (True, gr)" "match_d gr ?p = w"
    using assms(2) c by (auto simp: knownConstant_def representative_def bindR_Inr_iff Let_def split: if_splits)
  then have b: "matchesBaseItem ?p (e_item ?e) = Inr True" and gr: "gr = [1 \<mapsto> ?e]"
    by (auto simp: any_of_def setMatchGroup_def matches.simps bindR_Inr_iff split: if_splits)
  from b obtain it where it: "e_item ?e = Some it" "m_type it = Push"
    by (elim matchesBaseItem_True) (auto simp: any_of_def setMatchGroup_def)
  then have "m_data it = w" using m(2) gr by (simp add: match_d_def any_of_def setMatchGroup_def)
  then show ?thesis
    using classes_sound_representative(2) [OF assms(1) c] pushed_constant [OF it(2)] it c
    by (auto simp: expression_sound_def)
qed

lemma knownNonZero_sound:
  assumes "knownNonZero n cls c = Some (Inr (b, cls'))"
    and "classes_sound meaning val cls" "c < length (m_representatives cls)"
  obtains val' where "extends (length (m_representatives cls)) val val'" "classes_sound meaning val' cls'"
    "b \<longrightarrow> val c \<noteq> 0"
proof -
  obtain i where f: "find_class n cls (mkOp ISZERO noLocation) [c] 0 = Some (Inr (i, cls'))" "knownZero cls' i = Inr b"
    using assms(1) by (auto simp: knownNonZero_def bindF_Inr_iff)
  have "meaning (mkOp ISZERO noLocation) (map val [c]) 0 (ev ISZERO (map val [c]))"
    by (rule computed) (simp_all add: query_opcodes_def instructionInfo_eqs)
  then obtain val' where v: "extends (length (m_representatives cls)) val val'" "classes_sound meaning val' cls'"
      "val' i = truth (val c = 0)"
    using find_value [OF f(1) assms(2)] assms(3) by auto
  then have "b \<longrightarrow> val c \<noteq> 0" using knownZero_sound [OF v(2)] f(2) by (auto simp: truth_def split: if_splits)
  then show thesis by (rule that [OF v(1,2)])
qed

lemma knownToBeDifferent_sound:
  assumes "knownToBeDifferent n cls a b = Some (Inr (d, cls'))"
    and "classes_sound meaning val cls" "a < length (m_representatives cls)" "b < length (m_representatives cls)"
  obtains val' where "extends (length (m_representatives cls)) val val'" "classes_sound meaning val' cls'"
    "d \<longrightarrow> val a \<noteq> val b"
proof -
  obtain i cls1 where f: "find_class n cls (mkOp SUB noLocation) [a, b] 0 = Some (Inr (i, cls1))"
      "knownNonZero n cls1 i = Some (Inr (d, cls'))"
    using assms(1) by (auto simp: knownToBeDifferent_def bindF_Inr_iff)
  have "meaning (mkOp SUB noLocation) (map val [a, b]) 0 (ev SUB (map val [a, b]))"
    by (rule computed) (simp_all add: query_opcodes_def instructionInfo_eqs)
  then obtain val1 where v1: "extends (length (m_representatives cls)) val val1" "classes_sound meaning val1 cls1"
      "i < length (m_representatives cls1)" "val1 i = val a - val b"
    using find_value [OF f(1) assms(2)] assms(3,4) by auto
  obtain val' where v: "extends (length (m_representatives cls1)) val1 val'" "classes_sound meaning val' cls'"
      "d \<longrightarrow> val1 i \<noteq> 0"
    by (rule knownNonZero_sound [OF f(2) v1(2,3)])
  show thesis
    by (rule that [OF extends_trans [OF v1(1) v(1) find_class_mono [OF f(1)]] v(2)]) (use v(3) v1(4) in auto)
qed

lemma knownToBeDifferentBy32_sound:
  assumes "knownToBeDifferentBy32 n cls a b = Some (Inr (d, cls'))"
    and "classes_sound meaning val cls" "a < length (m_representatives cls)" "b < length (m_representatives cls)"
  obtains val' where "extends (length (m_representatives cls)) val val'" "classes_sound meaning val' cls'"
    "d \<longrightarrow> 62 < val a - val b + 31"
proof -
  obtain i w where f: "find_class n cls (mkOp SUB noLocation) [a, b] 0 = Some (Inr (i, cls'))"
      "knownConstant cls' i = Inr w" "d \<longleftrightarrow> (case w of Some w \<Rightarrow> 62 < w + 31 | None \<Rightarrow> False)"
    using assms(1) by (auto simp: knownToBeDifferentBy32_def bindF_Inr_iff)
  have "meaning (mkOp SUB noLocation) (map val [a, b]) 0 (ev SUB (map val [a, b]))"
    by (rule computed) (simp_all add: query_opcodes_def instructionInfo_eqs)
  then obtain val' where v: "extends (length (m_representatives cls)) val val'" "classes_sound meaning val' cls'"
      "val' i = val a - val b"
    using find_value [OF f(1) assms(2)] assms(3,4) by auto
  then show thesis using that f(2,3) knownConstant_sound [OF v(2)] by (cases w) auto
qed

end

end
