(* ===== verification/MachineMeaning.thy ===== *)
theory MachineMeaning
  imports ExpressionMeaning ConstantRoutines
begin

text \<open>
  The meaning of expressions on the machine of \<open>AsmMachine\<close>. An expression is evaluated in the
  state of its sequence number: \<open>mem\<close> and \<open>sto\<close> give memory and storage at each number up to the
  current one, and the rest of the state does not change within a block. It interprets
  \<open>expression_meaning\<close>, so that every class found by \<open>ExpressionClasses\<close> has the value the machine
  computes.
\<close>

section \<open>Opcodes of the rules\<close>

definition state_opcodes :: "instruction set" where
  "state_opcodes = {SLOAD, MLOAD, KECCAK256, MSIZE}"

definition stateless :: "pattern \<Rightarrow> bool" where
  "stateless p \<longleftrightarrow> (\<forall>i \<in> set (pattern_opcodes p). i \<notin> state_opcodes)"

lemma stateless_simps [simp]:
  "stateless (lit v)"
  "stateless (inst i args) \<longleftrightarrow> i \<notin> {SLOAD, MLOAD, KECCAK256, MSIZE} \<and> list_all stateless args"
  "stateless group_A" "stateless group_B" "stateless group_C" "stateless group_W" "stateless group_X"
  "stateless group_Y" "stateless group_Z"
  by (auto simp: stateless_def state_opcodes_def lit_def inst_def group_defs setMatchGroup_def any_of_def
      pattern_opcodes.simps list_all_iff)

definition rule_stateless :: "simplification_rule \<Rightarrow> (nat \<Rightarrow> u256) \<Rightarrow> bool" where
  "rule_stateless r b \<longleftrightarrow> stateless (sr_pattern r) \<and> stateless (sr_action r (group_data b))"

lemma rule_stateless_rule [simp]:
  "rule_stateless (rule p a f) b \<longleftrightarrow> stateless p \<and> stateless (a (group_data b))"
  "rule_stateless (rule_if p a f h) b \<longleftrightarrow> stateless p \<and> stateless (a (group_data b))"
  by (simp_all add: rule_stateless_def)

lemma rules_stateless_part1_4:
  "\<forall>r \<in> set (simplificationRuleListPart1 group_A group_B group_C group_W group_X). rule_stateless r b"
  "\<forall>r \<in> set (simplificationRuleListPart2 group_A group_B group_C group_W group_X). rule_stateless r b"
  "\<forall>r \<in> set (simplificationRuleListPart3 group_A group_B group_C group_W group_X). rule_stateless r b"
  "\<forall>r \<in> set (simplificationRuleListPart4 group_A group_B group_C group_W group_X). rule_stateless r b"
  "\<forall>r \<in> set (simplificationRuleListPart4_5 group_A group_B group_C group_W group_X). rule_stateless r b"
  by (simp_all add: simplificationRuleListPart1_def simplificationRuleListPart2_def
      simplificationRuleListPart3_def simplificationRuleListPart4_def
      simplificationRuleListPart4_5_def Let_def)

lemma rules_stateless_part5_6:
  "\<forall>r \<in> set (simplificationRuleListPart5 group_A group_B group_C group_W group_X). rule_stateless r b"
  "\<forall>r \<in> set (simplificationRuleListPart6 group_A group_B group_C group_W group_X). rule_stateless r b"
  by (auto simp: simplificationRuleListPart5_def simplificationRuleListPart6_def Let_def)

lemma rules_stateless_part7:
  "\<forall>r \<in> set (simplificationRuleListPart7 group_A group_B group_C group_W group_X). rule_stateless r b"
  by (auto simp: simplificationRuleListPart7_def associativeRules_def shiftShiftRules_def
      maskShiftRules_def mulDivShiftRules_def byteShiftRules_def Let_def)

lemma rules_stateless_part8_9:
  "\<forall>r \<in> set (simplificationRuleListPart8 group_A group_B group_C group_W group_X). rule_stateless r b"
  "\<forall>r \<in> set (simplificationRuleListPart9 group_A group_B group_C group_W group_X group_Y group_Z).
     rule_stateless r b"
  by (simp_all add: simplificationRuleListPart8_def simplificationRuleListPart9_def Let_def)

lemma rules_stateless: "\<forall>r \<in> set (rulesFor None). rule_stateless r b"
  unfolding rulesFor_def simplificationRuleList_def set_append ball_Un option.case
  by (intro conjI rules_stateless_part1_4 rules_stateless_part5_6 rules_stateless_part7
      rules_stateless_part8_9 list.set) simp

lemma rule_opcodes_stateless: "i \<in> rule_opcodes \<union> action_opcodes \<Longrightarrow> i \<notin> state_opcodes"
  using rules_stateless by (auto simp: rule_opcodes_def action_opcodes_def rule_stateless_def stateless_def)

section \<open>Values and the state\<close>

lemmas eval_parts = eval_def eval_signals_def eval_arithmetic_def eval_blockchain_def eval_memory_def eval_calls_def

text \<open>The parts of the state that opcodes change.\<close>

definition same_env :: "interpreter_state \<Rightarrow> interpreter_state \<Rightarrow> bool" where
  "same_env s0 s \<longleftrightarrow> s = s0\<lparr>memory := memory s, msize := msize s, storage := storage s, trace := trace s\<rparr>"

lemma same_env_refl [simp]: "same_env s s"
  by (simp add: same_env_def)

lemma same_env_update [simp]:
  "same_env s0 (s\<lparr>memory := m\<rparr>) \<longleftrightarrow> same_env s0 s"
  "same_env s0 (s\<lparr>msize := z\<rparr>) \<longleftrightarrow> same_env s0 s"
  "same_env s0 (s\<lparr>storage := st\<rparr>) \<longleftrightarrow> same_env s0 s"
  "same_env s0 (s\<lparr>trace := t\<rparr>) \<longleftrightarrow> same_env s0 s"
  by (cases s0; cases s; simp add: same_env_def)+

lemma accessMemory_state:
  "\<exists>ok z. accessMemory a n s = (ok, s\<lparr>msize := z\<rparr>)"
  by (auto simp: accessMemory_def Let_def)

lemma logTrace_state: "\<exists>r t. logTrace i args d s = (r, s\<lparr>trace := t\<rparr>)"
  by (auto simp: logTrace_def Let_def)

lemma memory_state [simp]:
  "same_env s0 (snd (accessMemory a n s)) \<longleftrightarrow> same_env s0 s"
  "memory (snd (accessMemory a n s)) = memory s" "storage (snd (accessMemory a n s)) = storage s"
  "same_env s0 (snd (logTrace i args d s)) \<longleftrightarrow> same_env s0 s"
  "memory (snd (logTrace i args d s)) = memory s" "storage (snd (logTrace i args d s)) = storage s"
  "same_env s0 (writeMemoryWord a v s) \<longleftrightarrow> same_env s0 s"
  "storage (writeMemoryWord a v s) = storage s"
  using accessMemory_state [of a n s] logTrace_state [of i args d s] by (auto simp: writeMemoryWord_def)

lemma then_state [simp]: "snd (thenReturn r v) = snd r" "snd (thenThrow r e) = snd r"
  by (simp_all add: thenReturn_def thenThrow_def split: prod.split sum.split)

text \<open>What an opcode leaves unchanged.\<close>

definition state_kept :: "instruction \<Rightarrow> interpreter_state \<Rightarrow> interpreter_state \<Rightarrow> bool" where
  "state_kept i s s' \<longleftrightarrow> same_env s s' \<and> (\<not> invalidatesMemory i \<longrightarrow> memory s' = memory s) \<and>
     (i \<noteq> SSTORE \<longrightarrow> storage s' = storage s)"

lemma access_cases:
  "(case accessMemory a n s of (ok, s1) \<Rightarrow> f ok s1) = f (fst (accessMemory a n s)) (snd (accessMemory a n s))"
  "(case logTrace i args d s of (Inl e, s0) \<Rightarrow> g e s0 | (Inr x, s0) \<Rightarrow> h s0) =
    (case fst (logTrace i args d s) of Inl e \<Rightarrow> g e (snd (logTrace i args d s))
     | Inr x \<Rightarrow> h (snd (logTrace i args d s)))"
  by (simp_all split: prod.split sum.split)

lemma eval_blockchain_kept:
  "eval_blockchain k i args s = Some r \<Longrightarrow> state_kept i s (snd r)"
  unfolding eval_blockchain_def access_cases
  by (auto simp: state_kept_def invalidatesMemory_def split: if_splits sum.splits bool.splits)

lemma eval_memory_kept:
  "eval_memory i args s = Some r \<Longrightarrow> state_kept i s (snd r)"
  unfolding eval_memory_def Let_def
  by (auto simp: state_kept_def invalidatesMemory_def split: if_splits)

lemma eval_calls_kept:
  "eval_calls i args s = Some r \<Longrightarrow> state_kept i s (snd r)"
  unfolding eval_calls_def Let_def access_cases
  by (auto simp: state_kept_def invalidatesMemory_def split: if_splits sum.splits)

lemma eval_kept: "state_kept i s (snd (eval k i args s))"
  using eval_blockchain_kept [of k i args s] eval_memory_kept [of i args s] eval_calls_kept [of i args s]
  by (auto simp: eval_def state_kept_def split: option.splits)

text \<open>The value of an opcode depends on memory and storage only for the opcodes that read them.\<close>

lemma fst_accessMemory:
  "fst (accessMemory a n s) \<longleftrightarrow> a + n \<ge> a \<and> a + n + 0x1f \<ge> a + n \<and> n \<le> 0xffff"
  by (auto simp: accessMemory_def Let_def)

lemma readMemory_cong: "memory s = memory s' \<Longrightarrow> readMemory a n s = readMemory a n s'"
  by (simp add: readMemory_def)

lemma readMemoryWord_cong: "memory s = memory s' \<Longrightarrow> readMemoryWord a s = readMemoryWord a s'"
  by (simp add: readMemoryWord_def readMemory_cong [of s s'])

lemma logTrace_unlimited: "maxTraceSize s = 0 \<Longrightarrow> \<exists>s'. logTrace i args d s = (Inr (), s')"
  by (simp add: logTrace_def Let_def)

lemma fst_thenReturn: "fst (thenReturn r v) = Inr w \<longleftrightarrow> (\<exists>u. fst r = Inr u) \<and> w = v"
  by (auto simp: thenReturn_def split: prod.splits sum.splits)

lemma fst_thenThrow: "fst (thenThrow r e) \<noteq> Inr w"
  by (auto simp: thenThrow_def split: prod.splits sum.splits)

definition at_state :: "interpreter_state \<Rightarrow> (u256 \<Rightarrow> byte) \<Rightarrow> (u256 \<Rightarrow> u256) \<Rightarrow> interpreter_state" where
  "at_state s0 m st = s0\<lparr>memory := m, storage := st, maxTraceSize := 0\<rparr>"

lemma at_state_simps [simp]:
  "memory (at_state s0 m st) = m" "storage (at_state s0 m st) = st" "maxTraceSize (at_state s0 m st) = 0"
  by (simp_all add: at_state_def)

lemma maxTraceSize_access [simp]: "maxTraceSize (snd (accessMemory a n s)) = maxTraceSize s"
  using accessMemory_state [of a n s] by auto

lemma logTrace_at_state:
  "maxTraceSize s = 0 \<Longrightarrow> fst (logTrace i args d s) = Inr ()"
  using logTrace_unlimited [of s i args d] by auto

lemma same_env_fields:
  assumes "same_env s0 s"
  shows "calldata s = calldata s0" "returndata s = returndata s0" "address s = address s0"
    "balance s = balance s0" "selfbalance s = selfbalance s0" "origin s = origin s0" "caller s = caller s0"
    "callvalue s = callvalue s0" "evmcode s = evmcode s0" "gasprice s = gasprice s0"
    "coinbase s = coinbase s0" "timestamp s = timestamp s0" "blockNumber s = blockNumber s0"
    "difficulty s = difficulty s0" "gaslimit s = gaslimit s0" "chainid s = chainid s0"
  using assms by (cases s0; cases s; simp add: same_env_def)+

lemma at_state_fields [simp]:
  "calldata (at_state s0 m st) = calldata s0" "returndata (at_state s0 m st) = returndata s0"
  "address (at_state s0 m st) = address s0" "balance (at_state s0 m st) = balance s0"
  "selfbalance (at_state s0 m st) = selfbalance s0" "origin (at_state s0 m st) = origin s0"
  "caller (at_state s0 m st) = caller s0" "callvalue (at_state s0 m st) = callvalue s0"
  "evmcode (at_state s0 m st) = evmcode s0" "gasprice (at_state s0 m st) = gasprice s0"
  "coinbase (at_state s0 m st) = coinbase s0" "timestamp (at_state s0 m st) = timestamp s0"
  "blockNumber (at_state s0 m st) = blockNumber s0" "difficulty (at_state s0 m st) = difficulty s0"
  "gaslimit (at_state s0 m st) = gaslimit s0" "chainid (at_state s0 m st) = chainid s0"
  by (simp_all add: at_state_def)

definition same_value :: "u256 interpreted option \<Rightarrow> u256 interpreted option \<Rightarrow> bool" where
  "same_value x y \<longleftrightarrow> (x = None \<longleftrightarrow> y = None) \<and> (\<forall>v. x \<noteq> None \<and> fst (the x) = Inr v \<longrightarrow> fst (the y) = Inr v)"

lemma eval_blockchain_value:
  assumes "same_env s0 s" "i \<in> state_opcodes \<Longrightarrow> m = memory s \<and> st = storage s"
  shows "same_value (eval_blockchain k i args s) (eval_blockchain k i args (at_state s0 m st))"
proof (cases "i = KECCAK256")
  case True
  then have "readMemory a n (snd (accessMemory b c s)) = readMemory a n (snd (accessMemory b c (at_state s0 m st)))"
    for a n b c
    using assms(2) by (intro readMemory_cong) (simp add: state_opcodes_def)
  then show ?thesis using True
    unfolding eval_blockchain_def access_cases
    by (auto simp: same_value_def fst_accessMemory split: bool.splits sum.splits)
next
  case False
  then show ?thesis
    unfolding eval_blockchain_def access_cases
    by (simp add: same_value_def same_env_fields [OF assms(1)] logTrace_at_state split: sum.split)
qed

lemma eval_memory_value:
  assumes "same_env s0 s" "i \<noteq> MSIZE" "i \<in> state_opcodes \<Longrightarrow> m = memory s \<and> st = storage s"
  shows "same_value (eval_memory i args s) (eval_memory i args (at_state s0 m st))"
proof (cases "i = MLOAD \<or> i = SLOAD")
  case True
  then have "m = memory s \<and> st = storage s" using assms(3) by (auto simp: state_opcodes_def)
  moreover have "readMemoryWord a (snd (accessMemory b c s)) = readMemoryWord a (snd (accessMemory b c (at_state s0 m st)))"
    if "m = memory s" for a b c
    using that by (intro readMemoryWord_cong) simp
  ultimately show ?thesis using True by (auto simp: same_value_def eval_memory_def Let_def)
next
  case False
  then show ?thesis using assms(2)
    by (simp add: same_value_def eval_memory_def Let_def logTrace_at_state fst_thenReturn)
qed

lemma eval_calls_value: "same_value (eval_calls i args s) (eval_calls i args (at_state s0 m st))"
  unfolding eval_calls_def access_cases Let_def
  by (simp add: same_value_def logTrace_at_state fst_thenReturn fst_thenThrow split: sum.split)

lemma eval_value:
  assumes "same_env s0 s" "i \<noteq> MSIZE" "i \<in> state_opcodes \<Longrightarrow> m = memory s \<and> st = storage s"
    and v: "eval k i args s = (Inr v, s')"
  shows "evalValue k (at_state s0 m st) i args = v"
proof -
  note parts = eval_blockchain_value [where i = i and k = k and args = args, OF assms(1,3)]
    eval_memory_value [where i = i and args = args, OF assms(1-3)]
    eval_calls_value [of i args s s0 m st]
  have "fst (eval k i args (at_state s0 m st)) = Inr v"
  proof (cases "ii_args (instructionInfo i) = length args \<and> eval_signals i = None \<and> eval_arithmetic i args = None")
    case True
    then show ?thesis using v parts
      by (cases "eval_blockchain k i args s"; cases "eval_memory i args s"; cases "eval_calls i args s")
        (auto simp: eval_def same_value_def split: if_splits)
  next
    case False
    then show ?thesis using v by (auto simp: eval_def split: if_splits option.splits)
  qed
  then show ?thesis by (simp add: evalValue_def)
qed

lemma evalValue_stateless:
  assumes "i \<notin> state_opcodes"
  shows "evalValue k (at_state s0 m st) i args = evalValue k (at_state s0 m' st') i args"
proof -
  have other: "evalValue k (at_state s0 m2 st2) i args = v"
    if "eval k i args (at_state s0 m1 st1) = (Inr v, s')" for m1 st1 m2 st2 v s'
    using eval_value [of "at_state s0 m1 st1" "at_state s0 m1 st1" i m2 st2, OF _ _ _ that] assms
    by (auto simp: state_opcodes_def at_state_def)
  show ?thesis
  proof (cases "\<exists>m st v s'. eval k i args (at_state s0 m st) = (Inr v, s')")
    case True
    then show ?thesis using other by metis
  next
    case False
    then have "\<exists>e. fst (eval k i args (at_state s0 m st)) = Inl e" for m st
      by (metis sum.exhaust surjective_pairing)
    then show ?thesis by (metis evalValue_def sum.simps(5))
  qed
qed

section \<open>The meaning of expressions\<close>

text \<open>
  \<open>unassigned\<close> gives the values of the stack slots below the start of the block, which the classes
  know as undefined items; \<open>cur\<close> is the current sequence number.
\<close>

definition machine_meaning ::
  "machine_env \<Rightarrow> (u256 \<Rightarrow> u256) \<Rightarrow> interpreter_state \<Rightarrow> (nat \<Rightarrow> u256 \<Rightarrow> byte) \<Rightarrow> (nat \<Rightarrow> u256 \<Rightarrow> u256) \<Rightarrow>
   nat \<Rightarrow> assembly_item \<Rightarrow> u256 list \<Rightarrow> nat \<Rightarrow> u256 \<Rightarrow> bool" where
  "machine_meaning env unassigned s0 mem sto cur it vs sq v \<longleftrightarrow>
     sq \<le> cur \<and>
     (if m_type it = Operation then
        length vs = ii_args (instructionInfo (m_instruction it)) \<and>
        (m_instruction it = MSIZE \<or> v = evalValue (hash env) (at_state s0 (mem sq) (sto sq)) (m_instruction it) vs)
      else if m_type it = Push then v = m_data it
      else if m_type it = UndefinedItem then v = unassigned (m_data it)
      else v = pushed_value env (m_type it) (m_data it))"

lemma commutative_value:
  assumes "isCommutativeOperation it" "m_type it = Operation" "length vs = ii_args (instructionInfo (m_instruction it))"
    and "mset vs' = mset vs"
  shows "evalValue k s (m_instruction it) vs' = evalValue k s (m_instruction it) vs"
proof -
  have i: "m_instruction it \<in> {ADD, MUL, EQ, AND', OR', XOR'}"
    using assms(1) by (auto simp: isCommutativeOperation_def split: if_splits)
  then have "length vs = 2" using assms(3) by (auto simp: instructionInfo_eqs)
  then obtain x y where vs: "vs = [x, y]" by (auto simp: numeral_2_eq_2 length_Suc_conv)
  have "length vs' = 2" using assms(4) \<open>length vs = 2\<close> by (metis size_mset)
  then obtain x' y' where vs': "vs' = [x', y']" by (auto simp: numeral_2_eq_2 length_Suc_conv)
  have "x' = x \<and> y' = y \<or> x' = y \<and> y' = x" using assms(4) vs vs' by (auto simp: add_eq_conv_ex)
  then show ?thesis
    using i unfolding vs vs' by (auto simp: ac_simps truth_def)
qed

interpretation machine: expression_meaning
  "evalValue (hash env) (at_state s0 (mem 0) (sto 0))" "machine_meaning env unassigned s0 mem sto cur"
  for env unassigned s0 mem sto cur
proof
  fix it it' :: assembly_item and vs vs' sq v w i loc
  let ?m = "machine_meaning env unassigned s0 mem sto cur"
  show "v = w" if "isDeterministic it" "?m it vs sq v" "?m it vs sq w"
    using that by (auto simp: machine_meaning_def isDeterministic_def split: if_splits)
  show "?m it' vs sq v" if "item_eq it it'" "?m it vs sq v"
    using that by (auto simp: machine_meaning_def item_eq_def split: if_splits)
  show "v = m_data it" if "m_type it = Push" "?m it vs sq v"
    using that by (simp add: machine_meaning_def)
  show "?m it [] 0 (m_data it)" if "m_type it = Push"
    using that by (simp add: machine_meaning_def)
  show "length vs = ii_args (instructionInfo (m_instruction it)) \<and>
      v = evalValue (hash env) (at_state s0 (mem 0) (sto 0)) (m_instruction it) vs"
    if "m_type it = Operation" "m_instruction it \<in> rule_opcodes" "?m it vs sq v"
    using that rule_opcodes_stateless [of "m_instruction it"] evalValue_stateless [of "m_instruction it" "hash env" s0]
    by (auto simp: machine_meaning_def state_opcodes_def)
  show "?m (mkOp i loc) vs 0 (evalValue (hash env) (at_state s0 (mem 0) (sto 0)) i vs)"
    if "i \<in> action_opcodes \<union> query_opcodes" "length vs = ii_args (instructionInfo i)"
    using that by (simp add: machine_meaning_def mkOp_def)
  show "?m it vs' sq v" if "isCommutativeOperation it" "?m it vs sq v" "mset vs' = mset vs"
    using that commutative_value [OF that(1) _ _ that(3)] mset_eq_length [OF that(3)]
    by (auto simp: machine_meaning_def isCommutativeOperation_def split: if_splits)
qed

end
