(* ===== verification/KnownSound.thy ===== *)
theory KnownSound
  imports KnownState MachineMeaning
begin

text \<open>
  Soundness of the known state. A known state describes a state of the machine when the classes
  of its stack elements, storage and memory entries have, under one valuation, the values that the
  machine holds there. Feeding an item keeps the description true of the state after the
  item.
\<close>

section \<open>What a known state describes\<close>

text \<open>
  A block starts in the state \<open>c_start\<close>, with the values \<open>c_unassigned\<close> in the stack slots;
  memory and storage at each sequence number are its history.
\<close>

record block_context =
  c_env :: machine_env
  c_unassigned :: "u256 \<Rightarrow> u256"
  c_start :: interpreter_state
  c_memory :: "nat \<Rightarrow> u256 \<Rightarrow> byte"
  c_storage :: "nat \<Rightarrow> u256 \<Rightarrow> u256"

definition meaning_of :: "block_context \<Rightarrow> nat \<Rightarrow> assembly_item \<Rightarrow> u256 list \<Rightarrow> nat \<Rightarrow> u256 \<Rightarrow> bool" where
  "meaning_of C = machine_meaning (c_env C) (c_unassigned C) (c_start C) (c_memory C) (c_storage C)"

abbreviation class_count :: "kstate \<Rightarrow> nat" where
  "class_count st \<equiv> length (m_representatives (snd st))"

text \<open>The value of a stack slot.\<close>

definition slot_value :: "(u256 \<Rightarrow> u256) \<Rightarrow> (nat \<Rightarrow> u256) \<Rightarrow> known_state \<Rightarrow> int \<Rightarrow> u256" where
  "slot_value un val ks k = (case map_of (m_stackElements ks) k of Some c \<Rightarrow> val c | None \<Rightarrow> un (word_of_int k))"

definition content_ok :: "(nat \<Rightarrow> u256) \<Rightarrow> nat \<Rightarrow> (u256 \<Rightarrow> u256) \<Rightarrow> (nat \<times> nat) list \<Rightarrow> bool" where
  "content_ok val n look entries \<longleftrightarrow> (\<forall>(slot, c) \<in> set entries. slot < n \<and> c < n \<and> look (val slot) = val c)"

definition hashes_ok :: "(bytes \<Rightarrow> u256) \<Rightarrow> (nat \<Rightarrow> u256) \<Rightarrow> nat \<Rightarrow> (nat list \<times> nat) list \<Rightarrow> bool" where
  "hashes_ok keccak val n entries \<longleftrightarrow>
     (\<forall>(args, c) \<in> set entries. c < n \<and> (\<forall>a \<in> set args. a < n) \<and>
        val c = keccak (concat (map (\<lambda>a. toBigEndian (val a)) args)))"

definition describes :: "block_context \<Rightarrow> (nat \<Rightarrow> u256) \<Rightarrow> kstate \<Rightarrow> interpreter_state \<Rightarrow> bool" where
  "describes C val st s \<longleftrightarrow>
     (let ks = fst st; n = class_count st in
      classes_sound (meaning_of C (m_sequenceNumber ks)) val (snd st) \<and>
      same_env (c_start C) s \<and>
      c_memory C (m_sequenceNumber ks) = memory s \<and> c_storage C (m_sequenceNumber ks) = storage s \<and>
      (\<forall>c \<in> snd ` set (m_stackElements ks). c < n) \<and>
      content_ok val n (storage s) (m_storageContent ks) \<and>
      content_ok val n (\<lambda>a. readMemoryWord a s) (m_memoryContent ks) \<and>
      hashes_ok (hash (c_env C)) val n (m_knownKeccak256Hashes ks))"

text \<open>The stack of the machine, from its top down.\<close>

definition describes_stack :: "block_context \<Rightarrow> (nat \<Rightarrow> u256) \<Rightarrow> known_state \<Rightarrow> u256 list \<Rightarrow> bool" where
  "describes_stack C val ks stk \<longleftrightarrow>
     (\<forall>j < length stk. slot_value (c_unassigned C) val ks (m_stackHeight ks - int j) = stk ! j)"

section \<open>Reasoning about operations\<close>

text \<open>The classes only grow.\<close>

definition grows :: "'a known \<Rightarrow> bool" where
  "grows f \<longleftrightarrow> (\<forall>st r st'. f st = Some (Inr (r, st')) \<longrightarrow> class_count st \<le> class_count st')"

named_theorems grows_intro

lemma grows_basic [grows_intro]:
  "grows (retK x)" "grows (getK f)" "grows (modifyK g)" "grows (assertK b e)" "grows (readK h)"
  by (auto simp: grows_def assertK_def readK_def bindF_Inr_iff)

lemma grows_bind [grows_intro]: "grows f \<Longrightarrow> (\<And>x. grows (g x)) \<Longrightarrow> grows (bindK f g)"
  unfolding grows_def by (fastforce simp: bindF_Inr_iff split: prod.splits intro: le_trans)

lemma grows_find [grows_intro]: "grows (find_item n it arguments sq)"
  by (auto simp: grows_def find_item_def classesK_def bindF_Inr_iff dest: find_class_mono)

lemma grows_different [grows_intro]:
  "grows (classesK (\<lambda>cls. knownToBeDifferent n cls a b))"
  "grows (classesK (\<lambda>cls. knownToBeDifferentBy32 n cls a b))"
  by (auto simp: grows_def classesK_def bindF_Inr_iff knownToBeDifferent_def knownToBeDifferentBy32_def
      knownNonZero_def dest!: find_class_mono)

lemma grows_mapK [grows_intro]: "(\<And>x. grows (f x)) \<Longrightarrow> grows (mapK f xs)"
  by (induction xs) (auto intro!: grows_intro)

lemma grows_keepEntries [grows_intro]: "(\<And>a b. grows (f a b)) \<Longrightarrow> grows (keepEntries f xs)"
  by (induction f xs rule: keepEntries.induct) (auto intro!: grows_intro)

text \<open>
  An operation run in a described state, seen from the valuation: every result it returns comes
  with an extended valuation for which the postcondition holds.
\<close>

definition yields ::
  "(nat \<Rightarrow> u256) \<Rightarrow> kstate \<Rightarrow> 'a known \<Rightarrow> ('a \<Rightarrow> (nat \<Rightarrow> u256) \<Rightarrow> kstate \<Rightarrow> bool) \<Rightarrow> bool" where
  "yields val st f Q \<longleftrightarrow>
     (\<forall>r st'. f st = Some (Inr (r, st')) \<longrightarrow>
        (\<exists>val'. extends (class_count st) val val' \<and> Q r val' st'))"

lemma yields_weaken:
  assumes "yields val st f P" "grows f"
    and "\<And>r val' st'. extends (class_count st) val val' \<Longrightarrow> class_count st \<le> class_count st' \<Longrightarrow>
      P r val' st' \<Longrightarrow> Q r val' st'"
  shows "yields val st f Q"
  using assms unfolding yields_def grows_def by meson

lemma yieldsD:
  "yields val st f Q \<Longrightarrow> f st = Some (Inr (r, st')) \<Longrightarrow> 
   \<exists>val'. extends (class_count st) val val' \<and> Q r val' st'"
  unfolding yields_def by blast

lemma yields_bind:
  assumes "yields val st f (\<lambda>r val' st'. yields val' st' (g r) Q)" "grows f" "\<And>r. grows (g r)"
  shows "yields val st (bindK f g) Q"
  unfolding yields_def
proof (intro allI impI)
  fix r st2
  assume "bindK f g st = Some (Inr (r, st2))"
  then obtain x st1 where f: "f st = Some (Inr (x, st1))" and g: "g x st1 = Some (Inr (r, st2))"
    by (auto simp: bindF_Inr_iff)
  have le: "class_count st \<le> class_count st1" "class_count st1 \<le> class_count st2"
    using assms(2,3) f g unfolding grows_def by blast+
  then obtain val1 where v1: "extends (class_count st) val val1" "yields val1 st1 (g x) Q"
    using yieldsD [OF assms(1) f] by fastforce
  then obtain val2 where "extends (class_count st1) val1 val2" "Q r val2 st2"
    using yieldsD [OF v1(2) g] by blast
  then show "\<exists>val'. extends (class_count st) val val' \<and> Q r val' st2"
    using extends_trans [OF v1(1) _ le(1)] by blast
qed

lemma yields_result:
  "(\<And>r st'. f st = Some (Inr (r, st')) \<Longrightarrow> Q r val st') \<Longrightarrow> yields val st f Q"
  unfolding yields_def by (meson extends_refl)

lemma yields_ret: "Q x val st \<Longrightarrow> yields val st (retK x) Q"
  by (rule yields_result) simp

lemma yields_get: "Q (f (fst st)) val st \<Longrightarrow> yields val st (getK f) Q"
  by (rule yields_result) simp

lemma yields_modify: "Q () val (g (fst st), snd st) \<Longrightarrow> yields val st (modifyK g) Q"
  by (rule yields_result) simp

lemma yields_assert: "(b \<Longrightarrow> Q () val st) \<Longrightarrow> yields val st (assertK b e) Q"
  by (rule yields_result) (auto simp: assertK_def bindF_Inr_iff assertThrow_def split: if_splits)

lemma yields_read: "(\<And>x. f (snd st) = Inr x \<Longrightarrow> Q x val st) \<Longrightarrow> yields val st (readK f) Q"
  by (rule yields_result) (auto simp: readK_def bindF_Inr_iff)

section \<open>Classes, stack elements and loads\<close>

lemma content_ok_extends:
  "content_ok val n look es \<Longrightarrow> extends n val val' \<Longrightarrow> n \<le> m \<Longrightarrow> content_ok val' m look es"
  by (force simp: content_ok_def extends_def)

lemma hashes_ok_extends:
  assumes "hashes_ok keccak val n es" "extends n val val'" "n \<le> m"
  shows "hashes_ok keccak val' m es"
  unfolding hashes_ok_def
proof (clarify, intro conjI)
  fix args c
  assume "(args, c) \<in> set es"
  then have *: "c < n" "\<forall>a \<in> set args. a < n" "val c = keccak (concat (map (\<lambda>a. toBigEndian (val a)) args))"
    using assms(1) by (auto simp: hashes_ok_def)
  then have "map (\<lambda>a. toBigEndian (val' a)) args = map (\<lambda>a. toBigEndian (val a)) args"
    using assms(2) by (simp add: extends_def)
  then show "val' c = keccak (concat (map (\<lambda>a. toBigEndian (val' a)) args))"
    using * assms(2) by (simp add: extends_def del: map_eq_conv)
  show "c < m" "\<forall>a \<in> set args. a < m" using * assms(3) by auto
qed

lemma slot_value_extends:
  assumes "extends n val val'" "\<forall>c \<in> snd ` set (m_stackElements ks). c < n"
  shows "slot_value un val' ks = slot_value un val ks"
  using assms by (fastforce simp: slot_value_def extends_def fun_eq_iff split: option.split dest: map_of_SomeD)

lemma describes_extends:
  assumes "describes C val st s" "extends (class_count st) val val'"
    and "classes_sound (meaning_of C (m_sequenceNumber (fst st))) val' cls'" "class_count st \<le> length (m_representatives cls')"
  shows "describes C val' (fst st, cls') s"
  using assms unfolding describes_def Let_def
  by (auto intro: content_ok_extends hashes_ok_extends)

text \<open>The view of the stack that an operation keeps.\<close>

definition view_kept :: "block_context \<Rightarrow> (nat \<Rightarrow> u256) \<Rightarrow> known_state \<Rightarrow> (nat \<Rightarrow> u256) \<Rightarrow> known_state \<Rightarrow> bool" where
  "view_kept C val ks val' ks' \<longleftrightarrow>
     slot_value (c_unassigned C) val' ks' = slot_value (c_unassigned C) val ks \<and>
     m_stackHeight ks' = m_stackHeight ks \<and> m_sequenceNumber ks' = m_sequenceNumber ks"

lemma view_kept_trans: "view_kept C val ks val1 ks1 \<Longrightarrow> view_kept C val1 ks1 val2 ks2 \<Longrightarrow> view_kept C val ks val2 ks2"
  by (simp add: view_kept_def)

lemma view_kept_extends:
  assumes "describes C val st s" "extends (class_count st) val val'"
  shows "view_kept C val (fst st) val' (fst st)"
  using assms slot_value_extends [OF assms(2)] by (simp add: view_kept_def describes_def Let_def)

lemma yields_find:
  assumes "describes C val st s" "\<forall>a \<in> set arguments. a < class_count st"
    and "meaning_of C (m_sequenceNumber (fst st)) it (map val arguments) sq v"
  shows "yields val st (find_item n it arguments sq) (\<lambda>c val' st'.
    describes C val' st' s \<and> fst st' = fst st \<and> c < class_count st' \<and> val' c = v \<and>
    view_kept C val (fst st) val' (fst st'))"
  unfolding yields_def
proof (intro allI impI)
  fix c st'
  assume f: "find_item n it arguments sq st = Some (Inr (c, st'))"
  from f have f1: "find_class n (snd st) it arguments sq = Some (Inr (c, snd st'))" and [simp]: "fst st' = fst st"
    by (auto simp: find_item_def classesK_def bindF_Inr_iff)
  have "classes_sound (meaning_of C (m_sequenceNumber (fst st))) val (snd st)"
    using assms(1) by (simp add: describes_def Let_def)
  then obtain val' where v: "extends (class_count st) val val'"
      "classes_sound (meaning_of C (m_sequenceNumber (fst st))) val' (snd st')" "c < class_count st'" "val' c = v"
    using machine.find_value [OF f1 _ assms(2)] assms(3) unfolding meaning_of_def by metis
  have "describes C val' (fst st, snd st') s"
    by (rule describes_extends [OF assms(1) v(1,2)]) (rule find_class_mono [OF f1])
  then have "describes C val' st' s" by (metis \<open>fst st' = fst st\<close> prod.collapse)
  then show "\<exists>val'. extends (class_count st) val val' \<and> describes C val' st' s \<and> fst st' = fst st \<and>
      c < class_count st' \<and> val' c = v \<and> view_kept C val (fst st) val' (fst st')"
    using v view_kept_extends [OF assms(1) v(1)] by auto
qed

lemma set_map_put: "set (map_put k v m) \<subseteq> insert (k, v) (set m)"
  by (induction k v m rule: map_put.induct) auto

lemma describes_set:
  assumes "describes C val st s" "c < class_count st"
  shows "describes C val ((fst st)\<lparr>m_stackElements := map_put k c (m_stackElements (fst st))\<rparr>, snd st) s"
  using assms set_map_put [of k c "m_stackElements (fst st)"]
  by (fastforce simp: describes_def Let_def)

lemma slot_value_set:
  "slot_value un val (ks\<lparr>m_stackElements := map_put k c (m_stackElements ks)\<rparr>) = (slot_value un val ks)(k := val c)"
  by (auto simp: slot_value_def fun_eq_iff)

lemma grows_stack [grows_intro]:
  "grows (setStackElement k c)" "grows (stackElement n k loc)"
  unfolding setStackElement_def stackElement_def
  by (auto intro!: grows_intro split: option.split simp: grows_basic grows_find)

lemma yields_stackElement:
  assumes "describes C val st s"
  shows "yields val st (stackElement n k loc) (\<lambda>c val' st'.
    describes C val' st' s \<and> view_kept C val (fst st) val' (fst st') \<and> c < class_count st' \<and>
    val' c = slot_value (c_unassigned C) val (fst st) k)"
proof (cases "map_of (m_stackElements (fst st)) k")
  case (Some c)
  then have "c < class_count st"
    using assms by (force simp: describes_def Let_def dest: map_of_SomeD)
  then show ?thesis using Some assms unfolding stackElement_def
    by (intro yields_bind yields_get grows_intro)
      (auto simp: slot_value_def view_kept_def intro!: yields_ret grows_intro split: option.splits)
next
  case None
  let ?it = "mkItem UndefinedItem (word_of_int k) loc"
  have m: "meaning_of C (m_sequenceNumber (fst st)) ?it (map val []) 0 (c_unassigned C (word_of_int k))"
    by (simp add: meaning_of_def machine_meaning_def mkItem_def)
  have "yields val st (bindK (find_item n ?it [] 0) (\<lambda>c. bindK (setStackElement k c) (\<lambda>_. retK c)))
    (\<lambda>c val' st'. describes C val' st' s \<and> view_kept C val (fst st) val' (fst st') \<and> c < class_count st' \<and>
      val' c = slot_value (c_unassigned C) val (fst st) k)"
  proof (rule yields_bind [OF yields_weaken [OF yields_find [OF assms _ m]]])
    fix c val' st'
    assume "describes C val' st' s \<and> fst st' = fst st \<and> c < class_count st' \<and>
      val' c = c_unassigned C (word_of_int k) \<and> view_kept C val (fst st) val' (fst st')"
    then show "yields val' st' (bindK (setStackElement k c) (\<lambda>_. retK c))
      (\<lambda>c val' st'. describes C val' st' s \<and> view_kept C val (fst st) val' (fst st') \<and> c < class_count st' \<and>
        val' c = slot_value (c_unassigned C) val (fst st) k)"
      using None describes_set [of C val' st' s c k] unfolding setStackElement_def
      by (intro yields_bind yields_modify yields_ret grows_intro)
        (auto simp: view_kept_def slot_value_set slot_value_def fun_eq_iff)
  qed (auto intro!: grows_intro)
  then show ?thesis using None unfolding stackElement_def
    by (intro yields_bind yields_get grows_intro) (auto intro!: grows_intro split: option.split)
qed

lemma yields_mapK:
  assumes "describes C val st s" "\<And>x. grows (f x)"
    and step: "\<And>x val1 st1. describes C val1 st1 s \<Longrightarrow> extends (class_count st) val val1 \<Longrightarrow>
      class_count st \<le> class_count st1 \<Longrightarrow> view_kept C val (fst st) val1 (fst st1) \<Longrightarrow> yields val1 st1 (f x) (\<lambda>c val2 st2.
        describes C val2 st2 s \<and> view_kept C val1 (fst st1) val2 (fst st2) \<and> c < class_count st2 \<and> val2 c = g x)"
  shows "yields val st (mapK f xs) (\<lambda>cs val' st'.
    describes C val' st' s \<and> view_kept C val (fst st) val' (fst st') \<and> (\<forall>c \<in> set cs. c < class_count st') \<and>
    map val' cs = map g xs)"
proof -
  have "yields val1 st1 (mapK f xs) (\<lambda>cs val' st'. describes C val' st' s \<and>
      view_kept C val1 (fst st1) val' (fst st') \<and> (\<forall>c \<in> set cs. c < class_count st') \<and> map val' cs = map g xs)"
    if "describes C val1 st1 s" "extends (class_count st) val val1" "class_count st \<le> class_count st1"
      "view_kept C val (fst st) val1 (fst st1)" for val1 st1
    using that
  proof (induction xs arbitrary: val1 st1)
    case Nil
    then show ?case unfolding mapK.simps by (intro yields_ret) (simp add: view_kept_def)
  next
    case (Cons x xs)
    note prems = Cons.prems
    show ?case unfolding mapK.simps
    proof (rule yields_bind [OF yields_weaken [OF step [OF prems]]], goal_cases)
      case (2 c val2 st2)
      have "extends (class_count st) val val2" "class_count st \<le> class_count st2"
          "view_kept C val (fst st) val2 (fst st2)"
        using 2 prems extends_trans [OF prems(2) 2(1) prems(3)] by (auto intro: view_kept_trans)
      from Cons.IH [OF conjunct1 [OF 2(3)] this] show ?case
        by (rule yields_bind [OF yields_weaken])
          (use 2 in \<open>auto intro!: yields_ret grows_intro assms(2) simp: view_kept_def extends_def\<close>)
    qed (auto intro!: grows_intro assms(2))
  qed
  then show ?thesis using assms(1) by (simp add: view_kept_def)
qed

lemma yields_arguments:
  assumes "describes C val st s"
  shows "yields val st (mapK (\<lambda>k. stackElement n (f k) loc) xs) (\<lambda>cs val' st'.
    describes C val' st' s \<and> view_kept C val (fst st) val' (fst st') \<and> (\<forall>c \<in> set cs. c < class_count st') \<and>
    map val' cs = map (\<lambda>k. slot_value (c_unassigned C) val (fst st) (f k)) xs)"
proof (rule yields_mapK [OF assms], goal_cases)
  case (2 x val1 st1)
  then show ?case using yields_stackElement [OF 2(1), of n "f x" loc] by (simp add: view_kept_def)
qed (rule grows_intro)

lemma memory_values:
  "evalValue k s SLOAD [a] = storage s a" "evalValue k s MLOAD [a] = readMemoryWord a s"
  "evalValue k s SSTORE [a, b] = 0" "evalValue k s MSTORE [a, b] = 0"
  using readMemoryWord_cong [of "snd (accessMemory a 32 s)" s a]
  by (simp_all add: evalValue_def eval_parts instructionInfo_eqs Let_def)

lemma content_ok_put:
  "content_ok val n look es \<Longrightarrow> slot < n \<Longrightarrow> c < n \<Longrightarrow> look (val slot) = val c \<Longrightarrow>
   content_ok val n look (map_put slot c es)"
  using set_map_put [of slot c es] by (auto simp: content_ok_def)

lemma content_ok_lookup:
  "content_ok val n look es \<Longrightarrow> map_of es slot = Some c \<Longrightarrow> c < n \<and> look (val slot) = val c"
  by (auto simp: content_ok_def dest: map_of_SomeD)

lemma grows_load [grows_intro]: "grows (loadFromStorage n slot loc)" "grows (loadFromMemory n slot loc)"
  unfolding loadFromStorage_def loadFromMemory_def
  by (auto intro!: grows_intro split: option.split)

lemma slot_value_update [simp]:
  "slot_value un val (ks\<lparr>m_storageContent := x\<rparr>) = slot_value un val ks"
  "slot_value un val (ks\<lparr>m_memoryContent := y\<rparr>) = slot_value un val ks"
  "slot_value un val (ks\<lparr>m_knownKeccak256Hashes := z\<rparr>) = slot_value un val ks"
  "slot_value un val (ks\<lparr>m_sequenceNumber := w\<rparr>) = slot_value un val ks"
  "slot_value un val (ks\<lparr>m_stackHeight := h\<rparr>) = slot_value un val ks"
  by (simp_all add: slot_value_def fun_eq_iff)

lemma slot_value_cong:
  "m_stackElements ks' = m_stackElements ks \<Longrightarrow> slot_value un val ks' = slot_value un val ks"
  by (simp add: slot_value_def fun_eq_iff)

text \<open>The common shape of the two loads.\<close>

lemma yields_load:
  assumes "describes C val st s" "slot < class_count st"
    and m: "meaning_of C (m_sequenceNumber (fst st)) it (map val [slot]) (m_sequenceNumber (fst st)) v"
    and known: "\<And>c. map_of (entries (fst st)) slot = Some c \<Longrightarrow> c < class_count st \<and> val c = v"
    and put: "\<And>val' st' c. describes C val' st' s \<Longrightarrow> slot < class_count st' \<Longrightarrow> c < class_count st' \<Longrightarrow>
      val' slot = val slot \<Longrightarrow> val' c = v \<Longrightarrow>
      describes C val' (put c (fst st'), snd st') s \<and> view_kept C val' (fst st') val' (put c (fst st'))"
  shows "yields val st
    (bindK (getK entries) (\<lambda>content.
       case map_of content slot of
         Some c \<Rightarrow> retK c
       | None \<Rightarrow> bindK (getK m_sequenceNumber) (\<lambda>sq. bindK (find_item n it [slot] sq) (\<lambda>c.
           bindK (modifyK (put c)) (\<lambda>_. retK c)))))
    (\<lambda>c val' st'. describes C val' st' s \<and> view_kept C val (fst st) val' (fst st') \<and> c < class_count st' \<and>
      val' c = v)"
proof (cases "map_of (entries (fst st)) slot")
  case (Some c)
  then show ?thesis using known [OF Some] assms(1)
    by (intro yields_bind yields_get grows_intro)
      (auto simp: view_kept_def intro!: yields_ret grows_intro split: option.splits)
next
  case None
  let ?sq = "m_sequenceNumber (fst st)"
  have "yields val st (bindK (find_item n it [slot] ?sq) (\<lambda>c. bindK (modifyK (put c)) (\<lambda>_. retK c)))
    (\<lambda>c val' st'. describes C val' st' s \<and> view_kept C val (fst st) val' (fst st') \<and> c < class_count st' \<and>
      val' c = v)"
  proof (rule yields_bind [OF yields_weaken [OF yields_find [OF assms(1) _ m]]], goal_cases)
    case (3 c val' st')
    then have "val' slot = val slot" "slot < class_count st'" using assms(2) by (auto simp: extends_def)
    then show ?case using 3 put [of val' st' c]
      by (intro yields_bind yields_modify yields_ret grows_intro) (auto intro: view_kept_trans)
  qed (use assms(2) in \<open>auto intro!: grows_intro\<close>)
  then show ?thesis using None
    by (intro yields_bind yields_get grows_intro) (auto intro!: grows_intro yields_bind yields_get split: option.split)
qed

lemma yields_loadFromStorage:
  assumes "describes C val st s" "slot < class_count st"
  shows "yields val st (loadFromStorage n slot loc) (\<lambda>c val' st'.
    describes C val' st' s \<and> view_kept C val (fst st) val' (fst st') \<and> c < class_count st' \<and>
    val' c = storage s (val slot))"
  unfolding loadFromStorage_def
proof (rule yields_load [OF assms])
  show "meaning_of C (m_sequenceNumber (fst st)) (mkOp SLOAD loc) (map val [slot]) (m_sequenceNumber (fst st))
      (storage s (val slot))"
    using assms by (simp add: meaning_of_def machine_meaning_def mkOp_def instructionInfo_eqs memory_values
        describes_def Let_def)
qed (use assms(1) in \<open>auto simp: describes_def Let_def view_kept_def intro: content_ok_put dest: content_ok_lookup\<close>)

lemma yields_loadFromMemory:
  assumes "describes C val st s" "slot < class_count st"
  shows "yields val st (loadFromMemory n slot loc) (\<lambda>c val' st'.
    describes C val' st' s \<and> view_kept C val (fst st) val' (fst st') \<and> c < class_count st' \<and>
    val' c = readMemoryWord (val slot) s)"
  unfolding loadFromMemory_def
proof (rule yields_load [OF assms])
  have "readMemoryWord (val slot) (at_state (c_start C) (memory s) (c_storage C (m_sequenceNumber (fst st)))) =
      readMemoryWord (val slot) s"
    by (rule readMemoryWord_cong) simp
  then show "meaning_of C (m_sequenceNumber (fst st)) (mkOp MLOAD loc) (map val [slot]) (m_sequenceNumber (fst st))
      (readMemoryWord (val slot) s)"
    using assms by (simp add: meaning_of_def machine_meaning_def mkOp_def instructionInfo_eqs memory_values
        describes_def Let_def)
qed (use assms(1) in \<open>auto simp: describes_def Let_def view_kept_def intro: content_ok_put dest: content_ok_lookup\<close>)

section \<open>Stores\<close>

definition same_block :: "block_context \<Rightarrow> block_context \<Rightarrow> bool" where
  "same_block C C' \<longleftrightarrow> c_env C' = c_env C \<and> c_unassigned C' = c_unassigned C \<and> c_start C' = c_start C"

text \<open>A new sequence number in the history.\<close>

definition advance :: "block_context \<Rightarrow> nat \<Rightarrow> interpreter_state \<Rightarrow> block_context" where
  "advance C q s = C\<lparr>c_memory := (c_memory C)(q := memory s), c_storage := (c_storage C)(q := storage s)\<rparr>"

lemma same_block_advance [simp]: "same_block C (advance C q s)" "same_block C C"
  by (simp_all add: same_block_def advance_def)

lemma same_block_trans: "same_block C C1 \<Longrightarrow> same_block C1 C2 \<Longrightarrow> same_block C C2"
  by (simp add: same_block_def)

lemma classes_sound_mono:
  assumes "classes_sound m val cls" "\<And>it vs q v. m it vs q v \<Longrightarrow> m' it vs q v"
  shows "classes_sound m' val cls"
proof -
  have "expression_sound m val n e v \<Longrightarrow> expression_sound m' val n e v" for n e v
    using assms(2) unfolding expression_sound_def by blast
  then show ?thesis using assms(1) unfolding classes_sound_def by blast
qed

lemma meaning_advance: "sq < q \<Longrightarrow> meaning_of C sq it vs x v \<Longrightarrow> meaning_of (advance C q s) q it vs x v"
  by (auto simp: meaning_of_def machine_meaning_def advance_def)

lemma describes_advance:
  assumes "describes C val st s" "m_sequenceNumber (fst st) < q" "same_env (c_start C) s'"
    and "content_ok val (class_count st) (storage s') sc"
    and "content_ok val (class_count st) (\<lambda>a. readMemoryWord a s') mc"
  shows "describes (advance C q s') val
    ((fst st)\<lparr>m_storageContent := sc, m_memoryContent := mc, m_sequenceNumber := q\<rparr>, snd st) s'"
proof -
  have "classes_sound (meaning_of (advance C q s') q) val (snd st)"
    using assms(1,2) by (auto simp: describes_def Let_def intro: classes_sound_mono meaning_advance)
  then show ?thesis using assms by (simp add: describes_def Let_def advance_def)
qed

lemma same_env_trans: "same_env s0 s \<Longrightarrow> same_env s s' \<Longrightarrow> same_env s0 s'"
  by (cases s0; cases s; cases s'; simp add: same_env_def)

lemma describes_state:
  assumes "describes C val st s" "memory s' = memory s" "storage s' = storage s" "same_env (c_start C) s'"
  shows "describes C val st s'"
  using assms readMemoryWord_cong [OF assms(2)] by (simp add: describes_def Let_def)

lemma describes_contents:
  assumes "describes C val st s"
  shows "content_ok val (class_count st) (storage s) (m_storageContent (fst st))"
    "content_ok val (class_count st) (\<lambda>a. readMemoryWord a s) (m_memoryContent (fst st))"
    "same_env (c_start C) s"
  using assms by (simp_all add: describes_def Let_def)

lemma yields_classes:
  assumes "describes C val st s" "grows (classesK f)"
    and f: "\<And>d cls'. f (snd st) = Some (Inr (d, cls')) \<Longrightarrow> 
      \<exists>val'. extends (class_count st) val val' \<and>
        classes_sound (meaning_of C (m_sequenceNumber (fst st))) val' cls' \<and> P d"
  shows "yields val st (classesK f) (\<lambda>d val' st'. describes C val' st' s \<and> fst st' = fst st \<and> P d)"
  unfolding yields_def
proof (intro allI impI)
  fix d st'
  assume r: "classesK f st = Some (Inr (d, st'))"
  then obtain cls' where cls': "f (snd st) = Some (Inr (d, cls'))" "st' = (fst st, cls')"
    by (auto simp: classesK_def bindF_Inr_iff)
  then obtain val' where v: "extends (class_count st) val val'"
      "classes_sound (meaning_of C (m_sequenceNumber (fst st))) val' cls'" "P d" using f by auto
  have "class_count st \<le> length (m_representatives cls')" using assms(2) r cls' unfolding grows_def by fastforce
  then show "\<exists>val'. extends (class_count st) val val' \<and> describes C val' st' s \<and> fst st' = fst st \<and> P d"
    using v describes_extends [OF assms(1) v(1,2)] cls'(2) by auto
qed

lemma yields_different:
  assumes "describes C val st s" "a < class_count st" "b < class_count st"
  shows "yields val st (classesK (\<lambda>cls. knownToBeDifferent n cls a b)) (\<lambda>d val' st'.
      describes C val' st' s \<and> fst st' = fst st \<and> (d \<longrightarrow> val a \<noteq> val b))"
    and "yields val st (classesK (\<lambda>cls. knownToBeDifferentBy32 n cls a b)) (\<lambda>d val' st'.
      describes C val' st' s \<and> fst st' = fst st \<and> (d \<longrightarrow> 62 < val a - val b + 31))"
proof -
  have sound: "classes_sound (meaning_of C (m_sequenceNumber (fst st))) val (snd st)"
    using assms(1) by (simp add: describes_def Let_def)
  show "yields val st (classesK (\<lambda>cls. knownToBeDifferent n cls a b)) (\<lambda>d val' st'.
      describes C val' st' s \<and> fst st' = fst st \<and> (d \<longrightarrow> val a \<noteq> val b))"
    by (rule yields_classes [OF assms(1) grows_different(1)], unfold meaning_of_def,
      erule machine.knownToBeDifferent_sound [OF _ sound [unfolded meaning_of_def] assms(2,3)]) blast
  show "yields val st (classesK (\<lambda>cls. knownToBeDifferentBy32 n cls a b)) (\<lambda>d val' st'.
      describes C val' st' s \<and> fst st' = fst st \<and> (d \<longrightarrow> 62 < val a - val b + 31))"
    by (rule yields_classes [OF assms(1) grows_different(2)], unfold meaning_of_def,
      erule machine.knownToBeDifferentBy32_sound [OF _ sound [unfolded meaning_of_def] assms(2,3)]) blast
qed

text \<open>The entries kept at a store.\<close>

lemma yields_keepEntries:
  assumes "describes C val st s" "\<And>a b. grows (keep a b)"
    and keep: "\<And>a b val1 st1. (a, b) \<in> set entries \<Longrightarrow> extends (class_count st) val val1 \<Longrightarrow>
      class_count st \<le> class_count st1 \<Longrightarrow> describes C val1 st1 s \<Longrightarrow> fst st1 = fst st \<Longrightarrow>
      yields val1 st1 (keep a b) (\<lambda>k val2 st2. describes C val2 st2 s \<and> fst st2 = fst st \<and> (k \<longrightarrow> P a b))"
  shows "yields val st (keepEntries keep entries) (\<lambda>res val' st'.
    describes C val' st' s \<and> fst st' = fst st \<and> set res \<subseteq> {(a, b). (a, b) \<in> set entries \<and> P a b})"
proof -
  have "yields val1 st1 (keepEntries keep es) (\<lambda>res val' st'.
      describes C val' st' s \<and> fst st' = fst st \<and> set res \<subseteq> {(a, b). (a, b) \<in> set entries \<and> P a b})"
    if "set es \<subseteq> set entries" "extends (class_count st) val val1" "class_count st \<le> class_count st1"
      "describes C val1 st1 s" "fst st1 = fst st" for es val1 st1
    using that
  proof (induction es arbitrary: val1 st1)
    case Nil
    then show ?case unfolding keepEntries.simps by (intro yields_ret) simp
  next
    case (Cons e es)
    obtain a b where e: "e = (a, b)" by (cases e)
    have "(a, b) \<in> set entries" using Cons.prems(1) e by simp
    note k = keep [OF this Cons.prems(2-5)]
    show ?case unfolding e keepEntries.simps
    proof (rule yields_bind [OF yields_weaken [OF k]], goal_cases)
      case (2 kp val2 st2)
      have "extends (class_count st) val val2" "class_count st \<le> class_count st2"
        using 2 Cons.prems(2,3) extends_trans [OF Cons.prems(2) 2(1) Cons.prems(3)] by auto
      then have "yields val2 st2 (keepEntries keep es) (\<lambda>res val' st'.
          describes C val' st' s \<and> fst st' = fst st \<and> set res \<subseteq> {(a, b). (a, b) \<in> set entries \<and> P a b})"
        using Cons.IH [of val2 st2] Cons.prems(1) 2 by simp
      then show ?case
        by (rule yields_bind [OF yields_weaken])
          (use 2 Cons.prems(1) e assms(2) in \<open>auto intro!: yields_ret grows_intro\<close>)
    qed (use assms(2) in \<open>auto intro!: grows_intro\<close>)
  qed
  then show ?thesis using assms(1) by auto
qed

text \<open>The description carried over to the state after a store.\<close>

definition carried ::
  "block_context \<Rightarrow> (nat \<Rightarrow> u256) \<Rightarrow> kstate \<Rightarrow> interpreter_state \<Rightarrow> (nat \<Rightarrow> u256) \<Rightarrow> kstate \<Rightarrow> bool" where
  "carried C val st s' val' st' \<longleftrightarrow>
     (\<exists>C'. same_block C C' \<and> describes C' val' st' s') \<and>
     slot_value (c_unassigned C) val' (fst st') = slot_value (c_unassigned C) val (fst st) \<and>
     m_stackHeight (fst st') = m_stackHeight (fst st)"

lemma grows_inc [grows_intro]: "grows (incSequenceNumber k)"
  unfolding incSequenceNumber_def by (rule grows_intro)

lemma yields_inc:
  "Q () val ((fst st)\<lparr>m_sequenceNumber := m_sequenceNumber (fst st) + k\<rparr>, snd st) \<Longrightarrow>
   yields val st (incSequenceNumber k) Q"
  unfolding incSequenceNumber_def by (rule yields_modify)

lemma content_ok_subset: "content_ok val n look es \<Longrightarrow> set es' \<subseteq> set es \<Longrightarrow> content_ok val n look es'"
  by (auto simp: content_ok_def)

text \<open>After the entries are chosen: the store's own expression, the new entry and the sequence number.\<close>

lemma yields_store_end:
  assumes "describes C val st s" "slot < class_count st" "v < class_count st"
    and it: "\<And>a b. meaning_of C (m_sequenceNumber (fst st)) it [a, b] (m_sequenceNumber (fst st)) 0"
    and put: "\<And>val' st'. describes C val' st' s \<Longrightarrow> fst st' = fst st \<Longrightarrow> class_count st \<le> class_count st' \<Longrightarrow>
      extends (class_count st) val val' \<Longrightarrow>
      \<exists>C'. same_block C C' \<and>
        describes C' val' ((put (fst st'))\<lparr>m_sequenceNumber := m_sequenceNumber (fst st') + 1\<rparr>, snd st') s'"
    and keeps: "\<And>ks. m_stackElements (put ks) = m_stackElements ks" "\<And>ks. m_stackHeight (put ks) = m_stackHeight ks"
      "\<And>ks. m_sequenceNumber (put ks) = m_sequenceNumber ks"
    and start: "same_block C0 C" "slot_value (c_unassigned C0) val (fst st) = slot_value (c_unassigned C0) val0 (fst st0)"
      "m_stackHeight (fst st) = m_stackHeight (fst st0)"
  shows "yields val st
    (bindK (getK m_sequenceNumber) (\<lambda>sq. bindK (find_item n it [slot, v] sq) (\<lambda>i.
       bindK (modifyK put) (\<lambda>_. bindK (incSequenceNumber 1) (\<lambda>_. retK (f sq i))))))
    (\<lambda>op val' st'. carried C0 val0 st0 s' val' st')"
proof (rule yields_bind [OF yields_get])
  let ?sq = "m_sequenceNumber (fst st)"
  have m: "meaning_of C ?sq it (map val [slot, v]) ?sq 0" using it by simp
  show "yields val st (bindK (find_item n it [slot, v] ?sq) (\<lambda>i.
      bindK (modifyK put) (\<lambda>_. bindK (incSequenceNumber 1) (\<lambda>_. retK (f ?sq i)))))
    (\<lambda>op val' st'. carried C0 val0 st0 s' val' st')"
  proof (rule yields_bind [OF yields_weaken [OF yields_find [OF assms(1) _ m]]], goal_cases)
    case (3 c val' st')
    then obtain C' where "same_block C C'"
        "describes C' val' ((put (fst st'))\<lparr>m_sequenceNumber := m_sequenceNumber (fst st') + 1\<rparr>, snd st') s'"
      using put [of val' st'] by auto
    then show ?case using 3 keeps start unfolding incSequenceNumber_def
      by (intro yields_bind yields_modify yields_ret grows_intro)
        (auto simp: carried_def view_kept_def same_block_def slot_value_cong [OF keeps(1)])
  qed (use assms(2,3) in \<open>auto intro!: grows_intro\<close>)
qed (auto intro!: grows_intro)

text \<open>The common shape of the two stores, for the entries \<open>entries\<close> that \<open>update\<close> replaces.\<close>

lemma yields_store:
  assumes d: "describes C val st s" and slot: "slot < class_count st" and v: "v < class_count st"
    and known: "map_of (entries (fst st)) slot = Some v \<Longrightarrow> describes C val st s'"
    and update: "\<And>es ks. m_stackElements (update es ks) = m_stackElements ks"
      "\<And>es ks. m_stackHeight (update es ks) = m_stackHeight ks"
      "\<And>es ks. m_sequenceNumber (update es ks) = m_sequenceNumber ks" "\<And>es ks. entries (update es ks) = es"
      "\<And>q ks. entries (ks\<lparr>m_sequenceNumber := q\<rparr>) = entries ks"
    and fewer: "\<And>C val st es. describes C val st s \<Longrightarrow> set es \<subseteq> set (entries (fst st)) \<Longrightarrow>
      describes C val (update es (fst st), snd st) s"
    and keep: "\<And>C val1 st1 a b. describes C val1 st1 s \<Longrightarrow> (a, b) \<in> set (entries (fst st)) \<Longrightarrow>
      \<forall>c < class_count st. val1 c = val c \<Longrightarrow> class_count st \<le> class_count st1 \<Longrightarrow>
      yields val1 st1 (keep a b) (\<lambda>k val2 st2. describes C val2 st2 s \<and> fst st2 = fst st1 \<and> (k \<longrightarrow> P a b))"
    and growing: "\<And>a b. grows (keep a b)"
    and it: "\<And>C q a b. meaning_of C q it [a, b] q 0"
    and put: "\<And>C val' st'. describes C val' st' s \<Longrightarrow> \<forall>c < class_count st. val' c = val c \<Longrightarrow>
      class_count st \<le> class_count st' \<Longrightarrow> \<forall>(a, b) \<in> set (entries (fst st')). (a, b) \<in> set (entries (fst st)) \<and> P a b \<Longrightarrow>
      \<exists>C'. same_block C C' \<and> describes C' val'
        ((update (map_put slot v (entries (fst st'))) (fst st'))\<lparr>m_sequenceNumber := m_sequenceNumber (fst st') + 1\<rparr>, snd st') s'"
  shows "yields val st
    (bindK (getK entries) (\<lambda>content.
       if map_of content slot = Some v then retK noStore
       else bindK (incSequenceNumber 1) (\<lambda>_. bindK (keepEntries keep content) (\<lambda>contents.
         bindK (modifyK (update contents)) (\<lambda>_. bindK (getK m_sequenceNumber) (\<lambda>sq.
         bindK (find_item n it [slot, v] sq) (\<lambda>i.
         bindK (modifyK (\<lambda>ks. update (map_put slot v (entries ks)) ks)) (\<lambda>_.
         bindK (incSequenceNumber 1) (\<lambda>_. retK (f sq i))))))))))
    (\<lambda>op val' st'. carried C val st s' val' st')"
proof (rule yields_bind [OF yields_get], cases "map_of (entries (fst st)) slot = Some v", goal_cases)
  case 1
  then show ?case using known by (auto simp: carried_def intro!: yields_ret exI [of _ C])
next
  case 2
  let ?q = "m_sequenceNumber (fst st) + 1"
  let ?C1 = "advance C ?q s" and ?st1 = "((fst st)\<lparr>m_sequenceNumber := ?q\<rparr>, snd st)"
  have d1: "describes ?C1 val ?st1 s"
    using describes_advance [OF d _ describes_contents(3) [OF d] describes_contents(1,2) [OF d], of ?q] by simp
  have kept: "yields val ?st1 (keepEntries keep (entries (fst st))) (\<lambda>res val' st'. describes ?C1 val' st' s \<and>
      fst st' = fst ?st1 \<and> set res \<subseteq> {(a, b). (a, b) \<in> set (entries (fst st)) \<and> P a b})"
    by (rule yields_keepEntries [OF d1 growing]) (use keep [where C = ?C1] in \<open>auto simp: extends_def\<close>)
  show ?case
    unfolding if_not_P [OF 2]
  proof (rule yields_bind [OF yields_inc], rule yields_bind [OF yields_weaken [OF kept]], goal_cases)
    case (2 contents val2 st2)
    let ?st3 = "(update contents (fst st2), snd st2)"
    have d3: "describes ?C1 val2 ?st3 s" by (rule fewer) (use 2 update in auto)
    have view: "slot_value (c_unassigned C) val2 (fst ?st3) = slot_value (c_unassigned C) val (fst st)"
      using slot_value_extends [OF 2(1)] 2(3) d slot_value_cong [OF update(1)] by (simp add: describes_def Let_def)
    show ?case
    proof (rule yields_bind [OF yields_modify], rule yields_store_end [OF d3], goal_cases)
      case (4 val' st')
      have "\<forall>c < class_count st. val' c = val c" using 4(4) 2(1,2) by (simp add: extends_def)
      moreover have "\<forall>(a, b) \<in> set (entries (fst st')). (a, b) \<in> set (entries (fst st)) \<and> P a b"
        using 4(2) 2(3) update(4) by auto
      moreover have "class_count st \<le> class_count st'" using 4(3) 2(2) by simp
      ultimately show ?case by (intro put [OF 4(1)])
    qed (use slot v 2 view update it in \<open>auto intro!: grows_intro\<close>)
  qed (use growing in \<open>auto intro!: grows_intro\<close>)
qed (use growing in \<open>auto intro!: grows_intro\<close>)

lemma yields_storeInStorage:
  assumes d: "describes C val st s" and slot: "slot < class_count st" and v: "v < class_count st"
  shows "yields val st (storeInStorage n slot v loc) (\<lambda>op val' st'.
    carried C val st (s\<lparr>storage := (storage s)(val slot := val v)\<rparr>) val' st')"
  unfolding storeInStorage_def
proof (rule yields_store [OF assms, where P = "\<lambda>a b. val a \<noteq> val slot \<or> b = v"], goal_cases)
  case 1
  then have "storage s (val slot) = val v" using content_ok_lookup describes_contents(1) [OF d] by metis
  then have "(storage s)(val slot := val v) = storage s" by auto
  then show ?case using d by simp
next
  case (7 C val st es)
  then show ?case by (auto simp: describes_def Let_def elim: content_ok_subset)
next
  case (8 C val1 st1 a b)
  have "a < class_count st" using 8(2) describes_contents(1) [OF d] by (auto simp: content_ok_def)
  then have a: "a < class_count st1" "slot < class_count st1" "val1 a = val a" "val1 slot = val slot"
    using 8(3,4) slot by auto
  show ?case
    by (rule yields_bind [OF yields_weaken [OF yields_different(1) [OF 8(1) a(1,2)]]])
      (use a in \<open>auto intro!: yields_ret grows_intro\<close>)
next
  case (11 C' val' st')
  let ?s' = "s\<lparr>storage := (storage s)(val slot := val v)\<rparr>" and ?q = "m_sequenceNumber (fst st') + 1"
  have "content_ok val' (class_count st') (storage ?s') (m_storageContent (fst st'))"
    using describes_contents(1) [OF 11(1)] describes_contents(1) [OF d] 11(2,4) slot v
    by (fastforce simp: content_ok_def)
  then have "content_ok val' (class_count st') (storage ?s') (map_put slot v (m_storageContent (fst st')))"
    by (rule content_ok_put) (use slot v 11(2,3) in auto)
  moreover have "content_ok val' (class_count st') (\<lambda>a. readMemoryWord a ?s') (m_memoryContent (fst st'))"
    using describes_contents(2) [OF 11(1)] readMemoryWord_cong [of ?s' s] by simp
  ultimately show ?case
    using describes_advance [OF 11(1), of ?q ?s'] describes_contents(3) [OF 11(1)]
    by (intro exI [of _ "advance C' ?q ?s'"]) fastforce
qed (auto simp: meaning_of_def machine_meaning_def mkOp_def instructionInfo_eqs memory_values intro!: grows_intro)

lemma yields_storeInMemory:
  assumes d: "describes C val st s" and slot: "slot < class_count st" and v: "v < class_count st"
    and s': "memory s' = memory (writeMemoryWord (val slot) (val v) s)" "storage s' = storage s" "same_env s s'"
  shows "yields val st (storeInMemory n slot v loc) (\<lambda>op val' st'. carried C val st s' val' st')"
  unfolding storeInMemory_def
proof (rule yields_store [OF d slot v, where P = "\<lambda>a b. 62 < val a - val slot + 31"], goal_cases)
  case 1
  then have "readMemoryWord (val slot) s = val v" using content_ok_lookup describes_contents(2) [OF d] by metis
  then show ?case using s' write_known_word same_env_trans [OF describes_contents(3) [OF d] s'(3)]
    by (intro describes_state [OF d]) auto
next
  case (7 C val st es)
  then show ?case by (auto simp: describes_def Let_def elim: content_ok_subset)
next
  case (8 C val1 st1 a b)
  have "a < class_count st" using 8(2) describes_contents(2) [OF d] by (auto simp: content_ok_def)
  then have a: "a < class_count st1" "slot < class_count st1" "val1 a = val a" "val1 slot = val slot"
    using 8(3,4) slot by auto
  show ?case using yields_different(2) [OF 8(1) a(1,2)] unfolding a(3,4) .
next
  case (11 C' val' st')
  let ?q = "m_sequenceNumber (fst st') + 1"
  note r = readMemoryWord_cong [OF s'(1)]
  have "content_ok val' (class_count st') (\<lambda>a. readMemoryWord a s') (m_memoryContent (fst st'))"
    using describes_contents(2) [OF 11(1)] describes_contents(2) [OF d] 11(2,4) slot
    by (fastforce simp: content_ok_def r read_distant_word)
  then have "content_ok val' (class_count st') (\<lambda>a. readMemoryWord a s') (map_put slot v (m_memoryContent (fst st')))"
    by (rule content_ok_put) (use slot v 11(2,3) in \<open>auto simp: r read_written_word\<close>)
  moreover have "content_ok val' (class_count st') (storage s') (m_storageContent (fst st'))"
    using describes_contents(1) [OF 11(1)] s'(2) by simp
  moreover have "same_env (c_start C') s'"
    by (rule same_env_trans [OF describes_contents(3) [OF 11(1)] s'(3)])
  ultimately show ?case
    using describes_advance [OF 11(1), of ?q s'] by (intro exI [of _ "advance C' ?q s'"]) fastforce
qed (auto simp: meaning_of_def machine_meaning_def mkOp_def instructionInfo_eqs memory_values intro!: grows_intro)

end
