(* ===== verification/KnownFeed.thy ===== *)
theory KnownFeed
  imports KnownSound
begin

text \<open>
  Feeding items to the known state is sound: hashes of short memory ranges, the operations and
  the items as a whole.
\<close>

section \<open>Hashes\<close>

lemma and_mask_small: "unat (a :: u256) < 2 ^ 64 \<Longrightarrow> a AND 0xffffffffffffffff = a"
proof -
  assume small: "unat a < 2 ^ 64"
  have "(0xffffffffffffffff :: u256) = mask 64" by (simp add: mask_eq_exp_minus_1)
  then have "a AND 0xffffffffffffffff = take_bit 64 a" by (simp add: take_bit_eq_mask)
  also have "\<dots> = a" using small by (simp add: word_unat_eq_iff unsigned_take_bit_eq take_bit_nat_eq_self)
  finally show ?thesis .
qed

lemma keccak_value:
  assumes "unat a < 2 ^ 64" "l \<le> 128"
  shows "evalValue k s KECCAK256 [a, l] = k (map (\<lambda>i. memory s (a + of_nat i)) [0..<unat l])"
proof -
  have l: "unat l \<le> 128" using assms(2) by (simp add: word_le_nat_alt)
  have sum: "unat (a + l) = unat a + unat l" using assms(1) l by (simp add: unat_add_small)
  have "unat (a + l + 31) = unat a + unat l + 31" using assms(1) l by (subst unat_add_small) (simp_all add: sum)
  then have "fst (accessMemory a l s)"
    using sum l by (simp add: fst_accessMemory word_le_nat_alt)
  moreover have "a AND 0xffffffffffffffff = a" "l AND 0xffffffffffffffff = l"
    using and_mask_small assms(1) l by auto
  moreover have "readMemory a l (snd (accessMemory a l s)) = Inr (map (\<lambda>i. memory s (a + of_nat i)) [0..<unat l])"
    using l by (simp add: readMemory_def word_le_nat_alt)
  ultimately show ?thesis
    by (cases "accessMemory a l s") (auto simp: evalValue_def eval_parts instructionInfo_eqs)
qed

lemma words_32:
  assumes "l \<le> 128" "32 dvd unat (l :: u256)"
  shows "l \<in> {0, 32, 64, 96, 128}"
proof -
  obtain m where m: "unat l = 32 * m" using assms(2) by (auto simp: dvd_def)
  then have "m \<in> {0, 1, 2, 3, 4}" using assms(1) by (auto simp: word_le_nat_alt)
  then show ?thesis using m by (auto simp: word_unat_eq_iff)
qed

lemma memory_words:
  assumes "l \<le> 128" "32 dvd unat l"
  shows "concat (map (\<lambda>i. toBigEndian (readMemoryWord (a + i) s)) (wordOffsets l)) =
    map (\<lambda>i. memory s (a + of_nat i)) [0..<unat l]"
proof -
  have seg: "map (\<lambda>i. memory s (a + of_nat k + of_nat i)) [0..<32] = map (\<lambda>i. memory s (a + of_nat i)) [k..<k + 32]" for k
    by (rule nth_equalityI) (simp_all add: add.assoc)
  have app: "[0..<64] = [0..<32] @ [32..<64]" "[0..<96] = [0..<64] @ [64..<96]" "[0..<128] = [0..<96] @ [96..<128]"
    using upt_add_eq_append [of 0 32 32] upt_add_eq_append [of 0 64 32] upt_add_eq_append [of 0 96 32]
    by (simp_all only: numeral_plus_numeral add_num_simps le0 simp_thms)
  have w: "wordOffsets 0 = []" "wordOffsets 32 = [0]" "wordOffsets 64 = [0, 32]" "wordOffsets 96 = [0, 32, 64]"
      "wordOffsets 128 = [0, 32, 64, 96]"
    by (simp_all add: wordOffsets_def)
  show ?thesis
    using words_32 [OF assms] seg [of 32] seg [of 64] seg [of 96]
    by (auto simp: w toBigEndian_readMemoryWord app simp del: upt_rec_numeral)
qed

lemma constants_read:
  "mapK (\<lambda>a. readK (\<lambda>cls. knownConstant cls a)) as st = Some (Inr (cs, st')) \<Longrightarrow>
   st' = st \<and> list_all2 (\<lambda>a c. knownConstant (snd st) a = Inr c) as cs"
  by (induction as arbitrary: cs) (auto simp: bindF_Inr_iff readK_def)

lemma yields_constants:
  assumes "\<And>cs. list_all2 (\<lambda>a c. knownConstant (snd st) a = Inr c) as cs \<Longrightarrow> Q cs val st"
  shows "yields val st (mapK (\<lambda>a. readK (\<lambda>cls. knownConstant cls a)) as) Q"
  by (rule yields_result) (use assms in \<open>auto dest: constants_read\<close>)

text \<open>The word at an offset: a constant, a sum and a load.\<close>

lemma yields_word:
  assumes d: "describes C val st s" and start: "start < class_count st"
  shows "yields val st (bindK (find_item n (mkPush i noLocation) [] 0) (\<lambda>ic.
      bindK (find_item n (mkOp ADD loc) [start, ic] 0) (\<lambda>slot. loadFromMemory n slot loc)))
    (\<lambda>c val' st'. describes C val' st' s \<and> view_kept C val (fst st) val' (fst st') \<and> c < class_count st' \<and>
      val' c = readMemoryWord (val start + i) s)"
proof -
  have p: "meaning_of C (m_sequenceNumber (fst st)) (mkPush i noLocation) (map val []) 0 i"
    by (simp add: meaning_of_def machine_meaning_def mkPush_def mkItem_def)
  show ?thesis
  proof (rule yields_bind [OF yields_weaken [OF yields_find [OF d _ p]]], goal_cases)
    case (3 ic val1 st1)
    have v: "val1 start = val start" "val1 ic = i" using 3 start by (auto simp: extends_def)
    have a: "meaning_of C (m_sequenceNumber (fst st1)) (mkOp ADD loc) (map val1 [start, ic]) 0 (val start + i)"
      using v by (simp add: meaning_of_def machine_meaning_def mkOp_def instructionInfo_eqs)
    have d1: "describes C val1 st1 s" using 3 by blast
    show ?case
    proof (rule yields_bind [OF yields_weaken [OF yields_find [OF d1 _ a]]], goal_cases)
      case 1
      then show ?case using 3 start by auto
    next
      case (3 slot val2 st2)
      have view: "view_kept C val (fst st) val2 (fst st2)"
        using 3 \<open>describes C val1 st1 s \<and> _\<close> by (auto intro: view_kept_trans)
      have d2: "describes C val2 st2 s" and slot: "slot < class_count st2" "val2 slot = val start + i"
        using 3 by blast+
      show ?case
        by (rule yields_weaken [OF yields_loadFromMemory [OF d2 slot(1)]])
          (use slot view in \<open>auto intro!: grows_intro intro: view_kept_trans\<close>)
    qed (auto intro!: grows_intro)
  qed (auto intro!: grows_intro)
qed

text \<open>
  The hash of a memory range. The interpreter cuts the address to 64 bits. The cache of known
  hashes ignores the length, so the length has to be a multiple of 32 where the cache is used.
\<close>

definition hash_range_ok :: "u256 \<Rightarrow> u256 \<Rightarrow> bool" where
  "hash_range_ok a l \<longleftrightarrow> unat a < 2 ^ 64 \<and> (l \<le> 128 \<longrightarrow> 32 dvd unat l)"

lemma grows_keccak [grows_intro]: "grows (applyKeccak256 keccak n start len loc)"
  unfolding applyKeccak256_def Let_def
  by (auto intro!: grows_intro split: option.split)

lemma describes_hash:
  assumes "describes C val st s" "c < class_count st" "\<forall>a \<in> set args. a < class_count st"
    and "val c = hash (c_env C) (concat (map (\<lambda>a. toBigEndian (val a)) args))"
  shows "describes C val ((fst st)\<lparr>m_knownKeccak256Hashes := map_put args c (m_knownKeccak256Hashes (fst st))\<rparr>, snd st) s"
  using assms set_map_put [of args c "m_knownKeccak256Hashes (fst st)"]
  by (fastforce simp: describes_def Let_def hashes_ok_def)

abbreviation keccak_result :: "block_context \<Rightarrow> interpreter_state \<Rightarrow> u256 \<Rightarrow> u256 \<Rightarrow> u256" where
  "keccak_result C s a l \<equiv>
     evalValue (hash (c_env C)) (at_state (c_start C) (memory s) (storage s)) KECCAK256 [a, l]"

lemma yields_keccak_item:
  assumes d: "describes C val st s" and len: "start < class_count st" "len < class_count st"
  shows "yields val st (bindK (getK m_sequenceNumber) (\<lambda>sq. find_item n (mkOp KECCAK256 loc) [start, len] sq))
    (\<lambda>c val' st'. describes C val' st' s \<and> fst st' = fst st \<and> c < class_count st' \<and>
      val' c = keccak_result C s (val start) (val len) \<and> view_kept C val (fst st) val' (fst st'))"
proof (rule yields_bind [OF yields_get])
  let ?sq = "m_sequenceNumber (fst st)"
  have "meaning_of C ?sq (mkOp KECCAK256 loc) (map val [start, len]) ?sq (keccak_result C s (val start) (val len))"
    using d by (simp add: meaning_of_def machine_meaning_def mkOp_def instructionInfo_eqs describes_def Let_def)
  then show "yields val st (find_item n (mkOp KECCAK256 loc) [start, len] ?sq)
    (\<lambda>c val' st'. describes C val' st' s \<and> fst st' = fst st \<and> c < class_count st' \<and>
      val' c = keccak_result C s (val start) (val len) \<and> view_kept C val (fst st) val' (fst st'))"
    by (intro yields_find [OF d]) (use len in auto)
qed (auto intro!: grows_intro)

text \<open>The hash once the words are loaded: a constant when all words are, and the item otherwise.\<close>

lemma yields_keccak_constants:
  assumes d: "describes C val st s" and len: "start < class_count st" "len < class_count st"
    and args: "concat (map (\<lambda>a. toBigEndian (val a)) args) = dat" "length dat = unat w"
      "keccak_result C s (val start) (val len) = hash (c_env C) dat"
    and cs: "list_all2 (\<lambda>a c. knownConstant (snd st) a = Inr c) args cs"
  shows "yields val st
    (if \<forall>c \<in> set cs. c \<noteq> None
     then find_item n (mkPush (hash (c_env C) (take (unat w) (concat (map (\<lambda>c. toBigEndian (the c)) cs)))) loc) [] 0
     else bindK (getK m_sequenceNumber) (\<lambda>sq. find_item n (mkOp KECCAK256 loc) [start, len] sq))
    (\<lambda>c val' st'. describes C val' st' s \<and> fst st' = fst st \<and> c < class_count st' \<and>
      val' c = hash (c_env C) dat \<and> view_kept C val (fst st) val' (fst st'))"
proof (cases "\<forall>c \<in> set cs. c \<noteq> None")
  case True
  have sound: "classes_sound (meaning_of C (m_sequenceNumber (fst st))) val (snd st)"
    using d by (simp add: describes_def Let_def)
  have "map (\<lambda>c. toBigEndian (the c)) cs = map (\<lambda>a. toBigEndian (val a)) args"
    using cs True
  proof (induction rule: list_all2_induct)
    case (Cons a as c cs)
    then obtain x where "c = Some x" by auto
    then show ?case
      using Cons machine.knownConstant_sound [OF sound [unfolded meaning_of_def], of a x] by simp
  qed simp
  then have "take (unat w) (concat (map (\<lambda>c. toBigEndian (the c)) cs)) = dat"
    using args(1,2) by simp
  moreover have "meaning_of C (m_sequenceNumber (fst st)) (mkPush x loc) (map val []) 0 x" for x
    by (simp add: meaning_of_def machine_meaning_def mkPush_def mkItem_def)
  ultimately show ?thesis using True yields_find [OF d, of "[]"] by simp
next
  case False
  then show ?thesis using yields_keccak_item [OF d len, of n loc] unfolding args(3) by (simp only: if_False)
qed

lemma yields_applyKeccak256:
  assumes d: "describes C val st s" and len: "start < class_count st" "len < class_count st"
    and range: "hash_range_ok (val start) (val len)"
  shows "yields val st (applyKeccak256 (hash (c_env C)) n start len loc) (\<lambda>c val' st'.
    describes C val' st' s \<and> view_kept C val (fst st) val' (fst st') \<and> c < class_count st' \<and>
    val' c = keccak_result C s (val start) (val len))" (is "yields val st _ ?Q")
  unfolding applyKeccak256_def Let_def
proof (rule yields_bind [OF yields_read], goal_cases)
  case (1 l)
  show ?case
  proof (cases "\<exists>w. l = Some w \<and> w \<le> 128")
    case False
    have "yields val st (bindK (getK m_sequenceNumber) (\<lambda>sq. find_item n (mkOp KECCAK256 loc) [start, len] sq)) ?Q"
      by (rule yields_weaken [OF yields_keccak_item [OF d len]]) (auto intro!: grows_intro)
    then show ?thesis using False by (auto split: option.split simp: not_le)
  next
    case True
    then obtain w where w: "l = Some w" "w \<le> 128" by blast
    have "classes_sound (meaning_of C (m_sequenceNumber (fst st))) val (snd st)"
      using d by (simp add: describes_def Let_def)
    from machine.knownConstant_sound [OF this [unfolded meaning_of_def], of len w] 1 w(1)
    have lw: "val len = w" by simp
    then have range: "unat (val start) < 2 ^ 64" "32 dvd unat w" using range w by (auto simp: hash_range_ok_def)
    let ?dat = "map (\<lambda>i. memory s (val start + of_nat i)) [0..<unat w]"
    have v: "keccak_result C s (val start) (val len) = hash (c_env C) ?dat"
      using keccak_value [OF range(1) w(2)] lw by simp
    have "\<not> 128 < w" using w(2) by simp
    show ?thesis unfolding w(1) option.case if_not_P [OF \<open>\<not> 128 < w\<close>]
    proof (rule yields_bind [OF yields_weaken [OF yields_mapK [OF d, where g = "\<lambda>i. readMemoryWord (val start + i) s"]]], goal_cases)
      case (2 x val1 st1)
      then show ?case using yields_word [OF 2(1), of start n x loc] len(1) by (simp add: extends_def)
    next
      case (4 args val1 st1)
      have d1: "describes C val1 st1 s" and view: "view_kept C val (fst st) val1 (fst st1)"
        and args: "\<forall>a \<in> set args. a < class_count st1" using 4 by blast+
      have vals: "val1 start = val start" "val1 len = val len" "start < class_count st1" "len < class_count st1"
        using 4 len by (auto simp: extends_def)
      have "map toBigEndian (map val1 args) = map (\<lambda>i. toBigEndian (readMemoryWord (val start + i) s)) (wordOffsets w)"
        using 4(3) by (simp add: comp_def del: map_eq_conv)
      then have dat: "concat (map (\<lambda>a. toBigEndian (val1 a)) args) = ?dat"
        using memory_words [OF w(2) range(2)] by (simp add: comp_def del: map_eq_conv)
      show ?case
      proof (rule yields_bind [OF yields_get], cases "map_of (m_knownKeccak256Hashes (fst st1)) args", goal_cases)
        case 1
        show ?case unfolding 1 option.case
        proof (rule yields_bind [OF yields_constants], goal_cases)
          case (1 cs)
          show ?case
          proof (rule yields_bind [OF yields_weaken [OF yields_keccak_constants [OF d1 vals(3,4) dat _ _ 1]]], goal_cases)
            case (4 c val2 st2)
            have "map (\<lambda>a. toBigEndian (val2 a)) args = map (\<lambda>a. toBigEndian (val1 a)) args"
              using args 4(1) by (simp add: extends_def)
            then have "describes C val2 ((fst st2)\<lparr>m_knownKeccak256Hashes :=
                map_put args c (m_knownKeccak256Hashes (fst st2))\<rparr>, snd st2) s"
              using 4 args dat by (intro describes_hash) (auto simp del: map_eq_conv)
            moreover have "view_kept C val (fst st) val2 (fst st2)"
              using 4(3) view by (auto intro: view_kept_trans)
            ultimately show ?case using 4(3) v
              by (intro yields_bind [OF yields_modify] yields_ret grows_intro) (auto simp: view_kept_def)
          qed (use v vals in \<open>auto intro!: grows_intro\<close>)
        qed (auto intro!: grows_intro)
      next
        case (2 c)
        then have "c < class_count st1" "val1 c = hash (c_env C) ?dat"
          using d1 dat by (auto simp: describes_def Let_def hashes_ok_def dest!: map_of_SomeD)
        then show ?case unfolding 2 option.case using d1 view v by (intro yields_ret) simp
      qed (auto intro!: grows_intro split: option.split)
    qed (auto intro!: grows_intro split: option.split)
  qed
qed (auto intro!: grows_intro split: option.split)

section \<open>Operations\<close>

lemma deposit_op:
  "m_type it = Operation \<Longrightarrow>
   item_deposit it = int (ii_ret (instructionInfo (m_instruction it))) - int (ii_args (instructionInfo (m_instruction it)))"
  by (simp add: item_deposit_def item_returnValues_def item_arguments_def)

lemma dup_deposit: "isDupInstruction i \<Longrightarrow> ii_ret (instructionInfo i) = ii_args (instructionInfo i) + 1"
proof -
  assume "isDupInstruction i"
  then have "128 \<le> unat i" "unat i \<le> 143" by (auto simp: group_ranges)
  then have "i \<in> set [DUP1, DUP2, DUP3, DUP4, DUP5, DUP6, DUP7, DUP8, DUP9, DUP10, DUP11, DUP12, DUP13, DUP14, DUP15, DUP16]"
    by (simp add: word_unat_eq_iff) presburger
  then show ?thesis by (auto simp: instructionInfo_eqs)
qed

lemma swap_deposit: "isSwapInstruction i \<Longrightarrow> ii_ret (instructionInfo i) = ii_args (instructionInfo i)"
proof -
  assume "isSwapInstruction i"
  then have "144 \<le> unat i" "unat i \<le> 159" by (auto simp: group_ranges)
  then have "i \<in> set [SWAP1, SWAP2, SWAP3, SWAP4, SWAP5, SWAP6, SWAP7, SWAP8, SWAP9, SWAP10, SWAP11, SWAP12, SWAP13,
      SWAP14, SWAP15, SWAP16]"
    by (simp add: word_unat_eq_iff) presburger
  then show ?thesis by (auto simp: instructionInfo_eqs)
qed

text \<open>The known state after an operation, before its height is adjusted by \<open>dep\<close>.\<close>

definition stepped ::
  "block_context \<Rightarrow> kstate \<Rightarrow> interpreter_state \<Rightarrow> u256 list \<Rightarrow> int \<Rightarrow> (nat \<Rightarrow> u256) \<Rightarrow> kstate \<Rightarrow> bool" where
  "stepped C st s' stk' dep val' st' \<longleftrightarrow>
     (\<exists>C'. same_block C C' \<and> describes C' val' st' s') \<and> m_stackHeight (fst st') = m_stackHeight (fst st) \<and>
     (\<forall>j < length stk'. slot_value (c_unassigned C) val' (fst st') (m_stackHeight (fst st) + dep - int j) = stk' ! j)"

lemma stepped_push:
  assumes "describes C' val' st' s'" "same_block C C'" "m_stackHeight (fst st') = m_stackHeight (fst st)"
    and stk: "describes_stack C val (fst st) stk" "n \<le> length stk" "dep = 1 - int n"
    and view: "slot_value (c_unassigned C) val' (fst st') =
      (slot_value (c_unassigned C) val (fst st))(m_stackHeight (fst st) + dep := v)"
  shows "stepped C st s' (v # drop n stk) dep val' st'"
proof -
  let ?h = "m_stackHeight (fst st)"
  have "slot_value (c_unassigned C) val' (fst st') (?h + dep - int j) = (v # drop n stk) ! j"
    if "j < length (v # drop n stk)" for j
  proof (cases j)
    case (Suc k)
    then have "?h + dep - int j = ?h - int (n + k)" "n + k < length stk" using that stk(2,3) by auto
    moreover from this have "slot_value (c_unassigned C) val (fst st) (?h - int (n + k)) = stk ! (n + k)"
      using stk(1) by (simp only: describes_stack_def)
    ultimately show ?thesis using Suc stk(2,3) by (simp only: view) simp
  qed (simp add: view)
  then show ?thesis using assms(1-3) unfolding stepped_def by blast
qed

lemma stepped_drop:
  assumes "describes C' val' st' s'" "same_block C C'" "m_stackHeight (fst st') = m_stackHeight (fst st)"
    and stk: "describes_stack C val (fst st) stk" "dep = - int n"
    and view: "slot_value (c_unassigned C) val' (fst st') = slot_value (c_unassigned C) val (fst st)"
  shows "stepped C st s' (drop n stk) dep val' st'"
proof -
  have "slot_value (c_unassigned C) val' (fst st') (m_stackHeight (fst st) + dep - int j) = drop n stk ! j"
    if "j < length (drop n stk)" for j
    using stk(1) [unfolded describes_stack_def, rule_format, of "n + j"] that by (simp add: view stk(2) algebra_simps)
  then show ?thesis using assms(1-3) unfolding stepped_def by blast
qed

text \<open>The result of an operation is put at its new height.\<close>

lemma yields_result_set:
  assumes "describes C' val' st' s'" "same_block C C'" "m_stackHeight (fst st') = m_stackHeight (fst st)"
    and stk: "describes_stack C val (fst st) stk" "n \<le> length stk" "dep = 1 - int n"
    and view: "slot_value (c_unassigned C) val' (fst st') = slot_value (c_unassigned C) val (fst st)"
    and c: "c < class_count st'"
  shows "yields val' st' (setStackElement (m_stackHeight (fst st) + dep) c)
      (\<lambda>_ val'' st''. stepped C st s' (val' c # drop n stk) dep val'' st'')"
    and "yields val' st' (bindK (setStackElement (m_stackHeight (fst st) + dep) c) (\<lambda>_. retK noStore))
      (\<lambda>op val'' st''. stepped C st s' (val' c # drop n stk) dep val'' st'')"
proof -
  have "stepped C st s' (val' c # drop n stk) dep val'
      ((fst st')\<lparr>m_stackElements := map_put (m_stackHeight (fst st) + dep) c (m_stackElements (fst st'))\<rparr>, snd st')"
    by (rule stepped_push [OF describes_set [OF assms(1) c] assms(2) _ stk]) (simp_all add: assms(3) slot_value_set view)
  then show "yields val' st' (setStackElement (m_stackHeight (fst st) + dep) c)
      (\<lambda>_ val'' st''. stepped C st s' (val' c # drop n stk) dep val'' st'')"
    and "yields val' st' (bindK (setStackElement (m_stackHeight (fst st) + dep) c) (\<lambda>_. retK noStore))
      (\<lambda>op val'' st''. stepped C st s' (val' c # drop n stk) dep val'' st'')"
    unfolding setStackElement_def by (intro yields_bind yields_modify yields_ret grows_intro; assumption)+
qed

lemma grows_swap [grows_intro]: "grows (swapStackElements n a b loc)"
  unfolding swapStackElements_def by (auto intro!: grows_intro)

lemma yields_dup:
  assumes d: "describes C val st s" "describes_stack C val (fst st) stk"
    and i: "isDupInstruction i" "op_step env i stk s = Continue stk' s'"
  shows "yields val st (bindK (stackElement n (m_stackHeight (fst st) - uint i + uint DUP1) loc) (\<lambda>c.
      bindK (setStackElement (m_stackHeight (fst st) + 1) c) (\<lambda>_. retK noStore)))
    (\<lambda>op val' st'. stepped C st s' stk' 1 val' st')"
proof -
  let ?h = "m_stackHeight (fst st)" and ?m = "unat i - 128"
  have stk: "?m < length stk" "stk' = stk ! ?m # stk" "s' = s"
    using i by (auto simp: op_step_dup group_ranges split: if_splits)
  have "?h - uint i + uint DUP1 = ?h - int ?m"
    using i(1) by (simp add: group_ranges uint_nat del: of_nat_unat)
  then have slot: "slot_value (c_unassigned C) val (fst st) (?h - uint i + uint DUP1) = stk ! ?m"
    using d(2) stk(1) by (simp only: describes_stack_def)
  show ?thesis
  proof (rule yields_bind [OF yields_weaken [OF yields_stackElement [OF d(1)]]], goal_cases)
    case (2 c val' st')
    then show ?case
      using yields_result_set(2) [of C val' st' s C st val stk 0 1 c] d(2) slot stk by (simp add: view_kept_def)
  qed (auto intro!: grows_intro)
qed

lemma yields_swap:
  assumes d: "describes C val st s" "describes_stack C val (fst st) stk"
    and i: "isSwapInstruction i" "op_step env i stk s = Continue stk' s'"
  shows "yields val st (swapStackElements n (m_stackHeight (fst st)) (m_stackHeight (fst st) - 1 - uint i + uint SWAP1) loc)
    (\<lambda>op val' st'. stepped C st s' stk' 0 val' st')"
proof -
  define m where "m = unat i - 143"
  let ?h = "m_stackHeight (fst st)" and ?un = "c_unassigned C"
  have stk: "m < length stk" "stk' = stk[0 := stk ! m, m := stk ! 0]" "s' = s" "0 < m"
    using i by (auto simp: op_step_swap group_ranges m_def split: if_splits)
  have b: "?h - 1 - uint i + uint SWAP1 = ?h - int m"
    using i(1) by (simp add: m_def group_ranges uint_nat del: of_nat_unat)
  have slots: "slot_value ?un val (fst st) (?h - int j) = stk ! j" if "j < length stk" for j
    using d(2) that by (simp add: describes_stack_def)
  have slot0: "slot_value ?un val (fst st) ?h = stk ! 0" using slots [of 0] stk(1) by (cases stk) auto
  show ?thesis unfolding b swapStackElements_def
  proof (rule yields_bind [OF yields_assert], rule yields_bind [OF yields_weaken [OF yields_stackElement [OF d(1)]]], goal_cases)
    case (2 ca val1 st1)
    then have d1: "describes C val1 st1 s" by blast
    show ?case
    proof (rule yields_bind [OF yields_weaken [OF yields_stackElement [OF d1]]], goal_cases)
      case (2 cb val2 st2)
      let ?e = "map_put (?h - int m) ca (map_put ?h cb (m_stackElements (fst st2)))"
      have c: "ca < class_count st2" "cb < class_count st2" "val2 ca = stk ! 0" "val2 cb = stk ! m"
        using 2 \<open>describes C val1 st1 s \<and> _\<close> slots stk(1) slot0 by (auto simp: extends_def view_kept_def)
      have "describes C val2 ((fst st2)\<lparr>m_stackElements := ?e\<rparr>, snd st2) s"
        using 2 c describes_set [of C val2 st2 s cb ?h]
          describes_set [of C val2 "((fst st2)\<lparr>m_stackElements := map_put ?h cb (m_stackElements (fst st2))\<rparr>, snd st2)" s ca]
        by simp
      moreover have "slot_value ?un val2 (fst st2) = slot_value ?un val (fst st)" "m_stackHeight (fst st2) = ?h"
        using 2(3) \<open>describes C val1 st1 s \<and> _\<close> by (auto simp: view_kept_def)
      moreover have "slot_value ?un val2 ((fst st2)\<lparr>m_stackElements := ?e\<rparr>) (?h - int j) = stk' ! j"
        if "j < length stk'" for j
      proof -
        have e: "slot_value ?un val2 ((fst st2)\<lparr>m_stackElements := ?e\<rparr>) =
            (slot_value ?un val2 (fst st2))(?h := stk ! m, ?h - int m := stk ! 0)"
          using c by (auto simp: slot_value_def fun_eq_iff)
        show ?thesis unfolding e calculation(2) stk(2) using that slots [of j] stk by (auto simp: nth_list_update)
      qed
      ultimately show ?case unfolding setStackElement_def stk(3)
        by (intro yields_bind [OF yields_modify] yields_modify grows_intro)
          (auto simp: stepped_def intro!: exI [of _ C])
    qed (auto intro!: grows_intro)
  qed (auto intro!: grows_intro)
qed

text \<open>The step of the other operations.\<close>

lemma op_step_Continue:
  assumes "op_step env i stk s = Continue stk' s'" "\<not> isDupInstruction i" "\<not> isSwapInstruction i"
  shows "ii_args (instructionInfo i) \<le> length stk \<and> ii_ret (instructionInfo i) \<le> 1 \<and>
    (\<exists>v. stk' = (if ii_ret (instructionInfo i) = 0 then drop (ii_args (instructionInfo i)) stk
       else v # drop (ii_args (instructionInfo i)) stk) \<and>
     (i \<in> {JUMPDEST, JUMPI} \<and> s' = s \<or>
      eval (hash env) i (take (ii_args (instructionInfo i)) stk) s = (Inr v, s')))"
proof (cases "i = JUMPDEST \<or> i = JUMP \<or> i = JUMPI")
  case True
  then show ?thesis using assms
    by (auto simp: op_step_def instructionInfo_eqs split: list.splits if_splits)
next
  case False
  then have "isValidInstruction i" using assms by (auto simp: op_step_def split: if_splits)
  then show ?thesis using assms False info_ret_le_1 [of i]
    by (auto simp: op_step_def Let_def split: if_splits prod.splits sum.splits)
qed

text \<open>An opcode that invalidates memory or storage gets a new sequence number.\<close>

definition invalidate :: "instruction \<Rightarrow> known_state \<Rightarrow> known_state" where
  "invalidate i ks =
     (let ks1 = (if invalidatesMemory i then resetMemory ks else ks);
          ks2 = (if invalidatesStorage i then resetStorage ks1 else ks1)
      in if invalidatesMemory i \<or> invalidatesStorage i then ks2\<lparr>m_sequenceNumber := m_sequenceNumber ks2 + 2\<rparr> else ks2)"

lemma invalidate_view:
  "slot_value un val (invalidate i ks) = slot_value un val ks" "m_stackHeight (invalidate i ks) = m_stackHeight ks"
  by (auto simp: invalidate_def Let_def resetMemory_def resetStorage_def)

lemma invalidate_describes:
  assumes d: "describes C val st s" and kept: "state_kept i s s'"
  shows "\<exists>C'. same_block C C' \<and> describes C' val (invalidate i (fst st), snd st) s'"
proof -
  have env: "same_env (c_start C) s'"
    using same_env_trans [OF describes_contents(3) [OF d]] kept by (simp add: state_kept_def)
  show ?thesis
  proof (cases "invalidatesMemory i \<or> invalidatesStorage i")
    case True
    let ?q = "m_sequenceNumber (fst st) + 2"
    let ?sc = "if invalidatesStorage i then [] else m_storageContent (fst st)"
    let ?mc = "if invalidatesMemory i then [] else m_memoryContent (fst st)"
    have "content_ok val (class_count st) (storage s') ?sc"
      using describes_contents(1) [OF d] kept by (auto simp: content_ok_def state_kept_def invalidatesStorage_def)
    moreover have "content_ok val (class_count st) (\<lambda>a. readMemoryWord a s') ?mc"
      using describes_contents(2) [OF d] kept readMemoryWord_cong [of s' s]
      by (auto simp: content_ok_def state_kept_def)
    ultimately have "describes (advance C ?q s') val
        ((fst st)\<lparr>m_storageContent := ?sc, m_memoryContent := ?mc, m_sequenceNumber := ?q\<rparr>, snd st) s'"
      by (intro describes_advance [OF d _ env]) simp_all
    moreover have "invalidate i (fst st) = (fst st)\<lparr>m_storageContent := ?sc, m_memoryContent := ?mc, m_sequenceNumber := ?q\<rparr>"
      using True by (auto simp: invalidate_def Let_def resetMemory_def resetStorage_def)
    ultimately show ?thesis by (intro exI [of _ "advance C ?q s'"]) simp
  next
    case False
    then show ?thesis using describes_state [OF d _ _ env] kept
      by (intro exI [of _ C]) (auto simp: invalidate_def state_kept_def invalidatesStorage_def)
  qed
qed

lemma feedOther_eq:
  "feedOther n it arguments =
     (let i = m_instruction it; row = instructionInfo i in
      bindK (modifyK (invalidate i)) (\<lambda>_.
      bindK (assertK (ii_ret row \<le> 1) InvalidDeposit) (\<lambda>_.
        if ii_ret row = 1
        then bindK (getK m_stackHeight) (\<lambda>h.
          bindK (find_item n it arguments 0) (\<lambda>c. setStackElement (h + item_deposit it) c))
        else retK ())))"
  by (rule ext) (simp add: feedOther_def invalidate_def Let_def incSequenceNumber_def)

lemma yields_feedOther:
  assumes d: "describes C val st s" "describes_stack C val (fst st) stk"
    and args: "\<forall>a \<in> set arguments. a < class_count st"
      "map val arguments = take (ii_args (instructionInfo (m_instruction it))) stk"
    and it: "m_type it = Operation" "m_instruction it \<notin> {SLOAD, MLOAD, KECCAK256}"
      "\<not> isDupInstruction (m_instruction it)" "\<not> isSwapInstruction (m_instruction it)"
    and step: "op_step (c_env C) (m_instruction it) stk s = Continue stk' s'"
  shows "yields val st (feedOther n it arguments) (\<lambda>_ val' st'. stepped C st s' stk' (item_deposit it) val' st')"
proof -
  let ?i = "m_instruction it" and ?un = "c_unassigned C"
  let ?n = "ii_args (instructionInfo ?i)"
  obtain v where n: "?n \<le> length stk" "ii_ret (instructionInfo ?i) \<le> 1"
    and stk': "stk' = (if ii_ret (instructionInfo ?i) = 0 then drop ?n stk else v # drop ?n stk)"
    and ev: "?i \<in> {JUMPDEST, JUMPI} \<and> s' = s \<or> eval (hash (c_env C)) ?i (take ?n stk) s = (Inr v, s')"
    using op_step_Continue [OF step it(3,4)] by blast
  have "state_kept ?i s s'" using ev eval_kept [of ?i s "hash (c_env C)" "take ?n stk"] by (auto simp: state_kept_def)
  then obtain C' where C': "same_block C C'" "describes C' val (invalidate ?i (fst st), snd st) s'"
    using invalidate_describes [OF d(1)] by blast
  show ?thesis unfolding feedOther_eq Let_def
  proof (rule yields_bind [OF yields_modify], rule yields_bind [OF yields_assert], goal_cases)
    case 1
    show ?case
    proof (cases "ii_ret (instructionInfo ?i) = 1")
      case False
      then have "ii_ret (instructionInfo ?i) = 0" using n(2) by simp
      then show ?thesis using C' stk' it(1) d(2)
        by (auto intro!: yields_ret stepped_drop simp: invalidate_view deposit_op)
    next
      case True
      then have ev: "eval (hash (c_env C)) ?i (take ?n stk) s = (Inr v, s')"
        using ev by (auto simp: instructionInfo_eqs)
      have "same_env (c_start C') s" using describes_contents(3) [OF d(1)] C'(1) by (simp add: same_block_def)
      from eval_value [OF this _ _ ev, of "c_memory C' 0" "c_storage C' 0"]
      have m: "meaning_of C' (m_sequenceNumber (fst (invalidate ?i (fst st), snd st))) it (map val arguments) 0 v"
        using it(1,2) n(1) C'(1) args(2)
        by (auto simp: meaning_of_def machine_meaning_def state_opcodes_def same_block_def)
      show ?thesis unfolding if_P [OF True]
      proof (rule yields_bind [OF yields_get], rule yields_bind [OF yields_weaken [OF yields_find [OF C'(2) _ m]]], goal_cases)
        case (3 c val' st')
        then show ?case
          using yields_result_set(1) [of C' val' st' s' C st val stk ?n "item_deposit it" c] C'(1) d(2) n(1) True stk' it(1)
          by (auto simp: view_kept_def invalidate_view deposit_op same_block_def)
      qed (use args(1) in \<open>auto intro!: grows_intro\<close>)
    qed
  qed (auto intro!: grows_intro)
qed

lemma eval_stores:
  "eval k SSTORE [a, b] s = (Inr 0, s\<lparr>storage := (storage s)(a := b)\<rparr>)"
  "eval k SLOAD [a] s = (Inr (storage s a), s)"
  "eval k MSTORE [a, b] s = (Inr 0, writeMemoryWord a b (snd (accessMemory a 32 s)))"
  "eval k MLOAD [a] s = (Inr (readMemoryWord a s), snd (accessMemory a 32 s))"
  using readMemoryWord_cong [of "snd (accessMemory a 32 s)" s a]
  by (simp_all add: eval_parts instructionInfo_eqs Let_def)

lemma stepped_view:
  "view_kept C val (fst st) val1 (fst st1) \<Longrightarrow> stepped C st1 s' stk' dep val' st' \<longleftrightarrow> stepped C st s' stk' dep val' st'"
  by (simp add: stepped_def view_kept_def)

lemma describes_stack_view:
  "view_kept C val (fst st) val1 (fst st1) \<Longrightarrow> describes_stack C val (fst st) stk \<Longrightarrow> describes_stack C val1 (fst st1) stk"
  by (simp add: describes_stack_def view_kept_def)

text \<open>A result computed without a change of memory or storage, put on the stack.\<close>

lemma yields_computed:
  assumes f: "yields val st f (\<lambda>c val' st'. describes C val' st' s \<and> view_kept C val (fst st) val' (fst st') \<and>
      c < class_count st' \<and> val' c = v)" "grows f"
    and d: "describes C val st s" "describes_stack C val (fst st) stk" "n \<le> length stk" "dep = 1 - int n"
    and s': "state_kept i s s'" "\<not> invalidatesMemory i" "i \<noteq> SSTORE"
  shows "yields val st (bindK f (\<lambda>c. bindK (setStackElement (m_stackHeight (fst st) + dep) c) (\<lambda>_. retK noStore)))
    (\<lambda>op val' st'. stepped C st s' (v # drop n stk) dep val' st')"
proof (rule yields_bind [OF yields_weaken [OF f]], goal_cases)
  case (1 c val' st')
  then have d': "describes C val' st' s'"
    using s' same_env_trans [OF describes_contents(3) [OF d(1)]]
    by (intro describes_state [of C val' st' s s']) (auto simp: state_kept_def)
  have "yields val' st' (bindK (setStackElement (m_stackHeight (fst st) + dep) c) (\<lambda>_. retK noStore))
      (\<lambda>op val'' st''. stepped C st s' (val' c # drop n stk) dep val'' st'')"
    by (rule yields_result_set(2) [OF d' _ _ d(2-4)]) (use 1(3) in \<open>auto simp: view_kept_def\<close>)
  then show ?case using 1(3) by simp
qed (use f(2) in \<open>auto intro!: grows_intro\<close>)

lemma stepped_carried:
  "carried C val st s' val' st' \<Longrightarrow> describes_stack C val (fst st) stk \<Longrightarrow> dep = - int n \<Longrightarrow>
   stepped C st s' (drop n stk) dep val' st'"
  unfolding carried_def by (elim conjE exE, rule stepped_drop; simp)

lemma grows_stores [grows_intro]:
  "grows (storeInStorage n slot v loc)" "grows (storeInMemory n slot v loc)" "grows (feedOther n it arguments)"
  unfolding storeInStorage_def storeInMemory_def feedOther_eq Let_def
  by (auto intro!: grows_intro)

lemma yields_operation:
  assumes d: "describes C val st s" "describes_stack C val (fst st) stk"
    and args: "\<forall>a \<in> set arguments. a < class_count st"
      "map val arguments = take (ii_args (instructionInfo (m_instruction it))) stk"
    and it: "m_type it = Operation" "\<not> isDupInstruction (m_instruction it)" "\<not> isSwapInstruction (m_instruction it)"
    and step: "op_step (c_env C) (m_instruction it) stk s = Continue stk' s'"
    and range: "m_instruction it = KECCAK256 \<Longrightarrow> hash_range_ok (stk ! 0) (stk ! 1)"
    and h: "h = m_stackHeight (fst st)"
  shows "yields val st
    (if m_instruction it = SSTORE then storeInStorage n (arguments ! 0) (arguments ! 1) loc
     else if m_instruction it = SLOAD then
       bindK (loadFromStorage n (arguments ! 0) loc) (\<lambda>c. bindK (setStackElement (h + item_deposit it) c) (\<lambda>_. retK noStore))
     else if m_instruction it = MSTORE then storeInMemory n (arguments ! 0) (arguments ! 1) loc
     else if m_instruction it = MLOAD then
       bindK (loadFromMemory n (arguments ! 0) loc) (\<lambda>c. bindK (setStackElement (h + item_deposit it) c) (\<lambda>_. retK noStore))
     else if m_instruction it = KECCAK256 then
       bindK (applyKeccak256 (hash (c_env C)) n (arguments ! 0) (arguments ! 1) loc) (\<lambda>c.
       bindK (setStackElement (h + item_deposit it) c) (\<lambda>_. retK noStore))
     else bindK (feedOther n it arguments) (\<lambda>_. retK noStore))
    (\<lambda>op val' st'. stepped C st s' stk' (item_deposit it) val' st')"
proof -
  let ?i = "m_instruction it"
  let ?n = "ii_args (instructionInfo ?i)"
  obtain v where n: "?n \<le> length stk"
    and stk': "stk' = (if ii_ret (instructionInfo ?i) = 0 then drop ?n stk else v # drop ?n stk)"
    and ev: "?i \<in> {JUMPDEST, JUMPI} \<and> s' = s \<or> eval (hash (c_env C)) ?i (take ?n stk) s = (Inr v, s')"
    using op_step_Continue [OF step it(2,3)] by blast
  have len: "length arguments = ?n" using args(2) n by (metis length_map length_take min.absorb2)
  have vals: "val (arguments ! k) = stk ! k" "arguments ! k < class_count st" if "k < ?n" for k
  proof -
    have "map val arguments ! k = stk ! k" using that n by (simp add: args(2))
    then show "val (arguments ! k) = stk ! k" using that len by simp
    show "arguments ! k < class_count st" using args(1) that len by simp
  qed
  have take: "take 2 stk = [stk ! 0, stk ! 1]" if "2 \<le> length stk"
    using that by (cases stk; cases "tl stk") auto
  have take1: "take 1 stk = [stk ! 0]" if "1 \<le> length stk"
    using that by (cases stk) auto
  have kept: "state_kept ?i s s'" using ev eval_kept [of ?i s "hash (c_env C)" "take ?n stk"] by (auto simp: state_kept_def)
  have put: "yields val st (bindK f (\<lambda>c. bindK (setStackElement (h + item_deposit it) c) (\<lambda>_. retK noStore)))
      (\<lambda>op val' st'. stepped C st s' stk' (item_deposit it) val' st')"
    if "yields val st f (\<lambda>c val' st'. describes C val' st' s \<and> view_kept C val (fst st) val' (fst st') \<and>
        c < class_count st' \<and> val' c = v)" "grows f" "ii_ret (instructionInfo ?i) = 1" "\<not> invalidatesMemory ?i" "?i \<noteq> SSTORE" for f
    using yields_computed [OF that(1,2) d n _ kept that(4,5), of "item_deposit it"] that(3) stk' it(1)
    unfolding h by (simp add: deposit_op)
  consider "?i = SSTORE" | "?i = SLOAD" | "?i = MSTORE" | "?i = MLOAD" | "?i = KECCAK256"
    | "?i \<notin> {SSTORE, SLOAD, MSTORE, MLOAD, KECCAK256}" by blast
  then show ?thesis
  proof cases
    case 1
    then have k: "0 < ?n" "1 < ?n" and e: "s' = s\<lparr>storage := (storage s)(stk ! 0 := stk ! 1)\<rparr>" "stk' = drop 2 stk"
        "item_deposit it = - int 2"
      using ev stk' n take it(1) by (auto simp: instructionInfo_eqs eval_stores deposit_op)
    show ?thesis unfolding if_P [OF 1] e
      by (rule yields_weaken [OF yields_storeInStorage [OF d(1) vals(2) [OF k(1)] vals(2) [OF k(2)]]])
        (use d(2) vals(1) k in \<open>auto intro!: grows_intro stepped_carried\<close>)
  next
    case 2
    then have k: "0 < ?n" and v: "v = storage s (val (arguments ! 0))"
      using ev n take1 vals(1) [of 0] by (auto simp: instructionInfo_eqs eval_stores)
    show ?thesis using 2 put [OF yields_loadFromStorage [OF d(1) vals(2) [OF k], folded v], of n loc]
      by (simp add: grows_intro instructionInfo_eqs invalidatesMemory_def)
  next
    case 3
    then have k: "0 < ?n" "1 < ?n" and e: "s' = writeMemoryWord (stk ! 0) (stk ! 1) (snd (accessMemory (stk ! 0) 32 s))"
        "stk' = drop 2 stk" "item_deposit it = - int 2"
      using ev stk' n take it(1) by (auto simp: instructionInfo_eqs eval_stores deposit_op)
    have "memory s' = memory (writeMemoryWord (val (arguments ! 0)) (val (arguments ! 1)) s)" "storage s' = storage s"
        "same_env s s'"
      using vals(1) k by (simp_all add: e(1) writeMemoryWord_eq cong: if_cong)
    note store = yields_storeInMemory [OF d(1) vals(2) [OF k(1)] vals(2) [OF k(2)] this]
    have "yields val st (storeInMemory n (arguments ! 0) (arguments ! 1) loc)
        (\<lambda>op val' st'. stepped C st s' stk' (item_deposit it) val' st')"
      unfolding e(2,3) by (rule yields_weaken [OF store]) (use d(2) in \<open>auto intro!: grows_intro stepped_carried\<close>)
    then show ?thesis using 3 by simp
  next
    case 4
    then have k: "0 < ?n" and v: "v = readMemoryWord (val (arguments ! 0)) s"
      using ev n take1 vals(1) [of 0] by (auto simp: instructionInfo_eqs eval_stores)
    show ?thesis using 4 put [OF yields_loadFromMemory [OF d(1) vals(2) [OF k], folded v], of n loc]
      by (simp add: grows_intro instructionInfo_eqs invalidatesMemory_def)
  next
    case 5
    then have k: "0 < ?n" "1 < ?n" "?n = 2" by (simp_all add: instructionInfo_eqs)
    have range: "hash_range_ok (val (arguments ! 0)) (val (arguments ! 1))" using range [OF 5] vals(1) k by simp
    have "eval (hash (c_env C)) KECCAK256 [stk ! 0, stk ! 1] s = (Inr v, s')"
      using ev 5 k(3) take n by auto
    from eval_value [OF describes_contents(3) [OF d(1)] _ _ this, of "memory s" "storage s"]
    have v: "v = keccak_result C s (val (arguments ! 0)) (val (arguments ! 1))" using vals(1) k by simp
    show ?thesis using 5 put [OF yields_applyKeccak256 [OF d(1) vals(2) [OF k(1)] vals(2) [OF k(2)] range, folded v], of n loc]
      by (simp add: grows_intro instructionInfo_eqs invalidatesMemory_def)
  next
    case 6
    then have "yields val st (feedOther n it arguments) (\<lambda>_ val' st'. stepped C st s' stk' (item_deposit it) val' st')"
      using yields_feedOther [OF d args it(1) _ it(2,3) step, of n] by blast
    then have "yields val st (bindK (feedOther n it arguments) (\<lambda>_. retK noStore))
        (\<lambda>_ val' st'. stepped C st s' stk' (item_deposit it) val' st')"
      by (rule yields_bind [OF yields_weaken]) (auto intro!: yields_ret grows_intro)
    then show ?thesis using 6 by simp
  qed
qed

lemma yields_feedOperation:
  assumes d: "describes C val st s" "describes_stack C val (fst st) stk"
    and it: "m_type it = Operation"
    and step: "op_step (c_env C) (m_instruction it) stk s = Continue stk' s'"
    and range: "m_instruction it = KECCAK256 \<Longrightarrow> hash_range_ok (stk ! 0) (stk ! 1)"
  shows "yields val st (feedOperation (hash (c_env C)) n it) (\<lambda>op val' st'. stepped C st s' stk' (item_deposit it) val' st')"
  unfolding feedOperation_def Let_def
proof (rule yields_bind [OF yields_get], goal_cases)
  let ?i = "m_instruction it" and ?h = "m_stackHeight (fst st)"
  case 1
  consider "isDupInstruction ?i" | "isSwapInstruction ?i" "\<not> isDupInstruction ?i"
    | "\<not> isDupInstruction ?i" "\<not> isSwapInstruction ?i" by blast
  then show ?case
  proof cases
    case 1
    then have "item_isDup it" "item_deposit it = 1" using it dup_deposit [OF 1] by (auto simp: item_isDup_def deposit_op)
    then show ?thesis using yields_dup [OF d 1 step, of n "m_location it"] by simp
  next
    case 2
    then have e: "item_isSwap it" "\<not> item_isDup it" "item_deposit it = 0"
      using it swap_deposit [OF 2(1)] by (auto simp: item_isDup_def item_isSwap_def deposit_op)
    have "yields val st (bindK (swapStackElements n ?h (?h - 1 - uint ?i + uint SWAP1) (m_location it)) (\<lambda>_. retK noStore))
        (\<lambda>op val' st'. stepped C st s' stk' 0 val' st')"
      by (rule yields_bind [OF yields_weaken [OF yields_swap [OF d 2(1) step]]]) (auto intro!: yields_ret grows_intro)
    then show ?thesis using e by simp
  next
    case 3
    then have e: "\<not> item_isSwap it" "\<not> item_isDup it" by (simp_all add: item_isDup_def item_isSwap_def)
    show ?thesis
    proof (cases "?i = POP")
      case True
      then have "s' = s" "stk' = drop 1 stk" "item_deposit it = - int 1"
        using step it by (auto simp: op_step_POP deposit_op instructionInfo_eqs split: list.splits)
      then show ?thesis using True e d by (auto intro!: yields_ret stepped_drop [of C])
    next
      case False
      let ?n = "ii_args (instructionInfo ?i)"
      have n: "?n \<le> length stk" using op_step_Continue [OF step 3] by blast
      have slots: "map (\<lambda>k. slot_value (c_unassigned C) val (fst st) (?h - int k)) [0..<?n] = take ?n stk"
        using d(2) n by (intro nth_equalityI) (auto simp: describes_stack_def)
      show ?thesis
        unfolding if_not_P [OF e(1)] if_not_P [OF e(2)] if_P [OF False]
      proof (rule yields_bind [OF yields_weaken [OF yields_arguments [OF d(1)]]], goal_cases)
        case (2 cs val1 st1)
        then have d1: "describes C val1 st1 s" and view: "view_kept C val (fst st) val1 (fst st1)"
          and cs: "\<forall>c \<in> set cs. c < class_count st1" "map val1 cs = take ?n stk" using slots by auto
        have h: "?h = m_stackHeight (fst st1)" using view by (simp add: view_kept_def)
        show ?case
          using yields_operation [OF d1 describes_stack_view [OF view d(2)] cs it 3 step range h, of n "m_location it"]
          unfolding stepped_view [OF view] .
      qed (auto intro!: grows_intro)
    qed
  qed
qed (auto intro!: grows_intro)

section \<open>Items\<close>

text \<open>
  What the soundness of an item needs: no assignment of an immutable (it ends a block), a pushed
  value that is the one the machine pushes where the assembler has recorded it, and a range of
  memory to hash on which the cache of hashes can be trusted.
\<close>

definition feedable :: "machine_env \<Rightarrow> assembly_item \<Rightarrow> u256 list \<Rightarrow> bool" where
  "feedable env it stk \<longleftrightarrow>
     m_type it \<noteq> AssignImmutable \<and>
     (\<forall>v. m_pushedValue it = Some v \<longrightarrow> (if m_type it = Push then v = m_data it else v = pushed_value env (m_type it) (m_data it))) \<and>
     (item_is it KECCAK256 \<longrightarrow> hash_range_ok (stk ! 0) (stk ! 1))"

lemma map_of_filter_key: "map_of (filter (\<lambda>(k, c). k \<le> h) es) k = (if k \<le> (h :: int) then map_of es k else None)"
  by (induction es) auto

lemma grows_feed [grows_intro]: "grows (feedOperation keccak n it)" "grows (dropAbove h)"
  unfolding feedOperation_def Let_def dropAbove_def by (auto intro!: grows_intro)

lemma describes_less:
  assumes "describes C val st s" "set es \<subseteq> set (m_stackElements (fst st))"
  shows "describes C val ((fst st)\<lparr>m_stackElements := es, m_stackHeight := h\<rparr>, snd st) s"
  using assms by (auto simp: describes_def Let_def)

lemma describes_stack_block: "same_block C C' \<Longrightarrow> describes_stack C' val ks stk \<longleftrightarrow> describes_stack C val ks stk"
  by (simp add: describes_stack_def same_block_def)

abbreviation described ::
  "block_context \<Rightarrow> interpreter_state \<Rightarrow> u256 list \<Rightarrow> (nat \<Rightarrow> u256) \<Rightarrow> kstate \<Rightarrow> bool" where
  "described C s stk val st \<equiv> \<exists>C'. same_block C C' \<and> describes C' val st s \<and> describes_stack C' val (fst st) stk"

lemma yields_feedOp:
  assumes d: "describes C val st s" "describes_stack C val (fst st) stk"
    and it: "m_type it = Operation"
    and step: "op_step (c_env C) (m_instruction it) stk s = Continue stk' s'"
    and range: "m_instruction it = KECCAK256 \<Longrightarrow> hash_range_ok (stk ! 0) (stk ! 1)"
  shows "yields val st (feedOp (hash (c_env C)) n it) (\<lambda>op val' st'. described C s' stk' val' st')"
  unfolding feedOp_def
proof (rule yields_bind [OF yields_weaken [OF yields_feedOperation [OF assms]]], goal_cases)
  case (3 op val' st')
  let ?h = "m_stackHeight (fst st')" and ?dep = "item_deposit it"
  let ?st = "((fst st')\<lparr>m_stackElements := filter (\<lambda>(k, c). k \<le> ?h + ?dep) (m_stackElements (fst st')),
      m_stackHeight := ?h + ?dep\<rparr>, snd st')"
  obtain C' where C': "same_block C C'" "describes C' val' st' s'"
    and slots: "\<forall>j < length stk'. slot_value (c_unassigned C) val' (fst st') (?h + ?dep - int j) = stk' ! j"
    using 3(3) by (auto simp: stepped_def)
  have "describes C' val' ?st s'" using describes_less [OF C'(2)] by auto
  moreover have "describes_stack C' val' (fst ?st) stk'"
    using slots C'(1) unfolding describes_stack_block [OF C'(1)]
    by (auto simp: describes_stack_def slot_value_def map_of_filter_key)
  ultimately show ?case using C'(1) unfolding dropAbove_def
    by (intro yields_bind [OF yields_get] yields_bind [OF yields_modify] yields_ret grows_intro) auto
qed (auto intro!: grows_intro)

lemma yields_feedPush:
  assumes d: "describes C val st s" "describes_stack C val (fst st) stk"
    and it: "m_type it \<notin> {Operation, Tag, AssignImmutable}" "feedable (c_env C) it stk"
    and step: "item_step (c_env C) it stk s = Continue stk' s'"
  shows "yields val st (feedPush n it) (\<lambda>op val' st'. described C s' stk' val' st')"
proof -
  let ?w = "if m_type it = Push then m_data it else pushed_value (c_env C) (m_type it) (m_data it)"
  let ?h = "m_stackHeight (fst st) + 1" and ?st1 = "((fst st)\<lparr>m_stackHeight := m_stackHeight (fst st) + 1\<rparr>, snd st)"
  have s': "stk' = ?w # stk" "s' = s" "m_type it \<noteq> UndefinedItem"
    using it step by (auto simp: item_step_def split: if_splits)
  have d1: "describes C val ?st1 s" using d(1) by (simp add: describes_def Let_def)
  have m: "meaning_of C (m_sequenceNumber (fst ?st1)) it (map val []) 0 ?w"
    "meaning_of C (m_sequenceNumber (fst ?st1)) (mkPush v noLocation) (map val []) 0 v" for v
    using it(1) s'(3) by (auto simp: meaning_of_def machine_meaning_def mkPush_def mkItem_def)
  have pushed: "v = ?w" if "m_pushedValue it = Some v" for v using it that by (auto simp: feedable_def split: if_splits)
  have find: "yields val ?st1 (case m_pushedValue it of Some v \<Rightarrow> find_item n (mkPush v noLocation) [] 0
        | None \<Rightarrow> find_item n it [] 0)
      (\<lambda>c val' st'. describes C val' st' s \<and> fst st' = fst ?st1 \<and> c < class_count st' \<and> val' c = ?w \<and>
        view_kept C val (fst ?st1) val' (fst st'))"
    using pushed yields_find [OF d1 _ m(1), of n] yields_find [OF d1 _ m(2), of n] by (auto split: option.split)
  show ?thesis unfolding feedPush_def
  proof (rule yields_bind [OF yields_assert], rule yields_bind [OF yields_modify], rule yields_bind [OF yields_get],
      rule yields_bind [OF yields_weaken [OF find]], goal_cases)
    case (2 c val' st')
    let ?ks = "(fst st')\<lparr>m_stackElements := map_put ?h c (m_stackElements (fst st'))\<rparr>"
    have final: "describes C val' (?ks, snd st') s" using 2 by (intro describes_set) auto
    have "slot_value (c_unassigned C) val' (fst st') = slot_value (c_unassigned C) val (fst st)"
      using 2(4) unfolding view_kept_def by (metis fst_conv slot_value_update(5))
    then have slots: "slot_value (c_unassigned C) val' ?ks = (slot_value (c_unassigned C) val (fst st))(?h := ?w)"
      using 2(4) by (simp only: slot_value_set)
    have "slot_value (c_unassigned C) val' ?ks (?h - int j) = (?w # stk) ! j" if "j < length (?w # stk)" for j
      using that d(2) unfolding slots by (cases j) (auto simp: describes_stack_def)
    moreover have "m_stackHeight ?ks = ?h" using 2(4) by simp
    ultimately have "describes_stack C val' ?ks (?w # stk)" by (simp only: describes_stack_def) blast
    then show ?case using final unfolding setStackElement_def s'(1,2)
      by (intro yields_bind [OF yields_modify] yields_ret grows_intro exI [of _ C]) auto
  qed (auto intro!: grows_intro split: option.split)
qed

lemma grows_item [grows_intro]: "grows (feedItem keccak n it)"
  unfolding feedItem_def feedOp_def feedPush_def
  by (auto intro!: grows_intro split: option.split)

lemma yields_feedItem:
  assumes d: "describes C val st s" "describes_stack C val (fst st) stk"
    and it: "feedable (c_env C) it stk" and step: "item_step (c_env C) it stk s = Continue stk' s'"
  shows "yields val st (feedItem (hash (c_env C)) n it) (\<lambda>op val' st'. described C s' stk' val' st')"
proof -
  consider "m_type it = Tag" | "m_type it = Operation" | "m_type it \<notin> {Operation, Tag, AssignImmutable}"
    using it by (auto simp: feedable_def)
  then show ?thesis
  proof cases
    case 1
    then have "stk' = stk" "s' = s" using step by (auto simp: item_step_def)
    then show ?thesis using 1 d unfolding feedItem_def if_P [OF 1] by (intro yields_ret exI [of _ C]) simp
  next
    case 2
    then have "op_step (c_env C) (m_instruction it) stk s = Continue stk' s'" using step by (simp add: item_step_def)
    from yields_feedOp [OF d 2 this] show ?thesis
      using 2 it by (simp add: feedItem_def feedable_def item_is_def)
  next
    case 3
    then show ?thesis using yields_feedPush [OF d 3 it step, of n] it by (simp add: feedItem_def feedable_def)
  qed
qed

text \<open>A straight run of items whose side conditions hold on the way.\<close>

fun feedable_block :: "machine_env \<Rightarrow> assembly_items \<Rightarrow> u256 list \<Rightarrow> interpreter_state \<Rightarrow> bool" where
  "feedable_block env [] stk s = True"
| "feedable_block env (it # items) stk s =
     (feedable env it stk \<and>
      (case item_step env it stk s of Continue stk' s' \<Rightarrow> feedable_block env items stk' s' | _ \<Rightarrow> False))"

lemma yields_feedItems:
  assumes "describes C val st s" "describes_stack C val (fst st) stk"
    and "feedable_block (c_env C) items stk s" "steps (c_env C) items stk s = Continue stk' s'"
  shows "yields val st (mapK (feedItem (hash (c_env C)) n) items) (\<lambda>ops val' st'. described C s' stk' val' st')"
  using assms
proof (induction items arbitrary: C val st s stk)
  case Nil
  then show ?case unfolding mapK.simps by (intro yields_ret exI [of _ C]) simp
next
  case (Cons it items)
  then obtain stk1 s1 where step: "item_step (c_env C) it stk s = Continue stk1 s1"
    and rest: "feedable (c_env C) it stk" "feedable_block (c_env C) items stk1 s1"
      "steps (c_env C) items stk1 s1 = Continue stk' s'"
    by (auto split: step_result.splits)
  show ?case unfolding mapK.simps
  proof (rule yields_bind [OF yields_weaken [OF yields_feedItem [OF Cons.prems(1,2) rest(1) step]]], goal_cases)
    case (2 op val1 st1)
    then obtain C1 where C1: "same_block C C1" "describes C1 val1 st1 s1" "describes_stack C1 val1 (fst st1) stk1" by blast
    then have e: "c_env C1 = c_env C" by (simp add: same_block_def)
    have "yields val1 st1 (mapK (feedItem (hash (c_env C1)) n) items) (\<lambda>ops val' st'. described C1 s' stk' val' st')"
      by (rule Cons.IH [OF C1(2,3)]) (use rest e in auto)
    then have "yields val1 st1 (mapK (feedItem (hash (c_env C)) n) items) (\<lambda>ops val' st'. described C s' stk' val' st')"
      unfolding e by (rule yields_weaken) (auto intro!: grows_intro intro: same_block_trans [OF C1(1)])
    then show ?case
      by (rule yields_bind [OF yields_weaken]) (auto intro!: yields_ret grows_intro)
  qed (auto intro!: grows_intro)
qed

text \<open>The state in which the analysis starts describes every state of the machine.\<close>

definition start_context :: "machine_env \<Rightarrow> u256 list \<Rightarrow> interpreter_state \<Rightarrow> block_context" where
  "start_context env stk s =
     \<lparr>c_env = env, c_unassigned = (\<lambda>w. stk ! nat (- sint w)), c_start = s,
      c_memory = (\<lambda>_. memory s), c_storage = (\<lambda>_. storage s)\<rparr>"

lemma start_describes:
  assumes "length stk \<le> 2 ^ 255"
  shows "describes (start_context env stk s) val (initialState, emptyClasses) s"
    and "describes_stack (start_context env stk s) val initialState stk"
proof -
  show "describes (start_context env stk s) val (initialState, emptyClasses) s"
    by (simp add: describes_def start_context_def initialState_def emptyClasses_def classes_sound_def content_ok_def
        hashes_ok_def)
  have "sint (word_of_int (- int j) :: u256) = - int j" if "j < length stk" for j
    using u2s_s2u [of "- int j"] that assms by (simp add: u2s_eq_sint s2u_eq_word_of_int)
  then show "describes_stack (start_context env stk s) val initialState stk"
    by (simp add: describes_stack_def start_context_def slot_value_def initialState_def)
qed

end
