(* ===== verification/RuleWeights.thy ===== *)
theory RuleWeights
  imports SimplificationRules "HOL-Library.Multiset"
begin

text \<open>
  Why simplification ends. Every expression has a weight, a natural number: 1 for a constant and
  more for everything else. The replacement of a rule weighs less than what it replaces, except
  where a rule moves a constant out of a chain of one associative opcode; there the operand that
  moves in must not be a constant, and an earlier rule of the list takes that case.
\<close>

section \<open>Weights\<close>

definition op_weight :: "instruction \<Rightarrow> nat list \<Rightarrow> nat" where
  "op_weight i ws =
     (case ws of
        [] \<Rightarrow> 2
      | [x, y] \<Rightarrow>
          (if i = ADD \<or> i = AND' \<or> i = OR' \<or> i = XOR' then
             (if x = 1 then y + 2 else if y = 1 then x + 2 else 2 * (x + y))
           else if i = MUL then
             (if x = 1 then 2 * y + 3 else if y = 1 then 2 * x + 3 else 4 ^ (x + y))
           else if i = SUB \<or> i = SHL \<or> i = SHR \<or> i = DIV then 2 * (x + y)
           else if i = EQ then x + y + 1
           else x + y + 2)
      | _ \<Rightarrow> sum_list ws + 1)"

fun pattern_weight :: "(nat \<Rightarrow> nat) \<Rightarrow> pattern \<Rightarrow> nat" where
  "pattern_weight b (Pattern t m i v args g) =
     (if g \<noteq> 0 then (if t = Push then 1 else b g + 1)
      else if t = Operation then op_weight i (map (pattern_weight b) args)
      else 1)"

declare pattern_weight.simps [simp del]

lemma pattern_weight_simps [simp]:
  "pattern_weight b (lit v) = 1"
  "pattern_weight b (inst i args) = op_weight i (map (pattern_weight b) args)"
  "pattern_weight b group_A = 1" "pattern_weight b group_B = 1" "pattern_weight b group_C = 1"
  "pattern_weight b group_W = b 4 + 1" "pattern_weight b group_X = b 5 + 1"
  "pattern_weight b group_Y = b 6 + 1" "pattern_weight b group_Z = b 7 + 1"
  by (simp_all add: lit_def inst_def group_defs setMatchGroup_def any_of_def pattern_weight.simps)

text \<open>
  \<open>rule_shrinks P r\<close>: the rule shrinks every expression it matches whose operands satisfy \<open>P\<close>;
  \<open>b g + 1\<close> is the weight of the operand in group \<open>g\<close>.
\<close>

definition rule_shrinks :: "((nat \<Rightarrow> nat) \<Rightarrow> bool) \<Rightarrow> simplification_rule \<Rightarrow> bool" where
  "rule_shrinks P r \<longleftrightarrow>
     (\<forall>b d. P b \<longrightarrow> pattern_weight b (sr_action r d) < pattern_weight b (sr_pattern r))"

abbreviation shrinks :: "simplification_rule \<Rightarrow> bool" where
  "shrinks \<equiv> rule_shrinks (\<lambda>_. True)"

lemma rule_shrinks_rule [simp]:
  "rule_shrinks P (rule p a f) \<longleftrightarrow> (\<forall>b d. P b \<longrightarrow> pattern_weight b (a d) < pattern_weight b p)"
  "rule_shrinks P (rule_if p a f h) \<longleftrightarrow> (\<forall>b d. P b \<longrightarrow> pattern_weight b (a d) < pattern_weight b p)"
  by (simp_all add: rule_shrinks_def)

lemma op_weight_simps [simp]:
  "op_weight i [] = 2" "op_weight i [x] = x + 1" "op_weight i [x, y, z] = x + y + z + 1"
  "op_weight i [x, y, z, w] = x + y + z + w + 1"
  by (simp_all add: op_weight_def)

lemma op_weight_binary:
  "op_weight ADD [x, y] = (if x = 1 then y + 2 else if y = 1 then x + 2 else 2 * (x + y))"
  "op_weight AND' [x, y] = (if x = 1 then y + 2 else if y = 1 then x + 2 else 2 * (x + y))"
  "op_weight OR' [x, y] = (if x = 1 then y + 2 else if y = 1 then x + 2 else 2 * (x + y))"
  "op_weight XOR' [x, y] = (if x = 1 then y + 2 else if y = 1 then x + 2 else 2 * (x + y))"
  "op_weight MUL [x, y] = (if x = 1 then 2 * y + 3 else if y = 1 then 2 * x + 3 else 4 ^ (x + y))"
  "op_weight SUB [x, y] = 2 * (x + y)" "op_weight SHL [x, y] = 2 * (x + y)" "op_weight SHR [x, y] = 2 * (x + y)"
  "op_weight DIV [x, y] = 2 * (x + y)" "op_weight EQ [x, y] = x + y + 1"
  "op_weight SDIV [x, y] = x + y + 2" "op_weight MOD [x, y] = x + y + 2" "op_weight SMOD [x, y] = x + y + 2"
  "op_weight EXP [x, y] = x + y + 2" "op_weight LT [x, y] = x + y + 2" "op_weight GT [x, y] = x + y + 2"
  "op_weight SLT [x, y] = x + y + 2" "op_weight SGT [x, y] = x + y + 2" "op_weight BYTE [x, y] = x + y + 2"
  "op_weight SIGNEXTEND [x, y] = x + y + 2"
  by (simp_all add: op_weight_def)

lemma power_4: "n < (4 :: nat) ^ n"
  by (rule power_gt_expt) simp

text \<open>An operation weighs at least 2 and no less than its operands; its weight grows with them.\<close>

lemma op_weight_cases:
  obtains "length ws \<noteq> 2" "op_weight i ws = sum_list ws + (if ws = [] then 2 else 1)"
  | x y where "ws = [x, y]"
proof (cases "length ws = 2")
  case True
  then show thesis using that(2) by (auto simp: length_Suc_conv numeral_2_eq_2)
next
  case False
  then have "op_weight i ws = sum_list ws + (if ws = [] then 2 else 1)"
    by (auto simp: op_weight_def split: list.split)
  then show thesis using that(1) False by blast
qed

lemma op_weight_two:
  assumes "1 \<le> x" "1 \<le> y"
  shows "2 \<le> op_weight i [x, y]" "x \<le> op_weight i [x, y]" "y \<le> op_weight i [x, y]"
proof -
  have "x + y < 4 ^ (x + y)" by (rule power_4)
  then show "2 \<le> op_weight i [x, y]" "x \<le> op_weight i [x, y]" "y \<le> op_weight i [x, y]"
    using assms by (auto simp: op_weight_def)
qed

lemma op_weight_ge:
  assumes "\<forall>w \<in> set ws. 1 \<le> w"
  shows "2 \<le> op_weight i ws" "w \<in> set ws \<Longrightarrow> w \<le> op_weight i ws"
proof -
  have sum: "w \<in> set ws \<Longrightarrow> w \<le> sum_list ws" for w by (simp add: member_le_sum_list)
  have "ws \<noteq> [] \<Longrightarrow> 1 \<le> sum_list ws" using assms sum [of "hd ws"] by (meson hd_in_set le_trans)
  then have "2 \<le> op_weight i ws \<and> (w \<in> set ws \<longrightarrow> w \<le> op_weight i ws)"
  proof (cases rule: op_weight_cases [of ws i])
    case 1
    then show ?thesis using sum [of w] \<open>ws \<noteq> [] \<Longrightarrow> 1 \<le> sum_list ws\<close> by (cases "ws = []") auto
  next
    case (2 x y)
    then show ?thesis using assms op_weight_two [of x y i] by auto
  qed
  then show "2 \<le> op_weight i ws" "w \<in> set ws \<Longrightarrow> w \<le> op_weight i ws" by blast+
qed

lemma op_weight_mono_two:
  assumes "1 \<le> x" "1 \<le> y" "x \<le> x'" "y \<le> y'"
  shows "op_weight i [x, y] \<le> op_weight i [x', y']"
proof -
  have p: "4 ^ (x + y) \<le> (4 :: nat) ^ (x' + y')" using assms by (intro power_increasing) auto
  have "x' + y' < 4 ^ (x' + y')" by (rule power_4)
  moreover have "(4 :: nat) ^ (x' + y') \<ge> 4 ^ 4" if "x' \<noteq> 1" "y' \<noteq> 1"
    using assms that by (intro power_increasing) auto
  moreover have "2 * n + 3 \<le> 4 ^ (m + n)" if "2 \<le> m" "1 \<le> n" for m n :: nat
  proof -
    have "(4 :: nat) ^ (2 + n) \<le> 4 ^ (m + n)" using that by (intro power_increasing) auto
    moreover have "(4 :: nat) ^ (2 + n) = 16 * 4 ^ n" by (simp add: power_add)
    ultimately show ?thesis using power_4 [of n] by linarith
  qed
  from this [of x' y'] this [of y' x'] have "2 * y' + 3 \<le> 4 ^ (x' + y')" "2 * x' + 3 \<le> 4 ^ (x' + y')"
    if "x' \<noteq> 1" "y' \<noteq> 1" using assms that by (auto simp: add.commute)
  ultimately show ?thesis using assms p by (auto simp: op_weight_def)
qed

lemma op_weight_mono:
  assumes "list_all2 (\<le>) ws ws'" "\<forall>w \<in> set ws. 1 \<le> w"
  shows "op_weight i ws \<le> op_weight i ws'"
proof (cases rule: op_weight_cases [of ws i])
  case 1
  have "sum_list ws \<le> sum_list ws'" using assms(1) by (induction rule: list_all2_induct) auto
  moreover have "length ws' \<noteq> 2" "ws = [] \<longleftrightarrow> ws' = []"
    using assms(1) 1(1) by (auto dest: list_all2_lengthD)
  ultimately show ?thesis using 1(2) by (cases rule: op_weight_cases [of ws' i]) auto
next
  case (2 x y)
  then show ?thesis using assms op_weight_mono_two by (auto simp: list_all2_Cons1)
qed

lemma op_weight_mset:
  assumes "mset ws = mset ws'" "i \<in> {ADD, MUL, EQ, AND', OR', XOR'}"
  shows "op_weight i ws = op_weight i ws'"
proof (cases rule: op_weight_cases [of ws i])
  case 1
  have "sum_list ws = sum_list ws'" using assms(1) by (metis sum_mset_sum_list)
  moreover have "length ws' \<noteq> 2" "ws = [] \<longleftrightarrow> ws' = []"
    using assms(1) 1(1) by (metis size_mset, metis mset_zero_iff)
  ultimately show ?thesis using 1(2) by (cases rule: op_weight_cases [of ws' i]) auto
next
  case (2 x y)
  then have "length ws' = 2" using assms(1) by (metis length_Cons list.size(3) numeral_2_eq_2 size_mset)
  then obtain a b where "ws' = [a, b]" by (auto simp: length_Suc_conv numeral_2_eq_2)
  then show ?thesis using 2 assms by (auto simp: add_mset_eq_single add_eq_conv_ex op_weight_def)
qed

section \<open>The rules\<close>

lemma shrinks_part1:
  "\<forall>r \<in> set (simplificationRuleListPart1 group_A group_B group_C group_W group_X). shrinks r"
  by (simp add: simplificationRuleListPart1_def op_weight_binary)


lemma shrinks_part2:
  "\<forall>r \<in> set (simplificationRuleListPart2 group_A group_B group_C group_W group_X). shrinks r"
  by (simp add: simplificationRuleListPart2_def op_weight_binary)

lemma shrinks_part3_4:
  "\<forall>r \<in> set (simplificationRuleListPart3 group_A group_B group_C group_W group_X). shrinks r"
  "\<forall>r \<in> set (simplificationRuleListPart4 group_A group_B group_C group_W group_X). shrinks r"
  "\<forall>r \<in> set (simplificationRuleListPart4_5 group_A group_B group_C group_W group_X). shrinks r"
  by (simp_all add: simplificationRuleListPart3_def simplificationRuleListPart4_def
      simplificationRuleListPart4_5_def op_weight_binary)

lemma shrinks_part5_6:
  "\<forall>r \<in> set (simplificationRuleListPart5 group_A group_B group_C group_W group_X). shrinks r"
  "\<forall>r \<in> set (simplificationRuleListPart6 group_A group_B group_C group_W group_X). shrinks r"
  by (auto simp: simplificationRuleListPart5_def simplificationRuleListPart6_def Let_def op_weight_binary)

lemma shrinks_shifts:
  "\<forall>r \<in> set (shiftShiftRules group_A group_B group_W). shrinks r"
  "\<forall>r \<in> set (maskShiftRules group_A group_B group_W). shrinks r"
  "\<forall>r \<in> set (byteShiftRules group_A group_B group_W). shrinks r"
  by (simp_all add: shiftShiftRules_def maskShiftRules_def byteShiftRules_def Let_def op_weight_binary)

lemma shrinks_mulDivShift: "\<forall>r \<in> set (mulDivShiftRules group_W group_X). shrinks r"
proof -
  have 1: "Suc (Suc (Suc (Suc (2 * x + 2 * y)))) < 1024 * 4 ^ (y + 2 * x)" for x y :: nat
    using power_4 [of "y + 2 * x"] by linarith
  have 2: "Suc (Suc (Suc (Suc (2 * x + 2 * y)))) < 1024 * 4 ^ (2 * x + y)" for x y :: nat
    using power_4 [of "2 * x + y"] by linarith
  show ?thesis by (simp add: mulDivShiftRules_def op_weight_binary 1 2)
qed

lemma shrinks_part8_9:
  "\<forall>r \<in> set (simplificationRuleListPart8 group_A group_B group_C group_W group_X). shrinks r"
  "\<forall>r \<in> set (simplificationRuleListPart9 group_A group_B group_C group_W group_X group_Y group_Z). shrinks r"
  by (simp_all add: simplificationRuleListPart8_def simplificationRuleListPart9_def Let_def op_weight_binary)


section \<open>Moving a constant outwards\<close>

text \<open>
  A rule that moves a constant outwards, and the pattern of the rule before it: the same with a
  constant in the place of the operand that moves in.
\<close>

definition moves :: "pattern \<Rightarrow> simplification_rule \<Rightarrow> bool" where
  "moves p r \<longleftrightarrow>
     rule_shrinks (\<lambda>b. b 5 \<noteq> 0) r \<and>
     (\<exists>i q. set (pattern_groups q) \<inter> {2, 5} = {} \<and>
        ((p = inst i [q, group_B] \<and> sr_pattern r = inst i [q, group_X]) \<or>
         (p = inst i [group_B, q] \<and> sr_pattern r = inst i [group_X, q])))"

fun guarded :: "pattern set \<Rightarrow> simplification_rule list \<Rightarrow> bool" where
  "guarded prev [] = True"
| "guarded prev (r # rs) =
     ((shrinks r \<or> (\<exists>p \<in> prev. moves p r)) \<and>
      guarded (if sr_feasible r = None then insert (sr_pattern r) prev else prev) rs)"

lemma guarded_mono: "guarded P rs \<Longrightarrow> P \<subseteq> Q \<Longrightarrow> guarded Q rs"
proof (induction rs arbitrary: P Q)
  case (Cons r rs)
  show ?case using Cons.prems Cons.IH [of _ "if sr_feasible r = None then insert (sr_pattern r) Q else Q"]
    by (auto split: if_splits)
qed simp

lemma guarded_append: "guarded {} xs \<Longrightarrow> guarded {} ys \<Longrightarrow> guarded P (xs @ ys)"
proof -
  have "guarded P xs \<Longrightarrow> guarded {} ys \<Longrightarrow> guarded P (xs @ ys)" for P
    by (induction xs arbitrary: P) (auto intro: guarded_mono)
  then show "guarded {} xs \<Longrightarrow> guarded {} ys \<Longrightarrow> guarded P (xs @ ys)"
    using guarded_mono [of "{}" xs P] by blast
qed

lemma guarded_concat: "\<forall>xs \<in> set xss. guarded {} xs \<Longrightarrow> guarded {} (concat xss)"
  by (induction xss) (auto intro: guarded_append)

lemma guarded_shrinks: "\<forall>r \<in> set rs. shrinks r \<Longrightarrow> guarded P rs"
  by (induction rs arbitrary: P) auto

lemma moves_opcode: "moves p r \<Longrightarrow> p_instruction p = p_instruction (sr_pattern r)"
  by (auto simp: moves_def inst_def)

lemma guarded_filter:
  "guarded P rs \<Longrightarrow>
   guarded {p \<in> P. p_instruction p = i} (filter (\<lambda>r. p_instruction (sr_pattern r) = i) rs)"
proof (induction rs arbitrary: P)
  case (Cons r rs)
  have "guarded {p \<in> insert (sr_pattern r) P. p_instruction p = i} (filter (\<lambda>r. p_instruction (sr_pattern r) = i) rs)"
    if "sr_feasible r = None" using Cons.IH [of "insert (sr_pattern r) P"] Cons.prems that by simp
  moreover have "guarded {p \<in> P. p_instruction p = i} (filter (\<lambda>r. p_instruction (sr_pattern r) = i) rs)"
    if "sr_feasible r \<noteq> None" using Cons.IH [of P] Cons.prems that by simp
  moreover have "{p \<in> insert (sr_pattern r) P. p_instruction p = i} =
      (if p_instruction (sr_pattern r) = i then insert (sr_pattern r) {p \<in> P. p_instruction p = i}
       else {p \<in> P. p_instruction p = i})" by auto
  ultimately show ?case using Cons.prems moves_opcode by (auto split: if_splits)
qed simp

lemma feasible_rule [simp]: "sr_feasible (rule p a f) = None"
  by (simp add: rule_def)

lemma moves_inner:
  assumes "q = inst i [group_W, group_A] \<or> q = inst i [group_A, group_W]"
    and "\<And>x y. 0 < y \<Longrightarrow> op_weight i [op_weight i [x + 1, y + 1], 1] < op_weight i [op_weight i [x + 1, 1], y + 1]"
    and "\<And>x y. op_weight i [x, y] = op_weight i [y, x]"
  shows "moves (inst i [q, group_B]) (rule (inst i [q, group_X]) (\<lambda>d. inst i [inst i [group_W, group_X], group_A]) f)"
    "moves (inst i [group_B, q]) (rule (inst i [group_X, q]) (\<lambda>d. inst i [inst i [group_X, group_W], group_A]) f)"
proof -
  have "set (pattern_groups q) \<inter> {2, 5} = {}" using assms(1) by auto
  moreover have "op_weight i [op_weight i [y + 1, x + 1], 1] < op_weight i [y + 1, op_weight i [1, x + 1]]"
    "op_weight i [op_weight i [x + 1, y + 1], 1] < op_weight i [op_weight i [1, x + 1], y + 1]"
    "op_weight i [op_weight i [y + 1, x + 1], 1] < op_weight i [y + 1, op_weight i [x + 1, 1]]"
    if "0 < y" for x y
    using assms(2) [OF that, of x] assms(3) by metis+
  ultimately show "moves (inst i [q, group_B]) (rule (inst i [q, group_X]) (\<lambda>d. inst i [inst i [group_W, group_X], group_A]) f)"
    "moves (inst i [group_B, q]) (rule (inst i [group_X, q]) (\<lambda>d. inst i [inst i [group_X, group_W], group_A]) f)"
    using assms(1,2) unfolding moves_def by auto
qed

lemma op_weight_moves:
  assumes "i \<in> {ADD, MUL, AND', OR', XOR'}"
  shows "op_weight i [x, y] = op_weight i [y, x]"
    and "op_weight i [x + 1, 1] < op_weight i [op_weight i [x + 1, 1], 1]"
    and "0 < y \<Longrightarrow> op_weight i [op_weight i [x + 1, y + 1], 1] < op_weight i [op_weight i [x + 1, 1], y + 1]"
proof -
  show "op_weight i [x, y] = op_weight i [y, x]"
    using assms by (auto simp: op_weight_binary add.commute)
  show "op_weight i [x + 1, 1] < op_weight i [op_weight i [x + 1, 1], 1]"
    using assms by (auto simp: op_weight_binary)
  have "4 ^ (x + y) \<le> (4 :: nat) ^ (2 * x + y)" by (rule power_increasing) auto
  then have "4 ^ (x + y) * 32 + 3 < (4 :: nat) ^ (2 * x + y) * 4096"
    using zero_less_power [of "4 :: nat" "2 * x + y"] by linarith
  moreover have "4 * y + 13 < 4096 * 4 ^ y" using power_4 [of y] by linarith
  ultimately show "op_weight i [op_weight i [x + 1, y + 1], 1] < op_weight i [op_weight i [x + 1, 1], y + 1]" if "0 < y"
    using assms that by (auto simp: op_weight_binary power_add algebra_simps)
qed

lemma guarded_associative:
  assumes "i \<in> {ADD, MUL, AND', OR', XOR'}"
  shows "guarded {} (associativeRules group_A group_B group_W group_X i f)"
proof -
  note w = op_weight_moves [OF assms]
  have c: "op_weight i [Suc x, Suc 0] < op_weight i [op_weight i [Suc x, Suc 0], Suc 0]"
      "op_weight i [Suc x, Suc 0] < op_weight i [op_weight i [Suc 0, Suc x], Suc 0]"
      "op_weight i [Suc x, Suc 0] < op_weight i [Suc 0, op_weight i [Suc x, Suc 0]]"
      "op_weight i [Suc x, Suc 0] < op_weight i [Suc 0, op_weight i [Suc 0, Suc x]]" for x
    using w(2) [of x] w(1) by (metis Suc_eq_plus1 One_nat_def)+
  have fold: "shrinks (rule (inst i [q, group_B]) (\<lambda>d. inst i [group_W, lit (f (d group_A) (d group_B))]) False)"
      "shrinks (rule (inst i [group_B, q]) (\<lambda>d. inst i [group_W, lit (f (d group_A) (d group_B))]) False)"
    if "q = inst i [group_W, group_A] \<or> q = inst i [group_A, group_W]" for q
    using that c by auto
  note mv = moves_inner [OF _ w(3,1)]
  show ?thesis unfolding associativeRules_def
    by (simp del: rule_shrinks_rule add: fold mv)
qed

lemma rules_guarded: "guarded {} (rulesFor None)"
proof -
  have "guarded {} (simplificationRuleListPart7 group_A group_B group_C group_W group_X)"
    unfolding simplificationRuleListPart7_def
    by (intro guarded_append guarded_concat guarded_shrinks [OF shrinks_mulDivShift] shrinks_shifts [THEN guarded_shrinks])
      (auto intro: guarded_associative)
  then show ?thesis unfolding rulesFor_def simplificationRuleList_def
    by (intro guarded_append shrinks_part1 [THEN guarded_shrinks] shrinks_part2 [THEN guarded_shrinks]
        shrinks_part3_4 [THEN guarded_shrinks] shrinks_part5_6 [THEN guarded_shrinks]
        shrinks_part8_9 [THEN guarded_shrinks]) simp_all
qed

end
