(* ===== verification/FindReturns.thy ===== *)
theory FindReturns
  imports ExpressionMeaning RuleWeights
begin

text \<open>
  Looking up an expression ends, and without an exception: the weight of an expression bounds the
  depth of the recursion of \<open>ExpressionClasses::find\<close>. A class weighs no more than the expressions
  it stands for, and only the class of a constant weighs 1.
\<close>

section \<open>Weights of classes\<close>

definition item_weight :: "assembly_item \<Rightarrow> nat list \<Rightarrow> nat" where
  "item_weight it ws =
     (if m_type it = Push then 1
      else if m_type it = Operation then op_weight (m_instruction it) ws else 2)"

definition arity_ok :: "assembly_item \<Rightarrow> nat \<Rightarrow> bool" where
  "arity_ok it k \<longleftrightarrow>
     (m_type it = Operation \<and> m_instruction it \<in> rule_opcodes \<longrightarrow> k = ii_args (instructionInfo (m_instruction it)))"

definition expression_weighs :: "(nat \<Rightarrow> nat) \<Rightarrow> nat \<Rightarrow> expression \<Rightarrow> nat \<Rightarrow> bool" where
  "expression_weighs cw n e w \<longleftrightarrow>
     (\<forall>a \<in> set (e_arguments e). a < n) \<and>
     (\<exists>it. e_item e = Some it \<and> arity_ok it (length (e_arguments e)) \<and> w = item_weight it (map cw (e_arguments e)))"

definition weighted :: "(nat \<Rightarrow> nat) \<Rightarrow> expression_classes \<Rightarrow> bool" where
  "weighted cw cls \<longleftrightarrow>
     (\<forall>k. 1 \<le> cw k) \<and>
     (\<forall>k < length (m_representatives cls). e_id (m_representatives cls ! k) = k \<and>
        expression_weighs cw (length (m_representatives cls)) (m_representatives cls ! k) (cw k)) \<and>
     (\<forall>e \<in> set (m_expressions cls). e_id e < length (m_representatives cls) \<and>
        (\<exists>w. expression_weighs cw (length (m_representatives cls)) e w \<and> cw (e_id e) \<le> w))"

lemma item_weight_1:
  "\<forall>w \<in> set ws. 1 \<le> w \<Longrightarrow> item_weight it ws = 1 \<longleftrightarrow> m_type it = Push"
  "\<forall>w \<in> set ws. 1 \<le> w \<Longrightarrow> 1 \<le> item_weight it ws"
  using op_weight_ge(1) [of ws "m_instruction it"] by (auto simp: item_weight_def)

lemma expression_weighs_extends:
  assumes "expression_weighs cw n e w" "extends n cw cw'" "n \<le> m"
  shows "expression_weighs cw' m e w"
proof -
  have "map cw' (e_arguments e) = map cw (e_arguments e)"
    using assms extends_map [of n cw cw' "e_arguments e"] by (auto simp: expression_weighs_def)
  then show ?thesis using assms unfolding expression_weighs_def by (metis less_le_trans)
qed

section \<open>Matching does not throw and measures exactly\<close>

definition group_weights :: "(nat \<Rightarrow> nat) \<Rightarrow> match_groups \<Rightarrow> nat \<Rightarrow> nat" where
  "group_weights cw gr g = (case gr g of Some e \<Rightarrow> cw (e_id e) - 1 | None \<Rightarrow> 0)"

lemma group_weights_extend: "gr g = Some e \<Longrightarrow> gr \<subseteq>\<^sub>m gr' \<Longrightarrow> group_weights cw gr' g = cw (e_id e) - 1"
  by (auto simp: group_weights_def map_le_def dom_def)

lemma matchesBaseItem_returns:
  "pattern_wf p \<Longrightarrow> \<exists>ok. matchesBaseItem p item = Inr ok"
  by (cases p; cases item)
    (auto simp: matchesBaseItem_def pattern_wf.simps item_instruction_def item_data_def pattern_data_def
      split: if_splits)

definition measured :: "(nat \<Rightarrow> nat) \<Rightarrow> match_groups \<Rightarrow> match_groups \<Rightarrow> pattern list \<Rightarrow> nat list \<Rightarrow> bool" where
  "measured cw gr gr' ps ws \<longleftrightarrow>
     gr \<subseteq>\<^sub>m gr' \<and> (\<forall>p \<in> set ps. set (pattern_groups p) \<subseteq> dom gr') \<and>
     (\<forall>g e. gr g = None \<longrightarrow> gr' g = Some e \<longrightarrow> g \<le> 3 \<longrightarrow> cw (e_id e) = 1) \<and>
     (\<forall>gr''. gr' \<subseteq>\<^sub>m gr'' \<longrightarrow> map (pattern_weight (group_weights cw gr'')) ps = ws)"

lemma measured_Cons:
  assumes "measured cw gr gr1 [p] [w]" "measured cw gr1 gr2 ps ws"
  shows "measured cw gr gr2 (p # ps) (w # ws)"
proof -
  have le: "gr1 \<subseteq>\<^sub>m gr2" "gr \<subseteq>\<^sub>m gr1" using assms by (simp_all add: measured_def)
  have "set (pattern_groups p) \<subseteq> dom gr2"
    using assms(1) map_le_implies_dom_le [OF le(1)] unfolding measured_def
    by (metis list.set_intros(1) subset_trans)
  moreover have "pattern_weight (group_weights cw gr'') p = w" if "gr2 \<subseteq>\<^sub>m gr''" for gr''
    using assms(1) map_le_trans [OF le(1) that] by (simp add: measured_def)
  moreover have "cw (e_id e) = 1" if "gr g = None" "gr2 g = Some e" "g \<le> 3" for g e
  proof (cases "gr1 g")
    case None
    then show ?thesis using assms(2) that by (auto simp: measured_def)
  next
    case (Some e')
    then show ?thesis using assms(1) that le(1) by (auto simp: measured_def map_le_def dom_def)
  qed
  ultimately show ?thesis using assms(2) map_le_trans [OF le(2,1)] by (auto simp: measured_def)
qed

lemma measured_same:
  "(\<And>gr''. gr \<subseteq>\<^sub>m gr'' \<Longrightarrow> pattern_weight (group_weights cw gr'') p = w) \<Longrightarrow> set (pattern_groups p) \<subseteq> dom gr \<Longrightarrow>
   measured cw gr gr [p] [w]"
  by (simp add: measured_def)

lemma matches_measured:
  assumes w: "weighted cw cls"
  shows "pattern_wf p \<Longrightarrow> set (pattern_opcodes p) \<subseteq> rule_opcodes \<Longrightarrow>
    expression_weighs cw (length (m_representatives cls)) e v \<Longrightarrow> p_matchGroup p \<noteq> 0 \<longrightarrow> v = cw (e_id e) \<Longrightarrow>
    \<exists>ok gr'. matches (m_representatives cls) p e gr = Inr (ok, gr') \<and> (ok \<longrightarrow> measured cw gr gr' [p] [v])"
proof (induction p arbitrary: e v gr)
  case (Pattern t m i d args g)
  let ?p = "Pattern t m i d args g"
  obtain base where base: "matchesBaseItem ?p (e_item e) = Inr base"
    using matchesBaseItem_returns [OF Pattern.prems(1)] by blast
  obtain it where it: "e_item e = Some it" "arity_ok it (length (e_arguments e))"
      "v = item_weight it (map cw (e_arguments e))" "\<forall>a \<in> set (e_arguments e). a < length (m_representatives cls)"
    using Pattern.prems(3) by (auto simp: expression_weighs_def)
  have v1: "1 \<le> v" "v = 1 \<longleftrightarrow> m_type it = Push"
    using item_weight_1 [of "map cw (e_arguments e)" it] w it(3) by (auto simp: weighted_def)
  show ?case
  proof (cases "base")
    case False
    then show ?thesis using base by (intro exI [of _ False] exI [of _ gr]) (simp add: matches.simps)
  next
    case True
    with base have base: "matchesBaseItem ?p (e_item e) = Inr True" by simp
    have ty: "t \<noteq> UndefinedItem \<Longrightarrow> m_type it = t" "t = Operation \<Longrightarrow> m_instruction it = i"
      using base it(1) by (auto elim!: matchesBaseItem_True)
    show ?thesis
    proof (cases "g = 0")
      case False
      then have wf: "t \<in> {Push, UndefinedItem}" "args = []" "v = cw (e_id e)" "t = Push \<longleftrightarrow> g \<le> 3"
        using Pattern.prems by (auto simp: pattern_wf.simps)
      have pw: "pattern_weight (group_weights cw gr'') ?p = v" if "gr'' g = Some x" "e_id x = e_id e" for gr'' x
        using that False wf v1 ty(1) by (auto simp: pattern_weight.simps group_weights_def)
      have pw': "pattern_weight (group_weights cw gr'') ?p = v" if "gr(g \<mapsto> e) \<subseteq>\<^sub>m gr''" for gr''
        by (rule pw [of _ e]) (use that in \<open>simp_all add: map_le_def\<close>)
      have light: "g \<le> 3 \<Longrightarrow> cw (e_id e) = 1" using wf(3,4) v1(2) ty(1) by auto
      show ?thesis
      proof (cases "gr g")
        case None
        then have "matches (m_representatives cls) ?p e gr = Inr (True, gr(g \<mapsto> e))"
          using base False wf(2) by (simp add: matches.simps)
        moreover have "measured cw gr (gr(g \<mapsto> e)) [?p] [v]"
        proof -
          have "gr \<subseteq>\<^sub>m gr(g \<mapsto> e)" using None by (auto simp: map_le_def)
          then show ?thesis using light pw' False by (auto simp: measured_def pattern_groups.simps)
        qed
        ultimately show ?thesis by blast
      next
        case (Some x)
        then have "matches (m_representatives cls) ?p e gr = Inr (e_id x = e_id e, gr)"
          using base False wf(2) by (simp add: matches.simps)
        moreover have "e_id x = e_id e \<longrightarrow> measured cw gr gr [?p] [v]"
        proof
          assume same: "e_id x = e_id e"
          have "pattern_weight (group_weights cw gr'') ?p = v" if "gr \<subseteq>\<^sub>m gr''" for gr''
          proof (rule pw [OF _ same])
            show "gr'' g = Some x" using that Some by (metis domI map_le_def)
          qed
          moreover have "set (pattern_groups ?p) \<subseteq> dom gr" using Some False by (simp add: pattern_groups.simps domI)
          ultimately show "measured cw gr gr [?p] [v]" by (intro measured_same)
        qed
        ultimately show ?thesis by blast
      qed
    next
      case g: True
      have all: "\<exists>ok gr2. matches_all (m_representatives cls) ps as gr1 = Inr (ok, gr2) \<and>
          (ok \<longrightarrow> measured cw gr1 gr2 ps (map cw as))"
        if "set ps \<subseteq> set args" "length as = length ps" "\<forall>a \<in> set as. a < length (m_representatives cls)"
          "t = Operation" for ps as gr1
        using that(1-3)
      proof (induction ps arbitrary: as gr1)
        case Nil
        then show ?case by (intro exI [of _ True] exI [of _ gr1]) (simp add: measured_def)
      next
        case (Cons q ps)
        then obtain a as' where as: "as = a # as'" by (cases as) auto
        let ?e = "m_representatives cls ! a"
        have q: "q \<in> set args" "pattern_wf q" "set (pattern_opcodes q) \<subseteq> rule_opcodes"
          using Cons.prems(1) Pattern.prems(1,2) that(4) g by (auto simp: pattern_wf.simps pattern_opcodes.simps)
        have a: "e_id ?e = a" "expression_weighs cw (length (m_representatives cls)) ?e (cw a)"
            "a < length (m_representatives cls)"
          using w Cons.prems(3) as by (auto simp: weighted_def)
        obtain ok gr2 where m: "matches (m_representatives cls) q ?e gr1 = Inr (ok, gr2)"
            "ok \<longrightarrow> measured cw gr1 gr2 [q] [cw a]"
          using Pattern.IH [OF q a(2), of gr1] a(1) by auto
        obtain ok' gr3 where m': "matches_all (m_representatives cls) ps as' gr2 = Inr (ok', gr3)"
            "ok' \<longrightarrow> measured cw gr2 gr3 ps (map cw as')"
          using Cons.IH [of as' gr2] Cons.prems as by auto
        show ?case using m m' a(3) as measured_Cons by (cases ok) (auto simp: representative_def)
      qed
      have len: "t = Operation \<Longrightarrow> length (e_arguments e) = length args"
        using Pattern.prems(1,2) g ty it(2) by (auto simp: pattern_wf.simps arity_ok_def pattern_opcodes.simps)
      have "\<exists>ok gr2. matches_all (m_representatives cls) args (e_arguments e) gr = Inr (ok, gr2) \<and>
        (ok \<longrightarrow> measured cw gr gr2 [?p] [v])"
      proof (cases "t = Operation")
        case True
        then obtain ok gr2 where "matches_all (m_representatives cls) args (e_arguments e) gr = Inr (ok, gr2)"
            "ok \<longrightarrow> measured cw gr gr2 args (map cw (e_arguments e))"
          using all [OF subset_refl len it(4)] by blast
        then show ?thesis using True g ty it(3)
          by (auto simp: measured_def pattern_groups.simps pattern_weight.simps item_weight_def)
      next
        case False
        then show ?thesis using Pattern.prems(1) g ty(1) v1(2)
          by (auto simp: measured_def pattern_groups.simps pattern_weight.simps pattern_wf.simps)
      qed
      moreover have "args = [] \<or> length (e_arguments e) = length args"
        using Pattern.prems(1) g len by (auto simp: pattern_wf.simps split: if_splits)
      ultimately show ?thesis using base g by (auto simp: matches.simps)
    qed
  qed
qed

section \<open>Matching the same pattern in another match group\<close>

definition agree :: "nat set \<Rightarrow> match_groups \<Rightarrow> match_groups \<Rightarrow> bool" where
  "agree G gr gr' \<longleftrightarrow> (\<forall>g \<in> G. gr g = gr' g)"

lemma matches_agree:
  "pattern_wf p \<Longrightarrow> set (pattern_groups p) \<subseteq> G \<Longrightarrow> agree G gr gr2 \<Longrightarrow>
   matches reps p e gr = Inr (ok, gr') \<Longrightarrow>
   \<exists>gr2'. matches reps p e gr2 = Inr (ok, gr2') \<and> agree G gr' gr2' \<and> agree (- G) gr2 gr2'"
proof (induction p arbitrary: e gr gr2 ok gr')
  case (Pattern t m i d args g)
  obtain base where base: "matchesBaseItem (Pattern t m i d args g) (e_item e) = Inr base"
    using Pattern.prems(4) by (auto simp: matches.simps bindR_Inr_iff)
  consider "\<not> base" | "base" "g \<noteq> 0" | "base" "g = 0" by blast
  then show ?case
  proof cases
    case 1
    then show ?thesis using Pattern.prems(3,4) base by (auto simp: matches.simps agree_def)
  next
    case 2
    then have "args = []" "g \<in> G" "gr g = gr2 g"
      using Pattern.prems by (auto simp: pattern_wf.simps pattern_groups.simps agree_def)
    then show ?thesis using Pattern.prems(3,4) 2 base
      by (auto simp: matches.simps agree_def split: if_splits option.splits)
  next
    case 3
    note g = 3(2)
    have all: "\<exists>gr2'. matches_all reps ps as gr2 = Inr (ok, gr2') \<and> agree G gr' gr2' \<and> agree (- G) gr2 gr2'"
      if "set ps \<subseteq> set args" "agree G gr gr2" "matches_all reps ps as gr = Inr (ok, gr')" for ps as gr gr2 ok gr'
      using that
    proof (induction ps arbitrary: as gr gr2)
      case Nil
      then show ?case by (simp add: agree_def)
    next
      case (Cons q ps)
      then obtain a as' where as: "as = a # as'" by (cases as) auto
      obtain x ok1 gr1 where m: "representative reps a = Inr x" "matches reps q x gr = Inr (ok1, gr1)"
          "ok1 \<longrightarrow> matches_all reps ps as' gr1 = Inr (ok, gr')" "\<not> ok1 \<longrightarrow> \<not> ok \<and> gr' = gr1"
        using Cons.prems(3) as by (auto simp: bindR_Inr_iff split: if_splits)
      have q: "q \<in> set args" "pattern_wf q" "set (pattern_groups q) \<subseteq> G"
        using Cons.prems(1) Pattern.prems(1,2) g
        by (auto simp: pattern_wf.simps pattern_groups.simps split: if_splits)
      obtain gr3 where m2: "matches reps q x gr2 = Inr (ok1, gr3)" "agree G gr1 gr3" "agree (- G) gr2 gr3"
        using Pattern.IH [OF q Cons.prems(2) m(2)] by blast
      show ?case
      proof (cases ok1)
        case True
        then show ?thesis using Cons.IH [of gr1 gr3 as'] Cons.prems(1) m m2 as
          by (auto simp: agree_def)
      next
        case False
        then show ?thesis using m m2 as by auto
      qed
    qed
    have m: "matches_all reps args (e_arguments e) gr = Inr (ok, gr')"
        "assertThrow (args = [] \<or> length (e_arguments e) = length args) OptimizerException = Inr ()"
      using Pattern.prems(4) 3 base by (auto simp: matches.simps bindR_Inr_iff)
    then show ?thesis using all [OF subset_refl Pattern.prems(3) m(1)] 3 base by (simp add: matches.simps)
  qed
qed

section \<open>The chosen rule shrinks\<close>

lemma matches_two:
  "matches reps (inst i [p, q]) e gr = Inr (True, gr') \<longleftrightarrow>
     matchesBaseItem (inst i [p, q]) (e_item e) = Inr True \<and>
     (\<exists>a b gr1. e_arguments e = [a, b] \<and> a < length reps \<and> b < length reps \<and>
        matches reps p (reps ! a) gr = Inr (True, gr1) \<and> matches reps q (reps ! b) gr1 = Inr (True, gr'))"
proof -
  have "matches reps (inst i [p, q]) e gr = Inr (True, gr') \<longleftrightarrow>
      matchesBaseItem (inst i [p, q]) (e_item e) = Inr True \<and> length (e_arguments e) = 2 \<and>
      matches_all reps [p, q] (e_arguments e) gr = Inr (True, gr')"
    by (auto simp: inst_def matches.simps bindR_Inr_iff assertThrow_def)
  moreover have "matches_all reps [p, q] [a, b] gr = Inr (True, gr') \<longleftrightarrow>
      (\<exists>gr1. a < length reps \<and> b < length reps \<and> matches reps p (reps ! a) gr = Inr (True, gr1) \<and>
        matches reps q (reps ! b) gr1 = Inr (True, gr'))" for a b
    by (auto simp: bindR_Inr_iff representative_def split: if_splits)
  ultimately show ?thesis by (auto simp: length_Suc_conv numeral_2_eq_2)
qed

lemma matchesBaseItem_inst: "matchesBaseItem (inst i as) it = matchesBaseItem (inst i bs) it"
  by (auto simp: matchesBaseItem_def inst_def split: option.split)

lemma matches_operand:
  "gr 5 = None \<Longrightarrow> matches reps group_X e gr = Inr (True, gr(5 \<mapsto> e))"
  "gr 2 = None \<Longrightarrow> e_item e = Some it \<Longrightarrow> m_type it = Push \<Longrightarrow> matches reps group_B e gr = Inr (True, gr(2 \<mapsto> e))"
  by (simp_all add: group_defs setMatchGroup_def any_of_def matches.simps matchesBaseItem_def)

lemma light_class:
  assumes "weighted cw cls" "k < length (m_representatives cls)" "cw k = 1"
  obtains it where "e_item (m_representatives cls ! k) = Some it" "m_type it = Push" "e_id (m_representatives cls ! k) = k"
proof -
  have e: "expression_weighs cw (length (m_representatives cls)) (m_representatives cls ! k) 1"
      "e_id (m_representatives cls ! k) = k" "\<forall>k. 1 \<le> cw k"
    using assms by (auto simp: weighted_def)
  then obtain it where "e_item (m_representatives cls ! k) = Some it"
      "item_weight it (map cw (e_arguments (m_representatives cls ! k))) = 1"
    by (auto simp: expression_weighs_def)
  then show thesis using that e item_weight_1(1) [of "map cw (e_arguments (m_representatives cls ! k))" it] by auto
qed

lemma moved_operand:
  assumes w: "weighted cw cls" and "moves p r" and wf: "pattern_wf (sr_pattern r)"
    and m: "matches (m_representatives cls) (sr_pattern r) e Map.empty = Inr (True, gr)"
    and no: "matches (m_representatives cls) p e Map.empty = Inr (False, gr0)"
  shows "group_weights cw gr 5 \<noteq> 0"
proof
  let ?reps = "m_representatives cls"
  assume light: "group_weights cw gr 5 = 0"
  have push: "\<exists>it. e_item (?reps ! a) = Some it \<and> m_type it = Push"
    if "gr 5 = Some (?reps ! a)" "a < length ?reps" for a
  proof -
    have "e_id (?reps ! a) = a" "1 \<le> cw a" using w that(2) by (auto simp: weighted_def)
    then show ?thesis using light_class [OF w that(2)] light that(1) by (auto simp: group_weights_def)
  qed
  have no': "\<And>gr. matches ?reps p e Map.empty \<noteq> Inr (True, gr)" using no by simp
  obtain i q where q: "set (pattern_groups q) \<inter> {2, 5} = {}" and shape:
      "p = inst i [q, group_B] \<and> sr_pattern r = inst i [q, group_X] \<or>
       p = inst i [group_B, q] \<and> sr_pattern r = inst i [group_X, q]"
    using assms(2) by (auto simp: moves_def)
  from shape show False
  proof (elim disjE conjE)
    assume p: "p = inst i [q, group_B]" "sr_pattern r = inst i [q, group_X]"
    then obtain a b gr1 where ab: "e_arguments e = [a, b]" "a < length ?reps" "b < length ?reps"
        "matches ?reps q (?reps ! a) Map.empty = Inr (True, gr1)" "matches ?reps group_X (?reps ! b) gr1 = Inr (True, gr)"
      using m by (auto simp: matches_two)
    have "agree (- set (pattern_groups q)) Map.empty gr1"
      using matches_agree [OF _ subset_refl _ ab(4), of Map.empty] wf p(2) ab(4) by (auto simp: agree_def)
    then have "gr1 5 = None" "gr1 2 = None" using q by (auto simp: agree_def)
    then show False
      using no' m push [OF _ ab(3)] ab matches_operand(1) [of gr1 ?reps] matches_operand(2) [of gr1 "?reps ! b" _ ?reps]
        matchesBaseItem_inst [of i "[q, group_B]" _ "[q, group_X]"]
      unfolding p matches_two by auto
  next
    assume p: "p = inst i [group_B, q]" "sr_pattern r = inst i [group_X, q]"
    then obtain a b gr1 where ab: "e_arguments e = [a, b]" "a < length ?reps" "b < length ?reps"
        "matches ?reps group_X (?reps ! a) Map.empty = Inr (True, gr1)" "matches ?reps q (?reps ! b) gr1 = Inr (True, gr)"
      using m by (auto simp: matches_two)
    have gr1: "gr1 = [5 \<mapsto> ?reps ! a]" using ab(4) matches_operand(1) [of Map.empty ?reps "?reps ! a"] by simp
    have "agree (set (pattern_groups q)) gr1 [2 \<mapsto> ?reps ! a]" using q gr1 by (auto simp: agree_def)
    moreover have "agree (set (pattern_groups q)) gr1 gr1" by (simp add: agree_def)
    ultimately obtain gr2 where "matches ?reps q (?reps ! b) [2 \<mapsto> ?reps ! a] = Inr (True, gr2)"
        "agree (- set (pattern_groups q)) gr1 gr"
      using matches_agree [OF _ subset_refl _ ab(5)] wf p(2) ab(5) by fastforce
    moreover have "gr 5 = Some (?reps ! a)" if "agree (- set (pattern_groups q)) gr1 gr"
      using q gr1 that by (auto simp: agree_def dest: bspec [of _ _ 5])
    ultimately show False
      using no' m push [OF _ ab(2)] ab gr1 matches_operand(2) [of Map.empty "?reps ! a" _ ?reps]
        matchesBaseItem_inst [of i "[group_B, q]" _ "[group_X, q]"]
      unfolding p matches_two by (auto simp: agree_def)
  qed
qed

lemma rule_measured:
  assumes w: "weighted cw cls" and e: "expression_weighs cw (length (m_representatives cls)) e v"
    and r: "r \<in> set (rulesFor None)"
  obtains ok gr where "matches (m_representatives cls) (sr_pattern r) e Map.empty = Inr (ok, gr)"
    "ok \<longrightarrow> measured cw Map.empty gr [sr_pattern r] [v]"
proof -
  have "set (pattern_opcodes (sr_pattern r)) \<subseteq> rule_opcodes" using r by (auto simp: rule_opcodes_def)
  then show thesis
    using matches_measured [OF w groups_bound(2) [OF r] _ e, of Map.empty] groups_bound(3) [OF r] that by auto
qed

definition shrunk ::
  "(nat \<Rightarrow> nat) \<Rightarrow> nat \<Rightarrow> (simplification_rule \<times> match_groups) option \<Rightarrow> bool" where
  "shrunk cw v found \<longleftrightarrow>
     (\<forall>r gr. found = Some (r, gr) \<longrightarrow> r \<in> set (rulesFor None) \<and> set (pattern_groups (sr_pattern r)) \<subseteq> dom gr \<and>
        (\<forall>g e. gr g = Some e \<and> g \<le> 3 \<longrightarrow> cw (e_id e) = 1) \<and>
        pattern_weight (group_weights cw gr) (sr_action r (match_d gr)) < v)"

lemma findFirstMatch_loop_shrinks:
  assumes w: "weighted cw cls" and e: "expression_weighs cw (length (m_representatives cls)) e v"
  shows "set rs \<subseteq> set (rulesFor None) \<Longrightarrow> guarded P rs \<Longrightarrow>
    \<forall>p \<in> P. \<exists>gr0. matches (m_representatives cls) p e Map.empty = Inr (False, gr0) \<Longrightarrow>
    \<exists>found. findFirstMatch_loop (m_representatives cls) e rs = Inr found \<and> shrunk cw v found"
proof (induction rs arbitrary: P)
  case Nil
  then show ?case by (simp add: shrunk_def)
next
  case (Cons r rs)
  let ?reps = "m_representatives cls"
  have r: "r \<in> set (rulesFor None)" using Cons.prems(1) by simp
  obtain ok gr where m: "matches ?reps (sr_pattern r) e Map.empty = Inr (ok, gr)"
      "ok \<longrightarrow> measured cw Map.empty gr [sr_pattern r] [v]"
    using rule_measured [OF w e r] by blast
  show ?case
  proof (cases "ok \<and> rule_feasible r (match_d gr)")
    case False
    then have "\<exists>found. findFirstMatch_loop ?reps e rs = Inr found \<and> shrunk cw v found"
      using Cons.IH Cons.prems m(1) by (auto simp: rule_feasible_def split: option.splits)
    then show ?thesis using False m(1) by auto
  next
    case True
    then have wt: "pattern_weight (group_weights cw gr) (sr_pattern r) = v" "set (pattern_groups (sr_pattern r)) \<subseteq> dom gr"
        "\<forall>g e. gr g = Some e \<and> g \<le> 3 \<longrightarrow> cw (e_id e) = 1"
      using m(2) by (auto simp: measured_def)
    have "pattern_weight (group_weights cw gr) (sr_action r (match_d gr)) < v"
    proof (cases "shrinks r")
      case True
      then show ?thesis using wt(1) by (auto simp: rule_shrinks_def)
    next
      case no: False
      then obtain p where p: "p \<in> P" "moves p r" using Cons.prems(2) by auto
      then have "group_weights cw gr 5 \<noteq> 0"
        using moved_operand [OF w p(2) groups_bound(2) [OF r]] Cons.prems(3) m(1) True by auto
      then show ?thesis using p(2) wt(1) by (auto simp: moves_def rule_shrinks_def)
    qed
    then show ?thesis using True m(1) r wt(2,3) by (simp add: shrunk_def)
  qed
qed

lemma findFirstMatch_shrinks:
  assumes "weighted cw cls" "expression_weighs cw (length (m_representatives cls)) e v"
    and "Rules = Inr tbl" "e_item e = Some it" "m_type it = Operation"
  shows "\<exists>found. findFirstMatch tbl (m_representatives cls) e = Inr found \<and> shrunk cw v found"
proof -
  have tbl: "tbl = (\<lambda>i. filter (\<lambda>r. p_instruction (sr_pattern r) = i) (rulesFor None))"
    using assms(3) by (simp add: Rules_table)
  have "guarded {} (tbl (m_instruction it))"
    using guarded_filter [OF rules_guarded, of "m_instruction it"] by (simp add: tbl)
  moreover have "set (tbl (m_instruction it)) \<subseteq> set (rulesFor None)" by (auto simp: tbl)
  ultimately show ?thesis
    using findFirstMatch_loop_shrinks [OF assms(1,2), of "tbl (m_instruction it)" "{}"] assms(4,5)
    by (auto simp: findFirstMatch_def item_instruction_def)
qed

section \<open>Templates\<close>

fun template_weight :: "(nat \<Rightarrow> nat) \<Rightarrow> expression_template \<Rightarrow> nat" where
  "template_weight cw (Template h k it as) = (if h then cw k else item_weight it (map (template_weight cw) as))"

lemma template_weight_built:
  "pattern_wf p \<Longrightarrow> set (pattern_groups p) \<subseteq> dom gr \<Longrightarrow> \<forall>k. 1 \<le> cw k \<Longrightarrow>
   (\<forall>g e. gr g = Some e \<and> g \<le> 3 \<longrightarrow> cw (e_id e) = 1) \<Longrightarrow>
   \<exists>t. ExpressionTemplate gr loc p = Inr t \<and> template_weight cw t = pattern_weight (group_weights cw gr) p"
  "\<forall>p \<in> set ps. pattern_wf p \<and> set (pattern_groups p) \<subseteq> dom gr \<Longrightarrow> \<forall>k. 1 \<le> cw k \<Longrightarrow>
   (\<forall>g e. gr g = Some e \<and> g \<le> 3 \<longrightarrow> cw (e_id e) = 1) \<Longrightarrow>
   \<exists>ts. ExpressionTemplates gr loc ps = Inr ts \<and>
     map (template_weight cw) ts = map (pattern_weight (group_weights cw gr)) ps"
proof (induction gr loc p and gr loc ps rule: ExpressionTemplate_ExpressionTemplates.induct)
  case (1 gr loc t m i v args g)
  show ?case
  proof (cases "g = 0")
    case False
    then have wf: "args = []" "t = Push \<longleftrightarrow> g \<le> 3" using 1 by (auto simp: pattern_wf.simps)
    obtain e where e: "gr g = Some e" using 1 False by (auto simp: pattern_groups.simps)
    have "Suc (cw (e_id e) - Suc 0) = cw (e_id e)" using 1 by (metis One_nat_def Suc_diff_1 less_eq_Suc_le)
    then show ?thesis using wf e False "1.prems"(4)
      by (auto simp: ExpressionTemplate.simps match_id_def pattern_weight.simps group_weights_def)
  next
    case g: True
    show ?thesis
    proof (cases "t = Operation")
      case op: True
      then obtain ts where "ExpressionTemplates gr loc args = Inr ts"
        "map (template_weight cw) ts = map (pattern_weight (group_weights cw gr)) args"
        using 1 g by (auto simp: toAssemblyItem_def pattern_wf.simps pattern_groups.simps subset_iff)
      then show ?thesis using g op
        by (auto simp: ExpressionTemplate.simps toAssemblyItem_def pattern_weight.simps mkOp_def item_weight_def)
    next
      case False
      then show ?thesis using 1 g
        by (auto simp: ExpressionTemplate.simps toAssemblyItem_def pattern_weight.simps pattern_wf.simps
            mkItem_def pattern_data_def item_weight_def)
    qed
  qed
next
  case (3 gr loc p ps)
  then show ?case by fastforce
qed simp_all

section \<open>Looking up returns\<close>

text \<open>The outcome of a lookup: classes with weights that extend the ones before.\<close>

definition grown :: "(nat \<Rightarrow> nat) \<Rightarrow> expression_classes \<Rightarrow> (nat \<Rightarrow> nat) \<Rightarrow> expression_classes \<Rightarrow> bool" where
  "grown cw cls cw' cls' \<longleftrightarrow>
     extends (length (m_representatives cls)) cw cw' \<and> weighted cw' cls' \<and>
     length (m_representatives cls) \<le> length (m_representatives cls')"

lemma grown_refl: "weighted cw cls \<Longrightarrow> grown cw cls cw cls"
  by (simp add: grown_def)

lemma grown_trans: "grown cw1 c1 cw2 c2 \<Longrightarrow> grown cw2 c2 cw3 c3 \<Longrightarrow> grown cw1 c1 cw3 c3"
  unfolding grown_def by (meson extends_trans le_trans)

definition find_returns :: "nat \<Rightarrow> bool" where
  "find_returns n \<longleftrightarrow>
     (\<forall>cw cls it arguments sq.
        weighted cw cls \<and> (\<forall>a \<in> set arguments. a < length (m_representatives cls)) \<and>
        arity_ok it (length arguments) \<and> item_weight it (map cw arguments) < n \<longrightarrow>
        (\<exists>i cls' cw'. find_class n cls it arguments sq = Some (Inr (i, cls')) \<and> grown cw cls cw' cls' \<and>
           i < length (m_representatives cls') \<and> cw' i \<le> item_weight it (map cw arguments)))"

lemma template_weight_extends:
  "template_ok n t \<Longrightarrow> extends n cw cw' \<Longrightarrow> template_weight cw' t = template_weight cw t"
proof (induction t)
  case (Template hasId i it as)
  then have "map (template_weight cw') as = map (template_weight cw) as" if "\<not> hasId"
    using that by (auto split: if_splits)
  then show ?case using Template.prems by (auto simp: extends_def simp del: map_eq_conv)
qed

lemma item_weight_mono:
  "list_all2 (\<le>) ws ws' \<Longrightarrow> \<forall>w \<in> set ws. 1 \<le> w \<Longrightarrow> item_weight it ws \<le> item_weight it ws'"
  by (auto simp: item_weight_def intro: op_weight_mono)

lemma template_weight_pos: "\<forall>k. 1 \<le> cw k \<Longrightarrow> 1 \<le> template_weight cw t"
  by (induction t) (auto intro!: item_weight_1(2) [simplified])

lemma template_weight_argument:
  assumes "\<forall>k. 1 \<le> cw k" "template_ok n (Template False k it ts)" "t \<in> set ts"
  shows "template_weight cw t \<le> template_weight cw (Template False k it ts)"
  using assms op_weight_ge(2) [of "map (template_weight cw) ts"] template_weight_pos [OF assms(1)]
  by (auto simp: item_weight_def split: if_splits)

lemma rebuild_returns:
  assumes find: "find_returns n"
  shows "weighted cw cls \<Longrightarrow> template_ok (length (m_representatives cls)) t \<Longrightarrow> template_weight cw t < n \<Longrightarrow>
    \<exists>i cls' cw'. rebuildExpression n cls t = Some (Inr (i, cls')) \<and> grown cw cls cw' cls' \<and>
      i < length (m_representatives cls') \<and> cw' i \<le> template_weight cw t"
proof (induction t arbitrary: cls cw)
  case (Template hasId k it ts)
  have list: "\<exists>ids cls' cw'. rebuildExpressions n cls ts1 = Some (Inr (ids, cls')) \<and> grown cw cls cw' cls' \<and>
      (\<forall>i \<in> set ids. i < length (m_representatives cls')) \<and>
      list_all2 (\<le>) (map cw' ids) (map (template_weight cw) ts1)"
    if "set ts1 \<subseteq> set ts" "weighted cw cls" "\<forall>t \<in> set ts1. template_ok (length (m_representatives cls)) t"
      "\<forall>t \<in> set ts1. template_weight cw t < n" for ts1 cls cw
    using that
  proof (induction ts1 arbitrary: cls cw)
    case Nil
    then show ?case by (auto intro: grown_refl)
  next
    case (Cons t ts1)
    obtain i cls1 cw1 where r: "rebuildExpression n cls t = Some (Inr (i, cls1))" "grown cw cls cw1 cls1"
        "i < length (m_representatives cls1)" "cw1 i \<le> template_weight cw t"
      using Template.IH [of t cw cls] Cons.prems by auto
    have same: "\<forall>t \<in> set ts1. template_weight cw1 t = template_weight cw t"
      using Cons.prems(3) r(2) template_weight_extends by (auto simp: grown_def)
    have g: "weighted cw1 cls1" "\<forall>t \<in> set ts1. template_ok (length (m_representatives cls1)) t"
      using Cons.prems(3) r(2) template_ok_mono by (auto simp: grown_def)
    obtain ids cls2 cw2 where rs: "rebuildExpressions n cls1 ts1 = Some (Inr (ids, cls2))" "grown cw1 cls1 cw2 cls2"
        "\<forall>i \<in> set ids. i < length (m_representatives cls2)"
        "list_all2 (\<le>) (map cw2 ids) (map (template_weight cw1) ts1)"
      using Cons.IH [OF _ g] Cons.prems(1,4) same by auto
    have "cw2 i = cw1 i" "i < length (m_representatives cls2)"
      using rs(2) r(3) by (auto simp: grown_def extends_def)
    moreover have "map (template_weight cw1) ts1 = map (template_weight cw) ts1" using same by simp
    then have "list_all2 (\<le>) (map cw2 ids) (map (template_weight cw) ts1)" using rs(4) by (simp only:)
    ultimately have "list_all2 (\<le>) (map cw2 (i # ids)) (map (template_weight cw) (t # ts1))"
      using r(4) by simp
    then show ?case using r(1) rs(1,3) \<open>i < length (m_representatives cls2)\<close> grown_trans [OF r(2) rs(2)]
      by (intro exI [of _ "i # ids"] exI [of _ cls2] exI [of _ cw2]) simp
  qed
  show ?case
  proof (cases hasId)
    case True
    then show ?thesis using Template.prems grown_refl by auto
  next
    case False
    have pos: "\<forall>k. 1 \<le> cw k" using Template.prems(1) by (simp add: weighted_def)
    have "\<forall>t \<in> set ts. template_weight cw t < n"
      using template_weight_argument [OF pos] Template.prems(2,3) False le_less_trans by fastforce
    moreover have "\<forall>t \<in> set ts. template_ok (length (m_representatives cls)) t"
      using Template.prems(2) False by (auto split: if_splits)
    ultimately obtain ids cls1 cw1 where r: "rebuildExpressions n cls ts = Some (Inr (ids, cls1))"
        "grown cw cls cw1 cls1" "\<forall>i \<in> set ids. i < length (m_representatives cls1)"
        "list_all2 (\<le>) (map cw1 ids) (map (template_weight cw) ts)"
      using list [OF subset_refl Template.prems(1)] by blast
    have len: "length ids = length ts" using list_all2_lengthD [OF r(4)] by simp
    have w1: "weighted cw1 cls1" using r(2) by (simp add: grown_def)
    have le: "item_weight it (map cw1 ids) \<le> template_weight cw (Template hasId k it ts)"
      using item_weight_mono [OF r(4)] w1 False by (simp add: weighted_def)
    have "arity_ok it (length ids)" using Template.prems(2) False len by (auto simp: arity_ok_def split: if_splits)
    then obtain i cls' cw' where "find_class n cls1 it ids 0 = Some (Inr (i, cls'))" "grown cw1 cls1 cw' cls'"
        "i < length (m_representatives cls')" "cw' i \<le> item_weight it (map cw1 ids)"
      using find w1 r(3) le Template.prems(3) unfolding find_returns_def by (meson le_less_trans)
    then show ?thesis using False r(1) grown_trans [OF r(2)] le by (auto intro: le_trans)
  qed
qed

text \<open>The order on expressions is total on expressions that have an item.\<close>

lemma set_find_returns:
  assumes "e_item e \<noteq> None" "\<forall>x \<in> set es. e_item x \<noteq> None"
  shows "\<exists>found. set_find e es = Inr found"
  using assms(2)
proof (induction es)
  case (Cons x es)
  obtain it it' where "e_item e = Some it" "e_item x = Some it'" using Cons.prems assms(1) by auto
  then obtain eq where "expression_equiv e x = Inr eq" by (simp add: expression_equiv_def expression_less_def)
  then show ?case using Cons by auto
qed simp

lemma commonExpression_weighs:
  assumes "\<forall>a \<in> set arguments. a < n" "arity_ok it (length arguments)"
  shows "expression_weighs cw n (commonExpression i it arguments sq) (item_weight it (map cw arguments))"
proof -
  have "item_weight it (map cw (sort arguments)) = item_weight it (map cw arguments)" if "isCommutativeOperation it"
  proof -
    have "mset (map cw (sort arguments)) = mset (map cw arguments)" by simp
    moreover have "m_instruction it \<in> {ADD, MUL, EQ, AND', OR', XOR'}" if "m_type it = Operation"
      using that \<open>isCommutativeOperation it\<close> by (auto simp: isCommutativeOperation_def)
    ultimately show ?thesis using op_weight_mset [of "map cw (sort arguments)" "map cw arguments"]
      by (auto simp: item_weight_def)
  qed
  then show ?thesis using assms by (auto simp: expression_weighs_def commonExpression_def)
qed

lemma addExpression_returns:
  assumes w: "weighted cw cls" and e: "expression_weighs cw (length (m_representatives cls)) e v"
    and i: "\<forall>k. i = Some k \<longrightarrow> k < length (m_representatives cls) \<longrightarrow> cw k \<le> v"
  shows "\<exists>k cls' cw'. addExpression e i cls = Inr (k, cls') \<and> grown cw cls cw' cls' \<and>
    k < length (m_representatives cls') \<and> cw' k \<le> v"
proof -
  let ?n = "length (m_representatives cls)"
  define known where "known = (case i of Some k \<Rightarrow> k < ?n | None \<Rightarrow> False)"
  define k where "k = (if known then the i else ?n)"
  define cw' where "cw' = (if known then cw else cw(?n := v))"
  define reps where "reps = (if known then m_representatives cls else m_representatives cls @ [e\<lparr>e_id := k\<rparr>])"
  have m: "?n \<le> length reps" "k < length reps" by (auto simp: reps_def k_def known_def split: option.splits)
  have v1: "1 \<le> v" using item_weight_1(2) [of "map cw (e_arguments e)"] e w
    by (auto simp: expression_weighs_def weighted_def)
  have ext: "extends ?n cw cw'" by (simp add: cw'_def extends_def)
  have new: "expression_weighs cw' (length reps) (e\<lparr>e_id := k\<rparr>) v"
    using expression_weighs_extends [OF e ext m(1)] by (simp add: expression_weighs_def)
  have le: "cw' k \<le> v"
  proof (cases known)
    case True
    then obtain j where "i = Some j" "j < ?n" by (auto simp: known_def split: option.splits)
    then show ?thesis using i True by (simp add: cw'_def k_def)
  qed (simp add: cw'_def k_def)
  obtain es where es: "set_insert (e\<lparr>e_id := k\<rparr>) (m_expressions cls) = Inr es"
  proof -
    have item: "expression_weighs c n x u \<Longrightarrow> e_item x \<noteq> None" for c n x u
      by (auto simp: expression_weighs_def)
    then have "\<forall>x \<in> set (m_expressions cls). e_item x \<noteq> None" using w unfolding weighted_def by blast
    moreover have "e_item (e\<lparr>e_id := k\<rparr>) \<noteq> None" using item [OF e] by simp
    ultimately obtain found where "set_find (e\<lparr>e_id := k\<rparr>) (m_expressions cls) = Inr found"
      using set_find_returns by blast
    then show thesis by (intro that) (simp add: set_insert_def)
  qed
  have "weighted cw' \<lparr>m_representatives = reps, m_expressions = es\<rparr>"
    unfolding weighted_def
  proof (intro conjI allI impI ballI)
    show "1 \<le> cw' j" for j using w v1 by (simp add: weighted_def cw'_def)
  next
    fix j assume "j < length (m_representatives \<lparr>m_representatives = reps, m_expressions = es\<rparr>)"
    then have j: "j < ?n \<and> reps ! j = m_representatives cls ! j \<and> cw' j = cw j \<or>
        j = k \<and> \<not> known \<and> reps ! j = e\<lparr>e_id := k\<rparr> \<and> cw' j = v"
      by (auto simp: reps_def k_def cw'_def nth_append split: if_splits)
    then show "e_id (m_representatives \<lparr>m_representatives = reps, m_expressions = es\<rparr> ! j) = j"
      using w by (auto simp: weighted_def)
    show "expression_weighs cw' (length (m_representatives \<lparr>m_representatives = reps, m_expressions = es\<rparr>))
        (m_representatives \<lparr>m_representatives = reps, m_expressions = es\<rparr> ! j) (cw' j)"
      using j new w expression_weighs_extends [OF _ ext m(1)] by (auto simp: weighted_def)
  next
    fix x assume "x \<in> set (m_expressions \<lparr>m_representatives = reps, m_expressions = es\<rparr>)"
    then consider "x = e\<lparr>e_id := k\<rparr>" | "x \<in> set (m_expressions cls)" using set_insert_set [OF es] by auto
    then have "e_id x < length reps \<and> (\<exists>w. expression_weighs cw' (length reps) x w \<and> cw' (e_id x) \<le> w)"
    proof cases
      case 1
      then show ?thesis using new le m(2) by auto
    next
      case 2
      then have x: "e_id x < ?n" "\<exists>w. expression_weighs cw ?n x w \<and> cw (e_id x) \<le> w"
        using w by (auto simp: weighted_def)
      then have "cw' (e_id x) = cw (e_id x)" by (simp add: cw'_def)
      then show ?thesis using x m(1) expression_weighs_extends [OF _ ext m(1)] by (metis less_le_trans)
    qed
    then show "e_id x < length (m_representatives \<lparr>m_representatives = reps, m_expressions = es\<rparr>)"
      "\<exists>w. expression_weighs cw' (length (m_representatives \<lparr>m_representatives = reps, m_expressions = es\<rparr>)) x w \<and>
        cw' (e_id x) \<le> w" by simp_all
  qed
  moreover have "addExpression e i cls = Inr (k, \<lparr>m_representatives = reps, m_expressions = es\<rparr>)"
    using es by (simp add: addExpression_def Let_def known_def k_def reps_def)
  ultimately show ?thesis using ext m le by (auto simp: grown_def)
qed

lemma tryToSimplify_returns:
  assumes find: "find_returns n" and w: "weighted cw cls" and n: "v \<le> n"
    and e: "expression_weighs cw (length (m_representatives cls)) e v"
  shows "\<exists>i cls' cw'. tryToSimplify n cls e = Some (Inr (i, cls')) \<and> grown cw cls cw' cls' \<and>
    (\<forall>k. i = Some k \<longrightarrow> k < length (m_representatives cls') \<and> cw' k < v)"
proof -
  obtain it where it: "e_item e = Some it" using e by (auto simp: expression_weighs_def)
  obtain tbl where tbl: "Rules = Inr tbl" "isInitialized tbl" using Rules_initialized by blast
  show ?thesis
  proof (cases "m_type it \<noteq> Operation \<or> \<not> isDeterministic it")
    case True
    then show ?thesis using it grown_refl [OF w] by (auto simp: tryToSimplify.simps tbl)
  next
    case False
    then obtain found where f: "findFirstMatch tbl (m_representatives cls) e = Inr found" "shrunk cw v found"
      using findFirstMatch_shrinks [OF w e tbl(1) it] by auto
    show ?thesis
    proof (cases found)
      case None
      then show ?thesis using False f(1) it grown_refl [OF w] by (auto simp: tryToSimplify.simps tbl)
    next
      case (Some rg)
      then obtain r gr where rg: "found = Some (r, gr)" by (cases rg) auto
      define b where "b g = match_d gr (setMatchGroup group_A g)" for g
      have d: "match_d gr = group_data b"
        by (simp add: fun_eq_iff b_def match_d_def group_data_def setMatchGroup_def)
      let ?p = "sr_action r (match_d gr)"
      have pos: "\<forall>k. 1 \<le> cw k" using w by (simp add: weighted_def)
      have r: "r \<in> set (rulesFor None)" "set (pattern_groups (sr_pattern r)) \<subseteq> dom gr"
          "\<forall>g e. gr g = Some e \<and> g \<le> 3 \<longrightarrow> cw (e_id e) = 1" "pattern_weight (group_weights cw gr) ?p < v"
        using f(2) rg by (auto simp: shrunk_def)
      have wf: "pattern_wf ?p" "set (pattern_groups ?p) \<subseteq> dom gr" "set (pattern_opcodes ?p) \<subseteq> action_opcodes"
        using groups_bound(1,4) [OF r(1), of b] r(1,2) unfolding d by (auto simp: action_opcodes_def)
      obtain t where t: "ExpressionTemplate gr (m_location it) ?p = Inr t"
          "template_weight cw t = pattern_weight (group_weights cw gr) ?p"
        using template_weight_built(1) [OF wf(1,2) pos r(3), of "m_location it"] by blast
      have "\<forall>g x. gr g = Some x \<longrightarrow> e_id x < length (m_representatives cls)"
        using findFirstMatch_groups [OF tbl(1)] f(1) rg w by (auto simp: weighted_def)
      then have "template_ok (length (m_representatives cls)) t" by (rule template_built(1) [OF t(1) wf(1,3)])
      moreover have "template_weight cw t < n" using t(2) r(4) n by simp
      ultimately obtain i cls' cw' where "rebuildExpression n cls t = Some (Inr (i, cls'))"
          "grown cw cls cw' cls'" "i < length (m_representatives cls')" "cw' i \<le> template_weight cw t"
        using rebuild_returns [OF find w] by blast
      then show ?thesis using False f(1) rg it t r(4)
        by (intro exI [of _ "Some i"] exI [of _ cls'] exI [of _ cw']) (auto simp: tryToSimplify.simps tbl)
    qed
  qed
qed

lemma find_class_returns: "find_returns n"
proof (induction n)
  case 0
  then show ?case by (simp add: find_returns_def)
next
  case (Suc n)
  show ?case unfolding find_returns_def
  proof (intro allI impI, elim conjE)
    fix cw cls it arguments sq
    assume w: "weighted cw cls" and args: "\<forall>a \<in> set arguments. a < length (m_representatives cls)"
      and ar: "arity_ok it (length arguments)" and n: "item_weight it (map cw arguments) < Suc n"
    let ?e = "commonExpression noId it arguments sq" and ?v = "item_weight it (map cw arguments)"
    let ?look = "if isDeterministic it then set_find ?e (m_expressions cls) else Inr None"
    have e: "expression_weighs cw (length (m_representatives cls)) ?e ?v"
      by (rule commonExpression_weighs [OF args ar])
    have items: "\<forall>x \<in> set (m_expressions cls). e_item x \<noteq> None"
      using w unfolding weighted_def expression_weighs_def by (metis option.distinct(1))
    have "\<exists>found. ?look = Inr found"
      using set_find_returns [OF _ items, of ?e] by (simp add: commonExpression_def)
    then obtain found where f: "?look = Inr found" by blast
    show "\<exists>i cls' cw'. find_class (Suc n) cls it arguments sq = Some (Inr (i, cls')) \<and> grown cw cls cw' cls' \<and>
        i < length (m_representatives cls') \<and> cw' i \<le> ?v"
    proof (cases found)
      case (Some e')
      then have key: "e' \<in> set (m_expressions cls)" "same_key ?e e'"
        using f set_find_key by (auto split: if_splits)
      then obtain u where u: "e_id e' < length (m_representatives cls)"
          "expression_weighs cw (length (m_representatives cls)) e' u" "cw (e_id e') \<le> u"
        using w by (auto simp: weighted_def)
      have "u = ?v" using u(2) e key(2)
        by (auto simp: expression_weighs_def same_key_def item_weight_def item_eq_def commonExpression_def split: if_splits)
      then show ?thesis using u f Some grown_refl [OF w] by (auto simp: find_class.simps Let_def)
    next
      case None
      obtain j cls1 cw1 where t: "tryToSimplify n cls ?e = Some (Inr (j, cls1))" "grown cw cls cw1 cls1"
          "\<forall>k. j = Some k \<longrightarrow> k < length (m_representatives cls1) \<and> cw1 k < ?v"
        using tryToSimplify_returns [OF Suc.IH w _ e] n by auto
      have "weighted cw1 cls1" "expression_weighs cw1 (length (m_representatives cls1)) ?e ?v"
        using t(2) expression_weighs_extends [OF e] by (auto simp: grown_def)
      then obtain k cls' cw' where a: "addExpression ?e j cls1 = Inr (k, cls')" "grown cw1 cls1 cw' cls'"
          "k < length (m_representatives cls')" "cw' k \<le> ?v"
        using addExpression_returns t(3) by (meson less_imp_le)
      have "find_class (Suc n) cls it arguments sq = Some (Inr (k, cls'))"
        using f None t(1) a(1) by (simp add: find_class.simps Let_def)
      then show ?thesis using a(3,4) grown_trans [OF t(2) a(2)] by blast
    qed
  qed
qed

lemma enough_fuel:
  assumes "find_class m cls it arguments sq = Some r" "m \<le> n"
  shows "find_class n cls it arguments sq = Some r"
  using assms(2,1) by (induction rule: dec_induct) (auto intro: more_fuel(1))

section \<open>Properties\<close>

text \<open>
  C29: looking up an expression terminates and does not throw. In classes that have weights, an
  expression over existing classes is found with any fuel above its weight, always with the same
  result; the new classes have weights again, so this holds for every later lookup.
\<close>

theorem find_class_terminates:
  assumes "weighted cw cls" "\<forall>a \<in> set arguments. a < length (m_representatives cls)"
    and "arity_ok it (length arguments)"
  shows "\<exists>i cls' cw'. (\<forall>n > item_weight it (map cw arguments).
      find_class n cls it arguments sq = Some (Inr (i, cls'))) \<and>
    i < length (m_representatives cls') \<and> weighted cw' cls' \<and> extends (length (m_representatives cls)) cw cw'"
proof -
  let ?m = "Suc (item_weight it (map cw arguments))"
  obtain i cls' cw' where f: "find_class ?m cls it arguments sq = Some (Inr (i, cls'))" "grown cw cls cw' cls'"
      "i < length (m_representatives cls')"
    using find_class_returns [of ?m] assms unfolding find_returns_def by (metis lessI)
  then show ?thesis using enough_fuel [OF f(1)] unfolding grown_def by (meson Suc_leI)
qed

text \<open>The first constant of a program.\<close>

theorem find_class_terminates_witness:
  "weighted (\<lambda>_. 1) emptyClasses \<and>
   (\<exists>i cls' cw'. (\<forall>n > 1. find_class n emptyClasses (mkPush 7 noLocation) [] 0 = Some (Inr (i, cls'))) \<and>
      i < length (m_representatives cls') \<and> weighted cw' cls' \<and> extends 0 (\<lambda>_. 1 :: nat) cw')"
proof
  show w: "weighted (\<lambda>_. 1) emptyClasses" by (simp add: weighted_def emptyClasses_def)
  show "\<exists>i cls' cw'. (\<forall>n > 1. find_class n emptyClasses (mkPush 7 noLocation) [] 0 = Some (Inr (i, cls'))) \<and>
      i < length (m_representatives cls') \<and> weighted cw' cls' \<and> extends 0 (\<lambda>_. 1 :: nat) cw'"
    using find_class_terminates [OF w, of "[]" "mkPush 7 noLocation" 0]
    by (simp add: arity_ok_def item_weight_def mkPush_def mkItem_def emptyClasses_def)
qed

end
