(* ===== verification/KnownReturns.thy ===== *)
theory KnownReturns
  imports KnownState FindReturns
begin

text \<open>
  Feeding items returns: with enough fuel every operation of the known state ends, none of its
  assertions fails, and more fuel gives the same result. The state must be ready: its entries
  name classes that exist and the classes have weights.
\<close>

section \<open>Ready states\<close>

abbreviation count_classes :: "kstate \<Rightarrow> nat" where
  "count_classes st \<equiv> length (m_representatives (snd st))"

definition ids_known :: "nat \<Rightarrow> known_state \<Rightarrow> bool" where
  "ids_known n ks \<longleftrightarrow>
     (\<forall>(h, c) \<in> set (m_stackElements ks). c < n) \<and>
     (\<forall>(a, c) \<in> set (m_storageContent ks). a < n \<and> c < n) \<and>
     (\<forall>(a, c) \<in> set (m_memoryContent ks). a < n \<and> c < n) \<and>
     (\<forall>(as, c) \<in> set (m_knownKeccak256Hashes ks). c < n)"

definition ready :: "kstate \<Rightarrow> bool" where
  "ready st \<longleftrightarrow> (\<exists>cw. weighted cw (snd st)) \<and> ids_known (count_classes st) (fst st)"

lemma ids_known_mono: "ids_known n ks \<Longrightarrow> n \<le> m \<Longrightarrow> ids_known m ks"
  unfolding ids_known_def by (fastforce dest: less_le_trans)

lemma set_put: "e \<in> set (map_put k v m) \<Longrightarrow> e = (k, v) \<or> e \<in> set m"
  by (induction k v m rule: map_put.induct) (auto split: if_splits)

lemma ids_known_put:
  "ids_known n ks \<Longrightarrow> c < n \<Longrightarrow> ids_known n (ks\<lparr>m_stackElements := map_put h c (m_stackElements ks)\<rparr>)"
  "ids_known n ks \<Longrightarrow> a < n \<Longrightarrow> c < n \<Longrightarrow> ids_known n (ks\<lparr>m_storageContent := map_put a c (m_storageContent ks)\<rparr>)"
  "ids_known n ks \<Longrightarrow> a < n \<Longrightarrow> c < n \<Longrightarrow> ids_known n (ks\<lparr>m_memoryContent := map_put a c (m_memoryContent ks)\<rparr>)"
  "ids_known n ks \<Longrightarrow> c < n \<Longrightarrow>
    ids_known n (ks\<lparr>m_knownKeccak256Hashes := map_put as c (m_knownKeccak256Hashes ks)\<rparr>)"
  by (auto simp: ids_known_def dest!: set_put)

lemma ids_known_lookup:
  "ids_known n ks \<Longrightarrow> map_of (m_stackElements ks) h = Some c \<Longrightarrow> c < n"
  "ids_known n ks \<Longrightarrow> map_of (m_storageContent ks) a = Some c \<Longrightarrow> c < n"
  "ids_known n ks \<Longrightarrow> map_of (m_memoryContent ks) a = Some c \<Longrightarrow> c < n"
  "ids_known n ks \<Longrightarrow> map_of (m_knownKeccak256Hashes ks) as = Some c \<Longrightarrow> c < n"
  by (auto simp: ids_known_def dest!: map_of_SomeD)

section \<open>Returning\<close>

text \<open>\<open>F n\<close> is the operation with fuel \<open>n\<close>.\<close>

definition returns :: "kstate \<Rightarrow> (nat \<Rightarrow> 'a known) \<Rightarrow> ('a \<Rightarrow> kstate \<Rightarrow> bool) \<Rightarrow> bool" where
  "returns st F Q \<longleftrightarrow>
     (\<exists>m r st'. (\<forall>n \<ge> m. F n st = Some (Inr (r, st'))) \<and> ready st' \<and> count_classes st \<le> count_classes st' \<and> Q r st')"

lemma returnsI:
  "\<forall>n \<ge> m. F n st = Some (Inr (r, st')) \<Longrightarrow> ready st' \<Longrightarrow> count_classes st \<le> count_classes st' \<Longrightarrow> Q r st' \<Longrightarrow>
   returns st F Q"
  unfolding returns_def by blast

lemma returns_ret: "ready st \<Longrightarrow> Q x st \<Longrightarrow> returns st (\<lambda>n. retK x) Q"
  by (rule returnsI [of 0]) auto

lemma returns_get [simp]: "returns st (\<lambda>n. bindK (getK f) (G n)) Q \<longleftrightarrow> returns st (\<lambda>n. G n (f (fst st))) Q"
  by (simp add: returns_def)

lemma returns_modify [simp]:
  "returns st (\<lambda>n. bindK (modifyK f) (G n)) Q \<longleftrightarrow> returns (f (fst st), snd st) (\<lambda>n. G n ()) Q"
  by (simp add: returns_def)

lemma returns_modify_only: "ready (f (fst st), snd st) \<Longrightarrow> Q () (f (fst st), snd st) \<Longrightarrow> returns st (\<lambda>n. modifyK f) Q"
  by (rule returnsI [of 0]) auto

lemma returns_assert [simp]: "b \<Longrightarrow> returns st (\<lambda>n. bindK (assertK b e) (G n)) Q \<longleftrightarrow> returns st (\<lambda>n. G n ()) Q"
  by (simp add: returns_def assertK_def)

lemma returns_bind_ret [simp]: "returns st (\<lambda>n. bindK (retK x) (G n)) Q \<longleftrightarrow> returns st (\<lambda>n. G n x) Q"
  by (simp add: returns_def)

lemma returns_bind:
  assumes "returns st F P"
    and "\<And>r st'. ready st' \<Longrightarrow> count_classes st \<le> count_classes st' \<Longrightarrow> P r st' \<Longrightarrow> returns st' (\<lambda>n. G n r) Q"
  shows "returns st (\<lambda>n. bindK (F n) (G n)) Q"
proof -
  obtain m r st1 where f: "\<forall>n \<ge> m. F n st = Some (Inr (r, st1))" "ready st1" "count_classes st \<le> count_classes st1"
      "P r st1" using assms(1) unfolding returns_def by blast
  obtain m' r' st2 where g: "\<forall>n \<ge> m'. G n r st1 = Some (Inr (r', st2))" "ready st2"
      "count_classes st1 \<le> count_classes st2" "Q r' st2" using assms(2) [OF f(2-4)] unfolding returns_def by blast
  then have "\<forall>n \<ge> max m m'. bindK (F n) (G n) st = Some (Inr (r', st2))" using f(1) by simp
  then show ?thesis using f(3) g unfolding returns_def by (meson le_trans)
qed

lemma returns_weaken:
  "returns st F P \<Longrightarrow> (\<And>r st'. ready st' \<Longrightarrow> count_classes st \<le> count_classes st' \<Longrightarrow> P r st' \<Longrightarrow> Q r st') \<Longrightarrow>
   returns st F Q"
  unfolding returns_def by meson

section \<open>Classes\<close>

text \<open>Lookups of classes, with their fuel.\<close>

definition classes_return ::
  "expression_classes \<Rightarrow> (nat \<Rightarrow> ('a \<times> expression_classes) fueled) \<Rightarrow> ('a \<Rightarrow> nat \<Rightarrow> bool) \<Rightarrow> bool" where
  "classes_return cls F Q \<longleftrightarrow>
     (\<exists>m r cls'. (\<forall>n \<ge> m. F n = Some (Inr (r, cls'))) \<and> (\<exists>cw. weighted cw cls') \<and>
        length (m_representatives cls) \<le> length (m_representatives cls') \<and> Q r (length (m_representatives cls')))"

lemma find_return:
  assumes "weighted cw cls" "\<forall>a \<in> set arguments. a < length (m_representatives cls)" "arity_ok it (length arguments)"
  shows "classes_return cls (\<lambda>n. find_class n cls it arguments sq) (\<lambda>c k. c < k)"
proof -
  let ?m = "Suc (item_weight it (map cw arguments))"
  obtain i cls' cw' where f: "find_class ?m cls it arguments sq = Some (Inr (i, cls'))" "grown cw cls cw' cls'"
      "i < length (m_representatives cls')"
    using find_class_returns [of ?m] assms unfolding find_returns_def by (metis lessI)
  then show ?thesis using enough_fuel [OF f(1)] unfolding classes_return_def grown_def by blast
qed

lemma classes_return_bind:
  assumes "classes_return cls F P"
    and "\<And>r cls' cw. weighted cw cls' \<Longrightarrow> length (m_representatives cls) \<le> length (m_representatives cls') \<Longrightarrow>
      P r (length (m_representatives cls')) \<Longrightarrow> classes_return cls' (\<lambda>n. G n (r, cls')) Q"
  shows "classes_return cls (\<lambda>n. bindF (F n) (G n)) Q"
proof -
  obtain m r cls1 cw where f: "\<forall>n \<ge> m. F n = Some (Inr (r, cls1))" "weighted cw cls1"
      "length (m_representatives cls) \<le> length (m_representatives cls1)" "P r (length (m_representatives cls1))"
    using assms(1) unfolding classes_return_def by blast
  obtain m' r' cls2 where g: "\<forall>n \<ge> m'. G n (r, cls1) = Some (Inr (r', cls2))" "\<exists>cw. weighted cw cls2"
      "length (m_representatives cls1) \<le> length (m_representatives cls2)" "Q r' (length (m_representatives cls2))"
    using assms(2) [OF f(2-4)] unfolding classes_return_def by blast
  then have "\<forall>n \<ge> max m m'. bindF (F n) (G n) = Some (Inr (r', cls2))" using f(1) by simp
  then show ?thesis using f(3) g unfolding classes_return_def by (meson le_trans)
qed

lemma known_return:
  assumes "weighted cw cls" "c < length (m_representatives cls)"
  shows "\<exists>z. knownZero cls c = Inr z" "\<exists>v. knownConstant cls c = Inr v"
proof -
  have e: "expression_weighs cw (length (m_representatives cls)) (m_representatives cls ! c) (cw c)"
      "e_id (m_representatives cls ! c) = c" using assms by (auto simp: weighted_def)
  show "\<exists>z. knownZero cls c = Inr z"
    using matches_measured [OF assms(1) _ _ e(1), of "lit 0" Map.empty] e(2) assms(2)
    by (auto simp: knownZero_def representative_def lit_def pattern_opcodes.simps pattern_wf.simps)
  show "\<exists>v. knownConstant cls c = Inr v"
    using matches_measured [OF assms(1) _ _ e(1), of group_A Map.empty] e(2) assms(2)
    by (auto simp: knownConstant_def representative_def group_A_def setMatchGroup_def any_of_def
        pattern_opcodes.simps pattern_wf.simps Let_def)
qed

lemma different_return:
  assumes "weighted cw cls" "a < length (m_representatives cls)" "b < length (m_representatives cls)"
  shows "classes_return cls (\<lambda>n. knownToBeDifferent n cls a b) (\<lambda>d k. True)"
    and "classes_return cls (\<lambda>n. knownToBeDifferentBy32 n cls a b) (\<lambda>d k. True)"
proof -
  have sub: "classes_return cls (\<lambda>n. find_class n cls (mkOp SUB noLocation) [a, b] 0) (\<lambda>c k. c < k)"
    by (rule find_return [OF assms(1)]) (use assms in \<open>auto simp: arity_ok_def mkOp_def instructionInfo_eqs\<close>)
  have end_return: "classes_return cls (\<lambda>n. Some (Inr (x, cls))) (\<lambda>_ _. True)" if "weighted cw cls" for x cls cw
    using that by (auto simp: classes_return_def)
  have zero: "classes_return cls1 (\<lambda>n. knownNonZero n cls1 i) (\<lambda>d k. True)"
    if "weighted cw1 cls1" "i < length (m_representatives cls1)" for cls1 cw1 i
  proof -
    have "classes_return cls1 (\<lambda>n. find_class n cls1 (mkOp ISZERO noLocation) [i] 0) (\<lambda>c k. c < k)"
      by (rule find_return [OF that(1)]) (use that in \<open>auto simp: arity_ok_def mkOp_def instructionInfo_eqs\<close>)
    then show ?thesis unfolding knownNonZero_def
    proof (rule classes_return_bind)
      fix r cls' cw assume "weighted cw cls'" "r < length (m_representatives cls')"
      then obtain z where "knownZero cls' r = Inr z" using known_return by blast
      then show "classes_return cls' (\<lambda>n. case (r, cls') of (i, cls') \<Rightarrow>
          bindF (Some (knownZero cls' i)) (\<lambda>z. Some (Inr (z, cls')))) (\<lambda>d k. True)"
        using end_return [OF \<open>weighted cw cls'\<close>] by simp
    qed
  qed
  show "classes_return cls (\<lambda>n. knownToBeDifferent n cls a b) (\<lambda>d k. True)"
    unfolding knownToBeDifferent_def by (rule classes_return_bind [OF sub]) (use zero in auto)
  show "classes_return cls (\<lambda>n. knownToBeDifferentBy32 n cls a b) (\<lambda>d k. True)"
    unfolding knownToBeDifferentBy32_def
  proof (rule classes_return_bind [OF sub])
    fix r cls' cw assume "weighted cw cls'" "r < length (m_representatives cls')"
    then obtain v where "knownConstant cls' r = Inr v" using known_return by blast
    then show "classes_return cls' (\<lambda>n. case (r, cls') of (i, cls') \<Rightarrow> bindF (Some (knownConstant cls' i)) (\<lambda>v.
        Some (Inr (case v of Some w \<Rightarrow> w + 31 > 62 | None \<Rightarrow> False, cls')))) (\<lambda>d k. True)"
      using end_return [OF \<open>weighted cw cls'\<close>] by simp
  qed
qed

lemma returns_classes:
  assumes "ready st" "classes_return (snd st) (\<lambda>n. f n (snd st)) P"
  shows "returns st (\<lambda>n. classesK (f n)) (\<lambda>r st'. fst st' = fst st \<and> P r (count_classes st'))"
proof -
  obtain m r cls' where "\<forall>n \<ge> m. f n (snd st) = Some (Inr (r, cls'))" "\<exists>cw. weighted cw cls'"
      "count_classes st \<le> length (m_representatives cls')" "P r (length (m_representatives cls'))"
    using assms(2) by (auto simp: classes_return_def)
  then show ?thesis using assms(1) ids_known_mono unfolding returns_def
    by (intro exI [of _ m] exI [of _ r] exI [of _ "(fst st, cls')"]) (auto simp: classesK_def ready_def)
qed

lemma returns_find:
  assumes "ready st" "\<forall>a \<in> set arguments. a < count_classes st" "arity_ok it (length arguments)"
  shows "returns st (\<lambda>n. find_item n it arguments sq) (\<lambda>c st'. fst st' = fst st \<and> c < count_classes st')"
  unfolding find_item_def
  by (rule returns_classes [OF assms(1)]) (use assms find_return in \<open>auto simp: ready_def\<close>)

section \<open>The operations\<close>

lemma arity_mkOp: "length as = ii_args (instructionInfo i) \<Longrightarrow> arity_ok (mkOp i loc) (length as)"
  by (simp add: arity_ok_def mkOp_def)

lemma arity_item: "m_type it \<noteq> Operation \<Longrightarrow> arity_ok it k"
  by (simp add: arity_ok_def)

abbreviation class_exists :: "nat \<Rightarrow> kstate \<Rightarrow> bool" where
  "class_exists c st \<equiv> c < count_classes st"

lemma ready_ids: "ready st \<Longrightarrow> ids_known (count_classes st) (fst st)"
  by (simp add: ready_def)

lemma ready_update: "ready st \<Longrightarrow> ids_known (count_classes st) ks \<Longrightarrow> ready (ks, snd st)"
  by (simp add: ready_def)

lemma returns_set:
  "ready st \<Longrightarrow> c < count_classes st \<Longrightarrow> Q () ((fst st)\<lparr>m_stackElements := map_put h c (m_stackElements (fst st))\<rparr>, snd st) \<Longrightarrow>
   returns st (\<lambda>n. setStackElement h c) Q"
  unfolding setStackElement_def
  by (rule returns_modify_only) (simp_all add: ready_update ready_ids ids_known_put)

lemma returns_stackElement:
  assumes "ready st"
  shows "returns st (\<lambda>n. stackElement n h loc) class_exists"
proof (cases "map_of (m_stackElements (fst st)) h")
  case (Some c)
  then show ?thesis using assms ids_known_lookup(1) [OF ready_ids [OF assms]]
    by (simp add: stackElement_def returns_ret)
next
  case None
  have "returns st (\<lambda>n. find_item n (mkItem UndefinedItem (word_of_int h) loc) [] 0)
      (\<lambda>c st'. fst st' = fst st \<and> c < count_classes st')"
    by (rule returns_find [OF assms]) (simp_all add: arity_item mkItem_def)
  then show ?thesis using None
    by (auto simp: stackElement_def intro!: returns_bind returns_ret returns_set)
qed

lemma returns_mapK:
  assumes "ready st" "\<And>x st'. ready st' \<Longrightarrow> count_classes st \<le> count_classes st' \<Longrightarrow> x \<in> set xs \<Longrightarrow>
    returns st' (\<lambda>n. f n x) class_exists"
  shows "returns st (\<lambda>n. mapK (f n) xs) (\<lambda>cs st'. length cs = length xs \<and> (\<forall>c \<in> set cs. c < count_classes st'))"
  using assms
proof (induction xs arbitrary: st)
  case Nil
  then show ?case unfolding mapK.simps by (intro returns_ret) simp_all
next
  case (Cons x xs)
  show ?case unfolding mapK.simps
  proof (rule returns_bind [OF Cons.prems(2) [OF Cons.prems(1) order_refl]], goal_cases)
    case (2 c st1)
    have "returns st1 (\<lambda>n. mapK (f n) xs) (\<lambda>cs st'. length cs = length xs \<and> (\<forall>c \<in> set cs. c < count_classes st'))"
      by (rule Cons.IH [OF 2(1)]) (use Cons.prems(2) 2(2) in auto)
    then show ?case by (rule returns_bind) (use 2(3) in \<open>auto intro!: returns_ret\<close>)
  qed simp
qed

lemma returns_swap:
  assumes "ready st" "a \<noteq> b"
  shows "returns st (\<lambda>n. swapStackElements n a b loc) (\<lambda>_ _. True)"
  unfolding swapStackElements_def returns_assert [OF assms(2)]
proof (rule returns_bind [OF returns_stackElement [OF assms(1)]], goal_cases)
  case (1 ca st1)
  then show ?case
  proof (intro returns_bind [OF returns_stackElement], goal_cases)
    case (2 cb st2)
    then show ?case by (intro returns_bind [OF returns_set] returns_set) auto
  qed simp
qed

lemma returns_load:
  assumes "ready st" "slot < count_classes st"
  shows "returns st (\<lambda>n. loadFromStorage n slot loc) class_exists"
    and "returns st (\<lambda>n. loadFromMemory n slot loc) class_exists"
proof -
  have load: "returns st (\<lambda>n. find_item n (mkOp i loc) [slot] (m_sequenceNumber (fst st)))
      (\<lambda>c st'. fst st' = fst st \<and> c < count_classes st')" if "ii_args (instructionInfo i) = 1" for i
    by (rule returns_find [OF assms(1)]) (use assms that in \<open>simp_all add: arity_ok_def mkOp_def\<close>)
  have *: "slot < count_classes st'" if "count_classes st \<le> count_classes st'" for st' using that assms by simp
  show "returns st (\<lambda>n. loadFromStorage n slot loc) class_exists"
  proof (cases "map_of (m_storageContent (fst st)) slot")
    case None
    have "returns st (\<lambda>n. find_item n (mkOp SLOAD loc) [slot] (m_sequenceNumber (fst st)))
      (\<lambda>c st'. fst st' = fst st \<and> c < count_classes st')" by (rule load) (simp add: instructionInfo_eqs)
    then show ?thesis unfolding loadFromStorage_def returns_get None option.case
    proof (rule returns_bind, goal_cases)
      case (1 c st')
      then show ?case unfolding returns_modify
        by (intro returns_ret ready_update ids_known_put ready_ids) (auto simp: *)
    qed
  qed (use assms ids_known_lookup(2) [OF ready_ids] in \<open>simp add: loadFromStorage_def returns_ret\<close>)
  show "returns st (\<lambda>n. loadFromMemory n slot loc) class_exists"
  proof (cases "map_of (m_memoryContent (fst st)) slot")
    case None
    have "returns st (\<lambda>n. find_item n (mkOp MLOAD loc) [slot] (m_sequenceNumber (fst st)))
      (\<lambda>c st'. fst st' = fst st \<and> c < count_classes st')" by (rule load) (simp add: instructionInfo_eqs)
    then show ?thesis unfolding loadFromMemory_def returns_get None option.case
    proof (rule returns_bind, goal_cases)
      case (1 c st')
      then show ?case unfolding returns_modify
        by (intro returns_ret ready_update ids_known_put ready_ids) (auto simp: *)
    qed
  qed (use assms ids_known_lookup(3) [OF ready_ids] in \<open>simp add: loadFromMemory_def returns_ret\<close>)
qed

text \<open>Stores keep entries whose classes exist.\<close>

definition entries_exist :: "(nat \<times> nat) list \<Rightarrow> kstate \<Rightarrow> bool" where
  "entries_exist es st \<longleftrightarrow> (\<forall>(a, c) \<in> set es. a < count_classes st \<and> c < count_classes st)"

lemma returns_keepEntries:
  assumes "ready st" "entries_exist es st"
    and "\<And>a c st'. ready st' \<Longrightarrow> count_classes st \<le> count_classes st' \<Longrightarrow> (a, c) \<in> set es \<Longrightarrow>
      returns st' (\<lambda>n. keep n a c) (\<lambda>_ _. True)"
  shows "returns st (\<lambda>n. keepEntries (keep n) es) entries_exist"
  using assms
proof (induction es arbitrary: st)
  case Nil
  then show ?case unfolding keepEntries.simps by (intro returns_ret)
next
  case (Cons e es)
  obtain a c where e: "e = (a, c)" by (cases e)
  show ?case unfolding e keepEntries.simps
  proof (rule returns_bind [OF Cons.prems(3) [OF Cons.prems(1) order_refl]], goal_cases)
    case (2 k st1)
    have "returns st1 (\<lambda>n. keepEntries (keep n) es) entries_exist"
    proof (rule Cons.IH [OF 2(1)])
      show "entries_exist es st1" using Cons.prems(2) 2(2) by (fastforce simp: entries_exist_def)
    qed (use Cons.prems(3) 2(2) in auto)
    then show ?case
    proof (rule returns_bind, goal_cases)
      case (1 rest st2)
      then have "a < count_classes st2" "c < count_classes st2"
        using Cons.prems(2) 2(2) e by (auto simp: entries_exist_def)
      then show ?case using 1 by (intro returns_ret) (auto simp: entries_exist_def)
    qed
  qed (simp add: e)
qed

lemma ready_inc: "ready st \<Longrightarrow> ready ((fst st)\<lparr>m_sequenceNumber := q\<rparr>, snd st)"
  by (simp add: ready_def ids_known_def)

lemma returns_classes_keep:
  assumes "ready st" "classes_return (snd st) (\<lambda>n. f n (snd st)) P"
  shows "returns st (\<lambda>n. classesK (f n)) (\<lambda>_ _. True)"
  by (rule returns_weaken [OF returns_classes [where f = f, OF assms]]) simp

lemma returns_different:
  assumes "ready st" "a < count_classes st" "b < count_classes st"
  shows "returns st (\<lambda>n. classesK (\<lambda>cls. knownToBeDifferent n cls a b)) (\<lambda>_ _. True)"
    and "returns st (\<lambda>n. classesK (\<lambda>cls. knownToBeDifferentBy32 n cls a b)) (\<lambda>_ _. True)"
proof -
  obtain cw where w: "weighted cw (snd st)" using assms(1) by (auto simp: ready_def)
  note d = different_return [OF w assms(2,3)]
  show "returns st (\<lambda>n. classesK (\<lambda>cls. knownToBeDifferent n cls a b)) (\<lambda>_ _. True)"
    by (rule returns_classes_keep [where f = "\<lambda>n cls. knownToBeDifferent n cls a b", OF assms(1) d(1)])
  show "returns st (\<lambda>n. classesK (\<lambda>cls. knownToBeDifferentBy32 n cls a b)) (\<lambda>_ _. True)"
    by (rule returns_classes_keep [where f = "\<lambda>n cls. knownToBeDifferentBy32 n cls a b", OF assms(1) d(2)])
qed

text \<open>The part that both stores share, after the entries to keep are computed.\<close>

lemma ready_contents:
  assumes "ready st" "entries_exist es st"
  shows "ready ((fst st)\<lparr>m_storageContent := es\<rparr>, snd st)" "ready ((fst st)\<lparr>m_memoryContent := es\<rparr>, snd st)"
  using assms by (auto simp: ready_def ids_known_def entries_exist_def)

lemma ready_entries:
  assumes "ready st"
  shows "entries_exist (m_storageContent (fst st)) st" "entries_exist (m_memoryContent (fst st)) st"
  using assms by (auto simp: ready_def ids_known_def entries_exist_def)

lemma returns_store:
  assumes st: "ready st" "slot < count_classes st" "val < count_classes st"
    and keep: "returns ((fst st)\<lparr>m_sequenceNumber := m_sequenceNumber (fst st) + 1\<rparr>, snd st) keep entries_exist"
    and upd: "\<And>es st. ready st \<Longrightarrow> entries_exist es st \<Longrightarrow> ready (upd es (fst st), snd st)"
    and put: "\<And>st. ready st \<Longrightarrow> slot < count_classes st \<Longrightarrow> val < count_classes st \<Longrightarrow> ready (put (fst st), snd st)"
    and i: "ii_args (instructionInfo i) = 2"
  shows "returns st (\<lambda>n. bindK (incSequenceNumber 1) (\<lambda>_. bindK (keep n) (\<lambda>contents.
    bindK (modifyK (upd contents)) (\<lambda>_. bindK (getK m_sequenceNumber) (\<lambda>sq.
    bindK (find_item n (mkOp i loc) [slot, val] sq) (\<lambda>e. bindK (modifyK put) (\<lambda>_.
    bindK (incSequenceNumber 1) (\<lambda>_. retK (g sq e)))))))))  (\<lambda>_ _. True)"
  unfolding incSequenceNumber_def returns_modify
proof (rule returns_bind [OF keep], goal_cases)
  case (1 es st1)
  then have r1: "ready (upd es (fst st1), snd st1)" by (simp add: upd)
  have ids: "slot < count_classes st1" "val < count_classes st1" using st 1(2) by auto
  have "returns (upd es (fst st1), snd st1) (\<lambda>n. find_item n (mkOp i loc) [slot, val] sq)
      (\<lambda>c st'. fst st' = fst (upd es (fst st1), snd st1) \<and> c < count_classes st')" for sq
    by (rule returns_find [OF r1]) (use ids i in \<open>auto simp: arity_ok_def mkOp_def\<close>)
  then show ?case unfolding returns_modify returns_get
  proof (rule returns_bind, goal_cases)
    case (1 c st2)
    then have "ready (put (fst st2), snd st2)" by (intro put) (use ids in auto)
    then show ?case unfolding returns_modify by (intro returns_ret) (use ready_inc in fastforce)+
  qed
qed

lemma returns_kept:
  fixes keep :: "nat \<Rightarrow> nat \<Rightarrow> nat \<Rightarrow> bool known"
  assumes "ready st" "entries_exist es st" "slot < count_classes st"
    and "\<And>a c st'. ready st' \<Longrightarrow> a < count_classes st' \<Longrightarrow> slot < count_classes st' \<Longrightarrow>
      returns st' (\<lambda>n. keep n a c) (\<lambda>_ _. True)"
  shows "returns ((fst st)\<lparr>m_sequenceNumber := q\<rparr>, snd st) (\<lambda>n. keepEntries (keep n) es) entries_exist"
proof (rule returns_keepEntries [OF ready_inc [OF assms(1)]])
  show "entries_exist es ((fst st)\<lparr>m_sequenceNumber := q\<rparr>, snd st)" using assms(2) by (simp add: entries_exist_def)
next
  fix a c st'
  assume "ready st'" "count_classes ((fst st)\<lparr>m_sequenceNumber := q\<rparr>, snd st) \<le> count_classes st'" "(a, c) \<in> set es"
  moreover have "a < count_classes st" using assms(2) \<open>(a, c) \<in> set es\<close> by (auto simp: entries_exist_def)
  ultimately show "returns st' (\<lambda>n. keep n a c) (\<lambda>_ _. True)" by (intro assms(4)) (use assms(3) in auto)
qed

lemma returns_storeInStorage:
  assumes st: "ready st" "slot < count_classes st" "val < count_classes st"
  shows "returns st (\<lambda>n. storeInStorage n slot val loc) (\<lambda>_ _. True)"
proof (cases "map_of (m_storageContent (fst st)) slot = Some val")
  case True
  then show ?thesis using st(1) unfolding storeInStorage_def by (auto intro: returns_ret)
next
  case False
  have keep: "returns ((fst st)\<lparr>m_sequenceNumber := m_sequenceNumber (fst st) + 1\<rparr>, snd st) (\<lambda>n.
      keepEntries (\<lambda>slot' val'. bindK (classesK (\<lambda>cls. knownToBeDifferent n cls slot' slot)) (\<lambda>d. retK (d \<or> val' = val)))
        (m_storageContent (fst st))) entries_exist"
    by (rule returns_kept [OF st(1) ready_entries(1) [OF st(1)] st(2)], rule returns_bind, erule (2) returns_different)
      (auto intro: returns_ret)
  show ?thesis unfolding storeInStorage_def returns_get if_not_P [OF False]
    by (rule returns_store [OF st keep])
      (auto simp: instructionInfo_eqs intro: ready_contents ready_update ids_known_put ready_ids)
qed

lemma returns_storeInMemory:
  assumes st: "ready st" "slot < count_classes st" "val < count_classes st"
  shows "returns st (\<lambda>n. storeInMemory n slot val loc) (\<lambda>_ _. True)"
proof (cases "map_of (m_memoryContent (fst st)) slot = Some val")
  case True
  then show ?thesis using st(1) unfolding storeInMemory_def by (auto intro: returns_ret)
next
  case False
  have keep: "returns ((fst st)\<lparr>m_sequenceNumber := m_sequenceNumber (fst st) + 1\<rparr>, snd st) (\<lambda>n.
      keepEntries (\<lambda>slot' val'. classesK (\<lambda>cls. knownToBeDifferentBy32 n cls slot' slot)) (m_memoryContent (fst st)))
      entries_exist"
    by (rule returns_kept [OF st(1) ready_entries(2) [OF st(1)] st(2)], erule (2) returns_different)
  show ?thesis unfolding storeInMemory_def returns_get if_not_P [OF False]
    by (rule returns_store [OF st keep])
      (auto simp: instructionInfo_eqs intro: ready_contents ready_update ids_known_put ready_ids)
qed

lemma returns_read:
  assumes "f (snd st) = Inr x"
  shows "returns st (\<lambda>n. bindK (readK f) (G n)) Q \<longleftrightarrow> returns st (\<lambda>n. G n x) Q"
  using assms by (simp add: returns_def readK_def)

lemma ready_constant: "ready st \<Longrightarrow> c < count_classes st \<Longrightarrow> \<exists>v. knownConstant (snd st) c = Inr v"
  using known_return(2) by (auto simp: ready_def)

lemma returns_constants:
  assumes "ready st" "\<forall>c \<in> set cs. c < count_classes st"
  shows "returns st (\<lambda>n. mapK (\<lambda>a. readK (\<lambda>cls. knownConstant cls a)) cs) (\<lambda>_ st'. st' = st)"
  using assms(2)
proof (induction cs)
  case Nil
  then show ?case using assms(1) unfolding mapK.simps by (intro returns_ret) simp_all
next
  case (Cons c cs)
  then obtain v where v: "knownConstant (snd st) c = Inr v" using ready_constant [OF assms(1)] by auto
  then have "returns st (\<lambda>n. bindK (mapK (\<lambda>a. readK (\<lambda>cls. knownConstant cls a)) cs) (\<lambda>ys. retK (v # ys))) (\<lambda>_ st'. st' = st)"
    using Cons.prems by (intro returns_bind [OF Cons.IH] returns_ret) auto
  then show ?case unfolding mapK.simps returns_read [where f = "\<lambda>cls. knownConstant cls c", OF v] .
qed

lemma returns_keccakItem:
  assumes "ready st" "start < count_classes st" "len < count_classes st"
  shows "returns st (\<lambda>n. find_item n (mkOp KECCAK256 loc) [start, len] sq) class_exists"
  by (rule returns_weaken [OF returns_find [OF assms(1)]])
    (use assms in \<open>auto simp: arity_ok_def mkOp_def instructionInfo_eqs\<close>)

lemma returns_pushed: "ready st \<Longrightarrow> returns st (\<lambda>n. find_item n (mkPush v loc) [] sq) class_exists"
  by (rule returns_weaken [OF returns_find]) (auto simp: mkPush_def mkItem_def arity_item)

lemma returns_word:
  assumes "ready st" "start < count_classes st"
  shows "returns st (\<lambda>n. bindK (find_item n (mkPush i noLocation) [] 0) (\<lambda>ic.
    bindK (find_item n (mkOp ADD loc) [start, ic] 0) (\<lambda>slot. loadFromMemory n slot loc))) class_exists"
proof (rule returns_bind [OF returns_pushed [OF assms(1)]], goal_cases)
  case (1 ic st1)
  then have "returns st1 (\<lambda>n. find_item n (mkOp ADD loc) [start, ic] 0) (\<lambda>c st'. fst st' = fst st1 \<and> c < count_classes st')"
    by (intro returns_find) (use assms in \<open>auto simp: arity_ok_def mkOp_def instructionInfo_eqs\<close>)
  then show ?case by (rule returns_bind) (auto intro: returns_load)
qed

lemma returns_cached:
  assumes "ready st" "v < count_classes st"
  shows "returns st (\<lambda>n. bindK (modifyK (\<lambda>ks. ks\<lparr>m_knownKeccak256Hashes :=
    map_put as v (m_knownKeccak256Hashes ks)\<rparr>)) (\<lambda>_. retK v)) class_exists"
  unfolding returns_modify by (intro returns_ret ready_update ids_known_put ready_ids) (use assms in auto)

lemma returns_hash:
  assumes "ready st" "start < count_classes st" "len < count_classes st" "\<forall>c \<in> set cs. c < count_classes st"
  shows "returns st (\<lambda>n. bindK (getK m_knownKeccak256Hashes) (\<lambda>hashes.
      case map_of hashes cs of
        Some v \<Rightarrow> retK v
      | None \<Rightarrow>
          bindK (mapK (\<lambda>a. readK (\<lambda>cls. knownConstant cls a)) cs) (\<lambda>constants.
          bindK (if \<forall>c \<in> set constants. c \<noteq> None
              then let dat = concat (map (\<lambda>c. toBigEndian (the c)) constants)
                in find_item n (mkPush (keccak (take k dat)) loc) [] 0
              else bindK (getK m_sequenceNumber) (\<lambda>sq. find_item n (mkOp KECCAK256 loc) [start, len] sq))
            (\<lambda>v.
          bindK (modifyK (\<lambda>ks. ks\<lparr>m_knownKeccak256Hashes :=
              map_put cs v (m_knownKeccak256Hashes ks)\<rparr>)) (\<lambda>_. retK v))))) class_exists"
proof (cases "map_of (m_knownKeccak256Hashes (fst st)) cs")
  case (Some v)
  show ?thesis unfolding returns_get Some option.case
    by (intro returns_ret assms(1)) (rule ids_known_lookup(4) [OF ready_ids [OF assms(1)] Some])
next
  case None
  show ?thesis unfolding returns_get None option.case
  proof (rule returns_bind [OF returns_constants [OF assms(1,4)]], goal_cases)
    case (1 constants st1)
    then have [simp]: "st1 = st" by simp
    show ?case
    proof (cases "\<forall>c \<in> set constants. c \<noteq> None")
      case True
      show ?thesis unfolding if_P [OF True] Let_def \<open>st1 = st\<close>
        by (rule returns_bind [OF returns_pushed [OF assms(1)]]) (rule returns_cached)
    next
      case False
      show ?thesis unfolding if_not_P [OF False] \<open>st1 = st\<close>
        by (rule returns_bind, unfold returns_get, rule returns_keccakItem [OF assms(1-3)]) (rule returns_cached)
    qed
  qed
qed

lemma returns_applyKeccak256:
  assumes st: "ready st" "start < count_classes st" "len < count_classes st"
  shows "returns st (\<lambda>n. applyKeccak256 keccak n start len loc) class_exists"
proof -
  obtain l where l: "knownConstant (snd st) len = Inr l" using ready_constant [OF st(1,3)] by blast
  show ?thesis
  proof (cases l)
    case None
    then show ?thesis using returns_keccakItem [OF st]
      by (simp add: applyKeccak256_def Let_def returns_read [where f = "\<lambda>cls. knownConstant cls len", OF l])
  next
    case (Some w)
    note start = applyKeccak256_def Let_def returns_read [where f = "\<lambda>cls. knownConstant cls len", OF l] Some option.case
    show ?thesis
    proof (cases "128 < w")
      case True
      show ?thesis unfolding start if_P [OF True] returns_get by (intro returns_keccakItem st)
    next
      case False
      show ?thesis unfolding start if_not_P [OF False]
      proof (rule returns_bind [OF returns_mapK [OF st(1)]], goal_cases)
        case (1 i st')
        then show ?case by (intro returns_word) (use st in auto)
      next
        case (2 cs st')
        then show ?case by (intro returns_hash [unfolded Let_def]) (use st in auto)
      qed
    qed
  qed
qed

section \<open>Feeding\<close>

lemma one_result: "\<not> isDupInstruction i \<Longrightarrow> \<not> isSwapInstruction i \<Longrightarrow> ii_ret (instructionInfo i) \<le> 1"
proof -
  have "\<forall>(i, row) \<in> set c_instructionInfo. ii_ret row \<le> 1 \<or> isDupInstruction i \<or> isSwapInstruction i"
    by code_simp
  then show "\<not> isDupInstruction i \<Longrightarrow> \<not> isSwapInstruction i \<Longrightarrow> ii_ret (instructionInfo i) \<le> 1"
    by (auto simp: instructionInfo_def split: option.split dest!: map_of_SomeD)
qed

lemma returns_feedOther:
  assumes st: "ready st" and args: "length arguments = ii_args (instructionInfo (m_instruction it))"
      "\<forall>a \<in> set arguments. a < count_classes st"
    and no: "\<not> isDupInstruction (m_instruction it)" "\<not> isSwapInstruction (m_instruction it)"
  shows "returns st (\<lambda>n. feedOther n it arguments) (\<lambda>_ _. True)"
proof -
  let ?i = "m_instruction it"
  let ?st = "(if invalidatesStorage ?i
      then resetStorage (if invalidatesMemory ?i then resetMemory (fst st) else fst st)
      else (if invalidatesMemory ?i then resetMemory (fst st) else fst st), snd st)"
  let ?b = "invalidatesMemory ?i \<or> invalidatesStorage ?i"
  have r: "ready ?st"
    using st by (auto simp: ready_def ids_known_def resetMemory_def resetStorage_def)
  have inc: "returns ?st (\<lambda>n. if ?b then incSequenceNumber 2 else retK ()) (\<lambda>_ st'. snd st' = snd st)"
  proof (cases ?b)
    case True
    show ?thesis unfolding if_P [OF True] incSequenceNumber_def
      by (rule returns_modify_only) (use ready_inc [OF r] in simp_all)
  next
    case False
    show ?thesis unfolding if_not_P [OF False] by (rule returns_ret [OF r]) simp
  qed
  show ?thesis unfolding feedOther_def Let_def returns_modify fst_conv snd_conv
  proof (rule returns_bind [OF inc], goal_cases)
    case (1 u st1)
    have find: "returns st1 (\<lambda>n. find_item n it arguments 0) class_exists"
      by (rule returns_weaken [OF returns_find [OF 1(1)]]) (use args 1(3) in \<open>auto simp: arity_ok_def\<close>)
    show ?case unfolding returns_assert [OF one_result [OF no]]
    proof (cases "ii_ret (instructionInfo ?i) = 1")
      case True
      show "returns st1 (\<lambda>n. if ii_ret (instructionInfo ?i) = 1
          then bindK (getK m_stackHeight) (\<lambda>h. bindK (find_item n it arguments 0) (\<lambda>c. setStackElement (h + item_deposit it) c))
          else retK ()) (\<lambda>_ _. True)"
        unfolding if_P [OF True] returns_get by (rule returns_bind [OF find]) (auto intro: returns_set)
    next
      case False
      show "returns st1 (\<lambda>n. if ii_ret (instructionInfo ?i) = 1
          then bindK (getK m_stackHeight) (\<lambda>h. bindK (find_item n it arguments 0) (\<lambda>c. setStackElement (h + item_deposit it) c))
          else retK ()) (\<lambda>_ _. True)"
        unfolding if_not_P [OF False] by (rule returns_ret [OF 1(1)]) simp
    qed
  qed
qed

lemma swap_number: "isSwapInstruction i \<Longrightarrow> (h :: int) \<noteq> h - 1 - uint i + uint SWAP1"
  by (auto simp: isSwapInstruction_def word_le_def)

lemma returns_then:
  "returns st F (\<lambda>_ _. True) \<Longrightarrow> returns st (\<lambda>n. bindK (F n) (\<lambda>_. retK x)) (\<lambda>_ _. True)"
  by (erule returns_bind) (auto intro: returns_ret)

lemma returns_set_then:
  "returns st F class_exists \<Longrightarrow>
   returns st (\<lambda>n. bindK (F n) (\<lambda>c. bindK (setStackElement h c) (\<lambda>_. retK x))) (\<lambda>_ _. True)"
  by (erule returns_bind) (auto intro!: returns_then returns_set)

lemma returns_feedOperation:
  assumes st: "ready st" and op: "m_type it = Operation"
  shows "returns st (\<lambda>n. feedOperation keccak n it) (\<lambda>_ _. True)"
proof -
  let ?i = "m_instruction it"
  consider "item_isDup it" | "\<not> item_isDup it" "item_isSwap it" | "\<not> item_isDup it" "\<not> item_isSwap it" "?i \<noteq> POP"
    | "\<not> item_isDup it" "\<not> item_isSwap it" "?i = POP" by blast
  then show ?thesis
  proof cases
    case 1
    then show ?thesis unfolding feedOperation_def Let_def returns_get
      by (simp only: if_True) (intro returns_set_then returns_stackElement st)
  next
    case 2
    then have "isSwapInstruction ?i" by (simp add: item_isSwap_def split: if_splits)
    then show ?thesis unfolding feedOperation_def Let_def returns_get
      by (simp only: 2 if_True if_False) (intro returns_then returns_swap st swap_number)
  next
    case 3
    have "item_isDup it \<longleftrightarrow> isDupInstruction ?i" "item_isSwap it \<longleftrightarrow> isSwapInstruction ?i"
      using op by (simp_all add: item_isDup_def item_isSwap_def)
    with 3 have no: "\<not> isDupInstruction ?i" "\<not> isSwapInstruction ?i" by simp_all
    show ?thesis unfolding feedOperation_def Let_def returns_get
      unfolding if_not_P [OF 3(1)] if_not_P [OF 3(2)] if_P [OF 3(3)]
    proof (rule returns_bind [OF returns_mapK [OF st]], goal_cases)
      case (1 k st')
      then show ?case by (intro returns_stackElement)
    next
      case (2 as st1)
      then have as: "length as = ii_args (instructionInfo ?i)" "\<forall>a \<in> set as. a < count_classes st1" by simp_all
      have arg: "k < ii_args (instructionInfo ?i) \<Longrightarrow> as ! k < count_classes st1" for k using as by simp
      have two: "as ! 0 < count_classes st1" "as ! 1 < count_classes st1" if "?i \<in> {SSTORE, MSTORE, KECCAK256}"
        using that arg [of 0] arg [of 1] by (auto simp: instructionInfo_eqs)
      have one: "as ! 0 < count_classes st1" if "?i \<in> {SLOAD, MLOAD}"
        using that arg [of 0] by (auto simp: instructionInfo_eqs)
      show ?case using two one
        by (cases "?i = SSTORE"; cases "?i = SLOAD"; cases "?i = MSTORE"; cases "?i = MLOAD"; cases "?i = KECCAK256")
          (auto intro: returns_storeInStorage [OF 2(1)] returns_storeInMemory [OF 2(1)]
            returns_set_then [OF returns_load(1) [OF 2(1)]] returns_set_then [OF returns_load(2) [OF 2(1)]]
            returns_set_then [OF returns_applyKeccak256 [OF 2(1)]]
            returns_then [OF returns_feedOther [OF 2(1) as no]])
    qed
  next
    case 4
    then show ?thesis unfolding feedOperation_def Let_def returns_get
      by (simp only: simp_thms if_True if_False) (intro returns_ret st TrueI)
  qed
qed

lemma returns_feedOp:
  assumes st: "ready st" and op: "m_type it = Operation"
  shows "returns st (\<lambda>n. feedOp keccak n it) (\<lambda>_ _. True)"
  unfolding feedOp_def dropAbove_def
proof (rule returns_bind [OF returns_feedOperation [OF assms]], goal_cases)
  case (1 x st1)
  then show ?case unfolding returns_get returns_modify
    by (intro returns_ret) (auto simp: ready_def ids_known_def)
qed

lemma returns_feedPush:
  assumes st: "ready st" and ty: "m_type it \<notin> {Operation, Tag, AssignImmutable, UndefinedItem}"
  shows "returns st (\<lambda>n. feedPush n it) (\<lambda>_ _. True)"
proof -
  have dep: "item_deposit it = 1"
    using ty by (cases "m_type it") (auto simp: item_deposit_def item_returnValues_def item_arguments_def)
  let ?st = "((fst st)\<lparr>m_stackHeight := m_stackHeight (fst st) + 1\<rparr>, snd st)"
  have r: "ready ?st" using st by (simp add: ready_def ids_known_def)
  have "returns ?st (\<lambda>n. case m_pushedValue it of Some v \<Rightarrow> find_item n (mkPush v noLocation) [] 0
      | None \<Rightarrow> find_item n it [] 0) class_exists"
  proof (cases "m_pushedValue it")
    case None
    then show ?thesis using returns_find [OF r, of "[]" it 0] ty
      by (auto simp: arity_item intro: returns_weaken)
  next
    case (Some v)
    then show ?thesis using returns_pushed [OF r] by simp
  qed
  then show ?thesis unfolding feedPush_def returns_assert [OF dep] returns_modify returns_get
    by (rule returns_set_then)
qed

text \<open>Every item but an undefined one can be fed.\<close>

lemma returns_feedItem:
  assumes st: "ready st" and ty: "m_type it \<noteq> UndefinedItem"
  shows "returns st (\<lambda>n. feedItem keccak n it) (\<lambda>_ _. True)"
proof -
  consider "m_type it = Tag" | "m_type it = AssignImmutable" | "m_type it = Operation"
    | "m_type it \<notin> {Operation, Tag, AssignImmutable, UndefinedItem}" using ty by blast
  then show ?thesis
    by cases (auto simp: feedItem_def mkOp_def intro: returns_ret st returns_feedOp [OF st] returns_feedPush [OF st])
qed

lemma returns_feedItems:
  "ready st \<Longrightarrow> \<forall>it \<in> set items. m_type it \<noteq> UndefinedItem \<Longrightarrow>
   returns st (\<lambda>n. mapK (feedItem keccak n) items) (\<lambda>_ _. True)"
proof (induction items arbitrary: st)
  case Nil
  then show ?case unfolding mapK.simps by (intro returns_ret) simp_all
next
  case (Cons it items)
  show ?case unfolding mapK.simps
  proof (rule returns_bind [OF returns_feedItem [OF Cons.prems(1)]], goal_cases)
    case (2 x st1)
    show ?case by (rule returns_bind [OF Cons.IH]) (use Cons.prems(2) 2(1) in \<open>auto intro: returns_ret\<close>)
  qed (use Cons.prems(2) in simp)
qed

lemma ready_start: "ready (initialState, emptyClasses)"
  by (auto simp: ready_def ids_known_def initialState_def emptyClasses_def weighted_def)

section \<open>Properties\<close>

text \<open>
  C30: the analysis of a block always returns. Whatever items other than undefined ones a block
  has, feeding them to the empty state ends without an exception, with a result that does not
  depend on the fuel once it is enough, and leaves a state whose entries all name existing
  classes.
\<close>

theorem known_state_returns:
  assumes "\<forall>it \<in> set items. m_type it \<noteq> UndefinedItem"
  shows "\<exists>m ops st. (\<forall>n \<ge> m. mapK (feedItem keccak n) items (initialState, emptyClasses) = Some (Inr (ops, st))) \<and>
    ids_known (count_classes st) (fst st)"
  using returns_feedItems [OF ready_start assms] ready_ids unfolding returns_def by blast

text \<open>A block that leaves a swapped sum of a load and of an unknown slot.\<close>

theorem known_state_returns_witness:
  "\<forall>keccak. \<exists>m ops st. (\<forall>n \<ge> m. mapK (feedItem keccak n)
     [mkPush 0 noLocation, mkOp SLOAD noLocation, mkOp ADD noLocation, mkOp SWAP1 noLocation, mkOp SSTORE noLocation]
     (initialState, emptyClasses) = Some (Inr (ops, st))) \<and> ids_known (count_classes st) (fst st)"
  by (intro allI known_state_returns) (simp add: mkPush_def mkItem_def mkOp_def)

end
