(* ===== verification/KnownAnalysis.thy ===== *)
theory KnownAnalysis
  imports KnownFeed KnownReturns
begin

text \<open>
  The analysis of a block by \<open>KnownState\<close>: it returns, and what it returns is true of the machine.
  The theorems put together that feeding returns (\<open>KnownReturns\<close>) and that what it returns is sound
  (\<open>KnownFeed\<close>).
\<close>

lemma item_continues_defined: "item_step env it stk s = Continue stk' s' \<Longrightarrow> m_type it \<noteq> UndefinedItem"
  by (auto simp: item_step_def)

lemma steps_continue_defined: "steps env items stk s = Continue stk' s' \<Longrightarrow> \<forall>it \<in> set items. m_type it \<noteq> UndefinedItem"
proof (induction items arbitrary: stk s)
  case (Cons it items)
  then show ?case using item_continues_defined by (auto split: step_result.splits)
qed simp

text \<open>What is known of the machine: \<open>val\<close> gives the classes their values.\<close>

definition known_facts ::
  "(nat \<Rightarrow> u256) \<Rightarrow> known_state \<Rightarrow> expression_classes \<Rightarrow> u256 list \<Rightarrow> interpreter_state \<Rightarrow> bool" where
  "known_facts val ks cls stk s \<longleftrightarrow>
     (\<forall>j c. j < length stk \<and> map_of (m_stackElements ks) (m_stackHeight ks - int j) = Some c \<longrightarrow> stk ! j = val c) \<and>
     (\<forall>(slot, c) \<in> set (m_storageContent ks). storage s (val slot) = val c) \<and>
     (\<forall>(slot, c) \<in> set (m_memoryContent ks). readMemoryWord (val slot) s = val c) \<and>
     (\<forall>c w. knownConstant cls c = Inr (Some w) \<longrightarrow> val c = w)"

lemma described_facts:
  assumes "describes C val (ks, cls) s" "describes_stack C val ks stk"
  shows "known_facts val ks cls stk s"
proof -
  have d: "classes_sound (meaning_of C (m_sequenceNumber ks)) val cls"
      "content_ok val (length (m_representatives cls)) (storage s) (m_storageContent ks)"
      "content_ok val (length (m_representatives cls)) (\<lambda>a. readMemoryWord a s) (m_memoryContent ks)"
      "\<forall>j < length stk. slot_value (c_unassigned C) val ks (m_stackHeight ks - int j) = stk ! j"
    using assms by (auto simp: describes_def Let_def describes_stack_def)
  have const: "val c = w" if "knownConstant cls c = Inr (Some w)" for c w
    using machine.knownConstant_sound [OF d(1) [unfolded meaning_of_def] that] by simp
  show ?thesis using d(2-4) const by (auto simp: known_facts_def content_ok_def slot_value_def)
qed

section \<open>Properties\<close>





text \<open>
  C31: the hash of a range of memory is looked up by the words of the range alone. If two length
  classes are constants that cover the same number of words and the words of the range have a hash
  in the cache, \<open>applyKeccak256\<close> gives the same class for both lengths: 31 bytes get the hash of 32.
\<close>

theorem keccak_cache_ignores_length:
  assumes "knownConstant (snd st) a = Inr (Some l)" "knownConstant (snd st) b = Inr (Some k)"
    and "l \<le> 128" "k \<le> 128" "wordOffsets l = wordOffsets k"
    and "mapK (\<lambda>i. bindK (find_item n (mkPush i noLocation) [] 0) (\<lambda>ic.
        bindK (find_item n (mkOp ADD loc) [start, ic] 0) (\<lambda>slot. loadFromMemory n slot loc))) (wordOffsets l) st =
      Some (Inr (ws, st'))"
    and "map_of (m_knownKeccak256Hashes (fst st')) ws = Some v"
  shows "applyKeccak256 keccak n start a loc st = Some (Inr (v, st')) \<and>
    applyKeccak256 keccak n start b loc st = Some (Inr (v, st'))"
proof -
  have "applyKeccak256 keccak n start x loc st = Some (Inr (v, st'))"
    if "knownConstant (snd st) x = Inr (Some y)" "y \<le> 128" "wordOffsets y = wordOffsets l" for x y
    using that assms(6,7) by (simp add: applyKeccak256_def Let_def readK_def not_less [symmetric])
  then show ?thesis using assms(1-5) by simp
qed

text \<open>A word of memory with a known hash, and the lengths 32 and 31.\<close>

definition keccak_example :: kstate where
  "keccak_example =
     (let push = (\<lambda>k v. \<lparr>e_id = k, e_item = Some (mkPush v noLocation), e_arguments = [], e_sequenceNumber = 0\<rparr>);
          sum = \<lparr>e_id = 0, e_item = Some (mkOp ADD noLocation), e_arguments = [0, 0], e_sequenceNumber = 0\<rparr>;
          word = \<lparr>e_id = 3, e_item = Some (mkOp MLOAD noLocation), e_arguments = [0], e_sequenceNumber = 1\<rparr>;
          hashed = \<lparr>e_id = 4, e_item = Some (mkOp KECCAK256 noLocation), e_arguments = [0, 1], e_sequenceNumber = 1\<rparr>
      in (initialState\<lparr>m_memoryContent := [(0, 3)], m_knownKeccak256Hashes := [([3], 4)]\<rparr>,
          \<lparr>m_representatives = [push 0 0, push 1 32, push 2 31, word, hashed],
           m_expressions = [push 0 0, push 1 32, push 2 31, sum, word, hashed]\<rparr>))"

theorem keccak_cache_ignores_length_witness:
  "\<forall>keccak. applyKeccak256 keccak 1 0 1 noLocation keccak_example = Some (Inr (4, keccak_example)) \<and>
     applyKeccak256 keccak 1 0 2 noLocation keccak_example = Some (Inr (4, keccak_example))"
proof
  fix keccak
  have const: "knownConstant (snd keccak_example) 1 = Inr (Some 32)" "knownConstant (snd keccak_example) 2 = Inr (Some 31)"
    by (simp_all add: keccak_example_def Let_def knownConstant_def representative_def setMatchGroup_def any_of_def
        matches.simps matchesBaseItem_def match_d_def mkPush_def mkItem_def)
  have words: "wordOffsets 32 = [0]" "wordOffsets 31 = [0]" by (simp_all add: wordOffsets_def)
  have find: "find_item 1 (mkPush 0 noLocation) [] 0 keccak_example = Some (Inr (0, keccak_example))"
      "find_item 1 (mkOp ADD noLocation) [0, 0] 0 keccak_example = Some (Inr (0, keccak_example))"
    by (simp_all add: find_item_def classesK_def keccak_example_def find_class.simps Let_def commonExpression_def
        isDeterministic_def isCommutativeOperation_def mkPush_def mkItem_def mkOp_def expression_equiv_def
        expression_less_def)
  have load: "loadFromMemory 1 0 noLocation keccak_example = Some (Inr (3, keccak_example))"
    by (simp add: loadFromMemory_def keccak_example_def Let_def)
  have "mapK (\<lambda>i. bindK (find_item 1 (mkPush i noLocation) [] 0) (\<lambda>ic.
      bindK (find_item 1 (mkOp ADD noLocation) [0, ic] 0) (\<lambda>slot. loadFromMemory 1 slot noLocation))) (wordOffsets 32)
      keccak_example = Some (Inr ([3], keccak_example))"
    by (simp add: words(1) find [unfolded One_nat_def] load [unfolded One_nat_def])
  moreover have "map_of (m_knownKeccak256Hashes (fst keccak_example)) [3] = Some 4"
    by (simp add: keccak_example_def Let_def)
  ultimately show "applyKeccak256 keccak 1 0 1 noLocation keccak_example = Some (Inr (4, keccak_example)) \<and>
      applyKeccak256 keccak 1 0 2 noLocation keccak_example = Some (Inr (4, keccak_example))"
    using keccak_cache_ignores_length [OF const] words by simp
qed

end
