(* ===== verification/YulAST.thy ===== *)
theory YulAST
  imports CommonData
begin

text \<open>
  \<open>libyul/AsmData.h\<close>, the syntax tree of Yul, and the values of literals of
  \<open>libyul/Utilities.cpp\<close>. Source locations carry no meaning and are left out. A \<open>YulString\<close>, an
  index into a table of interned strings, is the string.
\<close>

section \<open>Syntax\<close>

type_synonym yul_type = string

datatype typed_name = TypedName (tn_name: string) (tn_type: yul_type)

datatype literal_kind = Number | Boolean | String'

record literal =
  lit_kind :: literal_kind
  lit_value :: string
  lit_type :: yul_type

datatype expr =
    FunctionCall string "expr list"
  | Identifier string
  | Literal literal

text \<open>A case without a literal is the default case.\<close>

datatype stmt =
    ExpressionStatement expr
  | Assignment "string list" expr
  | VariableDeclaration "typed_name list" "expr option"
  | FunctionDefinition string "typed_name list" "typed_name list" "stmt list"
  | If' expr "stmt list"
  | Switch expr "(literal option \<times> stmt list) list"
  | ForLoop "stmt list" expr "stmt list" "stmt list"
  | Break
  | Continue
  | Leave
  | Block "stmt list"

text \<open>The order of the fields of a loop is the source's: \<open>pre\<close>, condition, \<open>post\<close>, \<open>body\<close>.\<close>

definition numberLiteral :: "string \<Rightarrow> yul_type \<Rightarrow> literal" where
  "numberLiteral v t = \<lparr>lit_kind = Number, lit_value = v, lit_type = t\<rparr>"

definition booleanLiteral :: "string \<Rightarrow> yul_type \<Rightarrow> literal" where
  "booleanLiteral v t = \<lparr>lit_kind = Boolean, lit_value = v, lit_type = t\<rparr>"

fun holdsFunctionDefinition :: "stmt \<Rightarrow> bool" where
  "holdsFunctionDefinition (FunctionDefinition f ps rs b) = True"
| "holdsFunctionDefinition s = False"

section \<open>Values of literals\<close>

text \<open>
  The constructor \<open>u256(string)\<close> on the strings that pass the validity checks: hexadecimal after
  \<open>0x\<close>, decimal otherwise, modulo \<open>2 ^ 256\<close>.
\<close>

definition hexDigitValue :: "char \<Rightarrow> u256" where
  "hexDigitValue c = (case fromHex_char c DontThrow of Inr i \<Rightarrow> word_of_int i | Inl _ \<Rightarrow> 0)"

definition u256_of_string :: "string \<Rightarrow> u256" where
  "u256_of_string s =
     (if take 2 s = ''0x'' then foldl (\<lambda>a c. a * 16 + hexDigitValue c) 0 (drop 2 s)
      else foldl (\<lambda>a c. a * 10 + hexDigitValue c) 0 s)"

definition valueOfNumberLiteral :: "literal \<Rightarrow> u256 result" where
  "valueOfNumberLiteral l =
     bindR (assertThrow (lit_kind l = Number) UtilException) (\<lambda>_.
     bindR (assertThrow (isValidDecimal (lit_value l) \<or> isValidHex (lit_value l)) UtilException) (\<lambda>_.
       Inr (u256_of_string (lit_value l))))"

definition valueOfStringLiteral :: "literal \<Rightarrow> u256 result" where
  "valueOfStringLiteral l =
     bindR (assertThrow (lit_kind l = String') UtilException) (\<lambda>_.
     bindR (assertThrow (length (lit_value l) \<le> 32) UtilException) (\<lambda>_.
       Inr (fromBigEndian (map of_char (lit_value l) @ replicate (32 - length (lit_value l)) 0))))"

definition valueOfBoolLiteral :: "literal \<Rightarrow> u256 result" where
  "valueOfBoolLiteral l =
     bindR (assertThrow (lit_kind l = Boolean) UtilException) (\<lambda>_.
       if lit_value l = ''true'' then Inr 1
       else if lit_value l = ''false'' then Inr 0
       else Inl UtilException)"

definition valueOfLiteral :: "literal \<Rightarrow> u256 result" where
  "valueOfLiteral l =
     (case lit_kind l of
        Number \<Rightarrow> valueOfNumberLiteral l
      | Boolean \<Rightarrow> valueOfBoolLiteral l
      | String' \<Rightarrow> valueOfStringLiteral l)"

section \<open>Lemmas\<close>

lemma value_of_constants [simp]:
  "valueOfLiteral (numberLiteral ''0'' t) = Inr 0"
  "valueOfLiteral (booleanLiteral ''true'' t) = Inr 1"
  "valueOfLiteral (booleanLiteral ''false'' t) = Inr 0"
  by (simp_all add: valueOfLiteral_def numberLiteral_def booleanLiteral_def valueOfNumberLiteral_def
      valueOfBoolLiteral_def isValidDecimal_def u256_of_string_def hexDigitValue_def fromHex_char_def)

end
