(* ===== verification/YulDialect.thy ===== *)
theory YulDialect
  imports YulAST EVMVersion SemanticInformation
begin

text \<open>
  \<open>libyul/SideEffects.h\<close>, \<open>libyul/Dialect.{h,cpp}\<close> and \<open>libyul/backends/evm/EVMDialect.{h,cpp}\<close>:
  what a dialect of Yul provides, and the dialect whose builtin functions are the opcodes of the
  EVM. The code generators attached to the builtins belong to the code generation and are left out.
\<close>

section \<open>Side effects\<close>

record side_effects =
  se_movable :: bool
  se_sideEffectFree :: bool
  se_sideEffectFreeIfNoMSize :: bool
  se_invalidatesStorage :: bool
  se_invalidatesMemory :: bool

definition SideEffects :: "bool \<Rightarrow> bool \<Rightarrow> bool \<Rightarrow> bool \<Rightarrow> bool \<Rightarrow> side_effects" where
  "SideEffects m f fm st me =
     \<lparr>se_movable = m, se_sideEffectFree = f, se_sideEffectFreeIfNoMSize = fm,
      se_invalidatesStorage = st, se_invalidatesMemory = me\<rparr>"

definition noSideEffects :: side_effects where
  "noSideEffects = SideEffects True True True False False"

definition worstSideEffects :: side_effects where
  "worstSideEffects = SideEffects False False False True True"

definition plusSideEffects :: "side_effects \<Rightarrow> side_effects \<Rightarrow> side_effects" where
  "plusSideEffects a b = SideEffects
     (se_movable a \<and> se_movable b)
     (se_sideEffectFree a \<and> se_sideEffectFree b)
     (se_sideEffectFreeIfNoMSize a \<and> se_sideEffectFreeIfNoMSize b)
     (se_invalidatesStorage a \<or> se_invalidatesStorage b)
     (se_invalidatesMemory a \<or> se_invalidatesMemory b)"

section \<open>Dialects\<close>

record builtin_function =
  bf_name :: string
  bf_parameters :: "yul_type list"
  bf_returns :: "yul_type list"
  bf_sideEffects :: side_effects
  bf_terminates :: bool
  bf_reverts :: bool
  bf_isMSize :: bool
  bf_literalArguments :: "literal_kind option list"
  bf_instruction :: "instruction option"

record dialect =
  defaultType :: yul_type
  boolType :: yul_type
  types :: "yul_type list"
  builtin :: "string \<Rightarrow> builtin_function option"
  discardFunction :: "yul_type \<Rightarrow> builtin_function option"
  equalityFunction :: "yul_type \<Rightarrow> builtin_function option"
  booleanNegationFunction :: "builtin_function option"

text \<open>\<open>literalArgument(i)\<close>; the access \<open>at\<close> throws beyond the end of the list.\<close>

definition literalArgument :: "builtin_function \<Rightarrow> nat \<Rightarrow> literal_kind option result" where
  "literalArgument f i =
     (if bf_literalArguments f = [] then Inr None
      else if i < length (bf_literalArguments f) then Inr (bf_literalArguments f ! i)
      else Inl OutOfRange)"

definition zeroLiteralForType :: "dialect \<Rightarrow> yul_type \<Rightarrow> literal" where
  "zeroLiteralForType D t =
     (if t = boolType D \<and> t \<noteq> defaultType D then booleanLiteral ''false'' t
      else numberLiteral ''0'' t)"

definition validTypeForLiteral :: "dialect \<Rightarrow> literal_kind \<Rightarrow> string \<Rightarrow> yul_type \<Rightarrow> bool" where
  "validTypeForLiteral D kind v t = (if kind = Boolean then t = boolType D else True)"

text \<open>The dialect without builtin functions, kept by the source for tests.\<close>

definition yulDeprecated :: dialect where
  "yulDeprecated =
     \<lparr>defaultType = ''u256'', boolType = ''bool'',
      types = [''bool'', ''u8'', ''s8'', ''u32'', ''s32'', ''u64'', ''s64'', ''u128'', ''s128'',
               ''u256'', ''s256''],
      builtin = (\<lambda>_. None), discardFunction = (\<lambda>_. None), equalityFunction = (\<lambda>_. None),
      booleanNegationFunction = None\<rparr>"

section \<open>The builtin functions of the EVM\<close>

definition sideEffectsOfInstruction :: "instruction \<Rightarrow> side_effects result" where
  "sideEffectsOfInstruction i =
     bindR (sideEffectFree i) (\<lambda>sef.
     bindR (sideEffectFreeIfNoMSize i) (\<lambda>sefm.
       Inr (SideEffects (movable i) sef sefm (invalidatesStorage i) (invalidatesMemory i))))"

definition createEVMFunction :: "string \<Rightarrow> instruction \<Rightarrow> (string \<times> builtin_function) result" where
  "createEVMFunction name i =
     bindR (sideEffectsOfInstruction i) (\<lambda>se.
       Inr (name,
         \<lparr>bf_name = name,
          bf_parameters = replicate (ii_args (instructionInfo i)) [],
          bf_returns = replicate (ii_ret (instructionInfo i)) [],
          bf_sideEffects = se,
          bf_terminates = instr_terminatesControlFlow i,
          bf_reverts = instr_reverts i,
          bf_isMSize = (i = MSIZE),
          bf_literalArguments = [],
          bf_instruction = Some i\<rparr>))"

definition createFunction ::
  "string \<Rightarrow> nat \<Rightarrow> nat \<Rightarrow> side_effects \<Rightarrow> literal_kind option list \<Rightarrow> string \<times> builtin_function" where
  "createFunction name params returns se literals =
     (name,
      \<lparr>bf_name = name, bf_parameters = replicate params [], bf_returns = replicate returns [],
       bf_sideEffects = se, bf_terminates = False, bf_reverts = False, bf_isMSize = False,
       bf_literalArguments = literals, bf_instruction = None\<rparr>)"

definition tolower :: "char \<Rightarrow> char" where
  "tolower c = (let i = of_char c :: nat in if 65 \<le> i \<and> i \<le> 90 then char_of (i + 32) else c)"

text \<open>The opcodes that are functions of the dialect: no stack shuffling, no jumps.\<close>

definition usableOpcode :: "evm_version \<Rightarrow> instruction \<Rightarrow> bool" where
  "usableOpcode v opcode \<longleftrightarrow>
     \<not> isDupInstruction opcode \<and> \<not> isSwapInstruction opcode \<and> \<not> isPushInstruction opcode \<and>
     opcode \<noteq> JUMP \<and> opcode \<noteq> JUMPI \<and> opcode \<noteq> JUMPDEST \<and> hasOpcode v opcode"

fun instructionBuiltins ::
  "evm_version \<Rightarrow> (string \<times> instruction) list \<Rightarrow> (string \<times> builtin_function) list result" where
  "instructionBuiltins v [] = Inr []"
| "instructionBuiltins v ((n, opcode) # is) =
     (if usableOpcode v opcode
      then bindR (createEVMFunction (map tolower n) opcode) (\<lambda>f.
           bindR (instructionBuiltins v is) (\<lambda>fs. Inr (f # fs)))
      else instructionBuiltins v is)"

definition objectBuiltins :: "(string \<times> builtin_function) list" where
  "objectBuiltins =
     [createFunction ''linkersymbol'' 1 1 noSideEffects [Some String'],
      createFunction ''datasize'' 1 1 noSideEffects [Some String'],
      createFunction ''dataoffset'' 1 1 noSideEffects [Some String'],
      createFunction ''datacopy'' 3 0 (SideEffects False False False False True) [],
      createFunction ''setimmutable'' 2 0 (SideEffects False False False False True)
        [Some String', None],
      createFunction ''loadimmutable'' 1 1 noSideEffects [Some String']]"

definition createBuiltins :: "evm_version \<Rightarrow> bool \<Rightarrow> (string \<times> builtin_function) list result" where
  "createBuiltins v objectAccess =
     bindR (instructionBuiltins v c_instructions) (\<lambda>fs.
       Inr (if objectAccess then fs @ objectBuiltins else fs))"

text \<open>
  \<open>EVMDialect\<close>. \<open>createBuiltins\<close> returns for every version (\<open>createBuiltins_eq\<close> below); the
  constructor has no other case.
\<close>

definition EVMDialect_builtin :: "evm_version \<Rightarrow> bool \<Rightarrow> string \<Rightarrow> builtin_function option" where
  "EVMDialect_builtin v objectAccess name =
     (case createBuiltins v objectAccess of Inr m \<Rightarrow> map_of m name | Inl _ \<Rightarrow> None)"

definition EVMDialect :: "evm_version \<Rightarrow> bool \<Rightarrow> dialect" where
  "EVMDialect v objectAccess =
     (let b = EVMDialect_builtin v objectAccess in
      \<lparr>defaultType = [], boolType = [], types = [[]], builtin = b,
       discardFunction = (\<lambda>_. b ''pop''), equalityFunction = (\<lambda>_. b ''eq''),
       booleanNegationFunction = b ''iszero''\<rparr>)"

section \<open>Lemmas: the table of builtins\<close>

definition instructionBuiltin :: "string \<Rightarrow> instruction \<Rightarrow> builtin_function" where
  "instructionBuiltin name i =
     \<lparr>bf_name = name,
      bf_parameters = replicate (ii_args (instructionInfo i)) [],
      bf_returns = replicate (ii_ret (instructionInfo i)) [],
      bf_sideEffects = SideEffects (movable i) (\<not> ii_sideEffects (instructionInfo i))
        (i = KECCAK256 \<or> i = MLOAD \<or> \<not> ii_sideEffects (instructionInfo i))
        (invalidatesStorage i) (invalidatesMemory i),
      bf_terminates = instr_terminatesControlFlow i,
      bf_reverts = instr_reverts i,
      bf_isMSize = (i = MSIZE),
      bf_literalArguments = [],
      bf_instruction = Some i\<rparr>"

lemma createEVMFunction_eq:
  "usableOpcode v i \<Longrightarrow> createEVMFunction name i = Inr (name, instructionBuiltin name i)"
  by (simp add: createEVMFunction_def sideEffectsOfInstruction_def sideEffectFree_def
      sideEffectFreeIfNoMSize_def usableOpcode_def instructionBuiltin_def)

lemma instructionBuiltins_eq:
  "instructionBuiltins v is =
     Inr (map (\<lambda>(n, i). (map tolower n, instructionBuiltin (map tolower n) i))
       (filter (\<lambda>(n, i). usableOpcode v i) is))"
  by (induction v "is" rule: instructionBuiltins.induct) (auto simp: createEVMFunction_eq)

lemma createBuiltins_eq:
  "createBuiltins v oa =
     Inr (map (\<lambda>(n, i). (map tolower n, instructionBuiltin (map tolower n) i))
       (filter (\<lambda>(n, i). usableOpcode v i) c_instructions) @ (if oa then objectBuiltins else []))"
  by (simp add: createBuiltins_def instructionBuiltins_eq)

lemma distinct_lower_mnemonics: "distinct (map (\<lambda>x. map tolower (fst x)) c_instructions)"
proof -
  have "distinct (map (name_code \<circ> (\<lambda>x. map tolower (fst x))) c_instructions)"
    by (simp add: c_instructions_def name_code_def tolower_def)
  then show ?thesis by (auto simp: distinct_map comp_inj_on_iff inj_on_def)
qed

text \<open>The builtin functions are exactly the usable opcodes under their names, and the object functions.\<close>

lemma builtin_instruction:
  assumes "(n, i) \<in> set c_instructions" "usableOpcode v i"
  shows "builtin (EVMDialect v oa) (map tolower n) = Some (instructionBuiltin (map tolower n) i)"
proof -
  let ?f = "\<lambda>(n, i). (map tolower n, instructionBuiltin (map tolower n) i)"
  let ?l = "filter (\<lambda>(n, i). usableOpcode v i) c_instructions"
  have "distinct (map fst (map ?f ?l))"
    using distinct_map_filter [OF distinct_lower_mnemonics, of "\<lambda>(n, i). usableOpcode v i"]
    by (simp add: comp_def case_prod_unfold)
  moreover have "?f (n, i) \<in> set (map ?f ?l)"
    using assms by force
  ultimately have "map_of (map ?f ?l) (map tolower n) = Some (instructionBuiltin (map tolower n) i)"
    by simp
  then show ?thesis
    by (simp add: EVMDialect_def EVMDialect_builtin_def createBuiltins_eq Let_def map_add_Some_iff)
qed

lemma builtin_cases:
  assumes "builtin (EVMDialect v oa) name = Some b"
  obtains n i where "(n, i) \<in> set c_instructions" "usableOpcode v i" "name = map tolower n"
      "b = instructionBuiltin name i"
  | "oa" "(name, b) \<in> set objectBuiltins"
proof -
  have "(name, b) \<in> set (map (\<lambda>(n, i). (map tolower n, instructionBuiltin (map tolower n) i))
       (filter (\<lambda>(n, i). usableOpcode v i) c_instructions) @ (if oa then objectBuiltins else []))"
    using assms map_of_SomeD
    by (fastforce simp: EVMDialect_def EVMDialect_builtin_def createBuiltins_eq Let_def)
  then consider x where "x \<in> set c_instructions" "usableOpcode v (snd x)"
      "name = map tolower (fst x)" "b = instructionBuiltin (map tolower (fst x)) (snd x)"
    | "oa" "(name, b) \<in> set objectBuiltins"
    by (auto simp: case_prod_unfold split: if_splits)
  then show ?thesis
  proof cases
    case (1 x)
    then have "(fst x, snd x) \<in> set c_instructions" by simp
    with 1 show ?thesis using that(1) by blast
  next
    case 2
    then show ?thesis using that(2) by blast
  qed
qed

lemma builtin_instruction_Some:
  assumes "builtin (EVMDialect v oa) name = Some b" "bf_instruction b = Some i"
  shows "usableOpcode v i" "isValidInstruction i" "b = instructionBuiltin name i"
    "bf_literalArguments b = []"
proof -
  have "usableOpcode v i \<and> isValidInstruction i \<and> b = instructionBuiltin name i"
    using assms(1)
  proof (cases rule: builtin_cases)
    case (1 n j)
    then have "j = i" using assms(2) by (simp add: instructionBuiltin_def)
    moreover have "isValidInstruction j"
      using 1(1) mnemonic_iff [of n j] distinct_instructions by simp
    ultimately show ?thesis using 1 by simp
  next
    case 2
    then have "bf_instruction b = None"
      by (auto simp: objectBuiltins_def createFunction_def)
    then show ?thesis using assms(2) by simp
  qed
  then show "usableOpcode v i" "isValidInstruction i" "b = instructionBuiltin name i"
    "bf_literalArguments b = []"
    by (simp_all add: instructionBuiltin_def)
qed

lemma usable_always:
  "usableOpcode v i" if "i \<in> {ISZERO, EQ, POP, LT, GT, ADD, MSTORE, SSTORE, SLOAD, MLOAD, STOP}" for i
  using that by (auto simp: usableOpcode_def hasOpcode_def group_ranges)

lemma lower_basic:
  "map tolower ''ISZERO'' = ''iszero''" "map tolower ''EQ'' = ''eq''" "map tolower ''POP'' = ''pop''"
  by code_simp+

lemma builtin_basic:
  "builtin (EVMDialect v oa) ''iszero'' = Some (instructionBuiltin ''iszero'' ISZERO)"
  "builtin (EVMDialect v oa) ''eq'' = Some (instructionBuiltin ''eq'' EQ)"
  "builtin (EVMDialect v oa) ''pop'' = Some (instructionBuiltin ''pop'' POP)"
  using builtin_instruction [of "''ISZERO''" ISZERO v oa] builtin_instruction [of "''EQ''" EQ v oa]
    builtin_instruction [of "''POP''" POP v oa]
  by (simp_all only: lower_basic usable_always)
    (simp_all add: usable_always c_instructions_def)

lemma dialect_functions:
  "discardFunction (EVMDialect v oa) t = Some (instructionBuiltin ''pop'' POP)"
  "equalityFunction (EVMDialect v oa) t = Some (instructionBuiltin ''eq'' EQ)"
  "booleanNegationFunction (EVMDialect v oa) = Some (instructionBuiltin ''iszero'' ISZERO)"
  using builtin_basic [of v oa] by (simp_all add: EVMDialect_def Let_def)

end
