(* ===== verification/YulInterpreter.thy ===== *)
theory YulInterpreter
  imports YulDialect EVMInterpreter
begin

text \<open>
  \<open>test/tools/yulInterpreter/Interpreter.{h,cpp}\<close>: the repository's executable semantics of Yul,
  with the functions of the dialect from \<open>evalBuiltin\<close> in \<open>EVMInstructionInterpreter.cpp\<close>.

  State. \<open>m_state\<close> without its control flow is the record \<open>interpreter_state\<close>; the control flow
  state is a result of a statement. \<open>m_variables\<close> is a map, returned updated. \<open>m_scope\<close> is the
  list of the function tables of the enclosing blocks, innermost first. The names of variables,
  which the source also keeps in the scopes to erase them when a block is left, are not stored: a
  declaration fails when the name exists, so the variables a block declares are the ones that did
  not exist before, and \<open>leaveScope\<close> erases those. Each block entry builds the table anew; the
  source keeps the scopes of blocks it has left, with the same functions in them.

  The step limit of the source is the test harness's and is off by default (\<open>maxSteps = 0\<close>); it
  is not modelled. Instead the model has fuel, spent by calls and by loop iterations, and the value
  \<open>None\<close> when it runs out.

  In the \<open>pre\<close> block of a loop the source looks for \<open>leave\<close> only and so does not stop at a
  \<open>break\<close> or \<open>continue\<close>. The parser (\<open>AsmParser.cpp\<close>) rejects both in that position; the model
  stops there as it does everywhere else.
\<close>

section \<open>Results\<close>

text \<open>An exception of the opcodes, or a failed assertion of the interpreter itself.\<close>

datatype yul_exc = EvmExc interpreter_exc | AssertionFailed

datatype control_flow = FlowDefault | FlowContinue | FlowBreak | FlowLeave

type_synonym 'a yul_result = "((yul_exc + 'a) \<times> interpreter_state) option"
type_synonym variables = "string \<Rightarrow> u256 option"
type_synonym yul_function = "typed_name list \<times> typed_name list \<times> stmt list"
type_synonym scope = "string \<Rightarrow> yul_function option"

definition returnY :: "'a \<Rightarrow> interpreter_state \<Rightarrow> 'a yul_result" where
  "returnY x s = Some (Inr x, s)"

definition assertionFailed :: "interpreter_state \<Rightarrow> 'a yul_result" where
  "assertionFailed s = Some (Inl AssertionFailed, s)"

definition bindY :: "'a yul_result \<Rightarrow> ('a \<Rightarrow> interpreter_state \<Rightarrow> 'b yul_result) \<Rightarrow> 'b yul_result" where
  "bindY m f =
     (case m of
        None \<Rightarrow> None
      | Some (Inl e, s) \<Rightarrow> Some (Inl e, s)
      | Some (Inr x, s) \<Rightarrow> f x s)"

definition liftY :: "'a interpreted \<Rightarrow> 'a yul_result" where
  "liftY r = (case r of (Inl e, s) \<Rightarrow> Some (Inl (EvmExc e), s) | (Inr x, s) \<Rightarrow> Some (Inr x, s))"

lemma bindY_simps [simp]:
  "bindY None f = None"
  "bindY (Some (Inl e, s)) f = Some (Inl e, s)"
  "bindY (Some (Inr x, s)) f = f x s"
  "bindY (returnY x s) f = f x s"
  "bindY (assertionFailed s) f = assertionFailed s"
  by (simp_all add: bindY_def returnY_def assertionFailed_def)

lemma bindY_cong [fundef_cong]:
  "m = m' \<Longrightarrow> (\<And>x s. m' = Some (Inr x, s) \<Longrightarrow> f x s = f' x s) \<Longrightarrow> bindY m f = bindY m' f'"
  by (auto simp: bindY_def split: option.splits sum.splits)

lemma bindY_assoc: "bindY (bindY m f) g = bindY m (\<lambda>x s. bindY (f x s) g)"
  by (auto simp: bindY_def split: option.splits sum.splits)

section \<open>Builtin functions\<close>

definition nameHash :: "(bytes \<Rightarrow> u256) \<Rightarrow> byte list \<Rightarrow> u256" where
  "nameHash keccak arg = keccak arg AND 0xfff"

definition paddedName :: "string \<Rightarrow> bytes" where
  "paddedName name =
     (let arg = map of_char name in
      if length arg < 32 then arg @ replicate (32 - length arg) 0 else arg)"

definition evalBuiltin ::
  "(bytes \<Rightarrow> u256) \<Rightarrow> builtin_function \<Rightarrow> expr list \<Rightarrow> u256 list \<Rightarrow> interpreter_state \<Rightarrow> u256 yul_result" where
  "evalBuiltin keccak f arguments evaluated s =
     (case bf_instruction f of
        Some i \<Rightarrow> liftY (eval keccak i evaluated s)
      | None \<Rightarrow>
          if bf_name f = ''datasize'' \<or> bf_name f = ''dataoffset'' then
            (case arguments of
               Literal l # _ \<Rightarrow>
                 (let arg = paddedName (lit_value l) in
                  if bf_name f = ''datasize'' then returnY (nameHash keccak arg) s
                  else returnY (nameHash keccak (arg[31 := arg ! 31 + 2])) s)
             | _ \<Rightarrow> assertionFailed s)
          else if bf_name f = ''datacopy'' then
            (if length evaluated < 3 then assertionFailed s
             else
               (case accessMemory (evaluated ! 0) (evaluated ! 2) s of (ok, s1) \<Rightarrow>
                  returnY 0 (if ok
                    then s1\<lparr>memory := copyZeroExtended (memory s1) (evmcode s1)
                           (ucast (evaluated ! 0)) (ucast (evaluated ! 1)) (ucast (evaluated ! 2))\<rparr>
                    else s1)))
          else Some (Inl (EvmExc YulAssertionFailed), s))"

section \<open>Scopes and variables\<close>

text \<open>The functions a block registers when it is entered: \<open>emplace\<close> keeps the first of a name.\<close>

fun blockFunctions :: "stmt list \<Rightarrow> scope" where
  "blockFunctions [] = Map.empty"
| "blockFunctions (FunctionDefinition f ps rs b # ss) = (blockFunctions ss)(f \<mapsto> (ps, rs, b))"
| "blockFunctions (s # ss) = blockFunctions ss"

text \<open>A function runs in the scope that defines it: the search returns that scope and its parents.\<close>

fun lookupFunction :: "scope list \<Rightarrow> string \<Rightarrow> (yul_function \<times> scope list) option" where
  "lookupFunction [] f = None"
| "lookupFunction (F # scopes) f =
     (case F f of Some d \<Rightarrow> Some (d, F # scopes) | None \<Rightarrow> lookupFunction scopes f)"

definition leaveScope :: "variables \<Rightarrow> variables \<Rightarrow> variables" where
  "leaveScope outer inner = (\<lambda>x. if outer x = None then None else inner x)"

fun bindParameters :: "typed_name list \<Rightarrow> u256 list \<Rightarrow> variables \<Rightarrow> variables" where
  "bindParameters (p # ps) (v # vs) V = bindParameters ps vs (V(tn_name p \<mapsto> v))"
| "bindParameters _ _ V = V"

fun bindReturns :: "typed_name list \<Rightarrow> variables \<Rightarrow> variables" where
  "bindReturns [] V = V"
| "bindReturns (r # rs) V = bindReturns rs (V(tn_name r \<mapsto> 0))"

fun returnValues :: "typed_name list \<Rightarrow> variables \<Rightarrow> interpreter_state \<Rightarrow> u256 list yul_result" where
  "returnValues [] V s = returnY [] s"
| "returnValues (r # rs) V s =
     (case V (tn_name r) of
        None \<Rightarrow> assertionFailed s
      | Some v \<Rightarrow> bindY (returnValues rs V s) (\<lambda>vs. returnY (v # vs)))"

fun assignVariables :: "string list \<Rightarrow> u256 list \<Rightarrow> variables \<Rightarrow> interpreter_state \<Rightarrow> variables yul_result" where
  "assignVariables (x # xs) (v # vs) V s =
     (if V x = None then assertionFailed s else assignVariables xs vs (V(x \<mapsto> v)) s)"
| "assignVariables _ _ V s = returnY V s"

fun declareVariables ::
  "typed_name list \<Rightarrow> u256 list \<Rightarrow> variables \<Rightarrow> interpreter_state \<Rightarrow> variables yul_result" where
  "declareVariables (x # xs) (v # vs) V s =
     (if V (tn_name x) \<noteq> None then assertionFailed s
      else declareVariables xs vs (V(tn_name x \<mapsto> v)) s)"
| "declareVariables _ _ V s = returnY V s"

text \<open>\<open>value()\<close>: exactly one value.\<close>

definition oneValue :: "u256 list \<Rightarrow> interpreter_state \<Rightarrow> u256 yul_result" where
  "oneValue vs s = (case vs of [v] \<Rightarrow> returnY v s | _ \<Rightarrow> assertionFailed s)"

definition evalLiteral :: "literal \<Rightarrow> interpreter_state \<Rightarrow> u256 yul_result" where
  "evalLiteral l s = (case valueOfLiteral l of Inr v \<Rightarrow> returnY v s | Inl _ \<Rightarrow> assertionFailed s)"

definition literalArgumentsOf :: "dialect \<Rightarrow> string \<Rightarrow> nat \<Rightarrow> literal_kind option list" where
  "literalArgumentsOf D f n =
     (case builtin D f of
        Some b \<Rightarrow> if bf_literalArguments b = [] then replicate n None else bf_literalArguments b
      | None \<Rightarrow> replicate n None)"

section \<open>The interpreter\<close>

text \<open>
  \<open>eval_multi\<close> is \<open>evaluateMulti\<close>, \<open>eval_args\<close> is \<open>evaluateArgs\<close> (from right to left; an argument
  that must be a literal counts as 0), \<open>exec_stmts\<close> the loop over the statements of a block.
\<close>

function (sequential) eval_multi :: "(bytes \<Rightarrow> u256) \<Rightarrow> dialect \<Rightarrow> nat \<Rightarrow> scope list \<Rightarrow> variables \<Rightarrow> expr \<Rightarrow>
    interpreter_state \<Rightarrow> u256 list yul_result"
and eval_args :: "(bytes \<Rightarrow> u256) \<Rightarrow> dialect \<Rightarrow> nat \<Rightarrow> scope list \<Rightarrow> variables \<Rightarrow> literal_kind option list \<Rightarrow>
    expr list \<Rightarrow> interpreter_state \<Rightarrow> u256 list yul_result"
and exec_stmt :: "(bytes \<Rightarrow> u256) \<Rightarrow> dialect \<Rightarrow> nat \<Rightarrow> scope list \<Rightarrow> variables \<Rightarrow> stmt \<Rightarrow>
    interpreter_state \<Rightarrow> (control_flow \<times> variables) yul_result"
and exec_cases :: "(bytes \<Rightarrow> u256) \<Rightarrow> dialect \<Rightarrow> nat \<Rightarrow> scope list \<Rightarrow> variables \<Rightarrow> u256 \<Rightarrow>
    (literal option \<times> stmt list) list \<Rightarrow> interpreter_state \<Rightarrow> (control_flow \<times> variables) yul_result"
and exec_stmts :: "(bytes \<Rightarrow> u256) \<Rightarrow> dialect \<Rightarrow> nat \<Rightarrow> scope list \<Rightarrow> variables \<Rightarrow> stmt list \<Rightarrow>
    interpreter_state \<Rightarrow> (control_flow \<times> variables) yul_result"
and exec_block :: "(bytes \<Rightarrow> u256) \<Rightarrow> dialect \<Rightarrow> nat \<Rightarrow> scope list \<Rightarrow> variables \<Rightarrow> stmt list \<Rightarrow>
    interpreter_state \<Rightarrow> (control_flow \<times> variables) yul_result"
and exec_loop :: "(bytes \<Rightarrow> u256) \<Rightarrow> dialect \<Rightarrow> nat \<Rightarrow> scope list \<Rightarrow> variables \<Rightarrow> expr \<Rightarrow> stmt list \<Rightarrow>
    stmt list \<Rightarrow> interpreter_state \<Rightarrow> (control_flow \<times> variables) yul_result"
where
  "eval_multi k D n S V (Literal l) s = bindY (evalLiteral l s) (\<lambda>v. returnY [v])"
| "eval_multi k D n S V (Identifier x) s =
     (case V x of Some v \<Rightarrow> returnY [v] s | None \<Rightarrow> assertionFailed s)"
| "eval_multi k D n S V (FunctionCall f args) s =
     bindY (eval_args k D n S V (literalArgumentsOf D f (length args)) args s) (\<lambda>vs s1.
       case builtin D f of
         Some b \<Rightarrow> bindY (evalBuiltin k b args vs s1) (\<lambda>v. returnY [v])
       | None \<Rightarrow>
           (case lookupFunction S f of
              None \<Rightarrow> assertionFailed s1
            | Some ((ps, rs, body), S') \<Rightarrow>
                if length vs \<noteq> length ps then assertionFailed s1
                else
                  (case n of
                     0 \<Rightarrow> None
                   | Suc m \<Rightarrow>
                       bindY (exec_block k D m S' (bindReturns rs (bindParameters ps vs Map.empty)) body s1)
                         (\<lambda>(flow, V') s2. returnValues rs V' s2))))"
| "eval_args k D n S V lits [] s = returnY [] s"
| "eval_args k D n S V lits (e # es) s =
     bindY (eval_args k D n S V (tl lits) es s) (\<lambda>vs s1.
       case lits of
         [] \<Rightarrow> assertionFailed s1
       | Some _ # _ \<Rightarrow> returnY (0 # vs) s1
       | None # _ \<Rightarrow>
           bindY (eval_multi k D n S V e s1) (\<lambda>r s2. bindY (oneValue r s2) (\<lambda>v. returnY (v # vs))))"
| "exec_stmt k D n S V (ExpressionStatement e) s =
     bindY (eval_multi k D n S V e s) (\<lambda>_. returnY (FlowDefault, V))"
| "exec_stmt k D n S V (Assignment xs e) s =
     bindY (eval_multi k D n S V e s) (\<lambda>vs s1.
       if length vs \<noteq> length xs then assertionFailed s1
       else bindY (assignVariables xs vs V s1) (\<lambda>V'. returnY (FlowDefault, V')))"
| "exec_stmt k D n S V (VariableDeclaration xs e) s =
     bindY (case e of Some e' \<Rightarrow> eval_multi k D n S V e' s
                    | None \<Rightarrow> returnY (replicate (length xs) 0) s) (\<lambda>vs s1.
       if length vs \<noteq> length xs then assertionFailed s1
       else bindY (declareVariables xs vs V s1) (\<lambda>V'. returnY (FlowDefault, V')))"
| "exec_stmt k D n S V (FunctionDefinition f ps rs b) s = returnY (FlowDefault, V) s"
| "exec_stmt k D n S V (If' c b) s =
     bindY (eval_multi k D n S V c s) (\<lambda>r s0. bindY (oneValue r s0) (\<lambda>v s1.
       if v \<noteq> 0 then exec_block k D n S V b s1 else returnY (FlowDefault, V) s1))"
| "exec_stmt k D n S V (Switch e cs) s =
     bindY (eval_multi k D n S V e s) (\<lambda>r s0. bindY (oneValue r s0) (\<lambda>v s1.
       if cs = [] then assertionFailed s1 else exec_cases k D n S V v cs s1))"
| "exec_stmt k D n S V (ForLoop pre c post body) s =
     (let S1 = Map.empty # S in
      bindY (exec_stmts k D n S1 V pre s) (\<lambda>(flow, V1) s1.
        bindY (if flow = FlowLeave then returnY (FlowLeave, V1) s1
               else exec_loop k D n S1 V1 c post body s1) (\<lambda>(flow', V2).
          returnY (flow', leaveScope V V2))))"
| "exec_stmt k D n S V Break s = returnY (FlowBreak, V) s"
| "exec_stmt k D n S V Continue s = returnY (FlowContinue, V) s"
| "exec_stmt k D n S V Leave s = returnY (FlowLeave, V) s"
| "exec_stmt k D n S V (Block b) s = exec_block k D n S V b s"
| "exec_cases k D n S V v [] s = returnY (FlowDefault, V) s"
| "exec_cases k D n S V v ((None, b) # cs) s = exec_block k D n S V b s"
| "exec_cases k D n S V v ((Some l, b) # cs) s =
     bindY (evalLiteral l s) (\<lambda>w s1.
       if w = v then exec_block k D n S V b s1 else exec_cases k D n S V v cs s1)"
| "exec_stmts k D n S V [] s = returnY (FlowDefault, V) s"
| "exec_stmts k D n S V (t # ts) s =
     bindY (exec_stmt k D n S V t s) (\<lambda>(flow, V') s'.
       if flow \<noteq> FlowDefault then returnY (flow, V') s' else exec_stmts k D n S V' ts s')"
| "exec_block k D n S V b s =
     bindY (exec_stmts k D n (blockFunctions b # S) V b s) (\<lambda>(flow, V').
       returnY (flow, leaveScope V V'))"
| "exec_loop k D n S V c post body s =
     bindY (eval_multi k D n S V c s) (\<lambda>r s0. bindY (oneValue r s0) (\<lambda>v s1.
       if v = 0 then returnY (FlowDefault, V) s1
       else
         bindY (exec_block k D n S V body s1) (\<lambda>(flow, V1) s2.
           if flow = FlowBreak then returnY (FlowDefault, V1) s2
           else if flow = FlowLeave then returnY (FlowLeave, V1) s2
           else
             bindY (exec_block k D n S V1 post s2) (\<lambda>(flow', V2) s3.
               if flow' = FlowLeave then returnY (FlowLeave, V2) s3
               else (case n of 0 \<Rightarrow> None | Suc m \<Rightarrow> exec_loop k D m S V2 c post body s3)))))"
  by pat_completeness auto

text \<open>The fuel bounds the calls and iterations; everything else is structural.\<close>

termination
  by (relation "measures
      [\<lambda>x. case x of
          Inl (Inl (k, D, n, S, V, e, s)) \<Rightarrow> n
        | Inl (Inr (Inl (k, D, n, S, V, ls, es, s))) \<Rightarrow> n
        | Inl (Inr (Inr (k, D, n, S, V, t, s))) \<Rightarrow> n
        | Inr (Inl (Inl (k, D, n, S, V, v, cs, s))) \<Rightarrow> n
        | Inr (Inl (Inr (k, D, n, S, V, ts, s))) \<Rightarrow> n
        | Inr (Inr (Inl (k, D, n, S, V, b, s))) \<Rightarrow> n
        | Inr (Inr (Inr (k, D, n, S, V, c, p, b, s))) \<Rightarrow> n,
       \<lambda>x. case x of Inl (Inl _) \<Rightarrow> 0 | Inl (Inr (Inl _)) \<Rightarrow> 0 | _ \<Rightarrow> 1,
       \<lambda>x. case x of
          Inl (Inl (k, D, n, S, V, e, s)) \<Rightarrow> size e
        | Inl (Inr (Inl (k, D, n, S, V, ls, es, s))) \<Rightarrow> size_list size es
        | Inl (Inr (Inr (k, D, n, S, V, t, s))) \<Rightarrow> 3 * size t
        | Inr (Inl (Inl (k, D, n, S, V, v, cs, s))) \<Rightarrow> 3 * size_list (size_prod (\<lambda>_. 0) (size_list size)) cs
        | Inr (Inl (Inr (k, D, n, S, V, ts, s))) \<Rightarrow> 3 * size_list size ts
        | Inr (Inr (Inl (k, D, n, S, V, b, s))) \<Rightarrow> 3 * size_list size b + 1
        | Inr (Inr (Inr (k, D, n, S, V, c, p, b, s))) \<Rightarrow> 3 * (size_list size p + size_list size b) + 2]") auto

text \<open>\<open>run\<close>: a program starts with the global scope, empty, around its block.\<close>

definition run_yul ::
  "(bytes \<Rightarrow> u256) \<Rightarrow> dialect \<Rightarrow> nat \<Rightarrow> stmt list \<Rightarrow> interpreter_state \<Rightarrow> unit yul_result" where
  "run_yul k D fuel ast s = bindY (exec_block k D fuel [Map.empty] Map.empty ast s) (\<lambda>_. returnY ())"

end
