(* ===== verification/YulContext.thy ===== *)
theory YulContext
  imports YulInterpreter
begin

text \<open>
  Rewriting inside a Yul program. \<open>ctx R F\<close> closes a rewriting \<open>R\<close> of statement lists, and a
  rewriting \<open>F\<close> of function bodies, under every construct of the syntax. The locale
  \<open>yul_rewrites\<close> is what an optimiser step has to show about its own rewriting: that the
  interpreter gives the two lists the same result in every scope. The step then keeps the result of
  every program, for the same fuel, hence also its non-termination.
\<close>

section \<open>The contextual closure\<close>

inductive
  ctx :: "(stmt list \<Rightarrow> stmt list \<Rightarrow> bool) \<Rightarrow> (stmt list \<Rightarrow> stmt list \<Rightarrow> bool) \<Rightarrow>
    stmt list \<Rightarrow> stmt list \<Rightarrow> bool" and
  cases_ctx :: "(stmt list \<Rightarrow> stmt list \<Rightarrow> bool) \<Rightarrow> (stmt list \<Rightarrow> stmt list \<Rightarrow> bool) \<Rightarrow>
    (literal option \<times> stmt list) list \<Rightarrow> (literal option \<times> stmt list) list \<Rightarrow> bool" and
  body_ctx :: "(stmt list \<Rightarrow> stmt list \<Rightarrow> bool) \<Rightarrow> (stmt list \<Rightarrow> stmt list \<Rightarrow> bool) \<Rightarrow>
    stmt list \<Rightarrow> stmt list \<Rightarrow> bool"
  for R F
where
  rewrite: "R xs ys \<Longrightarrow> ctx R F ys zs \<Longrightarrow> ctx R F xs zs"
| trans: "ctx R F xs ys \<Longrightarrow> ctx R F ys zs \<Longrightarrow> ctx R F xs zs"
| empty: "ctx R F [] []"
| append: "ctx R F xs ys \<Longrightarrow> ctx R F us vs \<Longrightarrow> ctx R F (xs @ us) (ys @ vs)"
| expression: "ctx R F [ExpressionStatement e] [ExpressionStatement e]"
| assignment: "ctx R F [Assignment vs e] [Assignment vs e]"
| var_decl: "ctx R F [VariableDeclaration ts eo] [VariableDeclaration ts eo]"
| fun_def: "body_ctx R F b c \<Longrightarrow> ctx R F [FunctionDefinition f ps rs b] [FunctionDefinition f ps rs c]"
| conditional: "ctx R F b c \<Longrightarrow> ctx R F [If' e b] [If' e c]"
| switch: "cases_ctx R F cs ds \<Longrightarrow> ctx R F [Switch e cs] [Switch e ds]"
| loop: "ctx R F pre pre' \<Longrightarrow> ctx R F post post' \<Longrightarrow> ctx R F body body' \<Longrightarrow>
    ctx R F [ForLoop pre e post body] [ForLoop pre' e post' body']"
| break: "ctx R F [Break] [Break]"
| continue: "ctx R F [Continue] [Continue]"
| leave: "ctx R F [Leave] [Leave]"
| block: "ctx R F b c \<Longrightarrow> ctx R F [Block b] [Block c]"
| no_cases: "cases_ctx R F [] []"
| a_case: "ctx R F b c \<Longrightarrow> cases_ctx R F cs ds \<Longrightarrow> cases_ctx R F ((l, b) # cs) ((l, c) # ds)"
| body: "ctx R F b c \<Longrightarrow> body_ctx R F b c"
| body_rewrite: "F b c \<Longrightarrow> body_ctx R F c d \<Longrightarrow> body_ctx R F b d"
| body_trans: "body_ctx R F b c \<Longrightarrow> body_ctx R F c d \<Longrightarrow> body_ctx R F b d"

lemmas ctx_congruences =
  empty expression assignment var_decl fun_def conditional switch loop break continue leave block
  body

lemma ctx_Cons: "ctx R F [s] us \<Longrightarrow> ctx R F ss vs \<Longrightarrow> ctx R F (s # ss) (us @ vs)"
  using append [of R F "[s]" us ss vs] by simp

lemma cases_ctx_iff:
  "(\<And>l b. (l, b) \<in> set cs \<Longrightarrow> ctx R F b (g l b)) \<Longrightarrow>
   cases_ctx R F cs (map (\<lambda>(l, b). (l, g l b)) cs)"
  by (induction cs) (auto intro: no_cases a_case)

lemma ctx_list: "(\<And>s. s \<in> set ss \<Longrightarrow> ctx R F [s] [s]) \<Longrightarrow> ctx R F ss ss"
proof (induction ss)
  case (Cons s ss)
  then show ?case using ctx_Cons [of R F s "[s]" ss ss] by simp
qed (rule empty)

lemma ctx_refl_stmt: "ctx R F [s] [s]"
proof (induction s)
  case (Switch e cs)
  have "ctx R F b b" if "(l, b) \<in> set cs" for l b
    by (rule ctx_list, rule Switch [OF that]) (auto simp: snds.simps)
  then have "cases_ctx R F cs (map (\<lambda>(l, b). (l, b)) cs)" by (rule cases_ctx_iff)
  then show ?case by (simp add: switch)
next
  case (ForLoop pre e post body)
  then show ?case by (simp add: loop ctx_list)
qed (auto intro: ctx_congruences ctx_list)

lemma ctx_refl: "ctx R F xs xs"
  by (rule ctx_list) (rule ctx_refl_stmt)

lemma ctx_tail: "ctx R F ss vs \<Longrightarrow> ctx R F (s # ss) (s # vs)"
  using ctx_Cons [OF ctx_refl_stmt] by simp

lemma ctx_rewrite: "R xs ys \<Longrightarrow> ctx R F xs ys"
  by (erule rewrite) (rule ctx_refl)

lemma body_ctx_refl: "body_ctx R F b b"
  by (intro body ctx_refl)

section \<open>Related scopes\<close>

definition related_functions ::
  "(stmt list \<Rightarrow> stmt list \<Rightarrow> bool) \<Rightarrow> (stmt list \<Rightarrow> stmt list \<Rightarrow> bool) \<Rightarrow>
    yul_function \<Rightarrow> yul_function \<Rightarrow> bool" where
  "related_functions R F =
     (\<lambda>(ps, rs, b) (ps', rs', b'). ps = ps' \<and> rs = rs' \<and> body_ctx R F b b')"

definition related_scopes ::
  "(stmt list \<Rightarrow> stmt list \<Rightarrow> bool) \<Rightarrow> (stmt list \<Rightarrow> stmt list \<Rightarrow> bool) \<Rightarrow> scope \<Rightarrow> scope \<Rightarrow> bool" where
  "related_scopes R F G H \<longleftrightarrow> (\<forall>f. rel_option (related_functions R F) (G f) (H f))"

lemma related_functions_refl: "related_functions R F d d"
  by (auto simp: related_functions_def body_ctx_refl)

lemma related_scopes_refl: "related_scopes R F G G"
  by (simp add: related_scopes_def option.rel_refl related_functions_refl)

lemma related_scopes_trans:
  "related_scopes R F G H \<Longrightarrow> related_scopes R F H I \<Longrightarrow> related_scopes R F G I"
proof -
  have "related_functions R F x z" if "related_functions R F x y" "related_functions R F y z" for x y z
    using that by (auto simp: related_functions_def intro: body_trans)
  then have "transp (rel_option (related_functions R F))"
    by (intro option.rel_transp transpI)
  then show "related_scopes R F G H \<Longrightarrow> related_scopes R F H I \<Longrightarrow> related_scopes R F G I"
    unfolding related_scopes_def by (metis transpD)
qed

lemma related_scopes_add:
  "related_scopes R F G H \<Longrightarrow> related_scopes R F G' H' \<Longrightarrow>
   related_scopes R F (G' ++ G) (H' ++ H)"
  unfolding related_scopes_def map_add_def
  by (auto split: option.split; metis option.rel_distinct option.rel_inject(2))

lemma blockFunctions_Cons:
  "blockFunctions (s # ss) = blockFunctions ss ++ blockFunctions [s]"
  by (cases s) (simp_all add: map_add_upd)

lemma blockFunctions_append:
  "blockFunctions (xs @ ys) = blockFunctions ys ++ blockFunctions xs"
proof (induction xs)
  case (Cons s xs)
  then show ?case
    using blockFunctions_Cons [of s "xs @ ys"] blockFunctions_Cons [of s xs] by simp
qed simp

text \<open>Tables that define nothing may be present on one side only.\<close>

inductive related_chains ::
  "(stmt list \<Rightarrow> stmt list \<Rightarrow> bool) \<Rightarrow> (stmt list \<Rightarrow> stmt list \<Rightarrow> bool) \<Rightarrow>
    scope list \<Rightarrow> scope list \<Rightarrow> bool" for R F
where
  "related_chains R F [] []"
| "related_scopes R F G H \<Longrightarrow> related_chains R F S T \<Longrightarrow> related_chains R F (G # S) (H # T)"
| "related_chains R F S T \<Longrightarrow> related_chains R F (Map.empty # S) T"
| "related_chains R F S T \<Longrightarrow> related_chains R F S (Map.empty # T)"

lemma related_chains_refl: "related_chains R F S S"
  by (induction S) (auto intro: related_chains.intros related_scopes_refl)

lemma related_lookup:
  assumes "related_chains R F S T"
  shows "rel_option (rel_prod (related_functions R F) (related_chains R F))
    (lookupFunction S f) (lookupFunction T f)"
  using assms
proof (induction rule: related_chains.induct)
  case (2 G H S T)
  then have "rel_option (related_functions R F) (G f) (H f)"
    by (simp add: related_scopes_def)
  moreover have "related_chains R F (G # S) (H # T)"
    using 2 by (intro related_chains.intros)
  ultimately show ?case using 2 by (cases "G f"; cases "H f") simp_all
qed simp_all

section \<open>Soundness of a rewriting\<close>

text \<open>What a call sees of the body of a function: the variables, not the control flow.\<close>

definition bodyResult ::
  "(bytes \<Rightarrow> u256) \<Rightarrow> dialect \<Rightarrow> nat \<Rightarrow> scope list \<Rightarrow> variables \<Rightarrow> stmt list \<Rightarrow> interpreter_state \<Rightarrow>
    variables yul_result" where
  "bodyResult k D n S V b s = bindY (exec_block k D n S V b s) (\<lambda>(flow, V'). returnY V')"

lemma call_bodyResult:
  "bindY (exec_block k D n S V b s) (\<lambda>(flow, V') s'. g V' s') = bindY (bodyResult k D n S V b s) g"
  by (auto simp: bodyResult_def bindY_def returnY_def split: option.splits sum.splits)

locale yul_rewrites =
  fixes k :: "bytes \<Rightarrow> u256" and D :: dialect
    and R :: "stmt list \<Rightarrow> stmt list \<Rightarrow> bool" and F :: "stmt list \<Rightarrow> stmt list \<Rightarrow> bool"
  assumes rewrite_sound: "R xs ys \<Longrightarrow> exec_stmts k D n S V xs s = exec_stmts k D n S V ys s"
    and rewrite_functions: "R xs ys \<Longrightarrow> blockFunctions xs = blockFunctions ys"
    and body_sound: "F b c \<Longrightarrow> bodyResult k D n S V b s = bodyResult k D n S V c s"
begin



lemma ctx_functions: "ctx R F xs ys \<Longrightarrow> related_scopes R F (blockFunctions xs) (blockFunctions ys)"
proof (induction xs ys rule: ctx_cases_ctx_body_ctx.inducts(1)
    [where ?P2.0 = "\<lambda>_ _. True" and ?P3.0 = "\<lambda>_ _. True"])
  case (trans xs ys zs)
  then show ?case by (blast intro: related_scopes_trans)
next
  case (append xs ys us vs)
  then show ?case by (simp add: blockFunctions_append related_scopes_add)
next
  case (fun_def b c f ps rs)
  then show ?case by (simp add: related_scopes_def related_functions_def)
qed (simp_all add: rewrite_functions related_scopes_refl)

lemma block_chains:
  "ctx R F xs ys \<Longrightarrow> related_chains R F S T \<Longrightarrow> related_chains R F (blockFunctions xs # S) (blockFunctions ys # T)"
  by (intro related_chains.intros ctx_functions)

text \<open>Expressions only see the functions, which are called with less fuel.\<close>

lemma expr_chains:
  assumes "\<And>m S T V b c s. m < n \<Longrightarrow> related_chains R F S T \<Longrightarrow> body_ctx R F b c \<Longrightarrow>
      bodyResult k D m S V b s = bodyResult k D m T V c s"
    and S: "related_chains R F S T"
  shows "eval_multi k D n S V e s = eval_multi k D n T V e s"
proof (induction e arbitrary: s)
  case (FunctionCall f args)
  have args: "eval_args k D n S V lits as s = eval_args k D n T V lits as s"
    if "set as \<subseteq> set args" for lits as s
    using that FunctionCall
    by (induction as arbitrary: lits s) (auto intro!: bindY_cong split: list.split option.split)
  have call: "(case lookupFunction S f of
        None \<Rightarrow> assertionFailed s1
      | Some ((ps, rs, body), S') \<Rightarrow>
          if length vs \<noteq> length ps then assertionFailed s1
          else (case n of 0 \<Rightarrow> None
             | Suc m \<Rightarrow> bindY (bodyResult k D m S' (bindReturns rs (bindParameters ps vs Map.empty)) body s1)
                 (returnValues rs))) =
      (case lookupFunction T f of
        None \<Rightarrow> assertionFailed s1
      | Some ((ps, rs, body), S') \<Rightarrow>
          if length vs \<noteq> length ps then assertionFailed s1
          else (case n of 0 \<Rightarrow> None
             | Suc m \<Rightarrow> bindY (bodyResult k D m S' (bindReturns rs (bindParameters ps vs Map.empty)) body s1)
                 (returnValues rs)))" for vs s1
    using related_lookup [OF S, of f] assms(1)
    by (auto simp: related_functions_def option_rel_Some1 option_rel_Some2 split: option.split nat.split)
  show ?case
    unfolding eval_multi.simps call_bodyResult call args [OF subset_refl] ..
qed simp_all

text \<open>What the interpreter does with related programs at one amount of fuel.\<close>

definition agree :: "nat \<Rightarrow> bool" where
  "agree n \<longleftrightarrow>
     (\<forall>S T V b c s. related_chains R F S T \<longrightarrow> body_ctx R F b c \<longrightarrow>
        bodyResult k D n S V b s = bodyResult k D n T V c s) \<and>
     (\<forall>S T V e post post' body body' s. related_chains R F S T \<longrightarrow> ctx R F post post' \<longrightarrow>
        ctx R F body body' \<longrightarrow>
        exec_loop k D n S V e post body s = exec_loop k D n T V e post' body' s) \<and>
     (\<forall>S T V xs ys s. related_chains R F S T \<longrightarrow> ctx R F xs ys \<longrightarrow>
        exec_stmts k D n S V xs s = exec_stmts k D n T V ys s)"

end

lemma bindY_return [simp]: "bindY m returnY = m"
  by (auto simp: bindY_def returnY_def split: option.splits sum.splits)

lemma exec_single [simp]: "exec_stmts k D n S V [t] s = exec_stmt k D n S V t s"
proof -
  have "(\<lambda>(flow, V') s'. if flow \<noteq> FlowDefault then returnY (flow, V') s'
        else exec_stmts k D n S V' [] s') = returnY"
    by (auto simp: fun_eq_iff)
  then show ?thesis by simp
qed

declare exec_stmts.simps(2) [simp del] exec_block.simps [simp del] exec_loop.simps [simp del]

lemma exec_stmts_append:
  "exec_stmts k D n S V (xs @ ys) s =
     bindY (exec_stmts k D n S V xs s) (\<lambda>(flow, V') s'.
       if flow \<noteq> FlowDefault then returnY (flow, V') s' else exec_stmts k D n S V' ys s')"
proof (induction xs arbitrary: V s)
  case (Cons x xs)
  show ?case
    by (auto simp: bindY_assoc Cons exec_stmts.simps intro!: bindY_cong)
qed simp

context yul_rewrites
begin

lemma agree_expr:
  assumes "\<And>m. m < n \<Longrightarrow> agree m" "related_chains R F S T"
  shows "eval_multi k D n S V e s = eval_multi k D n T V e s"
  using assms by (intro expr_chains) (auto simp: agree_def)

lemma agree_block:
  assumes "\<And>S T V s. related_chains R F S T \<Longrightarrow>
      exec_stmts k D n S V b s = exec_stmts k D n T V c s"
    and "ctx R F b c" "related_chains R F S T"
  shows "exec_block k D n S V b s = exec_block k D n T V c s"
  using assms(1) [OF block_chains [OF assms(2,3)]] by (simp add: exec_block.simps)

lemma agree_loop:
  assumes IH: "\<And>m. m < n \<Longrightarrow> agree m"
    and post: "\<And>S T V s. related_chains R F S T \<Longrightarrow>
      exec_stmts k D n S V post s = exec_stmts k D n T V post' s" "ctx R F post post'"
    and body: "\<And>S T V s. related_chains R F S T \<Longrightarrow>
      exec_stmts k D n S V body s = exec_stmts k D n T V body' s" "ctx R F body body'"
    and S: "related_chains R F S T"
  shows "exec_loop k D n S V e post body s = exec_loop k D n T V e post' body' s"
proof -
  have "exec_block k D n S V post s = exec_block k D n T V post' s" for V s
    using post S by (rule agree_block)
  moreover have "exec_block k D n S V body s = exec_block k D n T V body' s" for V s
    using body S by (rule agree_block)
  moreover have "eval_multi k D n S V e s = eval_multi k D n T V e s" for V e s
    using IH S by (rule agree_expr)
  ultimately show ?thesis
    unfolding exec_loop.simps [of k D n]
    using IH S post(2) body(2)
    by (auto simp: agree_def intro!: bindY_cong split: nat.split)
qed

lemma agree_step:
  assumes IH: "\<And>m. m < n \<Longrightarrow> agree m"
  shows "ctx R F xs ys \<Longrightarrow> related_chains R F S T \<Longrightarrow>
      exec_stmts k D n S V xs s = exec_stmts k D n T V ys s"
    and "cases_ctx R F cs ds \<Longrightarrow> related_chains R F S T \<Longrightarrow>
      exec_cases k D n S V v cs s = exec_cases k D n T V v ds s \<and> (cs = [] \<longleftrightarrow> ds = [])"
    and "body_ctx R F b c \<Longrightarrow> related_chains R F S T \<Longrightarrow>
      bodyResult k D n S V b s = bodyResult k D n T V c s"
proof (induction xs ys and cs ds and b c arbitrary: S T V s and S T V v s and S T V s
    rule: ctx_cases_ctx_body_ctx.inducts)
  note expr = agree_expr [OF IH] and blockI = agree_block and loop_eq = agree_loop [OF IH]
  {
    case (rewrite xs ys zs)
    then show ?case using rewrite_sound by metis
  next
    case (trans xs ys zs)
    then show ?case using related_chains_refl by metis
  next
    case empty
    then show ?case by simp
  next
    case (append xs ys us vs)
    then show ?case by (auto simp: exec_stmts_append intro!: bindY_cong)
  next
    case (expression e)
    then show ?case by (simp add: expr)
  next
    case (assignment vs e)
    then show ?case by (simp add: expr)
  next
    case (var_decl ts eo)
    then show ?case by (simp add: expr cong: option.case_cong)
  next
    case (fun_def b c f ps rs)
    then show ?case by simp
  next
    case (conditional b c e)
    then show ?case using blockI [where b = b and c = c] by (auto simp: expr intro!: bindY_cong)
  next
    case (switch cs ds e)
    then show ?case by (auto simp: expr intro!: bindY_cong)
  next
    case (loop pre pre' post post' body body' e)
    have "exec_loop k D n S V e post body s = exec_loop k D n T V e post' body' s"
      if "related_chains R F S T" for S T V s
      by (rule loop_eq) (use loop that in blast)+
    moreover have "related_chains R F (Map.empty # S) (Map.empty # T)"
      using loop.prems by (intro related_chains.intros related_scopes_refl)
    ultimately show ?case
      using loop(2) by (auto simp: Let_def intro!: bindY_cong)
  next
    case (block b c)
    then show ?case using blockI [where b = b and c = c] by simp
  next
    case (a_case b c cs ds l)
    then show ?case
      using blockI [where b = b and c = c] by (cases l) (auto intro!: bindY_cong)
  next
    case (body b c)
    then show ?case using blockI [where b = b and c = c] by (simp add: bodyResult_def)
  next
    case (body_rewrite b c d)
    then show ?case using body_sound by metis
  next
    case (body_trans b c d)
    then show ?case using related_chains_refl by metis
  }
qed simp_all

lemma agree: "agree n"
proof (induction n rule: less_induct)
  case (less n)
  have stmts: "exec_stmts k D n S V xs s = exec_stmts k D n T V ys s"
    if "related_chains R F S T" "ctx R F xs ys" for S T V xs ys s
    using agree_step(1) [OF less] that by blast
  moreover have "exec_loop k D n S V e post body s = exec_loop k D n T V e post' body' s"
    if "related_chains R F S T" "ctx R F post post'" "ctx R F body body'"
    for S T V e post post' body body' s
    using less that stmts by (intro agree_loop) auto
  moreover have "bodyResult k D n S V b s = bodyResult k D n T V c s"
    if "related_chains R F S T" "body_ctx R F b c" for S T V b c s
    using agree_step(3) [OF less] that by blast
  ultimately show ?case by (simp add: agree_def)
qed

text \<open>The interpreter does the same with the program and with the rewritten one.\<close>

lemma stmts_equal:
  "ctx R F xs ys \<Longrightarrow> related_chains R F S T \<Longrightarrow>
   exec_stmts k D n S V xs s = exec_stmts k D n T V ys s"
  using agree [of n] by (simp add: agree_def)

lemma block_equal:
  "ctx R F xs ys \<Longrightarrow> exec_block k D n S V xs s = exec_block k D n S V ys s"
  by (rule agree_block) (auto intro: stmts_equal related_chains_refl)

lemma run_equal: "ctx R F xs ys \<Longrightarrow> run_yul k D n xs s = run_yul k D n ys s"
  by (simp add: run_yul_def block_equal)

end

end
