(* ===== verification/YulModifier.thy ===== *)
theory YulModifier
  imports YulContext
begin

text \<open>
  What the steps of the Yul optimiser share: the traversal of \<open>optimiser/ASTWalker.cpp\<close>, the
  side effects and the control flow of \<open>optimiser/Semantics.cpp\<close>, and the facts about them that
  the steps rest on.
\<close>

section \<open>Traversal\<close>

text \<open>
  \<open>ASTModifier\<close> visits the blocks of a statement; a step overrides some of the visits. Here a
  step is the function \<open>g\<close> it applies to the statements of a block, and \<open>modifyChildren\<close> applies
  it to the blocks inside one statement. None of the steps below changes expressions while it
  traverses.
\<close>

fun modifyChildren :: "(stmt list \<Rightarrow> stmt list) \<Rightarrow> stmt \<Rightarrow> stmt" where
  "modifyChildren g (FunctionDefinition f ps rs b) = FunctionDefinition f ps rs (g b)"
| "modifyChildren g (If' e b) = If' e (g b)"
| "modifyChildren g (Switch e cs) = Switch e (map (\<lambda>(l, b). (l, g b)) cs)"
| "modifyChildren g (ForLoop pre e post body) = ForLoop (g pre) e (g post) (g body)"
| "modifyChildren g (Block b) = Block (g b)"
| "modifyChildren g s = s"

fun childBlocks :: "stmt \<Rightarrow> stmt list list" where
  "childBlocks (FunctionDefinition f ps rs b) = [b]"
| "childBlocks (If' e b) = [b]"
| "childBlocks (Switch e cs) = map snd cs"
| "childBlocks (ForLoop pre e post body) = [pre, post, body]"
| "childBlocks (Block b) = [b]"
| "childBlocks s = []"

lemma modifyChildren_cong [fundef_cong]:
  "s = t \<Longrightarrow> (\<And>b. b \<in> set (childBlocks t) \<Longrightarrow> g b = h b) \<Longrightarrow>
   modifyChildren g s = modifyChildren h t"
  by (cases t) (auto, force)

lemma childBlocks_size:
  "b \<in> set (childBlocks s) \<Longrightarrow> size_list size b < size s"
proof (cases s)
  case (Switch e cs)
  assume "b \<in> set (childBlocks s)"
  then obtain l where lb: "(l, b) \<in> set cs" using Switch by auto
  have "size_prod (\<lambda>_. 0) (size_list size) (l, b)
      \<le> size_list (size_prod (\<lambda>_. 0) (size_list size)) cs"
    using lb by (rule size_list_estimation') simp
  then show ?thesis using Switch by simp
qed auto

lemma childBlocks_size_list [termination_simp]:
  "s \<in> set ss \<Longrightarrow> b \<in> set (childBlocks s) \<Longrightarrow> size_list size b < size_list size ss"
  using childBlocks_size [of b s] size_list_estimation' [of s ss "size s" size] by simp

lemma ctx_children:
  "(\<And>b. b \<in> set (childBlocks s) \<Longrightarrow> ctx R F b (g b)) \<Longrightarrow> ctx R F [s] [modifyChildren g s]"
proof (cases s)
  case (Switch e cs)
  assume "\<And>b. b \<in> set (childBlocks s) \<Longrightarrow> ctx R F b (g b)"
  then have "cases_ctx R F cs (map (\<lambda>(l, b). (l, g b)) cs)"
    using Switch by (intro cases_ctx_iff) force
  then show ?thesis using Switch by (simp add: switch)
qed (auto intro: ctx_congruences)

lemma ctx_concat:
  "(\<And>s. s \<in> set ss \<Longrightarrow> ctx R F [s] (h s)) \<Longrightarrow> ctx R F ss (concat (map h ss))"
  by (induction ss) (auto intro: empty ctx_Cons)

lemma ctx_map:
  assumes "\<And>s. s \<in> set ss \<Longrightarrow> ctx R F [s] [h s]"
  shows "ctx R F ss (map h ss)"
  using ctx_concat [of ss R F "\<lambda>s. [h s]"] assms by simp

section \<open>Side effects of code\<close>

fun sideEffectsOfExpr :: "dialect \<Rightarrow> (string \<Rightarrow> side_effects option) \<Rightarrow> expr \<Rightarrow> side_effects" where
  "sideEffectsOfExpr D fs (FunctionCall f args) =
     plusSideEffects
       (foldr (\<lambda>a se. plusSideEffects se (sideEffectsOfExpr D fs a)) args noSideEffects)
       (case builtin D f of
          Some b \<Rightarrow> bf_sideEffects b
        | None \<Rightarrow> (case fs f of Some se \<Rightarrow> se | None \<Rightarrow> worstSideEffects))"
| "sideEffectsOfExpr D fs e = noSideEffects"

definition movableExpr :: "dialect \<Rightarrow> expr \<Rightarrow> bool" where
  "movableExpr D e = se_movable (sideEffectsOfExpr D Map.empty e)"

text \<open>\<open>MovableChecker\<close> also collects the variables of the expression.\<close>

fun referencedVariables :: "expr \<Rightarrow> string list" where
  "referencedVariables (FunctionCall f args) = concat (map referencedVariables (rev args))"
| "referencedVariables (Identifier x) = [x]"
| "referencedVariables (Literal l) = []"

section \<open>Control flow\<close>

datatype termination_kind = FlowOut | TfBreak | TfContinue | TfTerminate | TfLeave

fun isTerminatingBuiltin :: "dialect \<Rightarrow> expr \<Rightarrow> bool" where
  "isTerminatingBuiltin D (FunctionCall f args) =
     (case builtin D f of
        Some b \<Rightarrow> (case bf_instruction b of Some i \<Rightarrow> instr_terminatesControlFlow i | None \<Rightarrow> False)
      | None \<Rightarrow> False)"
| "isTerminatingBuiltin D e = False"

fun controlFlowKind :: "dialect \<Rightarrow> stmt \<Rightarrow> termination_kind" where
  "controlFlowKind D (ExpressionStatement e) =
     (if isTerminatingBuiltin D e then TfTerminate else FlowOut)"
| "controlFlowKind D Break = TfBreak"
| "controlFlowKind D Continue = TfContinue"
| "controlFlowKind D Leave = TfLeave"
| "controlFlowKind D s = FlowOut"

text \<open>The position is \<open>None\<close> where the source gives \<open>size_t(-1)\<close>.\<close>

fun firstUnconditionalControlFlowChange ::
  "dialect \<Rightarrow> stmt list \<Rightarrow> termination_kind \<times> nat option" where
  "firstUnconditionalControlFlowChange D [] = (FlowOut, None)"
| "firstUnconditionalControlFlowChange D (s # ss) =
     (if controlFlowKind D s \<noteq> FlowOut then (controlFlowKind D s, Some 0)
      else case firstUnconditionalControlFlowChange D ss of (k, i) \<Rightarrow> (k, map_option Suc i))"

section \<open>Lemmas: a terminating statement does not reach the next one\<close>

lemma eval_terminates:
  assumes "instr_terminatesControlFlow i" "isValidInstruction i"
  shows "\<exists>e s'. eval k i vs s = (Inl e, s')"
proof -
  have i: "i \<in> {RETURN, SELFDESTRUCT, STOP, INVALID, REVERT}"
    using assms(1) by (simp add: instr_terminatesControlFlow_def)
  have none: "eval_signals i = None" "eval_arithmetic i vs = None"
    "eval_blockchain k i vs s = None" "eval_memory i vs s = None"
    using i by (elim insertE emptyE; simp add: eval_signals_def eval_arithmetic_def
        eval_blockchain_def eval_memory_def)+
  have throw: "\<exists>e s'. thenThrow r x = (Inl e, s')" for r :: "unit interpreted" and x
    by (auto simp: thenThrow_def split: prod.split sum.split)
  have "\<exists>e s'. eval_calls i vs s = Some (Inl e, s')"
    using i by (elim insertE emptyE; simp add: eval_calls_def Let_def throw
        split: prod.split sum.split)
  with none show ?thesis by (auto simp: eval_def)
qed

lemma terminating_call_fails:
  assumes "isTerminatingBuiltin (EVMDialect v oa) e"
  shows "eval_multi k (EVMDialect v oa) n S V e s = None \<or>
    (\<exists>x s'. eval_multi k (EVMDialect v oa) n S V e s = Some (Inl x, s'))"
proof (cases e)
  case (FunctionCall f args)
  then obtain b i where b: "builtin (EVMDialect v oa) f = Some b" "bf_instruction b = Some i"
      "instr_terminatesControlFlow i"
    using assms by (auto split: option.splits)
  then have "isValidInstruction i" using builtin_instruction_Some by blast
  then have fails: "\<exists>e s'. bindY (liftY (eval k i vs s1)) g = Some (Inl e, s')"
    for vs s1 and g :: "u256 \<Rightarrow> interpreter_state \<Rightarrow> u256 list yul_result"
    using eval_terminates [OF b(3), of k vs s1] by (force simp: liftY_def)
  show ?thesis
  proof (cases "eval_args k (EVMDialect v oa) n S V (literalArgumentsOf (EVMDialect v oa) f (length args)) args s")
    case (Some r)
    then show ?thesis
      using b FunctionCall fails by (cases r; cases "fst r") (auto simp: evalBuiltin_def)
  qed (use FunctionCall in simp)
qed (use assms in auto)

text \<open>A statement that changes the control flow ends the list it stands in.\<close>

lemma exec_stops:
  assumes "controlFlowKind (EVMDialect v oa) t \<noteq> FlowOut"
  shows "exec_stmts k (EVMDialect v oa) n S V (t # ts) s =
    exec_stmt k (EVMDialect v oa) n S V t s"
proof -
  have "exec_stmts k (EVMDialect v oa) n S V (t # ts) s = exec_stmts k (EVMDialect v oa) n S V [t] s"
  proof (cases t)
    case (ExpressionStatement e)
    then have "isTerminatingBuiltin (EVMDialect v oa) e" using assms by (auto split: if_splits)
    then show ?thesis
      using terminating_call_fails [of v oa e k n S V s] ExpressionStatement
      by (auto simp: exec_stmts.simps(2))
  qed (use assms in \<open>auto simp: exec_stmts.simps(2)\<close>)
  then show ?thesis by simp
qed

lemma exec_not_default:
  assumes "controlFlowKind (EVMDialect v oa) t \<noteq> FlowOut"
    and "exec_stmt k (EVMDialect v oa) n S V t s = Some (Inr (flow, V'), s')"
  shows "flow \<noteq> FlowDefault \<and> V' = V"
proof (cases t)
  case (ExpressionStatement e)
  then have "isTerminatingBuiltin (EVMDialect v oa) e" using assms by (auto split: if_splits)
  then show ?thesis
    using terminating_call_fails [of v oa e k n S V s] ExpressionStatement assms(2) by auto
qed (use assms in \<open>auto simp: returnY_def\<close>)

lemma exec_block_not_default:
  assumes "controlFlowKind (EVMDialect v oa) (last b) \<noteq> FlowOut" "b \<noteq> []"
    and "exec_block k (EVMDialect v oa) n S V b s = Some (Inr (flow, V'), s')"
  shows "flow \<noteq> FlowDefault"
proof -
  have b: "b = butlast b @ [last b]" using assms(2) by simp
  obtain V'' where "exec_stmts k (EVMDialect v oa) n (blockFunctions b # S) V b s =
      Some (Inr (flow, V''), s')"
    using assms(3)
    by (auto simp: exec_block.simps bindY_def returnY_def split: option.splits sum.splits)
  then have "exec_stmts k (EVMDialect v oa) n (blockFunctions b # S) V (butlast b @ [last b]) s =
      Some (Inr (flow, V''), s')"
    using b by simp
  then show ?thesis
    unfolding exec_stmts_append using exec_not_default [OF assms(1)]
    by (fastforce simp: bindY_def returnY_def split: option.splits sum.splits if_splits)
qed

section \<open>Lemmas: scopes\<close>

declare eval_multi.simps(3) [simp del]

lemma leaveScope_same [simp]: "leaveScope V V = V"
  by (auto simp: leaveScope_def)

lemma leaveScope_twice [simp]: "leaveScope V (leaveScope V W) = leaveScope V W"
  by (auto simp: leaveScope_def)

interpretation no_rewrites: yul_rewrites k D "\<lambda>_ _. False" "\<lambda>_ _. False" for k D
  by unfold_locales simp_all

text \<open>A scope without functions changes nothing.\<close>

lemma exec_empty_scope:
  "exec_stmts k D n (Map.empty # S) V xs s = exec_stmts k D n S V xs s"
  by (rule no_rewrites.stmts_equal)
    (auto intro: ctx_refl related_chains.intros related_chains_refl)

lemma block_empty_scope:
  "exec_block k D n (Map.empty # S) V xs s = exec_block k D n S V xs s"
proof -
  have "related_chains (\<lambda>_ _. False) (\<lambda>_ _. False) (blockFunctions xs # Map.empty # S)
      (blockFunctions xs # S)"
    by (intro related_chains.intros related_scopes_refl related_chains_refl)
  then show ?thesis
    by (simp add: exec_block.simps no_rewrites.stmts_equal [OF ctx_refl])
qed

lemma eval_empty_scope:
  "eval_multi k D n (Map.empty # S) V e s = eval_multi k D n S V e s"
  using no_rewrites.agree
  by (intro no_rewrites.agree_expr) (auto intro: related_chains.intros related_chains_refl)

end
