(* ===== verification/YulFuel.thy ===== *)
theory YulFuel
  imports YulModifier
begin

text \<open>
  The fuel of the interpreter (\<open>YulInterpreter\<close>): a run that has a result with some fuel has the
  same result with any larger amount, so the result of a program does not depend on the fuel.
\<close>

definition approx :: "'a yul_result \<Rightarrow> 'a yul_result \<Rightarrow> bool" where
  "approx m m' \<longleftrightarrow> m = None \<or> m' = m"

lemma approx_refl [simp, intro]: "approx m m"
  by (simp add: approx_def)

lemma approx_None [simp, intro]: "approx None m"
  by (simp add: approx_def)

lemma approx_bind:
  "approx m m' \<Longrightarrow> (\<And>x s. m = Some (Inr x, s) \<Longrightarrow> approx (f x s) (f' x s)) \<Longrightarrow>
   approx (bindY m f) (bindY m' f')"
  by (auto simp: approx_def bindY_def split: option.splits sum.splits)

lemma yul_more_fuel:
  shows "n \<le> n' \<Longrightarrow> approx (eval_multi k D n S V e s) (eval_multi k D n' S V e s)"
    and "n \<le> n' \<Longrightarrow> approx (eval_args k D n S V ls es s) (eval_args k D n' S V ls es s)"
    and "n \<le> n' \<Longrightarrow> approx (exec_stmt k D n S V t s) (exec_stmt k D n' S V t s)"
    and "n \<le> n' \<Longrightarrow> approx (exec_cases k D n S V v cs s) (exec_cases k D n' S V v cs s)"
    and "n \<le> n' \<Longrightarrow> approx (exec_stmts k D n S V ts s) (exec_stmts k D n' S V ts s)"
    and "n \<le> n' \<Longrightarrow> approx (exec_block k D n S V b s) (exec_block k D n' S V b s)"
    and "n \<le> n' \<Longrightarrow> approx (exec_loop k D n S V c p b s) (exec_loop k D n' S V c p b s)"
proof (induction k D n S V e s and k D n S V ls es s and k D n S V t s and k D n S V v cs s and
    k D n S V ts s and k D n S V b s and k D n S V c p b s arbitrary: n' and n' and n' and n' and
    n' and n' and n' rule: eval_multi_eval_args_exec_stmt_exec_cases_exec_stmts_exec_block_exec_loop.induct)
  case (3 k D n S V f args s)
  have "\<exists>m'. n' = Suc m' \<and> m \<le> m'" if "n = Suc m" for m
    using 3(3) that by (cases n') auto
  then show ?case
    unfolding eval_multi.simps(3)
    using 3 by (auto intro!: approx_bind split: option.split nat.split)
next
  case (23 k D n S V c post body s)
  have "\<exists>m'. n' = Suc m' \<and> m \<le> m'" if "n = Suc m" for m
    using 23(5) that by (cases n') auto
  then show ?case
    unfolding exec_loop.simps [of k D n] exec_loop.simps [of k D n']
    using 23 by (auto intro!: approx_bind split: nat.split)
qed (auto simp: Let_def exec_block.simps exec_stmts.simps(2) intro!: approx_bind split: option.split list.split)

lemma run_yul_more_fuel:
  "run_yul k D n p s = Some r \<Longrightarrow> n \<le> n' \<Longrightarrow> run_yul k D n' p s = Some r"
  using approx_bind [OF yul_more_fuel(6) [of n n' k D "[Map.empty]" Map.empty p s], of "\<lambda>_. returnY ()"]
  by (auto simp: run_yul_def approx_def)

lemma run_yul_unique:
  "run_yul k D n p s = Some r \<Longrightarrow> run_yul k D m p s = Some q \<Longrightarrow> q = r"
  using run_yul_more_fuel [of k D n p s r "max n m"] run_yul_more_fuel [of k D m p s q "max n m"] by simp

end
