(* ===== verification/YulConditionals.thy ===== *)
theory YulConditionals
  imports YulModifier
begin

text \<open>
  \<open>optimiser/ConditionalSimplifier.cpp\<close>, which records what a condition tells about a variable
  as an assignment of a literal, and \<open>optimiser/ConditionalUnsimplifier.cpp\<close>, which removes those
  assignments again. Both keep the result of every program.
\<close>

section \<open>The steps\<close>

text \<open>A block whose last statement changes the control flow does not continue after it.\<close>

definition neverContinues :: "dialect \<Rightarrow> stmt list \<Rightarrow> bool" where
  "neverContinues D b \<longleftrightarrow> b \<noteq> [] \<and> controlFlowKind D (last b) \<noteq> FlowOut"

definition assignLiteral :: "string \<Rightarrow> literal \<Rightarrow> stmt" where
  "assignLiteral x l = Assignment [x] (Literal l)"

definition simplifyIf :: "dialect \<Rightarrow> stmt \<Rightarrow> stmt list" where
  "simplifyIf D s =
     (case s of
        If' (Identifier x) b \<Rightarrow>
          if neverContinues D b then [s, assignLiteral x (zeroLiteralForType D (boolType D))] else [s]
      | _ \<Rightarrow> [s])"

text \<open>
  The source inserts the assignment before it visits the body of the case; the visit leaves an
  assignment as it is.
\<close>

definition simplifySwitch :: "stmt \<Rightarrow> stmt" where
  "simplifySwitch s =
     (case s of
        Switch (Identifier x) cs \<Rightarrow>
          Switch (Identifier x)
            (map (\<lambda>(l, b). (l, case l of Some v \<Rightarrow> assignLiteral x v # b | None \<Rightarrow> b)) cs)
      | _ \<Rightarrow> s)"

function ConditionalSimplifier :: "dialect \<Rightarrow> stmt list \<Rightarrow> stmt list" where
  "ConditionalSimplifier D ss =
     concat (map (\<lambda>s. simplifyIf D (simplifySwitch (modifyChildren (ConditionalSimplifier D) s))) ss)"
  by auto
termination
  by (relation "measure (\<lambda>(D, ss). size_list size ss)") (auto intro: childBlocks_size_list)

definition sameLiteralValue :: "literal \<Rightarrow> literal \<Rightarrow> bool" where
  "sameLiteralValue l l' =
     (case (valueOfLiteral l, valueOfLiteral l') of (Inr v, Inr w) \<Rightarrow> v = w | _ \<Rightarrow> False)"

fun unsimplifyCase :: "string \<Rightarrow> literal option \<Rightarrow> stmt list \<Rightarrow> stmt list" where
  "unsimplifyCase x (Some v) (Assignment [y] (Literal l) # b) =
     (if y = x \<and> sameLiteralValue l v then b else Assignment [y] (Literal l) # b)"
| "unsimplifyCase x v b = b"

definition unsimplifySwitch :: "stmt \<Rightarrow> stmt" where
  "unsimplifySwitch s =
     (case s of
        Switch (Identifier x) cs \<Rightarrow> Switch (Identifier x) (map (\<lambda>(l, b). (l, unsimplifyCase x l b)) cs)
      | _ \<Rightarrow> s)"

text \<open>\<open>iterateReplacingWindow<2>\<close> with the rule of the step.\<close>

fun unsimplifyWindow :: "dialect \<Rightarrow> stmt list \<Rightarrow> stmt list" where
  "unsimplifyWindow D (If' (Identifier x) b # Assignment [y] (Literal l) # ss) =
     (if neverContinues D b \<and> y = x \<and> valueOfLiteral l = Inr 0
      then If' (Identifier x) b # unsimplifyWindow D ss
      else If' (Identifier x) b # unsimplifyWindow D (Assignment [y] (Literal l) # ss))"
| "unsimplifyWindow D (s # ss) = s # unsimplifyWindow D ss"
| "unsimplifyWindow D [] = []"

text \<open>As above, the visit of a case leaves its first assignment in place.\<close>

function ConditionalUnsimplifier :: "dialect \<Rightarrow> stmt list \<Rightarrow> stmt list" where
  "ConditionalUnsimplifier D ss =
     unsimplifyWindow D
       (map (\<lambda>s. unsimplifySwitch (modifyChildren (ConditionalUnsimplifier D) s)) ss)"
  by auto
termination
  by (relation "measure (\<lambda>(D, ss). size_list size ss)") (auto intro: childBlocks_size_list)

declare ConditionalSimplifier.simps [simp del] ConditionalUnsimplifier.simps [simp del]

section \<open>The rewriting and its soundness\<close>

definition knownCase :: "string \<Rightarrow> literal option \<times> stmt list \<Rightarrow> literal option \<times> stmt list \<Rightarrow> bool" where
  "knownCase x c d \<longleftrightarrow>
     fst d = fst c \<and>
     (snd d = snd c \<or>
      (\<exists>l v. fst c = Some v \<and> (l = v \<or> sameLiteralValue l v) \<and> snd d = assignLiteral x l # snd c))"

inductive knownCondition :: "evm_version \<Rightarrow> bool \<Rightarrow> stmt list \<Rightarrow> stmt list \<Rightarrow> bool" for v oa where
  known_if: "neverContinues (EVMDialect v oa) b \<Longrightarrow> valueOfLiteral l = Inr 0 \<Longrightarrow>
    knownCondition v oa [If' (Identifier x) b] [If' (Identifier x) b, assignLiteral x l]"
| known_switch: "list_all2 (knownCase x) cs ds \<Longrightarrow>
    knownCondition v oa [Switch (Identifier x) cs] [Switch (Identifier x) ds]"

lemma exec_assign_same:
  assumes "V x = Some w" "valueOfLiteral l = Inr w"
  shows "exec_stmt k D n S V (assignLiteral x l) s = returnY (FlowDefault, V) s"
proof -
  have "V(x \<mapsto> w) = V" using assms by auto
  then show ?thesis using assms by (simp add: assignLiteral_def evalLiteral_def)
qed

lemma exec_block_assign_same:
  assumes "V x = Some w" "valueOfLiteral l = Inr w"
  shows "exec_block k D n S V (assignLiteral x l # b) s = exec_block k D n S V b s"
proof -
  have "blockFunctions (assignLiteral x l # b) = blockFunctions b"
    by (simp add: assignLiteral_def)
  then show ?thesis
    by (simp add: exec_block.simps exec_stmts.simps(2) exec_assign_same [where V = V and x = x and w = w, OF assms])
qed

lemma exec_known_cases:
  assumes "list_all2 (knownCase x) cs ds" "V x = Some w"
  shows "exec_cases k D n S V w ds s = exec_cases k D n S V w cs s"
  using assms(1)
proof (induction arbitrary: s rule: list_all2_induct)
  case (Cons c cs d ds)
  obtain l b where c: "c = (l, b)" by fastforce
  obtain b' where d: "d = (l, b')"
      and b': "b' = b \<or> (\<exists>l' u. l = Some u \<and> (l' = u \<or> sameLiteralValue l' u) \<and> b' = assignLiteral x l' # b)"
    using Cons(1) c by (cases d) (auto simp: knownCase_def)
  show ?case
  proof (cases l)
    case None
    then show ?thesis using c d b' by simp
  next
    case (Some u)
    show ?thesis
    proof (cases "valueOfLiteral u = Inr w")
      case True
      then have "exec_block k D n S V b' s = exec_block k D n S V b s"
      proof (cases "b' = b")
        case False
        then obtain l' where "b' = assignLiteral x l' # b" "l' = u \<or> sameLiteralValue l' u"
          using b' Some by auto
        moreover from this have "valueOfLiteral l' = Inr w"
          using True by (auto simp: sameLiteralValue_def split: sum.splits)
        ultimately show ?thesis
          using exec_block_assign_same [where V = V and x = x and w = w, OF assms(2)] by simp
      qed simp
      then show ?thesis using c d Some True by (simp add: evalLiteral_def)
    next
      case False
      then show ?thesis
        using c d Some Cons.IH by (auto simp: evalLiteral_def intro!: bindY_cong split: sum.split)
    qed
  qed
qed simp

lemma exec_known_if:
  assumes "neverContinues (EVMDialect v oa) b" "valueOfLiteral l = Inr 0"
  shows "exec_stmts k (EVMDialect v oa) n S V [If' (Identifier x) b, assignLiteral x l] s =
    exec_stmts k (EVMDialect v oa) n S V [If' (Identifier x) b] s"
proof -
  have stop: "bindY (exec_block k (EVMDialect v oa) n S V b s) (\<lambda>(flow, V') s'.
      if flow \<noteq> FlowDefault then returnY (flow, V') s' else f V' s') =
    exec_block k (EVMDialect v oa) n S V b s" for s and f :: "variables \<Rightarrow> interpreter_state \<Rightarrow> _"
    using exec_block_not_default assms(1)
    by (fastforce simp: neverContinues_def bindY_def returnY_def split: option.split sum.split)
  show ?thesis
  proof (cases "V x")
    case (Some w)
    then show ?thesis
      using stop assms(2) exec_assign_same [of V x 0 l]
      by (cases "w = 0") (simp_all add: exec_stmts.simps(2) oneValue_def)
  qed (simp add: exec_stmts.simps(2))
qed

interpretation known_condition:
  yul_rewrites k "EVMDialect v oa" "knownCondition v oa" "\<lambda>_ _. False" for k v oa
proof unfold_locales
  fix xs ys n S V s
  assume "knownCondition v oa xs ys"
  then show "exec_stmts k (EVMDialect v oa) n S V xs s = exec_stmts k (EVMDialect v oa) n S V ys s"
  proof cases
    case (known_if b l x)
    then show ?thesis using exec_known_if by metis
  next
    case (known_switch x cs ds)
    then have "cs = [] \<longleftrightarrow> ds = []" by auto
    then show ?thesis
      using known_switch exec_known_cases [OF known_switch(3)]
      by (cases "V x") (auto simp: oneValue_def)
  qed
qed (auto simp: assignLiteral_def elim!: knownCondition.cases)

text \<open>The inverse rewriting is sound for the same reason.\<close>

interpretation forgotten_condition:
  yul_rewrites k "EVMDialect v oa" "(knownCondition v oa)\<inverse>\<inverse>" "\<lambda>_ _. False" for k v oa
  using known_condition.rewrite_sound known_condition.rewrite_functions
  by unfold_locales (auto simp: conversep_iff)

section \<open>The steps rewrite\<close>

abbreviation "learns v oa \<equiv> ctx (knownCondition v oa) (\<lambda>_ _. False)"
abbreviation "forgets v oa \<equiv> ctx (knownCondition v oa)\<inverse>\<inverse> (\<lambda>_ _. False)"

lemma simplifyIf_ctx: "learns v oa [s] (simplifyIf (EVMDialect v oa) s)"
proof -
  have zero: "valueOfLiteral (zeroLiteralForType D t) = Inr 0" for D t
    by (simp add: zeroLiteralForType_def)
  have "learns v oa [If' (Identifier x) b] (simplifyIf (EVMDialect v oa) (If' (Identifier x) b))" for x b
    by (auto simp: simplifyIf_def zero ctx_refl intro!: ctx_rewrite known_if)
  moreover have "simplifyIf (EVMDialect v oa) s = [s]" if "\<nexists>x b. s = If' (Identifier x) b"
    using that by (auto simp: simplifyIf_def split: stmt.split expr.split)
  ultimately show ?thesis by (cases "\<exists>x b. s = If' (Identifier x) b") (auto simp: ctx_refl)
qed

lemma simplifySwitch_ctx: "learns v oa [s] [simplifySwitch s]"
proof (cases "\<exists>x cs. s = Switch (Identifier x) cs")
  case True
  then obtain x cs where s: "s = Switch (Identifier x) cs" by blast
  have "knownCase x (l, b) (l, case l of Some v \<Rightarrow> assignLiteral x v # b | None \<Rightarrow> b)" for l b
    by (cases l) (simp_all add: knownCase_def, blast)
  then have "list_all2 (knownCase x) cs
      (map (\<lambda>(l, b). (l, case l of Some v \<Rightarrow> assignLiteral x v # b | None \<Rightarrow> b)) cs)"
    by (auto simp: list_all2_map2 list_all2_same)
  then show ?thesis using s by (simp add: simplifySwitch_def ctx_rewrite known_switch)
next
  case False
  then have "simplifySwitch s = s" by (auto simp: simplifySwitch_def split: stmt.split expr.split)
  then show ?thesis by (simp add: ctx_refl)
qed

lemma ConditionalSimplifier_ctx: "learns v oa ss (ConditionalSimplifier (EVMDialect v oa) ss)"
proof (induction "EVMDialect v oa" ss rule: ConditionalSimplifier.induct)
  case (1 ss)
  have "learns v oa [s] (simplifyIf (EVMDialect v oa)
      (simplifySwitch (modifyChildren (ConditionalSimplifier (EVMDialect v oa)) s)))"
    if "s \<in> set ss" for s
    using ctx_children [OF 1] simplifySwitch_ctx simplifyIf_ctx that trans by metis
  then show ?case by (subst ConditionalSimplifier.simps) (rule ctx_concat)
qed

lemma unsimplifySwitch_ctx: "forgets v oa [s] [unsimplifySwitch s]"
proof (cases "\<exists>x cs. s = Switch (Identifier x) cs")
  case True
  then obtain x cs where s: "s = Switch (Identifier x) cs" by blast
  have "knownCase x (l, unsimplifyCase x l b) (l, b)" for l b
    by (cases "(x, l, b)" rule: unsimplifyCase.cases) (auto simp: knownCase_def assignLiteral_def)
  then have "list_all2 (knownCase x) (map (\<lambda>(l, b). (l, unsimplifyCase x l b)) cs) cs"
    by (auto simp: list_all2_map1 list_all2_same)
  then show ?thesis
    using s by (simp add: unsimplifySwitch_def ctx_rewrite known_switch)
next
  case False
  then have "unsimplifySwitch s = s" by (auto simp: unsimplifySwitch_def split: stmt.split expr.split)
  then show ?thesis by (simp add: ctx_refl)
qed

lemma unsimplifyWindow_ctx: "forgets v oa ss (unsimplifyWindow (EVMDialect v oa) ss)"
proof (induction "EVMDialect v oa" ss rule: unsimplifyWindow.induct)
  case (1 x b y l ss)
  show ?case
  proof (cases "neverContinues (EVMDialect v oa) b \<and> y = x \<and> valueOfLiteral l = Inr 0")
    case True
    then have "forgets v oa ([If' (Identifier x) b, Assignment [y] (Literal l)] @ ss)
        ([If' (Identifier x) b] @ unsimplifyWindow (EVMDialect v oa) ss)"
      using 1(1)
      by (intro append) (simp_all add: ctx_rewrite known_if assignLiteral_def [symmetric])
    then show ?thesis using True by simp
  next
    case False
    then show ?thesis using ctx_tail [OF 1(2) [OF False]] by auto
  qed
qed (auto intro: empty ctx_tail)

lemma ConditionalUnsimplifier_ctx: "forgets v oa ss (ConditionalUnsimplifier (EVMDialect v oa) ss)"
proof (induction "EVMDialect v oa" ss rule: ConditionalUnsimplifier.induct)
  case (1 ss)
  have "forgets v oa [s] [unsimplifySwitch (modifyChildren (ConditionalUnsimplifier (EVMDialect v oa)) s)]"
    if "s \<in> set ss" for s
    using ctx_children [OF 1] unsimplifySwitch_ctx that trans by metis
  then show ?case
    by (subst ConditionalUnsimplifier.simps) (rule trans [OF ctx_map unsimplifyWindow_ctx])
qed

section \<open>Properties\<close>

text \<open>C34: Recording what a condition tells about its variable, and forgetting it again, keeps the
  result of every program for every amount of fuel.\<close>

theorem conditionals_keep_result:
  "run_yul k (EVMDialect v oa) n (ConditionalSimplifier (EVMDialect v oa) p) s =
     run_yul k (EVMDialect v oa) n p s \<and>
   run_yul k (EVMDialect v oa) n (ConditionalUnsimplifier (EVMDialect v oa) p) s =
     run_yul k (EVMDialect v oa) n p s"
  using known_condition.run_equal [OF ConditionalSimplifier_ctx]
    forgotten_condition.run_equal [OF ConditionalUnsimplifier_ctx] by simp

end
