(* ===== verification/YulLoops.thy ===== *)
theory YulLoops
  imports YulModifier
begin

text \<open>
  The steps that move the condition of a loop: \<open>optimiser/ForLoopConditionIntoBody.cpp\<close> and
  \<open>optimiser/ForLoopConditionOutOfBody.cpp\<close>; both keep the result of every program.
\<close>

section \<open>The steps\<close>

text \<open>
  The source inserts the \<open>if\<close> first and visits the loop then; the visit finds nothing to do in
  the inserted statement.
\<close>

definition conditionIntoBody :: "dialect \<Rightarrow> stmt \<Rightarrow> stmt" where
  "conditionIntoBody D s =
     (case s of
        ForLoop pre c post body \<Rightarrow>
          (case (booleanNegationFunction D, c) of
             (Some neg, FunctionCall f args) \<Rightarrow>
               ForLoop pre (Literal (booleanLiteral ''true'' (boolType D))) post
                 (If' (FunctionCall (bf_name neg) [c]) [Break] # body)
           | _ \<Rightarrow> s)
      | _ \<Rightarrow> s)"

function ForLoopConditionIntoBody :: "dialect \<Rightarrow> stmt list \<Rightarrow> stmt list" where
  "ForLoopConditionIntoBody D ss =
     map (\<lambda>s. conditionIntoBody D (modifyChildren (ForLoopConditionIntoBody D) s)) ss"
  by auto
termination
  by (relation "measure (\<lambda>(D, ss). size_list size ss)") (auto intro: childBlocks_size_list)

text \<open>\<open>valueOfLiteral\<close> fails on a literal the parser does not produce; the step then stops.\<close>

definition literalIsTrue :: "expr \<Rightarrow> bool" where
  "literalIsTrue c =
     (case c of Literal l \<Rightarrow> (case valueOfLiteral l of Inr v \<Rightarrow> v \<noteq> 0 | Inl _ \<Rightarrow> False) | _ \<Rightarrow> False)"

definition conditionOutOfBody :: "dialect \<Rightarrow> stmt \<Rightarrow> stmt" where
  "conditionOutOfBody D s =
     (case (s, booleanNegationFunction D) of
        (ForLoop pre c post (If' e (Break # rest) # body), Some neg) \<Rightarrow>
          if \<not> literalIsTrue c then s
          else if \<not> movableExpr D e then s
          else
            (case e of
               FunctionCall f (a # as) \<Rightarrow>
                 if f = bf_name neg then ForLoop pre a post body
                 else ForLoop pre (FunctionCall (bf_name neg) [e]) post body
             | _ \<Rightarrow> ForLoop pre (FunctionCall (bf_name neg) [e]) post body)
      | _ \<Rightarrow> s)"

function ForLoopConditionOutOfBody :: "dialect \<Rightarrow> stmt list \<Rightarrow> stmt list" where
  "ForLoopConditionOutOfBody D ss =
     map (\<lambda>s. conditionOutOfBody D (modifyChildren (ForLoopConditionOutOfBody D) s)) ss"
  by auto
termination
  by (relation "measure (\<lambda>(D, ss). size_list size ss)") (auto intro: childBlocks_size_list)

section \<open>Programs that pass the analysis\<close>

text \<open>
  What \<open>AsmAnalysis.cpp\<close> and \<open>AsmScopeFiller.cpp\<close> guarantee of a program and the steps use: builtin
  functions get as many arguments as they have parameters; no function is declared again inside the
  scope of another of the same name, so a condition does not call a function of the loop's body; the
  cases of a switch are distinct, valid literals, with the default, if any, at the end.
\<close>

fun calledFunctions :: "expr \<Rightarrow> string list" where
  "calledFunctions (FunctionCall f args) = f # concat (map calledFunctions args)"
| "calledFunctions e = []"

fun arityOk :: "dialect \<Rightarrow> expr \<Rightarrow> bool" where
  "arityOk D (FunctionCall f args) \<longleftrightarrow>
     list_all (arityOk D) args \<and>
     (case builtin D f of Some b \<Rightarrow> length args = length (bf_parameters b) | None \<Rightarrow> True)"
| "arityOk D e \<longleftrightarrow> True"

definition callsVisible :: "dialect \<Rightarrow> scope \<Rightarrow> expr \<Rightarrow> bool" where
  "callsVisible D G e \<longleftrightarrow> list_all (\<lambda>f. builtin D f \<noteq> None \<or> G f = None) (calledFunctions e)"

fun casesOk :: "u256 list \<Rightarrow> (literal option \<times> stmt list) list \<Rightarrow> bool" where
  "casesOk seen [] = True"
| "casesOk seen ((None, b) # cs) = (cs = [])"
| "casesOk seen ((Some l, b) # cs) =
     (case valueOfLiteral l of Inr v \<Rightarrow> v \<notin> set seen \<and> casesOk (v # seen) cs | Inl _ \<Rightarrow> False)"

fun statementOk :: "dialect \<Rightarrow> stmt \<Rightarrow> bool" where
  "statementOk D (If' e b) = arityOk D e"
| "statementOk D (Switch e cs) = (arityOk D e \<and> cs \<noteq> [] \<and> casesOk [] cs)"
| "statementOk D (ForLoop pre c post body) =
     (arityOk D c \<and> callsVisible D (blockFunctions body) c)"
| "statementOk D s = True"

function programOk :: "dialect \<Rightarrow> stmt list \<Rightarrow> bool" where
  "programOk D ss = list_all (\<lambda>s. statementOk D s \<and> list_all (programOk D) (childBlocks s)) ss"
  by auto
termination
  by (relation "measure (\<lambda>(D, ss). size_list size ss)") (auto intro: childBlocks_size_list)

declare programOk.simps [simp del] ForLoopConditionIntoBody.simps [simp del]
  ForLoopConditionOutOfBody.simps [simp del]

lemma programOk_iff:
  "programOk D ss \<longleftrightarrow>
     (\<forall>s \<in> set ss. statementOk D s \<and> (\<forall>b \<in> set (childBlocks s). programOk D b))"
  by (subst programOk.simps) (simp add: list_all_iff)

lemma programOkD:
  "programOk D ss \<Longrightarrow> s \<in> set ss \<Longrightarrow> statementOk D s"
  "programOk D ss \<Longrightarrow> s \<in> set ss \<Longrightarrow> b \<in> set (childBlocks s) \<Longrightarrow> programOk D b"
  using programOk_iff by blast+

section \<open>Conditions\<close>

lemma eval_iszero:
  "eval_multi k (EVMDialect v oa) n S V (FunctionCall ''iszero'' [c]) s =
     bindY (eval_multi k (EVMDialect v oa) n S V c s) (\<lambda>r s0. bindY (oneValue r s0)
       (\<lambda>x. returnY [truth (x = 0)]))"
proof -
  have "evalBuiltin k (instructionBuiltin ''iszero'' ISZERO) args [x] s = returnY (truth (x = 0)) s"
    for args x s
    by (simp add: evalBuiltin_def instructionBuiltin_def liftY_def returnY_def eval_of_arithmetic
        eval_arithmetic_simps instructionInfo_eqs)
  then show ?thesis
    by (auto simp: eval_multi.simps(3) literalArgumentsOf_def builtin_basic instructionBuiltin_def
        bindY_assoc intro!: bindY_cong)
qed

lemma eval_unshadowed:
  "callsVisible D G e \<Longrightarrow> eval_multi k D n (G # S) V e s = eval_multi k D n S V e s"
proof (induction e arbitrary: s)
  case (FunctionCall f args)
  then have visible: "callsVisible D G a" if "a \<in> set args" for a
    using that by (fastforce simp: callsVisible_def list_all_iff)
  have args: "eval_args k D n (G # S) V lits as s = eval_args k D n S V lits as s"
    if "set as \<subseteq> set args" for lits as s
    using that FunctionCall.IH visible
    by (induction as arbitrary: lits s) (auto intro!: bindY_cong split: list.split option.split)
  have "builtin D f \<noteq> None \<or> lookupFunction (G # S) f = lookupFunction S f"
    using FunctionCall.prems by (auto simp: callsVisible_def)
  then show ?case
    by (auto simp: eval_multi.simps(3) args intro!: bindY_cong split: option.split)
qed simp_all

lemma movable_calls_builtins:
  "movableExpr D e \<Longrightarrow> callsVisible D G e"
proof (induction e)
  case (FunctionCall f args)
  have worst: "\<not> se_movable (plusSideEffects a worstSideEffects)" for a
    by (simp add: plusSideEffects_def worstSideEffects_def SideEffects_def)
  have plus: "se_movable (plusSideEffects a b) \<longleftrightarrow> se_movable a \<and> se_movable b" for a b
    by (simp add: plusSideEffects_def SideEffects_def)
  have "se_movable (foldr (\<lambda>a se. plusSideEffects se (sideEffectsOfExpr D Map.empty a)) as noSideEffects)
      \<longleftrightarrow> (\<forall>a \<in> set as. movableExpr D a)" for as
    by (induction as) (auto simp: plus movableExpr_def noSideEffects_def SideEffects_def)
  moreover have "builtin D f \<noteq> None"
    using FunctionCall.prems worst by (auto simp: movableExpr_def split: option.splits)
  ultimately show ?case
    using FunctionCall by (auto simp: movableExpr_def plus callsVisible_def list_all_iff)
qed (simp_all add: callsVisible_def)

text \<open>The first statement of the body of the loop does what the condition did.\<close>

lemma exec_break_if_zero:
  "exec_stmt k (EVMDialect v oa) n S V (If' (FunctionCall ''iszero'' [c]) (Break # rest)) s =
     bindY (eval_multi k (EVMDialect v oa) n S V c s) (\<lambda>r s0. bindY (oneValue r s0) (\<lambda>x.
       returnY (if x = 0 then FlowBreak else FlowDefault, V)))"
proof -
  have break: "exec_block k D n T V (Break # rest) s = returnY (FlowBreak, V) s" for D T s
    by (simp add: exec_block.simps exec_stmts.simps(2))
  have one: "oneValue [x] = returnY x" for x
    by (simp add: oneValue_def fun_eq_iff)
  show ?thesis
    by (auto simp: eval_iszero break one bindY_assoc truth_def intro!: bindY_cong)
qed

lemma exec_negated_condition:
  assumes "callsVisible (EVMDialect v oa) (blockFunctions body) c"
  shows "exec_block k (EVMDialect v oa) n S V (If' (FunctionCall ''iszero'' [c]) (Break # rest) # body) s =
     bindY (eval_multi k (EVMDialect v oa) n S V c s) (\<lambda>r s0. bindY (oneValue r s0) (\<lambda>x s1.
       if x = 0 then returnY (FlowBreak, V) s1
       else exec_block k (EVMDialect v oa) n S V body s1))"
  unfolding exec_block.simps [of k "EVMDialect v oa" n S V] exec_stmts.simps(2) exec_break_if_zero
  by (auto simp: eval_unshadowed [OF assms] bindY_assoc intro!: bindY_cong)

lemma exec_true_loop:
  assumes "callsVisible (EVMDialect v oa) (blockFunctions body) c" "literalIsTrue t"
  shows "exec_loop k (EVMDialect v oa) n S V t post (If' (FunctionCall ''iszero'' [c]) (Break # rest) # body) s =
    exec_loop k (EVMDialect v oa) n S V c post body s"
proof (induction n arbitrary: V s rule: less_induct)
  case (less n)
  obtain l x where t: "t = Literal l" "valueOfLiteral l = Inr x" "x \<noteq> 0"
    using assms(2) by (auto simp: literalIsTrue_def split: expr.splits sum.splits)
  have "eval_multi k (EVMDialect v oa) n S V t s = returnY [x] s" for V s
    using t by (simp add: evalLiteral_def)
  then show ?case
    unfolding exec_loop.simps [of k "EVMDialect v oa" n S V] exec_negated_condition [OF assms(1)]
    using t(3) less
    by (auto simp: bindY_assoc oneValue_def intro!: bindY_cong split: nat.split)
qed

section \<open>Correctness of the steps\<close>

inductive moveCondition :: "evm_version \<Rightarrow> bool \<Rightarrow> stmt list \<Rightarrow> stmt list \<Rightarrow> bool" for v oa where
  into_body: "callsVisible (EVMDialect v oa) (blockFunctions body) c \<Longrightarrow> literalIsTrue t \<Longrightarrow>
    moveCondition v oa [ForLoop pre c post body]
      [ForLoop pre t post (If' (FunctionCall ''iszero'' [c]) (Break # rest) # body)]"
| out_of_body: "callsVisible (EVMDialect v oa) (blockFunctions body) c \<Longrightarrow> literalIsTrue t \<Longrightarrow>
    moveCondition v oa
      [ForLoop pre t post (If' (FunctionCall ''iszero'' [c]) (Break # rest) # body)]
      [ForLoop pre c post body]"
| negate_twice: "moveCondition v oa [If' e b]
    [If' (FunctionCall ''iszero'' [FunctionCall ''iszero'' [e]]) b]"

interpretation loop_condition:
  yul_rewrites k "EVMDialect v oa" "moveCondition v oa" "\<lambda>_ _. False" for k v oa
proof unfold_locales
  fix xs ys n S V s
  assume "moveCondition v oa xs ys"
  then show "exec_stmts k (EVMDialect v oa) n S V xs s = exec_stmts k (EVMDialect v oa) n S V ys s"
  proof cases
    case negate_twice
    have "oneValue [x] = returnY x" for x
      by (simp add: oneValue_def fun_eq_iff)
    then show ?thesis
      using negate_twice by (auto simp: eval_iszero bindY_assoc truth_def intro!: bindY_cong)
  qed (simp_all add: exec_true_loop Let_def cong: if_cong)
qed (auto elim: moveCondition.cases)

abbreviation "moves v oa \<equiv> ctx (moveCondition v oa) (\<lambda>_ _. False)"

lemma into_body_stmt:
  assumes "statementOk (EVMDialect v oa) s"
    and IH: "\<And>b. b \<in> set (childBlocks s) \<Longrightarrow> moves v oa b (g b)"
  shows "moves v oa [s] [conditionIntoBody (EVMDialect v oa) (modifyChildren g s)]"
proof (cases "\<exists>pre f args post body. s = ForLoop pre (FunctionCall f args) post body")
  case True
  then obtain pre f args post body where s: "s = ForLoop pre (FunctionCall f args) post body"
    by blast
  let ?t = "Literal (booleanLiteral ''true'' (boolType (EVMDialect v oa)))"
  let ?if = "If' (FunctionCall ''iszero'' [FunctionCall f args]) [Break]"
  have "literalIsTrue ?t" by (simp add: literalIsTrue_def)
  then have "moveCondition v oa [s] [ForLoop pre ?t post (?if # body)]"
    using assms(1) unfolding s by (intro into_body) simp
  moreover have "moves v oa [ForLoop pre ?t post (?if # body)]
      [ForLoop (g pre) ?t (g post) (?if # g body)]"
    using IH unfolding s
    by (intro loop) (auto intro: ctx_Cons [where us = "[?if]", simplified] ctx_refl)
  ultimately show ?thesis
    unfolding s conditionIntoBody_def
    by (simp add: dialect_functions instructionBuiltin_def rewrite)
next
  case False
  then have "conditionIntoBody (EVMDialect v oa) (modifyChildren g s) = modifyChildren g s"
    by (cases s) (auto simp: conditionIntoBody_def split: expr.split option.split)
  then show ?thesis using IH by (simp add: ctx_children)
qed

lemma into_body_ctx:
  "programOk (EVMDialect v oa) ss \<Longrightarrow> moves v oa ss (ForLoopConditionIntoBody (EVMDialect v oa) ss)"
proof (induction "EVMDialect v oa" ss rule: ForLoopConditionIntoBody.induct)
  case (1 ss)
  then show ?case
    by (subst ForLoopConditionIntoBody.simps) (intro ctx_map into_body_stmt; blast dest: programOkD)
qed

lemma out_of_body_stmt:
  assumes "\<And>pre c post e b body. s = ForLoop pre c post (If' e b # body) \<Longrightarrow> arityOk (EVMDialect v oa) e"
  shows "moves v oa [s] [conditionOutOfBody (EVMDialect v oa) s]"
proof (cases "conditionOutOfBody (EVMDialect v oa) s = s")
  case False
  then obtain pre t post e rest body where s: "s = ForLoop pre t post (If' e (Break # rest) # body)"
      and t: "literalIsTrue t" and e: "movableExpr (EVMDialect v oa) e"
    by (auto simp: conditionOutOfBody_def split: stmt.splits list.splits option.splits if_splits)
  let ?neg = "\<lambda>e. FunctionCall ''iszero'' [e]"
  show ?thesis
  proof (cases "\<exists>a. e = ?neg a")
    case True
    then obtain a where a: "e = ?neg a" ..
    then have "callsVisible (EVMDialect v oa) (blockFunctions body) a"
      using movable_calls_builtins [OF e] by (simp add: callsVisible_def)
    then show ?thesis
      using s t e a
      by (simp add: conditionOutOfBody_def dialect_functions instructionBuiltin_def ctx_rewrite out_of_body)
  next
    case False
    have "moves v oa [If' e (Break # rest)] [If' (?neg (?neg e)) (Break # rest)]"
      by (intro ctx_rewrite negate_twice)
    then have "moves v oa (If' e (Break # rest) # body) (If' (?neg (?neg e)) (Break # rest) # body)"
      using ctx_Cons ctx_refl by fastforce
    then have "moves v oa [s] [ForLoop pre t post (If' (?neg (?neg e)) (Break # rest) # body)]"
      unfolding s by (intro loop ctx_refl)
    moreover have "callsVisible (EVMDialect v oa) (blockFunctions body) (?neg e)"
      using movable_calls_builtins [OF e] by (simp add: callsVisible_def builtin_basic)
    then have "moves v oa [ForLoop pre t post (If' (?neg (?neg e)) (Break # rest) # body)]
        [ForLoop pre (?neg e) post body]"
      using t by (intro ctx_rewrite out_of_body)
    ultimately have "moves v oa [s] [ForLoop pre (?neg e) post body]" by (rule trans)
    moreover have "conditionOutOfBody (EVMDialect v oa) s = ForLoop pre (?neg e) post body"
    proof (cases e)
      case (FunctionCall f args)
      have "arityOk (EVMDialect v oa) e" using assms s by blast
      then have "f \<noteq> ''iszero''"
        using False FunctionCall
        by (auto simp: builtin_basic instructionBuiltin_def instructionInfo_eqs length_Suc_conv)
      then show ?thesis
        using s t e FunctionCall
        by (simp add: conditionOutOfBody_def dialect_functions instructionBuiltin_def split: list.split)
    qed (use s t e in \<open>simp_all add: conditionOutOfBody_def dialect_functions instructionBuiltin_def\<close>)
    ultimately show ?thesis by simp
  qed
qed (simp add: ctx_refl)

lemma conditionOutOfBody_If: "conditionOutOfBody D s = If' e b \<longleftrightarrow> s = If' e b"
  by (auto simp: conditionOutOfBody_def split: stmt.split list.split option.split expr.split)

lemma modifyChildren_If: "modifyChildren g s = If' e b \<longleftrightarrow> (\<exists>c. s = If' e c \<and> b = g c)"
  by (cases s) auto

lemma out_of_body_head:
  "ForLoopConditionOutOfBody D ss = If' e b # ts \<Longrightarrow> \<exists>c us. ss = If' e c # us"
  by (subst (asm) ForLoopConditionOutOfBody.simps)
    (auto simp: map_eq_Cons_conv conditionOutOfBody_If modifyChildren_If)

lemma out_of_body_ctx:
  "programOk (EVMDialect v oa) ss \<Longrightarrow> moves v oa ss (ForLoopConditionOutOfBody (EVMDialect v oa) ss)"
proof (induction "EVMDialect v oa" ss rule: ForLoopConditionOutOfBody.induct)
  case (1 ss)
  let ?D = "EVMDialect v oa" and ?g = "ForLoopConditionOutOfBody (EVMDialect v oa)"
  have "moves v oa [s] [conditionOutOfBody ?D (modifyChildren ?g s)]" if s: "s \<in> set ss" for s
  proof (rule trans)
    show "moves v oa [s] [modifyChildren ?g s]"
      using 1 s programOkD(2) by (intro ctx_children) blast
    show "moves v oa [modifyChildren ?g s] [conditionOutOfBody ?D (modifyChildren ?g s)]"
    proof (rule out_of_body_stmt)
      fix pre c post e b body
      assume "modifyChildren ?g s = ForLoop pre c post (If' e b # body)"
      then obtain body' where "?g body' = If' e b # body" "body' \<in> set (childBlocks s)"
        by (cases s) auto
      then obtain c us where "body' = If' e c # us"
        using out_of_body_head by blast
      moreover have "programOk ?D body'"
        using 1(2) s \<open>body' \<in> set (childBlocks s)\<close> by (rule programOkD)
      ultimately have "statementOk ?D (If' e c)"
        using programOkD(1) [of ?D body' "If' e c"] by simp
      then show "arityOk ?D e" by simp
    qed
  qed
  then show ?case by (subst ForLoopConditionOutOfBody.simps) (rule ctx_map)
qed

section \<open>Properties\<close>

text \<open>C8: Moving the condition of loops into their bodies, and moving it back out, keeps the result
  of every analysed program for every amount of fuel: value, exception, final state, and running out
  of fuel, that is, not ending.\<close>

theorem loop_conditions_keep_result:
  assumes "programOk (EVMDialect v oa) p"
  shows "run_yul k (EVMDialect v oa) n (ForLoopConditionIntoBody (EVMDialect v oa) p) s =
      run_yul k (EVMDialect v oa) n p s \<and>
    run_yul k (EVMDialect v oa) n (ForLoopConditionOutOfBody (EVMDialect v oa) p) s =
      run_yul k (EVMDialect v oa) n p s"
  using loop_condition.run_equal [OF into_body_ctx [OF assms]]
    loop_condition.run_equal [OF out_of_body_ctx [OF assms]] by simp

text \<open>\<open>{ let x := 0  for { } iszero(x) { x := iszero(x) } { } }\<close>\<close>

definition loopExample :: "stmt list" where
  "loopExample =
     [VariableDeclaration [TypedName ''x'' []] (Some (Literal (numberLiteral ''0'' []))),
      ForLoop [] (FunctionCall ''iszero'' [Identifier ''x''])
        [Assignment [''x''] (FunctionCall ''iszero'' [Identifier ''x''])] []]"

lemma loop_conditions_keep_result_witness:
  "\<forall>k s. run_yul k (EVMDialect Berlin True) 1 (ForLoopConditionIntoBody (EVMDialect Berlin True) loopExample) s =
     Some (Inr (), s)"
proof (intro allI)
  fix k s
  have "programOk (EVMDialect Berlin True) loopExample"
    by (simp add: loopExample_def programOk.simps builtin_basic instructionBuiltin_def
        instructionInfo_eqs callsVisible_def)
  from loop_conditions_keep_result [OF this, of k 1 s]
  have "run_yul k (EVMDialect Berlin True) 1 (ForLoopConditionIntoBody (EVMDialect Berlin True) loopExample) s =
      run_yul k (EVMDialect Berlin True) 1 loopExample s" by (rule conjunct1)
  also have "\<dots> = Some (Inr (), s)"
    by (simp add: run_yul_def loopExample_def exec_block.simps exec_stmts.simps(2) exec_loop.simps
        eval_iszero evalLiteral_def Let_def oneValue_def truth_def leaveScope_def)
      (simp add: returnY_def)
  finally show "run_yul k (EVMDialect Berlin True) 1
      (ForLoopConditionIntoBody (EVMDialect Berlin True) loopExample) s = Some (Inr (), s)" .
qed

end
