(* ===== verification/YulStatements.thy ===== *)
theory YulStatements
  imports YulModifier
begin

text \<open>
  Steps of the Yul optimiser on the statements of a block:
  \<open>optimiser/VarDeclInitializer.cpp\<close>, \<open>optimiser/DeadCodeEliminator.cpp\<close> and
  \<open>optimiser/FunctionGrouper.cpp\<close>. Each keeps the result of every program.
\<close>

section \<open>Initial values for declarations\<close>

definition initialised :: "dialect \<Rightarrow> typed_name \<Rightarrow> stmt" where
  "initialised D x = VariableDeclaration [x] (Some (Literal (zeroLiteralForType D (tn_type x))))"

definition initialiseDeclaration :: "dialect \<Rightarrow> stmt \<Rightarrow> stmt list" where
  "initialiseDeclaration D s =
     (case s of
        VariableDeclaration xs None \<Rightarrow>
          (case xs of [x] \<Rightarrow> [initialised D x] | _ \<Rightarrow> map (initialised D) xs)
      | _ \<Rightarrow> [s])"

function VarDeclInitializer :: "dialect \<Rightarrow> stmt list \<Rightarrow> stmt list" where
  "VarDeclInitializer D ss =
     concat (map (\<lambda>s. initialiseDeclaration D (modifyChildren (VarDeclInitializer D) s)) ss)"
  by auto
termination
  by (relation "measure (\<lambda>(D, ss). size_list size ss)") (auto intro: childBlocks_size_list)

declare VarDeclInitializer.simps [simp del]

section \<open>Dead code\<close>

definition eraseUnreachable :: "dialect \<Rightarrow> stmt list \<Rightarrow> stmt list" where
  "eraseUnreachable D ss =
     (case firstUnconditionalControlFlowChange D ss of
        (kind, index) \<Rightarrow>
          (case index of
             Some i \<Rightarrow>
               if kind \<noteq> FlowOut
               then take (i + 1) ss @ filter holdsFunctionDefinition (drop (i + 1) ss)
               else ss
           | None \<Rightarrow> ss))"

lemma eraseUnreachable_size:
  "size_list size (eraseUnreachable D ss) \<le> size_list size ss"
proof -
  have filter: "size_list size (filter p xs) \<le> size_list size xs" for p and xs :: "stmt list"
    by (induction xs) auto
  have "size_list size ss = size_list size (take i ss) + size_list size (drop i ss)" for i
    by (metis append_take_drop_id size_list_append)
  then show ?thesis
    using filter by (auto simp: eraseUnreachable_def size_list_append split: prod.split option.split)
      (metis add_left_mono)
qed

function eliminateDeadCode :: "dialect \<Rightarrow> stmt list \<Rightarrow> stmt list" where
  "eliminateDeadCode D ss = map (modifyChildren (eliminateDeadCode D)) (eraseUnreachable D ss)"
  by auto
termination
proof (relation "measure (\<lambda>(D, ss). size_list size ss)", simp)
  fix D ss x xa
  assume "x \<in> set (eraseUnreachable D ss)" "xa \<in> set (childBlocks x)"
  then show "((D, xa), (D, ss)) \<in> measure (\<lambda>(D, ss). size_list size ss)"
    using childBlocks_size_list [of x "eraseUnreachable D ss" xa] eraseUnreachable_size [of D ss]
    by simp
qed

declare eliminateDeadCode.simps [simp del]

text \<open>
  The step asserts that the loops it visits have no initial statements; it visits the ones that
  are left, and never empties a block.
\<close>

fun loopInitEmpty :: "stmt \<Rightarrow> bool" where
  "loopInitEmpty (ForLoop pre c post body) = (pre = [])"
| "loopInitEmpty s = True"

function loopInitsEmpty :: "stmt list \<Rightarrow> bool" where
  "loopInitsEmpty ss = list_all (\<lambda>s. loopInitEmpty s \<and> list_all loopInitsEmpty (childBlocks s)) ss"
  by auto
termination
  by (relation "measure (size_list size)") (auto intro: childBlocks_size_list)

declare loopInitsEmpty.simps [simp del]

definition DeadCodeEliminator :: "dialect \<Rightarrow> stmt list \<Rightarrow> stmt list result" where
  "DeadCodeEliminator D ss =
     bindR (assertThrow (loopInitsEmpty (eliminateDeadCode D ss)) UtilException)
       (\<lambda>_. Inr (eliminateDeadCode D ss))"

section \<open>Grouping functions\<close>

definition alreadyGrouped :: "stmt list \<Rightarrow> bool" where
  "alreadyGrouped ss =
     (case ss of
        [] \<Rightarrow> False
      | Block b # rest \<Rightarrow> list_all holdsFunctionDefinition rest
      | _ \<Rightarrow> False)"

definition FunctionGrouper :: "stmt list \<Rightarrow> stmt list" where
  "FunctionGrouper ss =
     (if alreadyGrouped ss then ss
      else Block (filter (Not \<circ> holdsFunctionDefinition) ss) # filter holdsFunctionDefinition ss)"

section \<open>Correctness\<close>

text \<open>Declarations.\<close>

inductive declares :: "dialect \<Rightarrow> stmt list \<Rightarrow> stmt list \<Rightarrow> bool" for D where
  "declares D [VariableDeclaration xs None] (map (initialised D) xs)"

lemma exec_initialised:
  "exec_stmts k D n S V (map (initialised D) xs) s =
     bindY (declareVariables xs (replicate (length xs) 0) V s) (\<lambda>V'. returnY (FlowDefault, V'))"
proof (induction xs arbitrary: V)
  case (Cons x xs)
  have "evalLiteral (zeroLiteralForType D t) s = returnY 0 s" for t
    by (simp add: evalLiteral_def zeroLiteralForType_def)
  then show ?case
    using Cons by (simp add: initialised_def exec_stmts.simps(2) fun_upd_def)
qed simp

interpretation declarations: yul_rewrites k D "declares D" "\<lambda>_ _. False" for k D
proof unfold_locales
  fix xs ys n S V s
  assume "declares D xs ys"
  then show "exec_stmts k D n S V xs s = exec_stmts k D n S V ys s"
    by cases (simp add: exec_initialised)
next
  fix xs ys
  assume "declares D xs ys"
  moreover have "blockFunctions (map (initialised D) xs) = Map.empty" for xs
    by (induction xs) (simp_all add: initialised_def)
  ultimately show "blockFunctions xs = blockFunctions ys" by (auto elim: declares.cases)
qed simp

lemma VarDeclInitializer_ctx: "ctx (declares D) (\<lambda>_ _. False) ss (VarDeclInitializer D ss)"
proof (induction D ss rule: VarDeclInitializer.induct)
  case (1 D ss)
  have "ctx (declares D) (\<lambda>_ _. False) [s] (initialiseDeclaration D s)" for s
  proof (cases "\<exists>xs. s = VariableDeclaration xs None")
    case True
    then obtain xs where s: "s = VariableDeclaration xs None" ..
    then have "initialiseDeclaration D s = map (initialised D) xs"
      by (auto simp: initialiseDeclaration_def split: list.split)
    then show ?thesis using s by (simp add: ctx_rewrite declares.intros)
  next
    case False
    then have "initialiseDeclaration D s = [s]"
      by (auto simp: initialiseDeclaration_def split: stmt.split option.split)
    then show ?thesis by (simp add: ctx_refl)
  qed
  moreover have "ctx (declares D) (\<lambda>_ _. False) [s] [modifyChildren (VarDeclInitializer D) s]"
    if "s \<in> set ss" for s
    using 1 that by (intro ctx_children)
  ultimately have "ctx (declares D) (\<lambda>_ _. False) [s]
      (initialiseDeclaration D (modifyChildren (VarDeclInitializer D) s))" if "s \<in> set ss" for s
    using that trans by metis
  then show ?case by (subst VarDeclInitializer.simps) (rule ctx_concat)
qed

text \<open>Dead code.\<close>

inductive unreachable :: "evm_version \<Rightarrow> bool \<Rightarrow> stmt list \<Rightarrow> stmt list \<Rightarrow> bool" for v oa where
  "controlFlowKind (EVMDialect v oa) t \<noteq> FlowOut \<Longrightarrow>
   unreachable v oa (xs @ t # ys) (xs @ t # filter holdsFunctionDefinition ys)"

lemma blockFunctions_filter: "blockFunctions (filter holdsFunctionDefinition ys) = blockFunctions ys"
  by (induction ys rule: blockFunctions.induct) simp_all

interpretation dead_code:
  yul_rewrites k "EVMDialect v oa" "unreachable v oa" "\<lambda>_ _. False" for k v oa
proof unfold_locales
  fix xs ys n S V s
  assume "unreachable v oa xs ys"
  then show "exec_stmts k (EVMDialect v oa) n S V xs s = exec_stmts k (EVMDialect v oa) n S V ys s"
    by cases (auto simp: exec_stmts_append exec_stops intro!: bindY_cong)
next
  fix xs ys
  assume "unreachable v oa xs ys"
  then show "blockFunctions xs = blockFunctions ys"
  proof cases
    case (1 t us vs)
    have "blockFunctions (t # filter holdsFunctionDefinition vs) = blockFunctions (t # vs)"
      using blockFunctions_Cons [of t] blockFunctions_filter [of vs] by metis
    then show ?thesis using 1 by (simp add: blockFunctions_append)
  qed
qed simp

lemma first_change:
  "firstUnconditionalControlFlowChange D ss = (kind, Some i) \<Longrightarrow>
   i < length ss \<and> controlFlowKind D (ss ! i) = kind \<and> kind \<noteq> FlowOut"
  by (induction ss arbitrary: i) (auto split: if_splits prod.splits)

lemma eraseUnreachable_ctx:
  "ctx (unreachable v oa) F ss (eraseUnreachable (EVMDialect v oa) ss)"
proof -
  obtain kind index where change: "firstUnconditionalControlFlowChange (EVMDialect v oa) ss = (kind, index)"
    by fastforce
  show ?thesis
  proof (cases index)
    case (Some i)
    note i = first_change [OF change [unfolded Some]]
    then have "ss = take i ss @ ss ! i # drop (Suc i) ss" "take (i + 1) ss = take i ss @ [ss ! i]"
      by (auto simp: id_take_nth_drop take_Suc_conv_app_nth)
    moreover have "unreachable v oa (take i ss @ ss ! i # drop (Suc i) ss)
        (take i ss @ ss ! i # filter holdsFunctionDefinition (drop (Suc i) ss))"
      using i by (intro unreachable.intros) simp
    ultimately show ?thesis
      using change Some i by (simp add: eraseUnreachable_def ctx_rewrite)
  qed (simp add: eraseUnreachable_def change ctx_refl)
qed

lemma eliminateDeadCode_ctx:
  "ctx (unreachable v oa) (\<lambda>_ _. False) ss (eliminateDeadCode (EVMDialect v oa) ss)"
proof (induction "EVMDialect v oa" ss rule: eliminateDeadCode.induct)
  case (1 ss)
  then have "ctx (unreachable v oa) (\<lambda>_ _. False) (eraseUnreachable (EVMDialect v oa) ss)
      (map (modifyChildren (eliminateDeadCode (EVMDialect v oa))) (eraseUnreachable (EVMDialect v oa) ss))"
    by (intro ctx_map ctx_children)
  then show ?case
    using trans [OF eraseUnreachable_ctx] by (subst eliminateDeadCode.simps) blast
qed

text \<open>Grouping: the statements run in a block of their own, over a scope without functions.\<close>

lemma filter_no_functions: "blockFunctions (filter (Not \<circ> holdsFunctionDefinition) ss) = Map.empty"
  by (induction ss rule: blockFunctions.induct) simp_all

lemma exec_functions: "list_all holdsFunctionDefinition ss \<Longrightarrow>
   exec_stmts k D n S V ss s = returnY (FlowDefault, V) s"
proof (induction ss)
  case (Cons t ss)
  then show ?case by (cases t) (simp_all add: exec_stmts.simps(2))
qed simp

lemma exec_without_functions:
  "exec_stmts k D n S V (filter (Not \<circ> holdsFunctionDefinition) ss) s = exec_stmts k D n S V ss s"
proof (induction ss arbitrary: V s)
  case (Cons t ss)
  show ?case
  proof (cases "holdsFunctionDefinition t")
    case True
    then show ?thesis using Cons by (cases t) (simp_all add: exec_stmts.simps(2))
  next
    case False
    then show ?thesis
      by (auto simp: exec_stmts.simps(2) Cons [unfolded comp_def] intro!: bindY_cong)
  qed
qed simp

lemma FunctionGrouper_block:
  "exec_block k D n S V (FunctionGrouper ss) s = exec_block k D n S V ss s"
proof (cases "alreadyGrouped ss")
  case False
  let ?body = "filter (Not \<circ> holdsFunctionDefinition) ss" and ?funs = "filter holdsFunctionDefinition ss"
  let ?S = "blockFunctions ss # S"
  have "exec_block k D n S V (FunctionGrouper ss) s =
      bindY (exec_stmts k D n ?S V (Block ?body # ?funs) s)
        (\<lambda>(flow, V'). returnY (flow, leaveScope V V'))"
    using False by (simp add: FunctionGrouper_def exec_block.simps blockFunctions_filter)
  also have "exec_stmts k D n ?S V (Block ?body # ?funs) s =
      bindY (exec_stmts k D n ?S V ss s) (\<lambda>(flow, V'). returnY (flow, leaveScope V V'))"
    by (auto simp: exec_stmts.simps(2) exec_functions list_all_iff exec_block.simps
        filter_no_functions exec_empty_scope exec_without_functions bindY_assoc intro!: bindY_cong)
  also have "bindY \<dots> (\<lambda>(flow, V'). returnY (flow, leaveScope V V')) = exec_block k D n S V ss s"
    by (auto simp: exec_block.simps bindY_assoc intro!: bindY_cong)
  finally show ?thesis .
qed (simp add: FunctionGrouper_def)

section \<open>Properties\<close>

text \<open>C32: Giving declarations without a value the zero of their types keeps the result of every
  program for every amount of fuel.\<close>

theorem initialising_declarations_keeps_result:
  "run_yul k D n (VarDeclInitializer D p) s = run_yul k D n p s"
  using declarations.run_equal [OF VarDeclInitializer_ctx] by simp

text \<open>C7: Where the eliminator's assertion holds it returns a program with the same result for every
  amount of fuel: nothing it erases is ever executed, and it erases no function.\<close>

theorem dead_code_keeps_result:
  "DeadCodeEliminator (EVMDialect v oa) p = Inr q \<Longrightarrow>
   run_yul k (EVMDialect v oa) n q s = run_yul k (EVMDialect v oa) n p s"
  using dead_code.run_equal [OF eliminateDeadCode_ctx]
  by (auto simp: DeadCodeEliminator_def bindR_Inr_iff)

text \<open>\<open>{ function f() { leave  pop(0) }  f() }\<close>\<close>

definition deadExample :: "stmt list \<Rightarrow> stmt list" where
  "deadExample rest =
     [FunctionDefinition ''f'' [] [] (Leave # rest), ExpressionStatement (FunctionCall ''f'' [])]"

lemma dead_code_keeps_result_witness:
  "\<forall>k n s. run_yul k (EVMDialect Berlin True) n (deadExample []) s =
   run_yul k (EVMDialect Berlin True) n
     (deadExample [ExpressionStatement (FunctionCall ''pop'' [Literal (numberLiteral ''0'' [])])]) s"
proof (intro allI dead_code_keeps_result)
  show "DeadCodeEliminator (EVMDialect Berlin True)
      (deadExample [ExpressionStatement (FunctionCall ''pop'' [Literal (numberLiteral ''0'' [])])]) =
    Inr (deadExample [])"
    by (simp add: DeadCodeEliminator_def eliminateDeadCode.simps eraseUnreachable_def deadExample_def
        loopInitsEmpty.simps split: option.split)
qed

text \<open>C33: Grouping the statements of a program in a block in front of its functions keeps its result
  for every amount of fuel.\<close>

theorem grouping_functions_keeps_result:
  "run_yul k D n (FunctionGrouper p) s = run_yul k D n p s"
  by (simp add: run_yul_def FunctionGrouper_block)

end
