(* ===== verification/YulControlFlow.thy ===== *)
theory YulControlFlow
  imports YulLoops YulStatements
begin

text \<open>
  \<open>optimiser/ControlFlowSimplifier.cpp\<close>: conditionals and switches without effect, switches with
  one case, loops that run at most once, and \<open>leave\<close> at the end of a function. The types of
  expressions, which \<open>optimiser/TypeInfo.cpp\<close> computes and which only choose among the discard and
  equality functions of a typed dialect, are the parameter \<open>typeOf\<close>.
\<close>

section \<open>The step\<close>

definition makeDiscardCall :: "builtin_function \<Rightarrow> expr \<Rightarrow> stmt" where
  "makeDiscardCall f e = ExpressionStatement (FunctionCall (bf_name f) [e])"

definition removeEmptyDefaultFromSwitch ::
  "(literal option \<times> stmt list) list \<Rightarrow> (literal option \<times> stmt list) list" where
  "removeEmptyDefaultFromSwitch cs = filter (\<lambda>(l, b). \<not> (l = None \<and> b = [])) cs"

definition removeEmptyCasesFromSwitch ::
  "(literal option \<times> stmt list) list \<Rightarrow> (literal option \<times> stmt list) list" where
  "removeEmptyCasesFromSwitch cs =
     (if list_ex (\<lambda>(l, b). l = None) cs then cs else filter (\<lambda>(l, b). b \<noteq> []) cs)"

definition reduceNoCaseSwitch :: "dialect \<Rightarrow> (expr \<Rightarrow> yul_type) \<Rightarrow> expr \<Rightarrow> stmt list option" where
  "reduceNoCaseSwitch D typeOf e =
     (case discardFunction D (typeOf e) of Some f \<Rightarrow> Some [makeDiscardCall f e] | None \<Rightarrow> None)"

definition reduceSingleCaseSwitch ::
  "dialect \<Rightarrow> (expr \<Rightarrow> yul_type) \<Rightarrow> expr \<Rightarrow> literal option \<Rightarrow> stmt list \<Rightarrow> stmt list option" where
  "reduceSingleCaseSwitch D typeOf e l b =
     (case l of
        Some v \<Rightarrow>
          (case equalityFunction D (typeOf e) of
             Some f \<Rightarrow> Some [If' (FunctionCall (bf_name f) [Literal v, e]) b]
           | None \<Rightarrow> None)
      | None \<Rightarrow>
          (case discardFunction D (typeOf e) of
             Some f \<Rightarrow> Some [makeDiscardCall f e, Block b]
           | None \<Rightarrow> None))"

text \<open>The statement, whose cases the visitor of the source removes in place, and its replacement.\<close>

definition simplifyStatement ::
  "dialect \<Rightarrow> (expr \<Rightarrow> yul_type) \<Rightarrow> stmt \<Rightarrow> stmt \<times> stmt list option" where
  "simplifyStatement D typeOf s =
     (case s of
        If' c [] \<Rightarrow>
          (s, case discardFunction D (boolType D) of
                Some f \<Rightarrow> Some [makeDiscardCall f c] | None \<Rightarrow> None)
      | Switch e cs \<Rightarrow>
          (let cs' = removeEmptyCasesFromSwitch (removeEmptyDefaultFromSwitch cs) in
           (Switch e cs',
            case cs' of
              [] \<Rightarrow> reduceNoCaseSwitch D typeOf e
            | [(l, b)] \<Rightarrow> reduceSingleCaseSwitch D typeOf e l b
            | _ \<Rightarrow> None))
      | _ \<Rightarrow> (s, None))"

text \<open>The counters of \<open>break\<close> and \<open>continue\<close>, which a nested loop saves and restores.\<close>

fun isLoop :: "stmt \<Rightarrow> bool" where
  "isLoop (ForLoop pre c post body) = True"
| "isLoop s = False"

function countStatement :: "stmt \<Rightarrow> stmt list \<Rightarrow> nat" where
  "countStatement t ss =
     sum_list (map (\<lambda>s. if s = t then 1
        else if isLoop s then 0
        else sum_list (map (countStatement t) (childBlocks s))) ss)"
  by auto
termination
  by (relation "measure (\<lambda>(t, ss). size_list size ss)") (auto intro: childBlocks_size_list)

declare countStatement.simps [simp del]

definition loopToIf :: "dialect \<Rightarrow> stmt \<Rightarrow> stmt" where
  "loopToIf D s =
     (case s of
        ForLoop pre c post body \<Rightarrow>
          if body = [] then s
          else
            (let kind = controlFlowKind D (last body);
                 breaks = countStatement Break (post @ body) - (if kind = TfBreak then 1 else 0)
             in if kind \<in> {TfBreak, TfTerminate, TfLeave}
                   \<and> countStatement Continue (post @ body) = 0 \<and> breaks = 0
                then If' c (if kind = TfBreak then butlast body else body)
                else s)
      | _ \<Rightarrow> s)"

definition dropFinalLeave :: "stmt \<Rightarrow> stmt" where
  "dropFinalLeave s =
     (case s of
        FunctionDefinition f ps rs b \<Rightarrow>
          if b \<noteq> [] \<and> last b = Leave then FunctionDefinition f ps rs (butlast b) else s
      | _ \<Rightarrow> s)"

lemma filter_size: "size_list f (filter p xs) \<le> size_list f xs"
  by (induction xs) auto

lemma size_list_member: "x \<in> set xs \<Longrightarrow> f x < size_list f xs"
  by (induction xs) auto

lemma simplifyStatement_size:
  assumes "simplifyStatement D ty s = (s', r)" "s \<in> set ss"
  shows "r = Some us \<Longrightarrow> size_list size us < size_list size ss"
    and "b \<in> set (childBlocks s') \<Longrightarrow> size_list size b < size_list size ss"
proof -
  have s: "size s < size_list size ss"
    using assms(2) by (rule size_list_member)
  have clean: "size_list f (removeEmptyCasesFromSwitch (removeEmptyDefaultFromSwitch cs)) \<le> size_list f cs"
    for f cs
    using filter_size le_trans
    by (fastforce simp: removeEmptyCasesFromSwitch_def removeEmptyDefaultFromSwitch_def)
  show "r = Some us \<Longrightarrow> size_list size us < size_list size ss"
  proof -
    assume r: "r = Some us"
    have "size_list size us \<le> size s"
    proof (cases s)
      case (If' c b)
      then show ?thesis
        using assms(1) r by (auto simp: simplifyStatement_def makeDiscardCall_def split: list.splits option.splits)
    next
      case (Switch e cs)
      then show ?thesis
        using assms(1) r clean [of "size_prod (\<lambda>_. 0) (size_list size)" cs]
        by (auto simp: simplifyStatement_def makeDiscardCall_def reduceNoCaseSwitch_def
            reduceSingleCaseSwitch_def Let_def split: list.splits option.splits)
    qed (use assms(1) r in \<open>auto simp: simplifyStatement_def\<close>)
    then show ?thesis using s by simp
  qed
  have "size s' \<le> size s"
  proof (cases s)
    case (Switch e cs)
    then have "s' = Switch e (removeEmptyCasesFromSwitch (removeEmptyDefaultFromSwitch cs))"
      using assms(1) by (simp add: simplifyStatement_def Let_def)
    then show ?thesis using Switch clean by simp
  next
    case (If' c b)
    then show ?thesis using assms(1) by (cases b) (simp_all add: simplifyStatement_def)
  qed (use assms(1) in \<open>simp_all add: simplifyStatement_def\<close>)
  then show "b \<in> set (childBlocks s') \<Longrightarrow> size_list size b < size_list size ss"
    using childBlocks_size [of b s'] s by simp
qed

text \<open>\<open>simplify\<close> on the statements of a block; the visit of what is not replaced is bottom-up.\<close>

function simplifyControlFlow :: "dialect \<Rightarrow> (expr \<Rightarrow> yul_type) \<Rightarrow> stmt list \<Rightarrow> stmt list" where
  "simplifyControlFlow D ty ss =
     concat (map (\<lambda>s.
       case simplifyStatement D ty s of
         (s', Some us) \<Rightarrow> simplifyControlFlow D ty us
       | (s', None) \<Rightarrow>
           [dropFinalLeave (loopToIf D (modifyChildren (simplifyControlFlow D ty) s'))]) ss)"
  by auto
termination
  by (relation "measure (\<lambda>(D, ty, ss). size_list size ss)")
    (auto intro: simplifyStatement_size [OF sym])

declare simplifyControlFlow.simps [simp del]

text \<open>The step asserts that no loop has initial statements; it visits every loop.\<close>

definition ControlFlowSimplifier :: "dialect \<Rightarrow> (expr \<Rightarrow> yul_type) \<Rightarrow> stmt list \<Rightarrow> stmt list result" where
  "ControlFlowSimplifier D typeOf ss =
     bindR (assertThrow (loopInitsEmpty ss) UtilException) (\<lambda>_. Inr (simplifyControlFlow D typeOf ss))"

section \<open>Switches\<close>

lemma eval_pop:
  "eval_multi k (EVMDialect v oa) n S V (FunctionCall ''pop'' [e]) s =
     bindY (eval_multi k (EVMDialect v oa) n S V e s) (\<lambda>r s0. bindY (oneValue r s0)
       (\<lambda>x. returnY [0]))"
proof -
  have "eval k POP [x] s = (Inr 0, s)" for x s
    by (simp add: eval_def eval_signals_def eval_arithmetic_def eval_blockchain_def eval_memory_def
        eval_calls_def instructionInfo_eqs)
  then have "evalBuiltin k (instructionBuiltin ''pop'' POP) args [x] s = returnY 0 s" for args x s
    by (simp add: evalBuiltin_def instructionBuiltin_def liftY_def returnY_def)
  then show ?thesis
    by (auto simp: eval_multi.simps(3) literalArgumentsOf_def builtin_basic instructionBuiltin_def
        bindY_assoc intro!: bindY_cong)
qed

lemma eval_eq:
  "eval_multi k (EVMDialect v oa) n S V (FunctionCall ''eq'' [Literal l, e]) s =
     bindY (eval_multi k (EVMDialect v oa) n S V e s) (\<lambda>r s0. bindY (oneValue r s0) (\<lambda>x s1.
       bindY (evalLiteral l s1) (\<lambda>w. returnY [truth (w = x)])))"
proof -
  have "evalBuiltin k (instructionBuiltin ''eq'' EQ) args [x, y] s = returnY (truth (x = y)) s"
    for args x y s
    by (simp add: evalBuiltin_def instructionBuiltin_def liftY_def returnY_def eval_of_arithmetic
        eval_arithmetic_simps instructionInfo_eqs)
  moreover have "oneValue [x] = returnY x" for x
    by (simp add: oneValue_def fun_eq_iff)
  ultimately show ?thesis
    by (auto simp: eval_multi.simps(3) literalArgumentsOf_def builtin_basic instructionBuiltin_def
        bindY_assoc intro!: bindY_cong)
qed

lemma exec_empty_block: "exec_block k D n S V [] s = returnY (FlowDefault, V) s"
  by (simp add: exec_block.simps)

lemma exec_cases_seen:
  "casesOk seen cs \<Longrightarrow> x \<in> set seen \<Longrightarrow> \<not> list_ex (\<lambda>(l, b). l = None) cs \<Longrightarrow>
   exec_cases k D n S V x cs s = returnY (FlowDefault, V) s"
  by (induction seen cs rule: casesOk.induct) (auto simp: evalLiteral_def split: sum.splits)

lemma exec_removeEmptyDefault:
  "casesOk seen cs \<Longrightarrow>
   exec_cases k D n S V x (removeEmptyDefaultFromSwitch cs) s = exec_cases k D n S V x cs s"
  by (induction seen cs arbitrary: s rule: casesOk.induct)
    (auto simp: removeEmptyDefaultFromSwitch_def exec_empty_block intro!: bindY_cong split: sum.splits)

lemma exec_removeEmptyCases:
  assumes "casesOk seen cs"
  shows "exec_cases k D n S V x (removeEmptyCasesFromSwitch cs) s = exec_cases k D n S V x cs s"
proof (cases "list_ex (\<lambda>(l, b). l = None) cs")
  case False
  with assms have "exec_cases k D n S V x (filter (\<lambda>(l, b). b \<noteq> []) cs) s = exec_cases k D n S V x cs s"
  proof (induction seen cs rule: casesOk.induct)
    case (3 seen l b cs)
    then obtain u where u: "valueOfLiteral l = Inr u" "casesOk (u # seen) cs"
      by (auto split: sum.splits)
    then show ?case
      using 3 exec_cases_seen [of "u # seen" cs u k D n S V s]
      by (auto simp: evalLiteral_def exec_empty_block)
  qed auto
  then show ?thesis using False by (simp add: removeEmptyCasesFromSwitch_def)
qed (simp add: removeEmptyCasesFromSwitch_def)

lemma casesOk_literal:
  "casesOk seen ((Some l, b) # cs) \<longleftrightarrow>
     (\<exists>u. valueOfLiteral l = Inr u \<and> u \<notin> set seen \<and> casesOk (u # seen) cs)"
  by (auto split: sum.split)

lemma casesOk_mono: "casesOk seen cs \<Longrightarrow> set seen' \<subseteq> set seen \<Longrightarrow> casesOk seen' cs"
proof (induction cs arbitrary: seen seen')
  case (Cons c cs)
  obtain l b where c: "c = (l, b)" by fastforce
  show ?case
  proof (cases l)
    case None
    then show ?thesis using Cons.prems c by simp
  next
    case (Some v)
    then obtain u where u: "valueOfLiteral v = Inr u" "u \<notin> set seen" "casesOk (u # seen) cs"
      using Cons.prems(1) c casesOk_literal by blast
    moreover have "casesOk (u # seen') cs"
      using Cons.prems(2) by (intro Cons.IH [OF u(3)]) auto
    ultimately show ?thesis using Some c Cons.prems(2) by auto
  qed
qed simp

lemma casesOk_filter: "casesOk seen cs \<Longrightarrow> casesOk seen (filter p cs)"
proof (induction cs arbitrary: seen)
  case (Cons c cs)
  obtain l b where c: "c = (l, b)" by fastforce
  show ?case
  proof (cases l)
    case None
    then show ?thesis using Cons.prems c by simp
  next
    case (Some v)
    then obtain u where u: "valueOfLiteral v = Inr u" "u \<notin> set seen" "casesOk (u # seen) cs"
      using Cons.prems c casesOk_literal by blast
    then have "casesOk (u # seen) (filter p cs)" by (intro Cons.IH)
    then show ?thesis using u Some c casesOk_mono [of "u # seen" "filter p cs" seen] by auto
  qed
qed simp

section \<open>Loops that run at most once\<close>

lemma sum_list_zero: "sum_list (map f xs) = 0 \<longleftrightarrow> (\<forall>x \<in> set xs. f x = 0)" for f :: "'a \<Rightarrow> nat"
  by (induction xs) auto

lemma countStatement_zero:
  "countStatement t ss = 0 \<longleftrightarrow>
     (\<forall>s \<in> set ss. s \<noteq> t \<and> (isLoop s \<or> (\<forall>b \<in> set (childBlocks s). countStatement t b = 0)))"
proof -
  have "countStatement t ss = 0 \<longleftrightarrow>
      (\<forall>s \<in> set ss. (if s = t then 1 else if isLoop s then 0
         else sum_list (map (countStatement t) (childBlocks s))) = 0)"
    unfolding countStatement.simps [of t ss] by (rule sum_list_zero)
  also have "\<dots> \<longleftrightarrow> (\<forall>s \<in> set ss. s \<noteq> t \<and>
      (isLoop s \<or> (\<forall>b \<in> set (childBlocks s). countStatement t b = 0)))"
    by (intro ball_cong refl) (simp add: sum_list_zero del: sum_list_eq_0_iff)
  finally show ?thesis .
qed

lemma countStatement_append:
  "countStatement t (xs @ ys) = countStatement t xs + countStatement t ys"
  by (subst (1 2 3) countStatement.simps) simp

lemma bindY_Some:
  "bindY m f = Some (Inr y, s') \<longleftrightarrow> (\<exists>x s. m = Some (Inr x, s) \<and> f x s = Some (Inr y, s'))"
  by (auto simp: bindY_def split: option.splits sum.splits)

lemma bindY_id: "(\<And>x s. m = Some (Inr x, s) \<Longrightarrow> f x s = returnY x s) \<Longrightarrow> bindY m f = m"
  by (auto simp: bindY_def returnY_def split: option.split sum.split)

lemma returnY_Some: "returnY x s = Some (Inr y, s') \<longleftrightarrow> y = x \<and> s' = s"
  by (auto simp: returnY_def)

lemma loop_flow:
  "exec_loop k D n S V c post body s = Some (Inr (flow, V'), s') \<Longrightarrow>
   flow = FlowDefault \<or> flow = FlowLeave"
proof (induction n arbitrary: V s)
  case 0
  then show ?case
    by (subst (asm) exec_loop.simps) (auto simp: bindY_Some returnY_Some split: if_splits)
next
  case (Suc n)
  show ?case
    using Suc.prems
    by (subst (asm) exec_loop.simps)
      (auto simp: bindY_Some returnY_Some split: if_splits dest: Suc.IH)
qed

text \<open>Without a \<open>break\<close> of its own a list of statements does not break.\<close>

definition flowOf :: "stmt \<Rightarrow> control_flow" where
  "flowOf t = (if t = Break then FlowBreak else FlowContinue)"

definition avoids ::
  "(bytes \<Rightarrow> u256) \<Rightarrow> dialect \<Rightarrow> nat \<Rightarrow> control_flow \<Rightarrow> stmt list \<Rightarrow> bool" where
  "avoids k D n f b \<longleftrightarrow>
     (\<forall>S V s V' s'. exec_stmts k D n S V b s \<noteq> Some (Inr (f, V'), s'))"

lemma block_flow:
  "avoids k D n f b \<Longrightarrow> exec_block k D n S V b s = Some (Inr (flow, V'), s') \<Longrightarrow> flow \<noteq> f"
  unfolding avoids_def exec_block.simps bindY_Some by (force simp: returnY_Some)

lemma block_flow_neq:
  "avoids k D n f b \<Longrightarrow> exec_block k D n S V b s \<noteq> Some (Inr (f, V'), s')"
  using block_flow by blast

lemma cases_flow:
  assumes "\<And>b. b \<in> snd ` set cs \<Longrightarrow> avoids k D n f b" "f \<noteq> FlowDefault"
    and "exec_cases k D n S V x cs s = Some (Inr (flow, V'), s')"
  shows "flow \<noteq> f"
  using assms(1,3)
proof (induction cs arbitrary: s)
  case (Cons c cs)
  obtain l b where c: "c = (l, b)" by fastforce
  have b: "flow \<noteq> f" if "exec_block k D n S V b s = Some (Inr (flow, V'), s')" for s
    using block_flow [OF _ that] Cons.prems(1) c by simp
  have cs: "flow \<noteq> f" if "exec_cases k D n S V x cs s = Some (Inr (flow, V'), s')" for s
    using Cons.IH [OF _ that] Cons.prems(1) by simp
  show ?case
    using Cons.prems(2) c b cs by (cases l) (auto simp: bindY_Some split: if_splits)
qed (use assms(2) in \<open>auto simp: returnY_Some\<close>)

lemma stmt_flow:
  assumes "t = Break \<or> t = Continue" "x \<noteq> t"
    and blocks: "\<And>b. \<not> isLoop x \<Longrightarrow> b \<in> set (childBlocks x) \<Longrightarrow> avoids k D n (flowOf t) b"
    and e: "exec_stmt k D n S V x s = Some (Inr (flow, V'), s')"
  shows "flow \<noteq> flowOf t"
proof -
  have def: "flowOf t \<noteq> FlowDefault" "flowOf t \<noteq> FlowLeave" by (simp_all add: flowOf_def)
  show ?thesis
  proof (cases x)
    case (If' c b)
    then have "avoids k D n (flowOf t) b" using blocks by simp
    from block_flow_neq [OF this] If' e def show ?thesis
      by (auto simp: bindY_Some returnY_Some split: if_splits)
  next
    case (Switch c cs)
    then have "\<And>b. b \<in> snd ` set cs \<Longrightarrow> avoids k D n (flowOf t) b" using blocks by simp
    then have "exec_cases k D n S V x cs s \<noteq> Some (Inr (flowOf t, V'), s')" for S V x s V' s'
      using cases_flow [of cs k D n "flowOf t" S V x s "flowOf t"] def by blast
    then show ?thesis
      using Switch e by (auto simp: bindY_Some assertionFailed_def split: if_splits)
  next
    case (ForLoop pre c post body)
    then obtain W where "flow = FlowLeave \<or>
        (\<exists>S V s. exec_loop k D n S V c post body s = Some (Inr (flow, W), s'))"
      using e by (auto simp: Let_def bindY_Some returnY_Some split: if_splits)
    then show ?thesis using loop_flow def by metis
  next
    case (Block b)
    then have "avoids k D n (flowOf t) b" using blocks by simp
    from block_flow_neq [OF this] Block e show ?thesis by auto
  qed (use e assms(1,2) in \<open>auto simp: bindY_Some returnY_Some flowOf_def assertionFailed_def
      split: if_splits\<close>)
qed

lemma flow_counted:
  "t = Break \<or> t = Continue \<Longrightarrow> countStatement t ss = 0 \<Longrightarrow> avoids k D n (flowOf t) ss"
proof (induction t ss rule: countStatement.induct)
  case (1 t ss)
  have stmt: "flow \<noteq> flowOf t"
    if x: "x \<in> set ss" and e: "exec_stmt k D n S V x s = Some (Inr (flow, V'), s')"
    for x S V s flow V' s'
  proof (rule stmt_flow [OF 1(2) _ _ e])
    have count: "x \<noteq> t \<and> (isLoop x \<or> (\<forall>b \<in> set (childBlocks x). countStatement t b = 0))"
      using x 1(3) countStatement_zero by blast
    then show xt: "x \<noteq> t" ..
    show "avoids k D n (flowOf t) b" if "\<not> isLoop x" "b \<in> set (childBlocks x)" for b
    proof (rule 1(1) [OF x xt that 1(2)])
      show "countStatement t b = 0" using count that by blast
    qed
  qed
  have "avoids k D n (flowOf t) us" if "set us \<subseteq> set ss" for us
    using that
  proof (induction us)
    case Nil
    then show ?case by (simp add: avoids_def returnY_Some flowOf_def)
  next
    case (Cons u us)
    then have IH: "avoids k D n (flowOf t) us" and u: "u \<in> set ss" by auto
    have "exec_stmt k D n S V u s \<noteq> Some (Inr (flowOf t, V'), s')" for S V s V' s'
      using stmt [OF u] by blast
    then show ?case
      unfolding avoids_def exec_stmts.simps(2) bindY_Some
      using IH by (auto simp: avoids_def returnY_Some split: if_splits)
  qed
  then show ?case by blast
qed

lemma block_leaves: "exec_block k D n S V b s = Some (Inr (flow, V'), s') \<Longrightarrow> leaveScope V V' = V'"
  by (auto simp: exec_block.simps bindY_Some returnY_Some)

text \<open>The flow out of the body of a loop that the step turns into a conditional.\<close>

lemma terminating_body_flow:
  assumes "body \<noteq> []" "controlFlowKind (EVMDialect v oa) (last body) \<in> {TfTerminate, TfLeave}"
    and "countStatement Continue body = 0" "countStatement Break body = 0"
    and "exec_block k (EVMDialect v oa) n S V body s = Some (Inr (flow, V'), s')"
  shows "flow = FlowLeave"
proof -
  have "flow \<noteq> FlowDefault"
    by (rule exec_block_not_default [OF _ assms(1,5)]) (use assms(2) in auto)
  moreover have "flow \<noteq> FlowBreak" "flow \<noteq> FlowContinue"
    using block_flow [OF flow_counted assms(5), of Break] block_flow [OF flow_counted assms(5), of Continue]
      assms(3,4) by (simp_all add: flowOf_def)
  ultimately show ?thesis by (cases flow) simp_all
qed

lemma breaking_body:
  assumes "countStatement Continue body = 0" "countStatement Break body = 0"
  shows "exec_block k D n S V (body @ [Break]) s =
      bindY (exec_block k D n S V body s) (\<lambda>(flow, V').
        returnY (if flow = FlowDefault then FlowBreak else flow, V'))"
    and "exec_block k D n S V body s = Some (Inr (flow, V'), s') \<Longrightarrow> flow = FlowDefault \<or> flow = FlowLeave"
proof -
  have "blockFunctions (body @ [Break]) = blockFunctions body"
    by (simp add: blockFunctions_append)
  then show "exec_block k D n S V (body @ [Break]) s =
      bindY (exec_block k D n S V body s) (\<lambda>(flow, V').
        returnY (if flow = FlowDefault then FlowBreak else flow, V'))"
    by (auto simp: exec_block.simps exec_stmts_append bindY_def returnY_def
        split: option.splits sum.splits)
  assume "exec_block k D n S V body s = Some (Inr (flow, V'), s')"
  then have "flow \<noteq> FlowBreak" "flow \<noteq> FlowContinue"
    using block_flow [OF flow_counted, of Break body k D n] block_flow [OF flow_counted, of Continue body k D n]
      assms by (auto simp: flowOf_def)
  then show "flow = FlowDefault \<or> flow = FlowLeave" by (cases flow) simp_all
qed

lemma exec_loop_without_init:
  "exec_stmt k D n S V (ForLoop [] c post body) s =
     bindY (eval_multi k D n S V c s) (\<lambda>r s0. bindY (oneValue r s0) (\<lambda>x s1.
       if x = 0 then returnY (FlowDefault, V) s1
       else bindY (exec_block k D n S V body s1) (\<lambda>(flow, V1) s2.
         if flow = FlowBreak then returnY (FlowDefault, V1) s2
         else if flow = FlowLeave then returnY (FlowLeave, V1) s2
         else bindY (exec_block k D n S V1 post s2) (\<lambda>(flow', V2) s3.
           if flow' = FlowLeave then returnY (FlowLeave, leaveScope V V2) s3
           else (case n of 0 \<Rightarrow> None | Suc m \<Rightarrow>
             bindY (exec_loop k D m (Map.empty # S) V2 c post body s3) (\<lambda>(flow, W).
               returnY (flow, leaveScope V W)))))))"
proof -
  have inner: "bindY (if x = 0 then returnY (FlowDefault, V) s1
       else bindY (exec_block k D n S V body s1) (\<lambda>(flow, V1) s2.
         if flow = FlowBreak then returnY (FlowDefault, V1) s2
         else if flow = FlowLeave then returnY (FlowLeave, V1) s2
         else bindY (exec_block k D n S V1 post s2) (\<lambda>(flow', V2) s3.
           if flow' = FlowLeave then returnY (FlowLeave, V2) s3
           else (case n of 0 \<Rightarrow> None | Suc m \<Rightarrow> exec_loop k D m (Map.empty # S) V2 c post body s3))))
       (\<lambda>(flow', V2). returnY (flow', leaveScope V V2)) =
     (if x = 0 then returnY (FlowDefault, V) s1
       else bindY (exec_block k D n S V body s1) (\<lambda>(flow, V1) s2.
         if flow = FlowBreak then returnY (FlowDefault, V1) s2
         else if flow = FlowLeave then returnY (FlowLeave, V1) s2
         else bindY (exec_block k D n S V1 post s2) (\<lambda>(flow', V2) s3.
           if flow' = FlowLeave then returnY (FlowLeave, leaveScope V V2) s3
           else (case n of 0 \<Rightarrow> None | Suc m \<Rightarrow>
             bindY (exec_loop k D m (Map.empty # S) V2 c post body s3) (\<lambda>(flow, W).
               returnY (flow, leaveScope V W))))))" for x s1
    by (auto simp: bindY_assoc block_leaves intro!: bindY_cong split: nat.split)
  show ?thesis
    unfolding exec_stmt.simps Let_def exec_stmts.simps(1) bindY_simps prod.case
      exec_loop.simps [of k D n] eval_empty_scope block_empty_scope
    by (simp add: bindY_assoc inner)
qed

section \<open>The rewriting and its soundness\<close>

inductive simplifiesFlow :: "evm_version \<Rightarrow> bool \<Rightarrow> stmt list \<Rightarrow> stmt list \<Rightarrow> bool" for v oa where
  empty_if: "simplifiesFlow v oa [If' c []] [ExpressionStatement (FunctionCall ''pop'' [c])]"
| clean_switch: "casesOk [] cs \<Longrightarrow> cs \<noteq> [] \<Longrightarrow>
    ds = removeEmptyCasesFromSwitch (removeEmptyDefaultFromSwitch cs) \<Longrightarrow> ds \<noteq> [] \<Longrightarrow>
    simplifiesFlow v oa [Switch e cs] [Switch e ds]"
| no_case: "casesOk [] cs \<Longrightarrow> cs \<noteq> [] \<Longrightarrow>
    removeEmptyCasesFromSwitch (removeEmptyDefaultFromSwitch cs) = [] \<Longrightarrow>
    simplifiesFlow v oa [Switch e cs] [ExpressionStatement (FunctionCall ''pop'' [e])]"
| one_case: "simplifiesFlow v oa [Switch e [(Some l, b)]]
    [If' (FunctionCall ''eq'' [Literal l, e]) b]"
| one_default: "simplifiesFlow v oa [Switch e [(None, b)]]
    [ExpressionStatement (FunctionCall ''pop'' [e]), Block b]"
| terminating_loop: "body \<noteq> [] \<Longrightarrow>
    controlFlowKind (EVMDialect v oa) (last body) \<in> {TfTerminate, TfLeave} \<Longrightarrow>
    countStatement Continue body = 0 \<Longrightarrow> countStatement Break body = 0 \<Longrightarrow>
    simplifiesFlow v oa [ForLoop [] c post body] [If' c body]"
| breaking_loop: "countStatement Continue body = 0 \<Longrightarrow> countStatement Break body = 0 \<Longrightarrow>
    simplifiesFlow v oa [ForLoop [] c post (body @ [Break])] [If' c body]"

inductive dropsLeave :: "stmt list \<Rightarrow> stmt list \<Rightarrow> bool" where
  "dropsLeave (b @ [Leave]) b"

lemma exec_clean_cases:
  assumes "casesOk [] cs"
  shows "exec_cases k D n S V x (removeEmptyCasesFromSwitch (removeEmptyDefaultFromSwitch cs)) s =
    exec_cases k D n S V x cs s"
  using exec_removeEmptyCases [of "[]" "removeEmptyDefaultFromSwitch cs"] exec_removeEmptyDefault [OF assms]
    casesOk_filter [OF assms] by (simp add: removeEmptyDefaultFromSwitch_def)

lemma simplifiesFlow_sound:
  "simplifiesFlow v oa xs ys \<Longrightarrow>
   exec_stmts k (EVMDialect v oa) n S V xs s = exec_stmts k (EVMDialect v oa) n S V ys s"
proof (induction rule: simplifiesFlow.cases)
  case (empty_if c)
  then show ?case
    by (auto simp: eval_pop exec_empty_block bindY_assoc intro!: bindY_cong)
next
  case (clean_switch cs ds e)
  then show ?case by (simp add: exec_clean_cases)
next
  case (no_case cs e)
  have "exec_cases k (EVMDialect v oa) n S V x cs s = returnY (FlowDefault, V) s" for x s
    using exec_clean_cases [OF no_case(3), of k "EVMDialect v oa" n S V x s] no_case(5) by simp
  then show ?case
    using no_case by (auto simp: eval_pop bindY_assoc intro!: bindY_cong)
next
  case (one_case e l b)
  have "oneValue [x] = returnY x" for x by (simp add: oneValue_def fun_eq_iff)
  with one_case show ?case
    by (auto simp: eval_eq bindY_assoc truth_def intro!: bindY_cong)
next
  case (one_default e b)
  then show ?case
    by (auto simp: exec_stmts.simps(2) [of _ _ _ _ _ "ExpressionStatement _"] eval_pop bindY_assoc
        intro!: bindY_cong)
next
  case (terminating_loop body c post)
  have body: "bindY (exec_block k (EVMDialect v oa) n S V body s) (\<lambda>(flow, V1) s2.
         if flow = FlowBreak then returnY (FlowDefault, V1) s2
         else if flow = FlowLeave then returnY (FlowLeave, V1) s2 else f flow V1 s2) =
      exec_block k (EVMDialect v oa) n S V body s" for s f
    by (intro bindY_id) (auto dest!: terminating_body_flow [OF terminating_loop(3-6)])
  show ?case
    unfolding terminating_loop(1,2) exec_single exec_loop_without_init body
    by (auto intro!: bindY_cong)
next
  case (breaking_loop body c post)
  have body: "bindY (exec_block k (EVMDialect v oa) n S V (body @ [Break]) s) (\<lambda>(flow, V1) s2.
         if flow = FlowBreak then returnY (FlowDefault, V1) s2
         else if flow = FlowLeave then returnY (FlowLeave, V1) s2 else f flow V1 s2) =
      exec_block k (EVMDialect v oa) n S V body s" for s f
    unfolding breaking_body(1) [OF breaking_loop(3,4)] bindY_assoc
    by (intro bindY_id) (auto dest!: breaking_body(2) [OF breaking_loop(3,4)])
  show ?case
    unfolding breaking_loop(1,2) exec_single exec_loop_without_init body
    by (auto intro!: bindY_cong)
qed

lemma dropsLeave_sound:
  assumes "dropsLeave b c"
  shows "bodyResult k D n S V b s = bodyResult k D n S V c s"
  using assms
proof cases
  case 1
  have "blockFunctions (c @ [Leave]) = blockFunctions c"
    by (simp add: blockFunctions_append)
  then show ?thesis
    using 1 by (auto simp: bodyResult_def exec_block.simps exec_stmts_append bindY_def returnY_def
        split: option.splits sum.splits)
qed

interpretation control_flow:
  yul_rewrites k "EVMDialect v oa" "simplifiesFlow v oa" dropsLeave for k v oa
  by unfold_locales (auto simp: simplifiesFlow_sound dropsLeave_sound elim!: simplifiesFlow.cases)

section \<open>The step rewrites\<close>

abbreviation "simplifies v oa \<equiv> ctx (simplifiesFlow v oa) dropsLeave"

lemma loopToIf_ctx:
  assumes "loopInitEmpty s"
  shows "simplifies v oa [s] [loopToIf (EVMDialect v oa) s]"
proof (cases "loopToIf (EVMDialect v oa) s = s")
  case False
  then obtain c post body where s: "s = ForLoop [] c post body" and body: "body \<noteq> []"
    using assms by (cases s) (auto simp: loopToIf_def split: if_splits)
  let ?kind = "controlFlowKind (EVMDialect v oa) (last body)"
  have kind: "?kind \<in> {TfBreak, TfTerminate, TfLeave}"
    and count: "countStatement Continue body = 0"
      "countStatement Break (post @ body) - (if ?kind = TfBreak then 1 else 0) = 0"
    using False s body
    by (auto simp: loopToIf_def Let_def countStatement_append split: if_splits)
  show ?thesis
  proof (cases "?kind = TfBreak")
    case True
    then have "last body = Break"
      by (cases "last body") (auto split: if_splits)
    then have b: "body = butlast body @ [Break]"
      using body by (metis append_butlast_last_id)
    have "countStatement Break [Break] = 1" by (subst countStatement.simps) simp
    then have "countStatement Break (butlast body) = 0" "countStatement Continue (butlast body) = 0"
      using count True b countStatement_append [of _ "butlast body" "[Break]"]
      by (auto simp: countStatement_append)
    then have "simplifiesFlow v oa [ForLoop [] c post (butlast body @ [Break])] [If' c (butlast body)]"
      by (intro breaking_loop)
    moreover have "loopToIf (EVMDialect v oa) s = If' c (butlast body)"
      using False s body True by (auto simp: loopToIf_def Let_def split: if_splits)
    ultimately show ?thesis using s b by (simp add: ctx_rewrite)
  next
    case False
    then have "simplifiesFlow v oa [ForLoop [] c post body] [If' c body]"
      using kind count body by (intro terminating_loop) (auto simp: countStatement_append)
    moreover have "loopToIf (EVMDialect v oa) s = If' c body"
      using \<open>loopToIf (EVMDialect v oa) s \<noteq> s\<close> s body False
      by (auto simp: loopToIf_def Let_def split: if_splits)
    ultimately show ?thesis using s by (simp add: ctx_rewrite)
  qed
qed (simp add: ctx_refl)

lemma dropFinalLeave_ctx: "simplifies v oa [s] [dropFinalLeave s]"
proof (cases "dropFinalLeave s = s")
  case False
  then obtain f ps rs b where s: "s = FunctionDefinition f ps rs b" and b: "b \<noteq> []" "last b = Leave"
    by (cases s) (auto simp: dropFinalLeave_def split: if_splits)
  have "dropsLeave b (butlast b)"
    using b dropsLeave.intros [of "butlast b"] by (metis append_butlast_last_id)
  then have "body_ctx (simplifiesFlow v oa) dropsLeave b (butlast b)"
    using body_ctx_refl by (rule body_rewrite)
  then show ?thesis using s b by (simp add: dropFinalLeave_def fun_def)
qed (simp add: ctx_refl)

lemma dialect_names:
  "discardFunction (EVMDialect v oa) t = Some b \<Longrightarrow> bf_name b = ''pop''"
  "equalityFunction (EVMDialect v oa) t = Some b \<Longrightarrow> bf_name b = ''eq''"
  by (auto simp: dialect_functions instructionBuiltin_def)

text \<open>The replacement of a statement, and what the traversal needs to know about the result.\<close>

lemma clean_subset: "set (removeEmptyCasesFromSwitch (removeEmptyDefaultFromSwitch cs)) \<subseteq> set cs"
  by (auto simp: removeEmptyCasesFromSwitch_def removeEmptyDefaultFromSwitch_def)

lemma simplifyStatement_ctx:
  assumes ok: "statementOk (EVMDialect v oa) s"
    and r: "simplifyStatement (EVMDialect v oa) ty s = (s', r)"
  shows "simplifies v oa [s] (case r of Some us \<Rightarrow> us | None \<Rightarrow> [s'])"
proof (cases s)
  case (If' c b)
  then show ?thesis
    using r by (cases b) (auto simp: simplifyStatement_def makeDiscardCall_def dialect_functions
        instructionBuiltin_def ctx_refl intro!: ctx_rewrite empty_if)
next
  case (Switch e cs)
  define ds where "ds = removeEmptyCasesFromSwitch (removeEmptyDefaultFromSwitch cs)"
  have cs: "casesOk [] cs" "cs \<noteq> []" using ok Switch by auto
  show ?thesis
  proof (cases ds)
    case Nil
    then have "simplifiesFlow v oa [s] [ExpressionStatement (FunctionCall ''pop'' [e])]"
      using cs Switch ds_def by (auto intro: no_case)
    then show ?thesis
      using r Nil Switch ds_def
      by (auto simp: simplifyStatement_def reduceNoCaseSwitch_def makeDiscardCall_def
          dialect_functions instructionBuiltin_def ctx_rewrite)
  next
    case (Cons d ds')
    then have "simplifies v oa [s] [Switch e ds]"
      using cs Switch ds_def by (intro ctx_rewrite) (simp add: clean_switch)
    moreover have "simplifies v oa [Switch e ds] (case r of Some us \<Rightarrow> us | None \<Rightarrow> [s'])"
    proof (cases "ds' = []")
      case True
      obtain l b where d: "d = (l, b)" by fastforce
      then have "simplifyStatement (EVMDialect v oa) ty s =
          (Switch e [(l, b)], reduceSingleCaseSwitch (EVMDialect v oa) ty e l b)"
        using Switch Cons True ds_def by (simp add: simplifyStatement_def Let_def)
      then show ?thesis
        using r Cons True d
        by (auto simp: reduceSingleCaseSwitch_def makeDiscardCall_def dialect_functions
            instructionBuiltin_def ctx_rewrite one_case one_default split: option.split)
    next
      case False
      then obtain d' ds'' where "ds' = d' # ds''" by (cases ds') auto
      then have "simplifyStatement (EVMDialect v oa) ty s = (Switch e ds, None)"
        using Switch Cons ds_def [symmetric] by (cases d) (simp add: simplifyStatement_def Let_def)
      then show ?thesis using r by (simp add: ctx_refl)
    qed
    ultimately show ?thesis by (rule trans)
  qed
qed (use r in \<open>auto simp: simplifyStatement_def ctx_refl\<close>)

lemma loopInitsEmpty_iff:
  "loopInitsEmpty ss \<longleftrightarrow> (\<forall>s \<in> set ss. loopInitEmpty s \<and> (\<forall>b \<in> set (childBlocks s). loopInitsEmpty b))"
  by (subst loopInitsEmpty.simps) (simp add: list_all_iff)

definition prepared :: "dialect \<Rightarrow> stmt list \<Rightarrow> bool" where
  "prepared D ss \<longleftrightarrow> programOk D ss \<and> loopInitsEmpty ss"

lemma prepared_iff:
  "prepared D ss \<longleftrightarrow> (\<forall>s \<in> set ss. statementOk D s \<and> loopInitEmpty s \<and>
     (\<forall>b \<in> set (childBlocks s). prepared D b))"
  unfolding prepared_def programOk_iff [of D ss] loopInitsEmpty_iff [of ss] by blast

lemma prepared_expression: "prepared D [ExpressionStatement e]"
  by (subst prepared_iff) simp

lemma simplifyStatement_prepared:
  assumes s: "statementOk (EVMDialect v oa) s" "\<And>b. b \<in> set (childBlocks s) \<Longrightarrow> prepared (EVMDialect v oa) b"
    and r: "simplifyStatement (EVMDialect v oa) ty s = (s', r)"
  shows "b \<in> set (childBlocks s') \<Longrightarrow> prepared (EVMDialect v oa) b"
    and "r = Some us \<Longrightarrow> prepared (EVMDialect v oa) us"
proof -
  have "set (childBlocks s') \<subseteq> set (childBlocks s)"
  proof (cases s)
    case (Switch e cs)
    then have "s' = Switch e (removeEmptyCasesFromSwitch (removeEmptyDefaultFromSwitch cs))"
      using r by (simp add: simplifyStatement_def Let_def)
    then show ?thesis using Switch clean_subset [of cs] by auto
  next
    case (If' c b)
    then show ?thesis using r by (cases b) (auto simp: simplifyStatement_def)
  qed (use r in \<open>auto simp: simplifyStatement_def\<close>)
  then show "b \<in> set (childBlocks s') \<Longrightarrow> prepared (EVMDialect v oa) b"
    using s(2) by blast
  show "r = Some us \<Longrightarrow> prepared (EVMDialect v oa) us"
  proof -
    assume us: "r = Some us"
    have eq: "arityOk (EVMDialect v oa) (FunctionCall ''eq'' [Literal l, e])" if "arityOk (EVMDialect v oa) e" for l e
      using that by (simp add: builtin_basic instructionBuiltin_def instructionInfo_eqs)
    show ?thesis
    proof (cases s)
      case (If' c b)
      then show ?thesis
        using r us by (cases b) (auto simp: simplifyStatement_def makeDiscardCall_def
            prepared_expression split: option.splits)
    next
      case (Switch e cs)
      let ?ds = "removeEmptyCasesFromSwitch (removeEmptyDefaultFromSwitch cs)"
      consider "us = [ExpressionStatement (FunctionCall ''pop'' [e])]"
        | l b where "?ds = [(Some l, b)]" "us = [If' (FunctionCall ''eq'' [Literal l, e]) b]"
        | b where "?ds = [(None, b)]" "us = [ExpressionStatement (FunctionCall ''pop'' [e]), Block b]"
        using r us Switch
        by (auto simp: simplifyStatement_def Let_def reduceNoCaseSwitch_def reduceSingleCaseSwitch_def
            makeDiscardCall_def dialect_functions instructionBuiltin_def split: list.splits option.splits)
      then show ?thesis
      proof cases
        case (2 l b)
        then have "(Some l, b) \<in> set cs" using clean_subset [of cs] by auto
        then have "prepared (EVMDialect v oa) b" using s(2) Switch by force
        then show ?thesis using 2 s(1) Switch eq by (subst prepared_iff) simp
      next
        case (3 b)
        then have "(None, b) \<in> set cs" using clean_subset [of cs] by auto
        then have "prepared (EVMDialect v oa) b" using s(2) Switch by force
        then show ?thesis using 3 by (subst prepared_iff) simp
      qed (simp add: prepared_expression)
    qed (use r us in \<open>auto simp: simplifyStatement_def\<close>)
  qed
qed

lemma simplify_stmt_ctx:
  assumes s: "statementOk (EVMDialect v oa) s" "loopInitEmpty s"
    and r: "simplifyStatement (EVMDialect v oa) ty s = (s', None)"
    and g: "\<And>b. b \<in> set (childBlocks s') \<Longrightarrow> simplifies v oa b (g b)" "g [] = []"
  shows "simplifies v oa [s] [dropFinalLeave (loopToIf (EVMDialect v oa) (modifyChildren g s'))]"
proof -
  have "loopInitEmpty s'"
  proof (cases s)
    case (If' c b)
    then show ?thesis using r by (cases b) (auto simp: simplifyStatement_def)
  qed (use s(2) r in \<open>auto simp: simplifyStatement_def Let_def\<close>)
  then have "loopInitEmpty (modifyChildren g s')" using g(2) by (cases s') auto
  then have "simplifies v oa [modifyChildren g s'] [loopToIf (EVMDialect v oa) (modifyChildren g s')]"
    by (rule loopToIf_ctx)
  moreover have "simplifies v oa [s] [s']" using simplifyStatement_ctx [OF s(1) r] by simp
  moreover have "simplifies v oa [s'] [modifyChildren g s']" using g(1) by (rule ctx_children)
  ultimately show ?thesis using dropFinalLeave_ctx trans by metis
qed

lemma simplifyControlFlow_ctx:
  "prepared (EVMDialect v oa) ss \<Longrightarrow> simplifies v oa ss (simplifyControlFlow (EVMDialect v oa) ty ss)"
proof (induction "EVMDialect v oa" ty ss rule: simplifyControlFlow.induct)
  case (1 ty ss)
  let ?D = "EVMDialect v oa"
  have "simplifies v oa [s] (case simplifyStatement ?D ty s of
         (s', Some us) \<Rightarrow> simplifyControlFlow ?D ty us
       | (s', None) \<Rightarrow> [dropFinalLeave (loopToIf ?D (modifyChildren (simplifyControlFlow ?D ty) s'))])"
    if s: "s \<in> set ss" for s
  proof -
    obtain s' r where r: "simplifyStatement ?D ty s = (s', r)" by fastforce
    have ok: "statementOk ?D s" "loopInitEmpty s" "\<And>b. b \<in> set (childBlocks s) \<Longrightarrow> prepared ?D b"
      using 1(3) s prepared_iff by blast+
    have after: "prepared ?D b" if "b \<in> set (childBlocks s')" for b
      using simplifyStatement_prepared(1) [OF ok(1) _ r that] ok(3) by blast
    have after_us: "prepared ?D us" if "r = Some us" for us
      using simplifyStatement_prepared(2) [OF ok(1) _ r that] ok(3) by blast
    show ?thesis
    proof (cases r)
      case None
      have "simplifies v oa b (simplifyControlFlow ?D ty b)" if "b \<in> set (childBlocks s')" for b
        using 1(1) [OF s r [symmetric] None that after [OF that]] .
      moreover have "simplifyControlFlow ?D ty [] = []"
        by (subst simplifyControlFlow.simps) simp
      ultimately show ?thesis
        using simplify_stmt_ctx [OF ok(1,2)] r None by simp
    next
      case (Some us)
      have "simplifies v oa us (simplifyControlFlow ?D ty us)"
        using 1(2) [OF s r [symmetric] Some after_us [OF Some]] .
      then show ?thesis
        using simplifyStatement_ctx [OF ok(1) r] Some r trans by fastforce
    qed
  qed
  then show ?case by (subst simplifyControlFlow.simps) (rule ctx_concat)
qed

section \<open>Properties\<close>

text \<open>C6: Where the simplifier's assertion holds, the program it returns for an analysed program has
  the same result for every amount of fuel.\<close>

theorem control_flow_keeps_result:
  assumes "programOk (EVMDialect v oa) p"
    and "ControlFlowSimplifier (EVMDialect v oa) typeOf p = Inr q"
  shows "run_yul k (EVMDialect v oa) n q s = run_yul k (EVMDialect v oa) n p s"
proof -
  have "prepared (EVMDialect v oa) p" "q = simplifyControlFlow (EVMDialect v oa) typeOf p"
    using assms by (auto simp: ControlFlowSimplifier_def prepared_def bindR_Inr_iff assertThrow_def
        split: if_splits)
  then show ?thesis using control_flow.run_equal [OF simplifyControlFlow_ctx] by simp
qed

text \<open>\<open>{ for { } 1 { } { break }  switch 0 case 1 { } }\<close>\<close>

definition flowExample :: "stmt list" where
  "flowExample =
     [ForLoop [] (Literal (numberLiteral ''1'' [])) [] [Break],
      Switch (Literal (numberLiteral ''0'' [])) [(Some (numberLiteral ''1'' []), [])]]"

lemma control_flow_keeps_result_witness:
  "\<forall>k n s. run_yul k (EVMDialect Berlin True) n
     [If' (Literal (numberLiteral ''1'' [])) [],
      ExpressionStatement (FunctionCall ''pop'' [Literal (numberLiteral ''0'' [])])] s =
   run_yul k (EVMDialect Berlin True) n flowExample s"
proof (intro allI control_flow_keeps_result)
  have "valueOfLiteral (numberLiteral ''1'' []) = Inr 1"
    by (simp add: valueOfLiteral_def numberLiteral_def valueOfNumberLiteral_def isValidDecimal_def
        u256_of_string_def hexDigitValue_def fromHex_char_def)
  then show "programOk (EVMDialect Berlin True) flowExample"
    by (simp add: flowExample_def programOk.simps callsVisible_def)
  have "countStatement t [] = 0" "countStatement Continue [Break] = 0" "countStatement Break [Break] = 1" for t
    by (simp_all add: countStatement.simps)
  then show "ControlFlowSimplifier (EVMDialect Berlin True) (\<lambda>_. []) flowExample =
      Inr [If' (Literal (numberLiteral ''1'' [])) [],
        ExpressionStatement (FunctionCall ''pop'' [Literal (numberLiteral ''0'' [])])]"
    by (simp add: ControlFlowSimplifier_def flowExample_def loopInitsEmpty.simps
        simplifyControlFlow.simps simplifyStatement_def loopToIf_def dropFinalLeave_def
        removeEmptyCasesFromSwitch_def removeEmptyDefaultFromSwitch_def reduceNoCaseSwitch_def
        makeDiscardCall_def dialect_functions instructionBuiltin_def Let_def countStatement_append)
qed

end
