(* ===== verification/YulAnalysis.thy ===== *)
theory YulAnalysis
  imports YulControlFlow
begin

text \<open>
  \<open>libyul/AsmScope.{h,cpp}\<close>, \<open>libyul/AsmScopeFiller.{h,cpp}\<close> and \<open>libyul/AsmAnalysis.{h,cpp}\<close>: the
  scopes of a Yul program and the checks on names, numbers of values and types. Programs are those
  of strict assembly: the resolver with which inline assembly reaches Solidity variables is absent.

  The checks report errors and go on with a default; the result of \<open>analyze\<close> is whether no error
  was reported. In the model a check that reports an error has the result \<open>None\<close> and ends the
  analysis, so the result is the same and the text of the messages is left out. A failed assertion
  of the source, which no error explains, is \<open>None\<close> too.
\<close>

section \<open>Scopes\<close>

datatype scope_identifier =
    ScopeVariable yul_type
  | ScopeFunction "yul_type list" "yul_type list"

text \<open>
  A scope. The analyser's set \<open>m_activeVariables\<close> of variables declared so far is kept with the
  scopes they belong to.
\<close>

record scope_frame =
  functionScope :: bool
  identifiers :: "string \<Rightarrow> scope_identifier option"
  activeVariables :: "string list"

definition emptyFrame :: "bool \<Rightarrow> scope_frame" where
  "emptyFrame isFunction =
     \<lparr>functionScope = isFunction, identifiers = Map.empty, activeVariables = []\<rparr>"

text \<open>Names are searched through all enclosing scopes to prevent shadowing.\<close>

definition scopeExists :: "scope_frame list \<Rightarrow> string \<Rightarrow> bool" where
  "scopeExists fs name = list_ex (\<lambda>f. identifiers f name \<noteq> None) fs"

text \<open>Variables are not visible across the boundary of a function; functions are.\<close>

fun scopeLookup :: "bool \<Rightarrow> scope_frame list \<Rightarrow> string \<Rightarrow> (scope_identifier \<times> bool) option" where
  "scopeLookup crossed [] name = None"
| "scopeLookup crossed (f # fs) name =
     (case identifiers f name of
        Some (ScopeVariable t) \<Rightarrow>
          if crossed then None else Some (ScopeVariable t, name \<in> set (activeVariables f))
      | Some (ScopeFunction ps rs) \<Rightarrow> Some (ScopeFunction ps rs, True)
      | None \<Rightarrow> scopeLookup (crossed \<or> functionScope f) fs name)"

definition registerIdentifier ::
  "string \<Rightarrow> scope_identifier \<Rightarrow> scope_frame list \<Rightarrow> scope_frame list option" where
  "registerIdentifier name i fs =
     (if scopeExists fs name then None
      else case fs of
        [] \<Rightarrow> None
      | f # rest \<Rightarrow> Some (f\<lparr>identifiers := (identifiers f)(name \<mapsto> i)\<rparr> # rest))"

section \<open>Filling the scopes\<close>

fun registerVariables :: "typed_name list \<Rightarrow> scope_frame list \<Rightarrow> scope_frame list option" where
  "registerVariables [] fs = Some fs"
| "registerVariables (x # xs) fs =
     Option.bind (registerIdentifier (tn_name x) (ScopeVariable (tn_type x)) fs) (registerVariables xs)"

fun registerFunctions :: "stmt list \<Rightarrow> scope_frame list \<Rightarrow> scope_frame list option" where
  "registerFunctions [] fs = Some fs"
| "registerFunctions (FunctionDefinition f ps rs b # ss) fs =
     Option.bind (registerIdentifier f (ScopeFunction (map tn_type ps) (map tn_type rs)) fs)
       (registerFunctions ss)"
| "registerFunctions (s # ss) fs = registerFunctions ss fs"

text \<open>
  \<open>ScopeFiller\<close>: \<open>fillBlock\<close> gives the scope of the block with everything registered in it, or
  \<open>None\<close> when a name is taken.
\<close>

function (sequential) fillStmt :: "scope_frame list \<Rightarrow> stmt \<Rightarrow> scope_frame list option"
and fillStmts :: "scope_frame list \<Rightarrow> stmt list \<Rightarrow> scope_frame list option"
and fillCases :: "scope_frame list \<Rightarrow> (literal option \<times> stmt list) list \<Rightarrow> bool"
and fillBlock :: "scope_frame list \<Rightarrow> stmt list \<Rightarrow> scope_frame option"
where
  "fillStmt fs (VariableDeclaration xs e) = registerVariables xs fs"
| "fillStmt fs (FunctionDefinition f ps rs b) =
     Option.bind (registerVariables (ps @ rs) (emptyFrame True # fs)) (\<lambda>fs'.
     Option.bind (fillBlock fs' b) (\<lambda>_. Some fs))"
| "fillStmt fs (If' c b) = Option.bind (fillBlock fs b) (\<lambda>_. Some fs)"
| "fillStmt fs (Switch e cs) = (if fillCases fs cs then Some fs else None)"
| "fillStmt fs (ForLoop pre c post body) =
     Option.bind (fillBlock fs pre) (\<lambda>f.
     Option.bind (fillBlock (f # fs) body) (\<lambda>_.
     Option.bind (fillBlock (f # fs) post) (\<lambda>_. Some fs)))"
| "fillStmt fs (Block b) = Option.bind (fillBlock fs b) (\<lambda>_. Some fs)"
| "fillStmt fs s = Some fs"
| "fillStmts fs [] = Some fs"
| "fillStmts fs (s # ss) = Option.bind (fillStmt fs s) (\<lambda>fs'. fillStmts fs' ss)"
| "fillCases fs [] = True"
| "fillCases fs ((l, b) # cs) = (fillBlock fs b \<noteq> None \<and> fillCases fs cs)"
| "fillBlock fs b =
     Option.bind (registerFunctions b (emptyFrame False # fs)) (\<lambda>fs1.
     Option.bind (fillStmts fs1 b) (\<lambda>fs2. case fs2 of [] \<Rightarrow> None | f # _ \<Rightarrow> Some f))"

  by pat_completeness auto
termination
  by (relation "measure (\<lambda>x. case x of
        Inl (Inl (fs, s)) \<Rightarrow> 3 * size s
      | Inl (Inr (fs, ss)) \<Rightarrow> 3 * size_list size ss
      | Inr (Inl (fs, cs)) \<Rightarrow> 3 * size_list (size_prod (\<lambda>_. 0) (size_list size)) cs
      | Inr (Inr (fs, b)) \<Rightarrow> 3 * size_list size b + 1)") auto

section \<open>The checks\<close>

text \<open>\<open>validateInstructions\<close>: whether an error is reported for a builtin function.\<close>

definition instructionError :: "evm_version \<Rightarrow> instruction \<Rightarrow> bool" where
  "instructionError v i =
     (if (i = RETURNDATACOPY \<or> i = RETURNDATASIZE) \<and> \<not> supportsReturndata v then True
      else if i = STATICCALL \<and> \<not> hasStaticCall v then True
      else if (i = SHL \<or> i = SHR \<or> i = SAR) \<and> \<not> hasBitwiseShifting v then True
      else if i = CREATE2 \<and> \<not> hasCreate2 v then True
      else if i = EXTCODEHASH \<and> \<not> hasExtCodeHash v then True
      else if i = CHAINID \<and> \<not> hasChainID v then True
      else if i = SELFBALANCE \<and> \<not> hasSelfBalance v then True
      else if i = PC then True
      else False)"

definition validateInstructions :: "evm_version \<Rightarrow> string \<Rightarrow> bool" where
  "validateInstructions v name =
     (case builtin (EVMDialect Istanbul False) name of
        Some b \<Rightarrow> (case bf_instruction b of Some i \<Rightarrow> instructionError v i | None \<Rightarrow> False)
      | None \<Rightarrow> False)"

text \<open>
  The analyser of a dialect for one EVM version, with the names of the data objects in reach. The
  source compares a number with \<open>2 ^ 256\<close> as an unbounded integer; here the number's digits are
  read without wrapping.
\<close>

record analyser =
  an_version :: evm_version
  an_dialect :: dialect
  an_dataNames :: "string list"

definition digitsValue :: "string \<Rightarrow> int" where
  "digitsValue s =
     (let digit = (\<lambda>c. case fromHex_char c DontThrow of Inr i \<Rightarrow> i | Inl _ \<Rightarrow> 0)
      in if take 2 s = ''0x'' then foldl (\<lambda>a c. a * 16 + digit c) 0 (drop 2 s)
         else foldl (\<lambda>a c. a * 10 + digit c) 0 s)"

definition expectValidType :: "analyser \<Rightarrow> yul_type \<Rightarrow> bool" where
  "expectValidType A t \<longleftrightarrow> t \<in> set (types (an_dialect A))"

definition endsWithDot :: "string \<Rightarrow> bool" where
  "endsWithDot s \<longleftrightarrow> s \<noteq> [] \<and> last s = CHR ''.''"

fun hasDoubleDot :: "string \<Rightarrow> bool" where
  "hasDoubleDot (a # b # s) = (a = CHR ''.'' \<and> b = CHR ''.'' \<or> hasDoubleDot (b # s))"
| "hasDoubleDot s = False"

definition expectValidIdentifier :: "string \<Rightarrow> bool" where
  "expectValidIdentifier s \<longleftrightarrow> \<not> endsWithDot s \<and> \<not> hasDoubleDot s"

definition analyzeLiteral :: "analyser \<Rightarrow> literal \<Rightarrow> yul_type list option" where
  "analyzeLiteral A l =
     (if \<not> expectValidType A (lit_type l) then None
      else if lit_kind l = String' \<and> length (lit_value l) > 32 then None
      else if lit_kind l = Number \<and> digitsValue (lit_value l) > 2 ^ 256 - 1 then None
      else if lit_kind l = Boolean \<and> lit_value l \<noteq> ''true'' \<and> lit_value l \<noteq> ''false'' then None
      else if \<not> validTypeForLiteral (an_dialect A) (lit_kind l) (lit_value l) (lit_type l) then None
      else Some [lit_type l])"

text \<open>An argument that has to be a literal: its kind, and the data object a string names.\<close>

definition literalArgumentType ::
  "analyser \<Rightarrow> string \<Rightarrow> literal_kind \<Rightarrow> expr \<Rightarrow> yul_type option" where
  "literalArgumentType A f kind arg =
     (case arg of
        Literal l \<Rightarrow>
          if kind \<noteq> lit_kind l then None
          else if (f = ''datasize'' \<or> f = ''dataoffset'') \<and> lit_value l \<notin> set (an_dataNames A) then None
          else if \<not> validTypeForLiteral (an_dialect A) String' (lit_value l) (lit_type l) then None
          else Some (lit_type l)
      | _ \<Rightarrow> None)"

definition exactlyOne :: "yul_type list \<Rightarrow> yul_type option" where
  "exactlyOne ts = (case ts of [t] \<Rightarrow> Some t | _ \<Rightarrow> None)"

definition analyzeIdentifier :: "scope_frame list \<Rightarrow> string \<Rightarrow> yul_type list option" where
  [simp]: "analyzeIdentifier fs x =
     (if x = [] then None
      else case scopeLookup False fs x of
        Some (ScopeVariable t, active) \<Rightarrow> if active then Some [t] else None
      | _ \<Rightarrow> None)"

fun analyzeExpr :: "analyser \<Rightarrow> scope_frame list \<Rightarrow> expr \<Rightarrow> yul_type list option"
and analyzeArgs :: "analyser \<Rightarrow> scope_frame list \<Rightarrow> string \<Rightarrow> literal_kind option list \<Rightarrow> expr list \<Rightarrow>
  yul_type list option"
where
  "analyzeExpr A fs (Literal l) = analyzeLiteral A l"
| "analyzeExpr A fs (Identifier x) = analyzeIdentifier fs x"
| "analyzeExpr A fs (FunctionCall f args) =
     (if f = [] then None
      else case (case builtin (an_dialect A) f of
                   Some b \<Rightarrow>
                     if validateInstructions (an_version A) f then None
                     else Some (bf_parameters b, bf_returns b)
                 | None \<Rightarrow>
                     (case scopeLookup False fs f of
                        Some (ScopeFunction ps rs, _) \<Rightarrow> Some (ps, rs)
                      | _ \<Rightarrow> None)) of
        None \<Rightarrow> None
      | Some (ps, rs) \<Rightarrow>
          if length args \<noteq> length ps then None
          else case analyzeArgs A fs f (literalArgumentsOf (an_dialect A) f (length args)) args of
            None \<Rightarrow> None
          | Some ts \<Rightarrow> if ts = ps then Some rs else None)"
| "analyzeArgs A fs f lits [] = Some []"
| "analyzeArgs A fs f lits (e # es) =
     Option.bind (analyzeArgs A fs f (tl lits) es) (\<lambda>ts.
       case lits of
         [] \<Rightarrow> None
       | Some String' # _ \<Rightarrow> Option.bind (literalArgumentType A f String' e) (\<lambda>t. Some (t # ts))
       | Some kind # _ \<Rightarrow>
           (case e of
              Literal l \<Rightarrow>
                if lit_kind l = kind
                then Option.bind (analyzeExpr A fs e) (\<lambda>r. Option.bind (exactlyOne r) (\<lambda>t. Some (t # ts)))
                else None
            | _ \<Rightarrow> None)
       | None # _ \<Rightarrow>
           Option.bind (analyzeExpr A fs e) (\<lambda>r. Option.bind (exactlyOne r) (\<lambda>t. Some (t # ts))))"

definition expectExpression :: "analyser \<Rightarrow> scope_frame list \<Rightarrow> expr \<Rightarrow> yul_type option" where
  "expectExpression A fs e = Option.bind (analyzeExpr A fs e) exactlyOne"

definition expectBoolExpression :: "analyser \<Rightarrow> scope_frame list \<Rightarrow> expr \<Rightarrow> bool" where
  "expectBoolExpression A fs e \<longleftrightarrow> expectExpression A fs e = Some (boolType (an_dialect A))"

definition checkAssignment :: "scope_frame list \<Rightarrow> string \<Rightarrow> yul_type \<Rightarrow> bool" where
  "checkAssignment fs x t \<longleftrightarrow> x \<noteq> [] \<and> scopeLookup False fs x = Some (ScopeVariable t, True)"

definition activate :: "string list \<Rightarrow> scope_frame list \<Rightarrow> scope_frame list" where
  "activate xs fs =
     (case fs of [] \<Rightarrow> [] | f # rest \<Rightarrow> f\<lparr>activeVariables := xs @ activeVariables f\<rparr> # rest)"

text \<open>The statements without blocks.\<close>

definition analyzeExpressionStatement ::
  "analyser \<Rightarrow> scope_frame list \<Rightarrow> expr \<Rightarrow> scope_frame list option" where
  [simp]: "analyzeExpressionStatement A fs e = (if analyzeExpr A fs e = Some [] then Some fs else None)"

definition analyzeAssignment ::
  "analyser \<Rightarrow> scope_frame list \<Rightarrow> string list \<Rightarrow> expr \<Rightarrow> scope_frame list option" where
  [simp]: "analyzeAssignment A fs xs e =
     (if xs = [] \<or> \<not> distinct xs then None
      else case analyzeExpr A fs e of
        None \<Rightarrow> None
      | Some ts \<Rightarrow> if list_all2 (checkAssignment fs) xs ts then Some fs else None)"

definition analyzeVariableDeclaration ::
  "analyser \<Rightarrow> scope_frame list \<Rightarrow> typed_name list \<Rightarrow> expr option \<Rightarrow> scope_frame list option" where
  [simp]: "analyzeVariableDeclaration A fs xs eo =
     (if \<not> list_all (\<lambda>x. expectValidIdentifier (tn_name x) \<and> expectValidType A (tn_type x)) xs then None
      else if (case eo of Some e \<Rightarrow> analyzeExpr A fs e = Some (map tn_type xs) | None \<Rightarrow> True)
      then Some (activate (map tn_name xs) fs)
      else None)"

text \<open>
  The scopes the filler leaves for a block and for the virtual block that holds the parameters and
  return variables of a function; the source keeps them in a table and the analyser reads them there. \<open>fillBlock_frame\<close>
  shows that the filler computes these. The parameters count as declared, the variables of
  a block do not yet.
\<close>

definition variableTable :: "typed_name list \<Rightarrow> string \<Rightarrow> scope_identifier option" where
  "variableTable xs = map_of (map (\<lambda>x. (tn_name x, ScopeVariable (tn_type x))) xs)"

fun blockVariables :: "stmt list \<Rightarrow> typed_name list" where
  "blockVariables [] = []"
| "blockVariables (VariableDeclaration xs e # ss) = xs @ blockVariables ss"
| "blockVariables (s # ss) = blockVariables ss"

definition blockIdentifiers :: "stmt list \<Rightarrow> string \<Rightarrow> scope_identifier option" where
  "blockIdentifiers b x =
     (case blockFunctions b x of
        Some (ps, rs, body) \<Rightarrow> Some (ScopeFunction (map tn_type ps) (map tn_type rs))
      | None \<Rightarrow> variableTable (blockVariables b) x)"

definition blockFrame :: "stmt list \<Rightarrow> scope_frame" where
  "blockFrame b =
     \<lparr>functionScope = False, identifiers = blockIdentifiers b, activeVariables = []\<rparr>"

definition functionFrame :: "typed_name list \<Rightarrow> scope_frame" where
  "functionFrame xs =
     \<lparr>functionScope = True, identifiers = variableTable xs, activeVariables = map tn_name xs\<rparr>"

text \<open>The literals of the cases so far are kept as values; a default has no value.\<close>

function (sequential) analyzeStmt :: "analyser \<Rightarrow> scope_frame list \<Rightarrow> stmt \<Rightarrow> scope_frame list option"
and analyzeStmts :: "analyser \<Rightarrow> scope_frame list \<Rightarrow> stmt list \<Rightarrow> scope_frame list option"
and analyzeCases :: "analyser \<Rightarrow> scope_frame list \<Rightarrow> yul_type \<Rightarrow> u256 list \<Rightarrow>
  (literal option \<times> stmt list) list \<Rightarrow> bool"
and analyzeBlock :: "analyser \<Rightarrow> scope_frame list \<Rightarrow> stmt list \<Rightarrow> scope_frame list option"
where
  "analyzeStmt A fs (ExpressionStatement e) = analyzeExpressionStatement A fs e"
| "analyzeStmt A fs (Assignment xs e) = analyzeAssignment A fs xs e"
| "analyzeStmt A fs (VariableDeclaration xs eo) = analyzeVariableDeclaration A fs xs eo"
| "analyzeStmt A fs (FunctionDefinition f ps rs b) =
     (if f = [] \<or> \<not> expectValidIdentifier f then None
      else if \<not> list_all (\<lambda>x. expectValidIdentifier (tn_name x) \<and> expectValidType A (tn_type x)) (ps @ rs)
      then None
      else Option.bind (analyzeBlock A (functionFrame (ps @ rs) # fs) b) (\<lambda>_. Some fs))"
| "analyzeStmt A fs (If' c b) =
     (if expectBoolExpression A fs c then Option.bind (analyzeBlock A fs b) (\<lambda>_. Some fs) else None)"
| "analyzeStmt A fs (Switch e cs) =
     Option.bind (expectExpression A fs e) (\<lambda>t. if analyzeCases A fs t [] cs then Some fs else None)"
| "analyzeStmt A fs (ForLoop pre c post body) =
     Option.bind (analyzeBlock A fs pre) (\<lambda>fs1.
       if \<not> expectBoolExpression A fs1 c then None
       else Option.bind (analyzeBlock A fs1 body) (\<lambda>_.
            Option.bind (analyzeBlock A fs1 post) (\<lambda>_. Some fs)))"
| "analyzeStmt A fs (Block b) = Option.bind (analyzeBlock A fs b) (\<lambda>_. Some fs)"
| "analyzeStmt A fs s = Some fs"
| "analyzeStmts A fs [] = Some fs"
| "analyzeStmts A fs (s # ss) = Option.bind (analyzeStmt A fs s) (\<lambda>fs'. analyzeStmts A fs' ss)"
| "analyzeCases A fs t seen [] = True"
| "analyzeCases A fs t seen ((None, b) # cs) =
     (analyzeBlock A fs b \<noteq> None \<and> analyzeCases A fs t seen cs)"
| "analyzeCases A fs t seen ((Some l, b) # cs) =
     (t = lit_type l \<and> analyzeLiteral A l \<noteq> None \<and>
      (case valueOfLiteral l of
         Inl _ \<Rightarrow> False
       | Inr v \<Rightarrow> v \<notin> set seen \<and> analyzeBlock A fs b \<noteq> None \<and> analyzeCases A fs t (v # seen) cs))"
| "analyzeBlock A fs b = analyzeStmts A (blockFrame b # fs) b"
  by pat_completeness auto
termination
  by (relation "measure (\<lambda>x. case x of
        Inl (Inl (A, fs, s)) \<Rightarrow> 3 * size s
      | Inl (Inr (A, fs, ss)) \<Rightarrow> 3 * size_list size ss
      | Inr (Inl (A, fs, t, seen, cs)) \<Rightarrow> 3 * size_list (size_prod (\<lambda>_. 0) (size_list size)) cs
      | Inr (Inr (A, fs, b)) \<Rightarrow> 3 * size_list size b + 1)") auto

text \<open>\<open>analyze\<close>: the outermost scope, without names, is around the program's block.\<close>

definition analyze :: "analyser \<Rightarrow> stmt list \<Rightarrow> bool" where
  "analyze A ast \<longleftrightarrow>
     fillBlock [emptyFrame False] ast \<noteq> None \<and> analyzeBlock A [emptyFrame False] ast \<noteq> None"

section \<open>What the filler computes\<close>

lemma frame_simps [simp]:
  "functionScope (blockFrame b) = False" "identifiers (blockFrame b) = blockIdentifiers b"
  "activeVariables (blockFrame b) = []"
  "functionScope (functionFrame xs) = True" "identifiers (functionFrame xs) = variableTable xs"
  "activeVariables (functionFrame xs) = map tn_name xs"
  by (simp_all add: blockFrame_def functionFrame_def)

lemma scopeExists_Cons [simp]:
  "scopeExists (f # fs) x \<longleftrightarrow> identifiers f x \<noteq> None \<or> scopeExists fs x"
  by (simp add: scopeExists_def)

lemma variableTable_Cons [simp]:
  "variableTable (x # xs) = (variableTable xs)(tn_name x \<mapsto> ScopeVariable (tn_type x))"
  by (simp add: variableTable_def)

lemma variableTable_Nil [simp]: "variableTable [] = Map.empty"
  by (simp add: variableTable_def)

lemma dom_variableTable: "dom (variableTable xs) = tn_name ` set xs"
  by (simp add: variableTable_def dom_map_of_conv_image_fst image_image)

lemma variableTable_append: "variableTable (xs @ ys) = variableTable ys ++ variableTable xs"
  by (simp add: variableTable_def)

lemma registerIdentifier_Some:
  "registerIdentifier x i fs = Some fs' \<longleftrightarrow>
     \<not> scopeExists fs x \<and>
     (\<exists>f rest. fs = f # rest \<and> fs' = f\<lparr>identifiers := (identifiers f)(x \<mapsto> i)\<rparr> # rest)"
  by (auto simp: registerIdentifier_def split: list.split)

lemma registerVariables_Some:
  assumes "registerVariables xs (f # fs) = Some fs'"
  shows "fs' = f\<lparr>identifiers := identifiers f ++ variableTable xs\<rparr> # fs"
    and "distinct (map tn_name xs)" and "x \<in> set xs \<Longrightarrow> \<not> scopeExists (f # fs) (tn_name x)"
proof -
  have "fs' = f\<lparr>identifiers := identifiers f ++ variableTable xs\<rparr> # fs \<and> distinct (map tn_name xs) \<and>
      (\<forall>x \<in> set xs. \<not> scopeExists (f # fs) (tn_name x))"
    using assms
  proof (induction xs arbitrary: f)
    case (Cons x xs)
    let ?f = "f\<lparr>identifiers := (identifiers f)(tn_name x \<mapsto> ScopeVariable (tn_type x))\<rparr>"
    have reg: "registerVariables xs (?f # fs) = Some fs'" "\<not> scopeExists (f # fs) (tn_name x)"
      using Cons.prems by (auto simp: bind_eq_Some_conv registerIdentifier_Some)
    have IH: "fs' = ?f\<lparr>identifiers := identifiers ?f ++ variableTable xs\<rparr> # fs"
        "distinct (map tn_name xs)" "\<forall>y \<in> set xs. \<not> scopeExists (?f # fs) (tn_name y)"
      using Cons.IH [OF reg(1)] by blast+
    have "tn_name x \<notin> tn_name ` set xs" using IH(3) by auto
    then have "variableTable xs (tn_name x) = None"
      using dom_variableTable [of xs] by blast
    then have "identifiers ?f ++ variableTable xs = identifiers f ++ variableTable (x # xs)"
      by (auto simp: map_add_def fun_eq_iff split: option.split)
    then have "fs' = f\<lparr>identifiers := identifiers f ++ variableTable (x # xs)\<rparr> # fs"
      using IH(1) by simp
    moreover have "\<forall>y \<in> set xs. \<not> scopeExists (f # fs) (tn_name y)"
      using IH(3) by (auto split: if_splits)
    moreover have "distinct (map tn_name (x # xs))"
      using IH(2) \<open>tn_name x \<notin> tn_name ` set xs\<close> by simp
    ultimately show ?case using reg(2) by (metis set_ConsD)
  qed (auto simp: map_add_def)
  then show "fs' = f\<lparr>identifiers := identifiers f ++ variableTable xs\<rparr> # fs"
    and "distinct (map tn_name xs)" and "x \<in> set xs \<Longrightarrow> \<not> scopeExists (f # fs) (tn_name x)" by auto
qed

lemma registerFunctions_Some:
  assumes "registerFunctions ss (f # fs) = Some fs'"
  shows "fs' = f\<lparr>identifiers := (\<lambda>x. case blockFunctions ss x of
        Some (ps, rs, b) \<Rightarrow> Some (ScopeFunction (map tn_type ps) (map tn_type rs))
      | None \<Rightarrow> identifiers f x)\<rparr> # fs \<and>
    (\<forall>x. scopeExists (f # fs) x \<longrightarrow> blockFunctions ss x = None)"
  using assms
proof (induction ss arbitrary: f)
  case (Cons s ss)
  show ?case
  proof (cases s)
    case (FunctionDefinition g ps rs b)
    let ?f = "f\<lparr>identifiers := (identifiers f)(g \<mapsto> ScopeFunction (map tn_type ps) (map tn_type rs))\<rparr>"
    have reg: "registerFunctions ss (?f # fs) = Some fs'" "\<not> scopeExists (f # fs) g"
      using Cons.prems FunctionDefinition by (auto simp: bind_eq_Some_conv registerIdentifier_Some)
    note IH = Cons.IH [OF reg(1)]
    have "blockFunctions ss g = None" using IH by simp
    then have "(\<lambda>x. case blockFunctions ss x of
          Some (ps, rs, b) \<Rightarrow> Some (ScopeFunction (map tn_type ps) (map tn_type rs))
        | None \<Rightarrow> identifiers ?f x) =
      (\<lambda>x. case blockFunctions (s # ss) x of
          Some (ps, rs, b) \<Rightarrow> Some (ScopeFunction (map tn_type ps) (map tn_type rs))
        | None \<Rightarrow> identifiers f x)"
      using FunctionDefinition by (auto simp: fun_eq_iff split: option.split)
    then have "fs' = f\<lparr>identifiers := (\<lambda>x. case blockFunctions (s # ss) x of
          Some (ps, rs, b) \<Rightarrow> Some (ScopeFunction (map tn_type ps) (map tn_type rs))
        | None \<Rightarrow> identifiers f x)\<rparr> # fs"
      using IH by simp
    moreover have "blockFunctions (s # ss) x = None" if "scopeExists (f # fs) x" for x
      using IH reg(2) that FunctionDefinition by auto
    ultimately show ?thesis by blast
  qed (use Cons in simp_all)
qed simp

text \<open>The variables declared in a block are new in its scope, one after the other.\<close>

fun declaredVariables :: "stmt \<Rightarrow> typed_name list" where
  "declaredVariables (VariableDeclaration xs e) = xs"
| "declaredVariables s = []"

lemma blockVariables_Cons: "blockVariables (s # ss) = declaredVariables s @ blockVariables ss"
  by (cases s) simp_all

lemma fillStmt_Some:
  assumes "fillStmt (f # fs) s = Some fs'"
  shows "fs' = f\<lparr>identifiers := identifiers f ++ variableTable (declaredVariables s)\<rparr> # fs"
    and "distinct (map tn_name (declaredVariables s))"
    and "x \<in> set (declaredVariables s) \<Longrightarrow> \<not> scopeExists (f # fs) (tn_name x)"
  using assms registerVariables_Some [of _ f fs fs']
  by (cases s; auto simp: bind_eq_Some_conv split: if_splits)+

lemma fillStmts_Some:
  assumes "fillStmts (f # fs) ss = Some fs'"
  shows "fs' = f\<lparr>identifiers := identifiers f ++ variableTable (blockVariables ss)\<rparr> # fs \<and>
    (\<forall>x \<in> set (blockVariables ss). \<not> scopeExists (f # fs) (tn_name x))"
  using assms
proof (induction ss arbitrary: f)
  case (Cons s ss)
  then obtain fs1 where s: "fillStmt (f # fs) s = Some fs1" and ss: "fillStmts fs1 ss = Some fs'"
    by (auto simp: bind_eq_Some_conv)
  let ?f = "f\<lparr>identifiers := identifiers f ++ variableTable (declaredVariables s)\<rparr>"
  have fs1: "fs1 = ?f # fs" by (rule fillStmt_Some [OF s])
  note IH = Cons.IH [OF ss [unfolded fs1]]
  have "tn_name x \<noteq> tn_name y" if "x \<in> set (declaredVariables s)" "y \<in> set (blockVariables ss)" for x y
  proof -
    have "identifiers ?f (tn_name y) = None" using IH that(2) by simp
    then have "tn_name y \<notin> dom (variableTable (declaredVariables s))" by (auto simp: map_add_None)
    then show ?thesis unfolding dom_variableTable using that(1) by (metis imageI)
  qed
  then have "dom (variableTable (declaredVariables s)) \<inter> dom (variableTable (blockVariables ss)) = {}"
    unfolding dom_variableTable by auto
  then have "variableTable (blockVariables (s # ss)) =
      variableTable (declaredVariables s) ++ variableTable (blockVariables ss)"
    by (simp add: blockVariables_Cons variableTable_append map_add_comm Int_commute)
  then have "identifiers ?f ++ variableTable (blockVariables ss) =
      identifiers f ++ variableTable (blockVariables (s # ss))" by simp
  moreover have "\<not> scopeExists (f # fs) (tn_name x)" if "x \<in> set (blockVariables (s # ss))" for x
    using that IH fillStmt_Some(3) [OF s, of x] by (auto simp: blockVariables_Cons)
  ultimately show ?case using IH by simp
qed simp

lemma fillBlock_frame:
  assumes "fillBlock fs b = Some f"
  shows "f = blockFrame b"
proof -
  let ?g = "(emptyFrame False)\<lparr>identifiers := (\<lambda>x. case blockFunctions b x of
        Some (ps, rs, b) \<Rightarrow> Some (ScopeFunction (map tn_type ps) (map tn_type rs))
      | None \<Rightarrow> None)\<rparr>"
  obtain fs1 l where r: "registerFunctions b (emptyFrame False # fs) = Some fs1"
      and l: "fillStmts fs1 b = Some l" "(case l of [] \<Rightarrow> None | f # _ \<Rightarrow> Some f) = Some f"
    using assms by (auto simp: bind_eq_Some_conv)
  have "fs1 = ?g # fs"
    using registerFunctions_Some [OF r] by (simp add: emptyFrame_def cong: option.case_cong)
  moreover obtain fs2 where "l = f # fs2" using l(2) by (cases l) simp_all
  ultimately have fill: "fillStmts (?g # fs) b = Some (f # fs2)" using l(1) by simp
  have "variableTable (blockVariables b) x = None" if "identifiers ?g x \<noteq> None" for x
  proof -
    have "\<not> scopeExists (?g # fs) (tn_name y)" if "y \<in> set (blockVariables b)" for y
      using fillStmts_Some [OF fill] that by blast
    then have "x \<notin> tn_name ` set (blockVariables b)" using that by fastforce
    then show ?thesis unfolding dom_variableTable [symmetric] by blast
  qed
  then have "identifiers ?g ++ variableTable (blockVariables b) = blockIdentifiers b"
    by (auto simp: fun_eq_iff map_add_def blockIdentifiers_def split: option.split)
  then show ?thesis
    using fillStmts_Some [OF fill] by (simp add: blockFrame_def emptyFrame_def del: frame_simps)
qed

end
