(* ===== verification/YulSoundness.thy ===== *)
theory YulSoundness
  imports YulAnalysis
begin

text \<open>
  Programs that pass the analysis (\<open>YulAnalysis\<close>) run without a failed assertion of the interpreter
  (\<open>YulInterpreter\<close>): every name it looks up exists, no variable is declared twice, and the numbers of
  values agree. What the analysis leaves to the parser is the predicate \<open>wellParsed\<close>.
\<close>

section \<open>What the parser checks\<close>

datatype for_loop_component = NoLoop | ForLoopPre | ForLoopPost | ForLoopBody

text \<open>\<open>checkBreakContinuePosition\<close> of \<open>libyul/AsmParser.cpp\<close>: whether it reports no error.\<close>

definition checkBreakContinuePosition :: "for_loop_component \<Rightarrow> bool" where
  "checkBreakContinuePosition c = (c = ForLoopBody)"

definition wellParsedLiteral :: "literal \<Rightarrow> bool" where
  "wellParsedLiteral l \<longleftrightarrow>
     (lit_kind l = Number \<longrightarrow> isValidDecimal (lit_value l) \<or> isValidHex (lit_value l))"

fun wellParsedExpr :: "expr \<Rightarrow> bool" where
  "wellParsedExpr (Literal l) = wellParsedLiteral l"
| "wellParsedExpr (Identifier x) = True"
| "wellParsedExpr (FunctionCall f args) = list_all wellParsedExpr args"

text \<open>
  The conditions of \<open>parseStatement\<close> and of the functions it calls on the tree they return: lists of
  variables are not empty, a switch has cases and at most one default, the last one, and
  \<open>break\<close>, \<open>continue\<close> and function definitions stand where they may.
\<close>

function (sequential) wellParsedStmt :: "for_loop_component \<Rightarrow> stmt \<Rightarrow> bool"
and wellParsed :: "for_loop_component \<Rightarrow> stmt list \<Rightarrow> bool"
and wellParsedCases :: "for_loop_component \<Rightarrow> (literal option \<times> stmt list) list \<Rightarrow> bool"
where
  "wellParsedStmt c (ExpressionStatement e) = wellParsedExpr e"
| "wellParsedStmt c (Assignment xs e) = (xs \<noteq> [] \<and> wellParsedExpr e)"
| "wellParsedStmt c (VariableDeclaration xs eo) =
     (xs \<noteq> [] \<and> (case eo of Some e \<Rightarrow> wellParsedExpr e | None \<Rightarrow> True))"
| "wellParsedStmt c (FunctionDefinition f ps rs b) = (c \<noteq> ForLoopPre \<and> wellParsed NoLoop b)"
| "wellParsedStmt c (If' e b) = (wellParsedExpr e \<and> wellParsed c b)"
| "wellParsedStmt c (Switch e cs) = (wellParsedExpr e \<and> cs \<noteq> [] \<and> wellParsedCases c cs)"
| "wellParsedStmt c (ForLoop pre e post body) =
     (wellParsed ForLoopPre pre \<and> wellParsedExpr e \<and> wellParsed ForLoopPost post \<and>
      wellParsed ForLoopBody body)"
| "wellParsedStmt c (Block b) = wellParsed c b"
| "wellParsedStmt c Break = checkBreakContinuePosition c"
| "wellParsedStmt c Continue = checkBreakContinuePosition c"
| "wellParsedStmt c Leave = True"
| "wellParsed c [] = True"
| "wellParsed c (s # ss) = (wellParsedStmt c s \<and> wellParsed c ss)"
| "wellParsedCases c [] = True"
| "wellParsedCases c ((None, b) # cs) = (cs = [] \<and> wellParsed c b)"
| "wellParsedCases c ((Some l, b) # cs) =
     (wellParsedLiteral l \<and> wellParsed c b \<and> wellParsedCases c cs)"
  by pat_completeness auto
termination
  by (relation "measure (\<lambda>x. case x of
        Inl (c, s) \<Rightarrow> 2 * size s
      | Inr (Inl (c, ss)) \<Rightarrow> 2 * size_list size ss + 1
      | Inr (Inr (c, cs)) \<Rightarrow> 2 * size_list (size_prod (\<lambda>_. 0) (size_list size)) cs)") auto

section \<open>Variables in reach\<close>

text \<open>The variables that are declared at a point and in reach: none beyond the boundary of a function.\<close>

fun declaredAt :: "scope_frame list \<Rightarrow> string set" where
  "declaredAt [] = {}"
| "declaredAt (f # fs) = set (activeVariables f) \<union> (if functionScope f then {} else declaredAt fs)"

text \<open>Names are new where they are declared.\<close>

function (sequential) freshStmt :: "string set \<Rightarrow> stmt \<Rightarrow> bool"
and fresh :: "string set \<Rightarrow> stmt list \<Rightarrow> bool"
and freshCases :: "string set \<Rightarrow> (literal option \<times> stmt list) list \<Rightarrow> bool"
where
  "freshStmt X (VariableDeclaration xs e) \<longleftrightarrow>
     distinct (map tn_name xs) \<and> X \<inter> tn_name ` set xs = {}"
| "freshStmt X (FunctionDefinition f ps rs b) \<longleftrightarrow> fresh (tn_name ` set (ps @ rs)) b"
| "freshStmt X (If' e b) \<longleftrightarrow> fresh X b"
| "freshStmt X (Switch e cs) \<longleftrightarrow> freshCases X cs"
| "freshStmt X (ForLoop pre e post body) \<longleftrightarrow>
     fresh X pre \<and> fresh (X \<union> tn_name ` set (blockVariables pre)) body \<and>
     fresh (X \<union> tn_name ` set (blockVariables pre)) post"
| "freshStmt X (Block b) \<longleftrightarrow> fresh X b"
| "freshStmt X s \<longleftrightarrow> True"
| "fresh X [] \<longleftrightarrow> True"
| "fresh X (s # ss) \<longleftrightarrow> freshStmt X s \<and> fresh (X \<union> tn_name ` set (declaredVariables s)) ss"
| "freshCases X [] \<longleftrightarrow> True"
| "freshCases X ((l, b) # cs) \<longleftrightarrow> fresh X b \<and> freshCases X cs"
  by pat_completeness auto
termination
  by (relation "measure (\<lambda>x. case x of
        Inl (X, s) \<Rightarrow> 2 * size s
      | Inr (Inl (X, ss)) \<Rightarrow> 2 * size_list size ss + 1
      | Inr (Inr (X, cs)) \<Rightarrow> 2 * size_list (size_prod (\<lambda>_. 0) (size_list size)) cs)") auto

lemma fill_fresh:
  shows "fillStmt fs s = Some fs' \<Longrightarrow> fs \<noteq> [] \<Longrightarrow> X \<subseteq> {x. scopeExists fs x} \<Longrightarrow> freshStmt X s"
    and "fillStmts fs ss = Some fs' \<Longrightarrow> fs \<noteq> [] \<Longrightarrow> X \<subseteq> {x. scopeExists fs x} \<Longrightarrow> fresh X ss"
    and "fillCases fs cs \<Longrightarrow> fs \<noteq> [] \<Longrightarrow> X \<subseteq> {x. scopeExists fs x} \<Longrightarrow> freshCases X cs"
    and "fillBlock fs b = Some f \<Longrightarrow> fs \<noteq> [] \<Longrightarrow> X \<subseteq> {x. scopeExists fs x} \<Longrightarrow> fresh X b"
proof (induction fs s and fs ss and fs cs and fs b arbitrary: X fs' and X fs' and X and X f
    rule: fillStmt_fillStmts_fillCases_fillBlock.induct)
  case (1 fs xs e)
  then obtain f rest where fs: "fs = f # rest" by (cases fs) auto
  have "registerVariables xs (f # rest) = Some fs'" using 1 fs by simp
  from registerVariables_Some(2,3) [OF this] show ?case using 1(3) fs by fastforce
next
  case (2 fs f ps rs b)
  then obtain fs1 where r: "registerVariables (ps @ rs) (emptyFrame True # fs) = Some fs1"
      and b: "fillBlock fs1 b \<noteq> None" by (auto simp: bind_eq_Some_conv)
  have fs1: "fs1 = (emptyFrame True)\<lparr>identifiers := identifiers (emptyFrame True) ++ variableTable (ps @ rs)\<rparr> # fs"
    by (rule registerVariables_Some [OF r])
  have "tn_name ` set (ps @ rs) \<subseteq> {x. scopeExists fs1 x}"
    unfolding dom_variableTable [symmetric] by (auto simp: fs1)
  then show ?case using 2(1) [OF r] b fs1 by auto
next
  case (5 fs pre c post body)
  then obtain f where f: "fillBlock fs pre = Some f" "fillBlock (f # fs) body \<noteq> None"
      "fillBlock (f # fs) post \<noteq> None" by (auto simp: bind_eq_Some_conv)
  have "identifiers (blockFrame pre) x \<noteq> None" if "variableTable (blockVariables pre) x \<noteq> None" for x
    using that by (auto simp: blockIdentifiers_def split: option.split)
  then have "X \<union> tn_name ` set (blockVariables pre) \<subseteq> {x. scopeExists (f # fs) x}"
    unfolding dom_variableTable [symmetric] using 5(6) fillBlock_frame [OF f(1)] by auto
  then show ?case using 5 f by auto
next
  case (9 fs s ss)
  then obtain fs1 where s: "fillStmt fs s = Some fs1" and ss: "fillStmts fs1 ss = Some fs'"
    by (auto simp: bind_eq_Some_conv)
  obtain f rest where fs: "fs = f # rest" using 9(4) by (cases fs) auto
  have fs1: "fs1 = f\<lparr>identifiers := identifiers f ++ variableTable (declaredVariables s)\<rparr> # rest"
    using fillStmt_Some(1) s fs by blast
  have "X \<union> tn_name ` set (declaredVariables s) \<subseteq> {x. scopeExists fs1 x}"
    unfolding dom_variableTable [symmetric] using 9(5) by (auto simp: fs1 fs)
  then show ?case using 9(1) [OF s 9(4,5)] 9(2) [OF s ss] fs1 by simp
next
  case (12 fs b)
  then obtain fs1 l where r: "registerFunctions b (emptyFrame False # fs) = Some fs1"
      and l: "fillStmts fs1 b = Some l" by (auto simp: bind_eq_Some_conv)
  have "X \<subseteq> {x. scopeExists fs1 x}" "fs1 \<noteq> []"
    using registerFunctions_Some [OF r] 12(4) by auto
  then show ?case using 12(1) [OF r l] by blast
qed (auto simp: bind_eq_Some_conv split: if_splits)

section \<open>Chains that look the same\<close>

text \<open>Behind the boundary of a function it does not matter which variables have been declared.\<close>

fun sameBehind :: "bool \<Rightarrow> scope_frame list \<Rightarrow> scope_frame list \<Rightarrow> bool" where
  "sameBehind crossed [] [] \<longleftrightarrow> True"
| "sameBehind crossed (f # fs) (g # gs) \<longleftrightarrow>
     functionScope f = functionScope g \<and> identifiers f = identifiers g \<and>
     (crossed \<or> activeVariables f = activeVariables g) \<and>
     sameBehind (crossed \<or> functionScope f) fs gs"
| "sameBehind crossed fs gs \<longleftrightarrow> False"

lemma sameBehind_refl [simp]: "sameBehind c fs fs"
  by (induction fs arbitrary: c) auto

lemma sameBehind_trans: "sameBehind c fs gs \<Longrightarrow> sameBehind c gs hs \<Longrightarrow> sameBehind c fs hs"
proof (induction c fs gs arbitrary: hs rule: sameBehind.induct)
  case (2 c f fs g gs)
  then show ?case by (cases hs) auto
qed (auto elim: sameBehind.elims)

lemma sameBehind_sym: "sameBehind c fs gs \<Longrightarrow> sameBehind c gs fs"
  by (induction c fs gs rule: sameBehind.induct) auto

lemma sameBehind_crossed: "sameBehind False fs gs \<Longrightarrow> sameBehind True fs gs"
proof -
  have "sameBehind c fs gs \<Longrightarrow> sameBehind True fs gs" for c
    by (induction c fs gs rule: sameBehind.induct) (auto split: if_splits)
  then show "sameBehind False fs gs \<Longrightarrow> sameBehind True fs gs" .
qed

lemma scopeLookup_same: "sameBehind c fs gs \<Longrightarrow> scopeLookup c fs x = scopeLookup c gs x"
  by (induction c fs gs rule: sameBehind.induct)
    (auto split: option.split scope_identifier.split)

lemma analyzeExpr_same:
  assumes "sameBehind False fs gs"
  shows "analyzeExpr A fs e = analyzeExpr A gs e"
proof (induction e)
  case (FunctionCall f args)
  have args: "analyzeArgs A fs f ls as = analyzeArgs A gs f ls as" if "set as \<subseteq> set args" for ls as
    using that
  proof (induction as arbitrary: ls)
    case (Cons a as)
    then have "analyzeExpr A fs a = analyzeExpr A gs a" using FunctionCall by simp
    then show ?case
      using Cons by (auto intro!: bind_option_cong split: list.split option.split literal_kind.split expr.split)
  qed simp
  show ?case
    unfolding analyzeExpr.simps scopeLookup_same [OF assms] args [OF subset_refl] ..
qed (simp_all add: scopeLookup_same [OF assms])

lemma expect_same:
  assumes "sameBehind False fs gs"
  shows "expectExpression A fs e = expectExpression A gs e"
    and "expectBoolExpression A fs e = expectBoolExpression A gs e"
    and "checkAssignment fs = checkAssignment gs"
  using assms
  by (simp_all add: fun_eq_iff expectExpression_def expectBoolExpression_def checkAssignment_def analyzeExpr_same
      scopeLookup_same)

lemma sameBehind_activate:
  "sameBehind False fs gs \<Longrightarrow> sameBehind False (activate xs fs) (activate xs gs)"
  by (cases fs; cases gs) (auto simp: activate_def)

lemma rel_option_bind:
  "rel_option R m m' \<Longrightarrow> (\<And>x y. m = Some x \<Longrightarrow> R x y \<Longrightarrow> rel_option Q (f x) (f' y)) \<Longrightarrow>
   rel_option Q (Option.bind m f) (Option.bind m' f')"
  by (cases m; cases m') auto

lemma rel_option_defined: "rel_option R m m' \<Longrightarrow> (\<exists>x. m = Some x) \<longleftrightarrow> (\<exists>y. m' = Some y)"
  by (cases m; cases m') auto

declare analyzeBlock.simps [simp del]

lemma analyze_same:
  shows "sameBehind False fs gs \<Longrightarrow> rel_option (sameBehind False) (analyzeStmt A fs s) (analyzeStmt A gs s)"
    and "sameBehind False fs gs \<Longrightarrow> rel_option (sameBehind False) (analyzeStmts A fs ss) (analyzeStmts A gs ss)"
    and "sameBehind False fs gs \<Longrightarrow> analyzeCases A fs t seen cs = analyzeCases A gs t seen cs"
    and "sameBehind False fs gs \<Longrightarrow> rel_option (sameBehind False) (analyzeBlock A fs b) (analyzeBlock A gs b)"
proof (induction A fs s and A fs ss and A fs t seen cs and A fs b arbitrary: gs and gs and gs and gs
    rule: analyzeStmt_analyzeStmts_analyzeCases_analyzeBlock.induct)
  case (1 A fs e)
  then show ?case by (simp add: analyzeExpr_same)
next
  case (2 A fs xs e)
  then show ?case by (simp add: analyzeExpr_same expect_same split: option.split)
next
  case (3 A fs xs eo)
  then show ?case using sameBehind_activate by (auto simp: analyzeExpr_same split: option.split)
next
  case (4 A fs f ps rs b)
  have "rel_option (\<lambda>_ _. True) (analyzeBlock A (functionFrame (ps @ rs) # fs) b)
      (analyzeBlock A (functionFrame (ps @ rs) # gs) b)"
    if "f \<noteq> []" "expectValidIdentifier f"
      "list_all (\<lambda>x. expectValidIdentifier (tn_name x) \<and> expectValidType A (tn_type x)) (ps @ rs)"
    by (rule option.rel_mono_strong [OF 4(1)]) (use that 4(2) in \<open>auto intro: sameBehind_crossed\<close>)
  then show ?case using 4(2) by (auto intro!: rel_option_bind)
next
  case (6 A fs e cs)
  then show ?case
    by (cases "expectExpression A gs e") (auto simp: expect_same)
next
  case (7 A fs pre c post body)
  show ?case
    unfolding analyzeStmt.simps
  proof (rule rel_option_bind)
    show "rel_option (sameBehind False) (analyzeBlock A fs pre) (analyzeBlock A gs pre)"
      by (rule 7(1) [OF 7(4)])
    fix fs1 gs1 assume fs1: "analyzeBlock A fs pre = Some fs1" "sameBehind False fs1 gs1"
    have body: "rel_option (sameBehind False) (analyzeBlock A fs1 body) (analyzeBlock A gs1 body)"
      if "expectBoolExpression A fs1 c"
      by (rule 7(2) [OF fs1(1) _ fs1(2)]) (use that in simp)
    have post: "rel_option (sameBehind False) (analyzeBlock A fs1 post) (analyzeBlock A gs1 post)"
      if "expectBoolExpression A fs1 c" "analyzeBlock A fs1 body = Some fs2" for fs2
      by (rule 7(3) [OF fs1(1) _ that(2) fs1(2)]) (use that in simp)
    from fs1 show "rel_option (sameBehind False)
       (if \<not> expectBoolExpression A fs1 c then None
        else Option.bind (analyzeBlock A fs1 body) (\<lambda>_. Option.bind (analyzeBlock A fs1 post) (\<lambda>_. Some fs)))
       (if \<not> expectBoolExpression A gs1 c then None
        else Option.bind (analyzeBlock A gs1 body) (\<lambda>_. Option.bind (analyzeBlock A gs1 post) (\<lambda>_. Some gs)))"
      using body post 7(4)
      by (cases "analyzeBlock A fs1 body"; cases "analyzeBlock A fs1 post")
        (auto simp: expect_same option_rel_Some1)
  qed
next
  case (13 A fs t seen b cs)
  then show ?case using rel_option_defined by fastforce
next
  case (14 A fs t seen l b cs)
  show ?case
    using 14 rel_option_defined [OF 14(1)] by (auto split: sum.split)
next
  case (15 A fs b)
  show ?case unfolding analyzeBlock.simps by (rule 15(1)) (simp add: 15(2))
qed (auto simp: expect_same intro!: rel_option_bind)

section \<open>What the analysis changes\<close>

lemma sameBehind_activate_self: "sameBehind True fs (activate xs fs)"
  by (cases fs) (auto simp: activate_def)

lemma declaredAt_activate: "fs \<noteq> [] \<Longrightarrow> declaredAt (activate xs fs) = declaredAt fs \<union> set xs"
  by (cases fs) (auto simp: activate_def)

lemma analyzeStmt_declares:
  assumes "analyzeStmt A fs s = Some fs'"
  shows "sameBehind True fs fs'" and "fs \<noteq> [] \<Longrightarrow> fs' \<noteq> []"
    and "fs \<noteq> [] \<Longrightarrow> declaredAt fs' = declaredAt fs \<union> tn_name ` set (declaredVariables s)"
proof -
  have "fs' = fs \<and> declaredVariables s = [] \<or>
      fs' = activate (map tn_name (declaredVariables s)) fs"
    using assms by (cases s) (auto simp: bind_eq_Some_conv split: if_splits option.splits)
  then show "sameBehind True fs fs'" "fs \<noteq> [] \<Longrightarrow> fs' \<noteq> []"
    "fs \<noteq> [] \<Longrightarrow> declaredAt fs' = declaredAt fs \<union> tn_name ` set (declaredVariables s)"
    using sameBehind_activate_self declaredAt_activate
    by (auto simp: activate_def split: list.splits)
qed

lemma analyzeStmts_declares:
  "analyzeStmts A fs ss = Some fs' \<Longrightarrow> fs \<noteq> [] \<Longrightarrow>
   sameBehind True fs fs' \<and> declaredAt fs' = declaredAt fs \<union> tn_name ` set (blockVariables ss)"
proof (induction ss arbitrary: fs)
  case (Cons s ss)
  then obtain fs1 where s: "analyzeStmt A fs s = Some fs1" and ss: "analyzeStmts A fs1 ss = Some fs'"
    by (auto simp: bind_eq_Some_conv)
  note declares = analyzeStmt_declares [OF s]
  show ?case
    using Cons.IH [OF ss] declares Cons.prems(2) sameBehind_trans
    by (auto simp: blockVariables_Cons)
qed simp

text \<open>The body of a function, as its block found it.\<close>

definition bodyOk :: "analyser \<Rightarrow> scope_frame list \<Rightarrow> yul_function \<Rightarrow> bool" where
  "bodyOk A fs = (\<lambda>(ps, rs, b).
     analyzeBlock A (functionFrame (ps @ rs) # fs) b \<noteq> None \<and>
     fresh (tn_name ` set (ps @ rs)) b \<and> wellParsed NoLoop b)"

lemma bodyOk_same: "sameBehind True fs gs \<Longrightarrow> bodyOk A fs d \<Longrightarrow> bodyOk A gs d"
proof (cases d)
  case (fields ps rs b)
  assume "sameBehind True fs gs" "bodyOk A fs d"
  moreover from this have "sameBehind False (functionFrame (ps @ rs) # fs) (functionFrame (ps @ rs) # gs)"
    by simp
  then have "(\<exists>x. analyzeBlock A (functionFrame (ps @ rs) # fs) b = Some x) \<longleftrightarrow>
      (\<exists>y. analyzeBlock A (functionFrame (ps @ rs) # gs) b = Some y)"
    by (rule rel_option_defined [OF analyze_same(4)])
  ultimately show ?thesis using fields by (simp add: bodyOk_def)
qed

lemma analyzed_bodies:
  assumes "analyzeStmts A fs ss = Some fs'" "fs \<noteq> []" "fresh X ss" "wellParsed c ss"
    and "blockFunctions ss f = Some d"
  shows "bodyOk A fs d"
  using assms
proof (induction ss arbitrary: fs X)
  case (Cons s ss)
  then obtain fs1 where s: "analyzeStmt A fs s = Some fs1" and ss: "analyzeStmts A fs1 ss = Some fs'"
    by (auto simp: bind_eq_Some_conv)
  show ?case
  proof (cases "blockFunctions ss f = Some d")
    case True
    have "bodyOk A fs1 d"
      by (rule Cons.IH [OF ss]) (use Cons.prems True analyzeStmt_declares(2) [OF s] in auto)
    then show ?thesis
      using analyzeStmt_declares(1) [OF s] sameBehind_sym bodyOk_same by blast
  next
    case False
    then obtain ps rs b where "s = FunctionDefinition f ps rs b" "d = (ps, rs, b)"
      using Cons.prems(5) by (cases s) (auto split: if_splits)
    then show ?thesis
      using s Cons.prems by (auto simp: bodyOk_def bind_eq_Some_conv split: if_splits)
  qed
qed simp

section \<open>Scopes of the analysis and of the interpreter\<close>

text \<open>
  The interpreter has a table of functions for each block it is in, the analysis a frame for each
  block and each function; the two chains agree on the functions, and all bodies passed the analysis.
\<close>

definition noFunctions :: "scope_frame \<Rightarrow> bool" where
  "noFunctions f \<longleftrightarrow> (\<forall>x ps rs. identifiers f x \<noteq> Some (ScopeFunction ps rs))"

inductive chainOk :: "analyser \<Rightarrow> scope_frame list \<Rightarrow> scope list \<Rightarrow> bool" for A where
  chain_empty: "chainOk A [] []"
| chain_block: "chainOk A fs S \<Longrightarrow> \<not> functionScope f \<Longrightarrow>
    (\<And>x ps rs b. F x = Some (ps, rs, b) \<Longrightarrow>
       identifiers f x = Some (ScopeFunction (map tn_type ps) (map tn_type rs)) \<and>
       bodyOk A (f # fs) (ps, rs, b)) \<Longrightarrow>
    (\<And>x ps rs. identifiers f x = Some (ScopeFunction ps rs) \<Longrightarrow> F x \<noteq> None) \<Longrightarrow>
    chainOk A (f # fs) (F # S)"
| chain_function: "chainOk A fs S \<Longrightarrow> functionScope f \<Longrightarrow> noFunctions f \<Longrightarrow> chainOk A (f # fs) S"

inductive_cases chainOk_NilE: "chainOk A [] S"
inductive_cases chainOk_ConsE: "chainOk A (f # fs) S"

lemma chainOk_same:
  "chainOk A fs S \<Longrightarrow> sameBehind True fs gs \<Longrightarrow> chainOk A gs S"
proof (induction arbitrary: gs rule: chainOk.induct)
  case chain_empty
  then show ?case by (cases gs) (auto intro: chainOk.intros)
next
  case (chain_block fs S f F)
  then obtain g gs' where gs: "gs = g # gs'" "sameBehind True fs gs'"
      "functionScope f = functionScope g" "identifiers f = identifiers g" by (cases gs) auto
  have "bodyOk A gs d" if "bodyOk A (f # fs) d" for d
    using bodyOk_same [OF chain_block.prems that] .
  then show ?case
    unfolding gs(1) using chain_block gs by (intro chainOk.chain_block) auto
next
  case (chain_function fs S f)
  then show ?case by (cases gs) (auto simp: noFunctions_def intro: chainOk.chain_function)
qed

lemma chainOk_lookup:
  assumes "chainOk A fs S" "scopeLookup c fs f = Some (ScopeFunction pts rts, a)"
  obtains ps rs b fs' S' where "lookupFunction S f = Some ((ps, rs, b), S')" "chainOk A fs' S'"
    "pts = map tn_type ps" "rts = map tn_type rs" "bodyOk A fs' (ps, rs, b)"
proof -
  have "\<exists>ps rs b fs' S'. lookupFunction S f = Some ((ps, rs, b), S') \<and> chainOk A fs' S' \<and>
      pts = map tn_type ps \<and> rts = map tn_type rs \<and> bodyOk A fs' (ps, rs, b)"
    using assms
  proof (induction arbitrary: c rule: chainOk.induct)
    case (chain_block fs S g F)
    then have chain: "chainOk A (g # fs) (F # S)" by (intro chainOk.chain_block) auto
    show ?case
    proof (cases "F f")
      case None
      then have "identifiers g f = None"
        using chain_block.hyps(4) [of f] chain_block.prems
        by (fastforce split: option.splits scope_identifier.splits if_splits)
      then show ?thesis using chain_block None by simp
    next
      case (Some d)
      obtain ps rs b where d: "d = (ps, rs, b)" by (cases d)
      then show ?thesis
        using chain_block.hyps(3) [of f ps rs b] chain_block.prems Some chain by fastforce
    qed
  next
    case (chain_function fs S g)
    then show ?case
      by (auto simp: noFunctions_def split: option.splits scope_identifier.splits if_splits)
  qed simp
  then show ?thesis using that by blast
qed

lemma chainOk_enter:
  assumes "chainOk A fs S" "analyzeBlock A fs b = Some fs'" "fresh X b" "wellParsed c b"
  shows "chainOk A (blockFrame b # fs) (blockFunctions b # S)"
proof (intro chain_block assms(1))
  fix x ps rs d
  assume "blockFunctions b x = Some (ps, rs, d)"
  moreover from analyzed_bodies [OF assms(2) [unfolded analyzeBlock.simps] _ assms(3,4) this]
  have "bodyOk A (blockFrame b # fs) (ps, rs, d)" by simp
  ultimately show "identifiers (blockFrame b) x = Some (ScopeFunction (map tn_type ps) (map tn_type rs)) \<and>
      bodyOk A (blockFrame b # fs) (ps, rs, d)"
    by (simp add: blockIdentifiers_def)
next
  have "variableTable xs x \<noteq> Some (ScopeFunction ps rs)" for xs x ps rs
    by (induction xs) auto
  then show "blockFunctions b x \<noteq> None" if "identifiers (blockFrame b) x = Some (ScopeFunction ps rs)" for x ps rs
    using that by (auto simp: blockIdentifiers_def split: option.splits)
qed simp

lemma declared_lookup:
  "scopeLookup False fs x = Some (ScopeVariable t, True) \<Longrightarrow> x \<in> declaredAt fs"
proof (induction fs)
  case (Cons f fs)
  have "scopeLookup True fs x \<noteq> Some (ScopeVariable t, a)" for fs a
    by (induction fs) (auto split: option.splits scope_identifier.splits)
  then show ?case
    using Cons by (auto split: option.splits scope_identifier.splits if_splits)
qed simp

section \<open>Runs without a failed assertion\<close>

definition safe :: "('a \<Rightarrow> bool) \<Rightarrow> 'a yul_result \<Rightarrow> bool" where
  "safe P m \<longleftrightarrow> (case m of
     None \<Rightarrow> True
   | Some (Inl e, s) \<Rightarrow> e \<noteq> AssertionFailed
   | Some (Inr x, s) \<Rightarrow> P x)"

lemma safe_return [simp]: "safe P (returnY x s) \<longleftrightarrow> P x"
  by (simp add: safe_def returnY_def)

lemma safe_None [simp]: "safe P None"
  by (simp add: safe_def)

lemma safe_bind:
  assumes "safe P m" "\<And>x s. m = Some (Inr x, s) \<Longrightarrow> P x \<Longrightarrow> safe Q (f x s)"
  shows "safe Q (bindY m f)"
proof (cases m)
  case (Some r)
  obtain z s where r: "r = (z, s)" by fastforce
  show ?thesis using assms Some r by (cases z) (auto simp: safe_def)
qed simp

lemma safe_liftY: "safe (\<lambda>_. True) (liftY r)"
  by (auto simp: safe_def liftY_def split: prod.splits sum.splits)

lemma safe_oneValue: "length vs = 1 \<Longrightarrow> safe (\<lambda>_. True) (oneValue vs s)"
  by (auto simp: oneValue_def length_Suc_conv)

lemma safe_bindP:
  assumes "safe P m" "\<And>x y s. m = Some (Inr (x, y), s) \<Longrightarrow> P (x, y) \<Longrightarrow> safe Q (f x y s)"
  shows "safe Q (bindY m (\<lambda>(x, y). f x y))"
  by (rule safe_bind [OF assms(1)]) (use assms(2) in auto)

lemma safe_value:
  assumes "safe (\<lambda>vs. [t] \<noteq> [] \<longrightarrow> length vs = length [t]) m"
    and "\<And>r s0 x s1. m = Some (Inr r, s0) \<Longrightarrow> oneValue r s0 = Some (Inr x, s1) \<Longrightarrow> safe Q (f x s1)"
  shows "safe Q (bindY m (\<lambda>r s0. bindY (oneValue r s0) f))"
proof (rule safe_bind [OF assms(1)])
  fix r s0
  assume m: "m = Some (Inr r, s0)" "[t] \<noteq> [] \<longrightarrow> length r = length [t]"
  show "safe Q (bindY (oneValue r s0) f)"
    by (rule safe_bind [OF safe_oneValue]) (use m assms(2) in auto)
qed

lemma safe_literal:
  assumes "analyzeLiteral A l = Some ts" "wellParsedLiteral l"
  shows "\<exists>v. valueOfLiteral l = Inr v" and "length ts = 1"
  using assms
  by (auto simp: analyzeLiteral_def wellParsedLiteral_def valueOfLiteral_def valueOfNumberLiteral_def
      valueOfStringLiteral_def valueOfBoolLiteral_def assertThrow_def bindR_Inr_iff
      split: if_splits literal_kind.split)

lemma safe_assign:
  "length vs = length xs \<Longrightarrow> set xs \<subseteq> dom V \<Longrightarrow> safe (\<lambda>V'. dom V' = dom V) (assignVariables xs vs V s)"
proof (induction xs vs V s rule: assignVariables.induct)
  case (1 x xs v vs V s)
  then have V: "dom (V(x \<mapsto> v)) = dom V" "V x \<noteq> None" by auto
  have "safe (\<lambda>V'. dom V' = dom (V(x \<mapsto> v))) (assignVariables xs vs (V(x \<mapsto> v)) s)"
    by (rule 1(1)) (use 1(2,3) V in auto)
  then show ?case unfolding V(1) using V(2) by auto
qed simp_all

lemma safe_declare:
  "length vs = length xs \<Longrightarrow> distinct (map tn_name xs) \<Longrightarrow> dom V \<inter> tn_name ` set xs = {} \<Longrightarrow>
   safe (\<lambda>V'. dom V' = dom V \<union> tn_name ` set xs) (declareVariables xs vs V s)"
  by (induction xs vs V s rule: declareVariables.induct) auto

lemma safe_returns:
  "tn_name ` set rs \<subseteq> dom V \<Longrightarrow> safe (\<lambda>vs. length vs = length rs) (returnValues rs V s)"
  by (induction rs) (auto intro!: safe_bind)

lemma dom_bindReturns: "dom (bindReturns rs V) = dom V \<union> tn_name ` set rs"
  by (induction rs arbitrary: V) auto

lemma dom_bindParameters:
  "length vs = length ps \<Longrightarrow> dom (bindParameters ps vs V) = dom V \<union> tn_name ` set ps"
  by (induction ps vs V rule: bindParameters.induct) auto

lemma exactlyOne_Some: "exactlyOne ts = Some t \<longleftrightarrow> ts = [t]"
  by (auto simp: exactlyOne_def split: list.split)

lemma expected_value:
  "expectExpression A fs e = Some t \<longleftrightarrow> analyzeExpr A fs e = Some [t]"
  "expectBoolExpression A fs e \<Longrightarrow> \<exists>t. analyzeExpr A fs e = Some [t]"
  by (auto simp: expectBoolExpression_def expectExpression_def bind_eq_Some_conv exactlyOne_Some)

lemma analyzeArgs_Cons:
  assumes "analyzeArgs A fs f ls (e # es) = Some ts"
  obtains kind rest t ts' where "ls = kind # rest" "ts = t # ts'" "analyzeArgs A fs f rest es = Some ts'"
    "kind = None \<longrightarrow> analyzeExpr A fs e = Some [t]" "kind \<noteq> None \<longrightarrow> (\<exists>l. e = Literal l)"
proof (cases ls)
  case Nil
  then show ?thesis using assms by (auto simp: bind_eq_Some_conv)
next
  case (Cons kind rest)
  show ?thesis
  proof (cases kind)
    case None
    then show ?thesis using assms Cons that by (auto simp: bind_eq_Some_conv exactlyOne_Some)
  next
    case (Some literal)
    then show ?thesis
      using assms Cons that
      by (cases literal; cases e)
        (auto simp: bind_eq_Some_conv exactlyOne_Some literalArgumentType_def split: if_splits)
  qed
qed

lemma literal_argument_head:
  assumes "analyzeArgs A fs f (Some String' # ls) args = Some ts" "args \<noteq> []"
  shows "\<exists>l rest. args = Literal l # rest"
proof (cases args)
  case (Cons e es)
  show ?thesis
    by (rule analyzeArgs_Cons [OF assms(1) [unfolded Cons]]) (use Cons in auto)
qed (use assms(2) in simp)

lemma safe_builtin:
  assumes "builtin (EVMDialect v oa) f = Some b" "length args = length (bf_parameters b)"
    and "analyzeArgs A fs f (literalArgumentsOf (EVMDialect v oa) f (length args)) args = Some ts"
    and "length vs = length args"
  shows "safe (\<lambda>_. True) (evalBuiltin k b args vs s)"
  using assms(1)
proof (cases rule: builtin_cases)
  case (1 n i)
  then show ?thesis by (simp add: evalBuiltin_def instructionBuiltin_def safe_liftY)
next
  case 2
  have head: "\<exists>l rest. args = Literal l # rest"
    if "bf_literalArguments b = Some String' # ls" "bf_parameters b \<noteq> []" for ls
    using assms that by (intro literal_argument_head) (auto simp: literalArgumentsOf_def)
  have "bf_instruction b = None"
    using 2 by (auto simp: objectBuiltins_def createFunction_def)
  moreover have "\<exists>l rest. args = Literal l # rest"
    if "bf_name b = ''datasize'' \<or> bf_name b = ''dataoffset''"
  proof (rule head [of "[]"])
    show "bf_literalArguments b = [Some String']" "bf_parameters b \<noteq> []"
      using 2 that by (auto simp: objectBuiltins_def createFunction_def)
  qed
  moreover have "\<not> length vs < 3" if "bf_name b = ''datacopy''"
  proof -
    have "length (bf_parameters b) = 3"
      using 2 that by (auto simp: objectBuiltins_def createFunction_def)
    then show ?thesis using assms(2,4) by simp
  qed
  ultimately show ?thesis
    by (auto simp: evalBuiltin_def Let_def split: prod.split) (simp_all add: safe_def)
qed

lemma no_functions_in_init: "wellParsed ForLoopPre ss \<Longrightarrow> blockFunctions ss = Map.empty"
proof (induction ss)
  case (Cons s ss)
  then show ?case by (cases s) auto
qed simp

lemma countStatement_Cons:
  "countStatement t (s # ss) = 0 \<longleftrightarrow>
     (s \<noteq> t \<and> (isLoop s \<or> (\<forall>b \<in> set (childBlocks s). countStatement t b = 0))) \<and>
     countStatement t ss = 0"
  unfolding countStatement_zero [of t "s # ss"] countStatement_zero [of t ss] by simp

lemma no_break_counted:
  assumes "c \<noteq> ForLoopBody" "t = Break \<or> t = Continue"
  shows "wellParsedStmt c s \<Longrightarrow> s \<noteq> t \<and> (isLoop s \<or> (\<forall>b \<in> set (childBlocks s). countStatement t b = 0))"
    and "wellParsed c ss \<Longrightarrow> countStatement t ss = 0"
    and "wellParsedCases c cs \<Longrightarrow> \<forall>b \<in> snd ` set cs. countStatement t b = 0"
  using assms(1)
proof (induction c s and c ss and c cs rule: wellParsedStmt_wellParsed_wellParsedCases.induct)
  case (13 c s ss)
  then show ?case unfolding countStatement_Cons by simp
next
  case (12 c)
  then show ?case by (simp add: countStatement_zero [of t "[]"])
qed (use assms(2) in \<open>auto simp: checkBreakContinuePosition_def\<close>)

lemma no_break_flow:
  assumes "wellParsed ForLoopPre ss" "exec_stmts k D n S V ss s = Some (Inr (flow, V'), s')" "flow \<noteq> FlowLeave"
  shows "flow = FlowDefault"
proof -
  have "flow \<noteq> flowOf t" if "t = Break \<or> t = Continue" for t
    using flow_counted [OF that no_break_counted(2) [OF _ that assms(1)]] assms(2)
    by (auto simp: avoids_def)
  from this [of Break] this [of Continue] show ?thesis
    using assms(3) by (cases flow) (simp_all add: flowOf_def)
qed

definition blockResult :: "variables \<Rightarrow> control_flow \<times> variables \<Rightarrow> bool" where
  "blockResult V = (\<lambda>(flow, V'). dom V' = dom V)"

definition stmtResult :: "variables \<Rightarrow> scope_frame list \<Rightarrow> control_flow \<times> variables \<Rightarrow> bool" where
  "stmtResult V fs' = (\<lambda>(flow, V'). dom V \<subseteq> dom V' \<and> (flow = FlowDefault \<longrightarrow> dom V' = declaredAt fs'))"

lemma safe_mono: "safe P m \<Longrightarrow> (\<And>x. P x \<Longrightarrow> Q x) \<Longrightarrow> safe Q m"
  by (auto simp: safe_def split: option.splits sum.splits)

lemma dom_leaveScope: "dom (leaveScope V V') = dom V \<inter> dom V'"
  by (auto simp: leaveScope_def dom_def)

lemma block_stmtResult:
  "safe (blockResult V) m \<Longrightarrow> dom V = declaredAt fs \<Longrightarrow> safe (stmtResult V fs) m"
  by (erule safe_mono) (auto simp: blockResult_def stmtResult_def)

lemma stmtResult_trans:
  assumes "dom V \<subseteq> dom V1" "safe (stmtResult V1 fs) m"
  shows "safe (stmtResult V fs) m"
proof (rule safe_mono [OF assms(2)])
  show "stmtResult V1 fs r \<Longrightarrow> stmtResult V fs r" for r
    unfolding stmtResult_def using order_trans [OF assms(1)] by (cases r) simp
qed

text \<open>The call of a function of the program, for any way to run its body.\<close>

definition userCall ::
  "(nat \<Rightarrow> scope list \<Rightarrow> variables \<Rightarrow> stmt list \<Rightarrow> interpreter_state \<Rightarrow> (control_flow \<times> variables) yul_result) \<Rightarrow>
   nat \<Rightarrow> scope list \<Rightarrow> string \<Rightarrow> u256 list \<Rightarrow> interpreter_state \<Rightarrow> u256 list yul_result" where
  "userCall runBody n S f vs s =
     (case lookupFunction S f of
        None \<Rightarrow> assertionFailed s
      | Some ((ps, rs, body), S') \<Rightarrow>
          if length vs \<noteq> length ps then assertionFailed s
          else
            (case n of
               0 \<Rightarrow> None
             | Suc m \<Rightarrow>
                 bindY (runBody m S' (bindReturns rs (bindParameters ps vs Map.empty)) body s)
                   (\<lambda>(flow, V') s2. returnValues rs V' s2)))"

lemma safe_user_call:
  assumes "chainOk A fs S" "scopeLookup False fs f = Some (ScopeFunction ps ts, a)" "length vs = length ps"
    and run: "\<And>xs rs b S' m fs1 fs2. lookupFunction S f = Some ((xs, rs, b), S') \<Longrightarrow>
      \<not> length vs \<noteq> length xs \<Longrightarrow> n = Suc m \<Longrightarrow> analyzeBlock A fs1 b = Some fs2 \<Longrightarrow> wellParsed NoLoop b \<Longrightarrow>
      fresh (declaredAt fs1) b \<Longrightarrow> fs1 \<noteq> [] \<Longrightarrow> chainOk A fs1 S' \<Longrightarrow>
      dom (bindReturns rs (bindParameters xs vs Map.empty)) = declaredAt fs1 \<Longrightarrow>
      safe (blockResult (bindReturns rs (bindParameters xs vs Map.empty)))
        (runBody m S' (bindReturns rs (bindParameters xs vs Map.empty)) b s)"
  shows "safe (\<lambda>vs. ts \<noteq> [] \<longrightarrow> length vs = length ts) (userCall runBody n S f vs s)"
proof -
  obtain xs rs b fs1 S1 where def: "lookupFunction S f = Some ((xs, rs, b), S1)" "chainOk A fs1 S1"
      "ps = map tn_type xs" "ts = map tn_type rs" "bodyOk A fs1 (xs, rs, b)"
    by (rule chainOk_lookup [OF assms(1,2)])
  let ?V = "bindReturns rs (bindParameters xs vs Map.empty)" and ?fs = "functionFrame (xs @ rs) # fs1"
  have vs: "length vs = length xs" using assms(3) def(3) by simp
  have V: "dom ?V = declaredAt ?fs"
    by (auto simp: dom_bindReturns dom_bindParameters [OF vs])
  have "variableTable ys x \<noteq> Some (ScopeFunction p q)" for ys x p q
    by (induction ys) auto
  then have chain: "chainOk A ?fs S1"
    by (intro chain_function def(2)) (simp_all add: noFunctions_def)
  obtain fs2 where body: "analyzeBlock A ?fs b = Some fs2" "wellParsed NoLoop b" "fresh (declaredAt ?fs) b"
    using def(5) by (auto simp: bodyOk_def image_Un)
  have "safe (blockResult ?V) (runBody m S1 ?V b s)" if "n = Suc m" for m
    by (rule run [OF def(1) _ that body _ chain V]) (use vs in auto)
  moreover have "safe (\<lambda>vs. ts \<noteq> [] \<longrightarrow> length vs = length ts) (returnValues rs V' s2)"
    if "blockResult ?V (flow, V')" for flow V' s2
    by (rule safe_mono [OF safe_returns]) (use that def(4) in \<open>auto simp: blockResult_def V\<close>)
  ultimately show ?thesis
    unfolding userCall_def using vs def(1) by (auto split: nat.split intro: safe_bindP)
qed

lemma analyzed_loop:
  "analyzeStmt A fs (ForLoop pre e post b) = Some fs' \<Longrightarrow>
   \<exists>fs1. analyzeBlock A fs pre = Some fs1 \<and> expectBoolExpression A fs1 e \<and>
     analyzeBlock A fs1 b \<noteq> None \<and> analyzeBlock A fs1 post \<noteq> None \<and> fs' = fs"
  by (auto simp: bind_eq_Some_conv split: if_splits)

lemma usable_returns:
  assumes "(n, i) \<in> set c_instructions" "usableOpcode v i"
  shows "ii_ret (instructionInfo i) \<le> 1"
proof -
  have "isValidInstruction i"
    using assms(1) mnemonic_iff [of n i] distinct_instructions by simp
  then show ?thesis using info_ret_le_1 assms(2) by (simp add: usableOpcode_def)
qed

lemma builtin_returns:
  assumes "builtin (EVMDialect v oa) f = Some b"
  shows "length (bf_returns b) \<le> 1"
  using assms
proof (cases rule: builtin_cases)
  case (1 n i)
  then show ?thesis using usable_returns [OF 1(1,2)] by (simp add: instructionBuiltin_def)
next
  case 2
  then show ?thesis by (auto simp: objectBuiltins_def createFunction_def)
qed

text \<open>What the analysis of a call found: a builtin function or a function in scope.\<close>

lemma analyzed_call:
  assumes "analyzeExpr A fs (FunctionCall f args) = Some ts"
  obtains ps where "length args = length ps"
    "analyzeArgs A fs f (literalArgumentsOf (an_dialect A) f (length args)) args = Some ps"
    "(\<exists>b. builtin (an_dialect A) f = Some b \<and> ps = bf_parameters b \<and> ts = bf_returns b) \<or>
     builtin (an_dialect A) f = None \<and> (\<exists>a. scopeLookup False fs f = Some (ScopeFunction ps ts, a))"
  using assms
  by (cases "builtin (an_dialect A) f")
    (auto split: if_splits option.splits prod.splits scope_identifier.splits)

lemma runs_safe:
  assumes A: "an_dialect A = EVMDialect v oa"
  shows "D = EVMDialect v oa \<Longrightarrow> analyzeExpr A fs e = Some ts \<Longrightarrow> wellParsedExpr e \<Longrightarrow> chainOk A fs S \<Longrightarrow>
      dom V = declaredAt fs \<Longrightarrow>
      safe (\<lambda>vs. ts \<noteq> [] \<longrightarrow> length vs = length ts) (eval_multi k D n S V e s)"
    and "D = EVMDialect v oa \<Longrightarrow> analyzeArgs A fs f ls es = Some ts \<Longrightarrow> list_all wellParsedExpr es \<Longrightarrow>
      chainOk A fs S \<Longrightarrow> dom V = declaredAt fs \<Longrightarrow>
      safe (\<lambda>vs. length vs = length es) (eval_args k D n S V ls es s)"
    and "D = EVMDialect v oa \<Longrightarrow> analyzeStmt A fs t = Some fs' \<Longrightarrow> wellParsedStmt c t \<Longrightarrow>
      freshStmt (declaredAt fs) t \<Longrightarrow> fs \<noteq> [] \<Longrightarrow> chainOk A fs S \<Longrightarrow> dom V = declaredAt fs \<Longrightarrow>
      safe (stmtResult V fs') (exec_stmt k D n S V t s)"
    and "D = EVMDialect v oa \<Longrightarrow> analyzeCases A fs ty seen cs \<Longrightarrow> wellParsedCases c cs \<Longrightarrow>
      freshCases (declaredAt fs) cs \<Longrightarrow> fs \<noteq> [] \<Longrightarrow> chainOk A fs S \<Longrightarrow> dom V = declaredAt fs \<Longrightarrow>
      safe (blockResult V) (exec_cases k D n S V x cs s)"
    and "D = EVMDialect v oa \<Longrightarrow> analyzeStmts A fs ss = Some fs' \<Longrightarrow> wellParsed c ss \<Longrightarrow>
      fresh (declaredAt fs) ss \<Longrightarrow> fs \<noteq> [] \<Longrightarrow> chainOk A fs S \<Longrightarrow> dom V = declaredAt fs \<Longrightarrow>
      safe (stmtResult V fs') (exec_stmts k D n S V ss s)"
    and "D = EVMDialect v oa \<Longrightarrow> analyzeBlock A fs b = Some fs' \<Longrightarrow> wellParsed c b \<Longrightarrow>
      fresh (declaredAt fs) b \<Longrightarrow> fs \<noteq> [] \<Longrightarrow> chainOk A fs S \<Longrightarrow> dom V = declaredAt fs \<Longrightarrow>
      safe (blockResult V) (exec_block k D n S V b s)"
    and "D = EVMDialect v oa \<Longrightarrow> expectBoolExpression A fs e \<Longrightarrow> wellParsedExpr e \<Longrightarrow>
      analyzeBlock A fs post \<noteq> None \<Longrightarrow> wellParsed ForLoopPost post \<Longrightarrow> fresh (declaredAt fs) post \<Longrightarrow>
      analyzeBlock A fs b \<noteq> None \<Longrightarrow> wellParsed ForLoopBody b \<Longrightarrow> fresh (declaredAt fs) b \<Longrightarrow>
      fs \<noteq> [] \<Longrightarrow> chainOk A fs S \<Longrightarrow> dom V = declaredAt fs \<Longrightarrow>
      safe (blockResult V) (exec_loop k D n S V e post b s)"
proof (induction k D n S V e s and k D n S V ls es s and k D n S V t s and k D n S V x cs s and
    k D n S V ss s and k D n S V b s and k D n S V e post b s
    arbitrary: fs ts and fs ts f and fs fs' c and fs ty seen c and fs fs' c and fs fs' c and fs
    rule: eval_multi_eval_args_exec_stmt_exec_cases_exec_stmts_exec_block_exec_loop.induct)
  case (1 k D n S V l s)
  then show ?case using safe_literal [of A l ts] by (auto simp: evalLiteral_def)
next
  case (2 k D n S V x s)
  then have "x \<in> dom V" "length ts = 1"
    using declared_lookup by (auto split: if_splits option.splits scope_identifier.splits)
  then show ?case by auto
next
  case (3 k D n S V f args s)
  obtain ps where len: "length args = length ps"
      and args: "analyzeArgs A fs f (literalArgumentsOf D f (length args)) args = Some ps"
      and call: "(\<exists>b. builtin D f = Some b \<and> ps = bf_parameters b \<and> ts = bf_returns b) \<or>
     builtin D f = None \<and> (\<exists>a. scopeLookup False fs f = Some (ScopeFunction ps ts, a))"
    using analyzed_call [OF 3(4)] A 3(3) by metis
  show ?case
    unfolding eval_multi.simps(3) userCall_def [symmetric]
  proof (rule safe_bind)
    show "safe (\<lambda>vs. length vs = length args)
        (eval_args k D n S V (literalArgumentsOf D f (length args)) args s)"
      by (rule 3(1) [OF 3(3) args]) (use 3 in auto)
    fix vs s1
    assume m: "eval_args k D n S V (literalArgumentsOf D f (length args)) args s = Some (Inr vs, s1)"
        "length vs = length args"
    have "safe (\<lambda>vs. ts \<noteq> [] \<longrightarrow> length vs = length ts) (bindY (evalBuiltin k b args vs s1) (\<lambda>v. returnY [v]))"
      if b: "builtin D f = Some b" for b
    proof (rule safe_bind [where P = "\<lambda>_. True"])
      have "ps = bf_parameters b" "ts = bf_returns b" using call b by auto
      then show "safe (\<lambda>_. True) (evalBuiltin k b args vs s1)"
        using safe_builtin b len args m(2) 3(3) by simp
      show "safe (\<lambda>vs. ts \<noteq> [] \<longrightarrow> length vs = length ts) (returnY [v] s2)" for v s2
        using builtin_returns [OF b [unfolded 3(3)]] \<open>ts = bf_returns b\<close> by (auto simp: le_Suc_eq)
    qed
    moreover have "safe (\<lambda>vs. ts \<noteq> [] \<longrightarrow> length vs = length ts)
        (userCall (\<lambda>m S V b s. exec_block k D m S V b s) n S f vs s1)"
      if f: "builtin D f = None"
    proof -
      obtain a where "scopeLookup False fs f = Some (ScopeFunction ps ts, a)" using call f by auto
      from safe_user_call [OF 3(6) this] m(2) len 3(2) [OF m(1) f _ refl refl refl _ _ 3(3)]
      show ?thesis by simp
    qed
    ultimately show "safe (\<lambda>vs. ts \<noteq> [] \<longrightarrow> length vs = length ts)
       (case builtin D f of
          None \<Rightarrow> userCall (\<lambda>m S V b s. exec_block k D m S V b s) n S f vs s1
        | Some b \<Rightarrow> bindY (evalBuiltin k b args vs s1) (\<lambda>v. returnY [v]))"
      by (simp split: option.split)
  qed
next
  case (4 k D n S V ls s)
  then show ?case by simp
next
  case (5 k D n S V ls e es s)
  obtain kind rest t ts' where ls: "ls = kind # rest" and "ts = t # ts'"
      and es: "analyzeArgs A fs f rest es = Some ts'"
      and e: "kind = None \<longrightarrow> analyzeExpr A fs e = Some [t]"
      and "kind \<noteq> None \<longrightarrow> (\<exists>l. e = Literal l)"
    using 5(4) by (rule analyzeArgs_Cons)
  show ?case
    unfolding eval_args.simps
  proof (rule safe_bind)
    show "safe (\<lambda>vs. length vs = length es) (eval_args k D n S V (tl ls) es s)"
      by (rule 5(1)) (use 5 ls es in auto)
    fix vs s1
    assume m: "eval_args k D n S V (tl ls) es s = Some (Inr vs, s1)" "length vs = length es"
    have "safe (\<lambda>vs. [t] \<noteq> [] \<longrightarrow> length vs = length [t]) (eval_multi k D n S V e s1)" if "kind = None"
      by (rule 5(2) [OF m(1)]) (use 5 ls that e in auto)
    then show "safe (\<lambda>vs. length vs = length (e # es)) (case ls of [] \<Rightarrow> assertionFailed s1
        | None # _ \<Rightarrow> bindY (eval_multi k D n S V e s1) (\<lambda>r s2. bindY (oneValue r s2) (\<lambda>v. returnY (v # vs)))
        | Some _ # _ \<Rightarrow> returnY (0 # vs) s1)"
      using ls m(2) safe_oneValue by (auto intro!: safe_bind split: option.split)
  qed
next
  case (6 k D n S V e s)
  have "safe (\<lambda>vs. ([] :: yul_type list) \<noteq> [] \<longrightarrow> length vs = length ([] :: yul_type list))
      (eval_multi k D n S V e s)"
    by (rule 6(1)) (use 6 in \<open>auto split: if_splits\<close>)
  then show ?case using 6 by (auto simp: stmtResult_def intro: safe_bind split: if_splits)
next
  case (7 k D n S V xs e s)
  then obtain ts where e: "analyzeExpr A fs e = Some ts" and xs: "list_all2 (checkAssignment fs) xs ts"
      "xs \<noteq> []" "fs' = fs" by (auto split: if_splits option.splits)
  have "length ts = length xs" "set xs \<subseteq> dom V"
    using xs(1) declared_lookup 7(8) by (auto simp: checkAssignment_def list_all2_conv_all_nth in_set_conv_nth)
  then have assign: "safe (\<lambda>V'. dom V' = dom V) (assignVariables xs vs V s1)" if "length vs = length ts" for vs s1
    using that by (intro safe_assign) simp_all
  have "safe (\<lambda>vs. ts \<noteq> [] \<longrightarrow> length vs = length ts) (eval_multi k D n S V e s)"
    by (rule 7(1)) (use 7 e in auto)
  moreover have "ts \<noteq> []" using \<open>length ts = length xs\<close> xs(2) by auto
  ultimately show ?case
    using \<open>length ts = length xs\<close> 7(8) xs(3)
    by (auto simp: stmtResult_def elim!: safe_bind intro!: safe_bind [OF assign])
next
  case (8 k D n S V xs eo s)
  then have ok: "case eo of Some e \<Rightarrow> analyzeExpr A fs e = Some (map tn_type xs) | None \<Rightarrow> True"
      and fs': "fs' = activate (map tn_name xs) fs"
    by (auto split: if_splits option.splits)
  have eval: "safe (\<lambda>vs. length vs = length xs) (case eo of Some e' \<Rightarrow> eval_multi k D n S V e' s
      | None \<Rightarrow> returnY (replicate (length xs) 0) s)"
  proof (cases eo)
    case (Some e)
    have "safe (\<lambda>vs. map tn_type xs \<noteq> [] \<longrightarrow> length vs = length (map tn_type xs)) (eval_multi k D n S V e s)"
      by (rule 8(1) [OF Some]) (use 8 ok Some in auto)
    then show ?thesis using Some 8(4) by (auto elim: safe_mono)
  qed simp
  have declared: "declaredAt fs' = dom V \<union> tn_name ` set xs"
    using 8 fs' by (simp add: declaredAt_activate)
  have decl: "safe (\<lambda>V'. dom V' = dom V \<union> tn_name ` set xs) (declareVariables xs vs V s1)"
    if "length vs = length xs" for vs s1
    using 8 that by (intro safe_declare) auto
  have "safe (stmtResult V fs') (bindY (declareVariables xs vs V s1) (\<lambda>V'. returnY (FlowDefault, V')))"
    if "length vs = length xs" for vs s1
    by (rule safe_bind [OF decl [OF that]]) (simp add: stmtResult_def declared)
  then show ?case unfolding exec_stmt.simps by (intro safe_bind [OF eval]) simp
next
  case (9 k D n S V f ps rs b s)
  then show ?case by (auto simp: stmtResult_def bind_eq_Some_conv split: if_splits)
next
  case (10 k D n S V e b s)
  have bool: "expectBoolExpression A fs e" and "\<exists>fs1. analyzeBlock A fs b = Some fs1 \<and> fs' = fs"
    using 10(4) by (auto simp: bind_eq_Some_conv split: if_splits)
  then obtain fs1 where b: "analyzeBlock A fs b = Some fs1" "fs' = fs" by blast
  obtain t where e: "analyzeExpr A fs e = Some [t]" using expected_value(2) [OF bool] by blast
  show ?case
    unfolding exec_stmt.simps
  proof (rule safe_value)
    show "safe (\<lambda>vs. [t] \<noteq> [] \<longrightarrow> length vs = length [t]) (eval_multi k D n S V e s)"
      by (rule 10(1)) (use 10 e in auto)
    fix r s0 x s1
    assume m: "eval_multi k D n S V e s = Some (Inr r, s0)" "oneValue r s0 = Some (Inr x, s1)"
    have "safe (blockResult V) (exec_block k D n S V b s1)" if "x \<noteq> 0"
      by (rule 10(2) [OF m that]) (use 10 b in auto)
    then show "safe (stmtResult V fs') (if x \<noteq> 0 then exec_block k D n S V b s1 else returnY (FlowDefault, V) s1)"
      using block_stmtResult b(2) 10(9) by (auto simp: stmtResult_def simp del: exec_block.simps)
  qed
next
  case (11 k D n S V e cs s)
  from 11(4) obtain t where e: "analyzeExpr A fs e = Some [t]" and cs: "analyzeCases A fs t [] cs" "fs' = fs"
    by (auto simp: bind_eq_Some_conv expected_value(1) split: if_splits)
  show ?case
    unfolding exec_stmt.simps
  proof (rule safe_value)
    show "safe (\<lambda>vs. [t] \<noteq> [] \<longrightarrow> length vs = length [t]) (eval_multi k D n S V e s)"
      by (rule 11(1)) (use 11 e in auto)
    fix r s0 x s1
    assume m: "eval_multi k D n S V e s = Some (Inr r, s0)" "oneValue r s0 = Some (Inr x, s1)"
    have "safe (blockResult V) (exec_cases k D n S V x cs s1)"
      by (rule 11(2) [OF m]) (use 11 cs in auto)
    then show "safe (stmtResult V fs') (if cs = [] then assertionFailed s1 else exec_cases k D n S V x cs s1)"
      using block_stmtResult cs(2) 11(5,9) by auto
  qed
next
  case (12 k D n S V pre e post b s)
  obtain fs1 where pre: "analyzeBlock A fs pre = Some fs1"
      and loop: "expectBoolExpression A fs1 e" "analyzeBlock A fs1 b \<noteq> None" "analyzeBlock A fs1 post \<noteq> None"
      and fs': "fs' = fs"
    using analyzed_loop [OF 12(4)] by blast
  have stmts: "analyzeStmts A (blockFrame pre # fs) pre = Some fs1"
    using pre by (simp add: analyzeBlock.simps)
  have parsed: "wellParsed ForLoopPre pre" using 12(5) by simp
  have chain: "chainOk A (blockFrame pre # fs) (Map.empty # S)"
    using chainOk_enter [OF 12(8) pre _ parsed] no_functions_in_init [OF parsed] 12(6) by auto
  have fs1: "sameBehind True (blockFrame pre # fs) fs1"
      "declaredAt fs1 = declaredAt fs \<union> tn_name ` set (blockVariables pre)"
    using analyzeStmts_declares [OF stmts] by auto
  have chain1: "chainOk A fs1 (Map.empty # S)" using chainOk_same [OF chain fs1(1)] .
  have "fs1 \<noteq> []" using fs1(1) by auto
  show ?case
    unfolding exec_stmt.simps Let_def
  proof (rule safe_bindP)
    show "safe (stmtResult V fs1) (exec_stmts k D n (Map.empty # S) V pre s)"
      by (rule 12(1) [OF refl 12(3) stmts parsed]) (use 12 chain in auto)
    fix flow V1 s1
    assume m: "exec_stmts k D n (Map.empty # S) V pre s = Some (Inr (flow, V1), s1)" "stmtResult V fs1 (flow, V1)"
    have "safe (blockResult V1) (exec_loop k D n (Map.empty # S) V1 e post b s1)" if "flow \<noteq> FlowLeave"
    proof (rule 12(2) [OF refl m(1) refl that 12(3) loop(1)])
      show "dom V1 = declaredAt fs1"
        using m no_break_flow [OF parsed m(1) that] by (simp add: stmtResult_def)
    qed (use 12 loop fs1 chain1 \<open>fs1 \<noteq> []\<close> in auto)
    then have "safe (blockResult V1) (if flow = FlowLeave then returnY (FlowLeave, V1) s1
        else exec_loop k D n (Map.empty # S) V1 e post b s1)"
      by (simp add: blockResult_def)
    then show "safe (stmtResult V fs') (bindY (if flow = FlowLeave then returnY (FlowLeave, V1) s1
        else exec_loop k D n (Map.empty # S) V1 e post b s1) (\<lambda>(flow', V2). returnY (flow', leaveScope V V2)))"
      by (rule safe_bindP) (use m(2) 12(9) fs' in \<open>auto simp: stmtResult_def blockResult_def dom_leaveScope Int_absorb2\<close>)
  qed
next
  case (16 k D n S V b s)
  then have "fs' = fs" "safe (blockResult V) (exec_block k D n S V b s)"
    by (auto simp: bind_eq_Some_conv)
  then show ?case using block_stmtResult 16(8) by auto
next
  case (18 k D n S V v b cs s)
  then show ?case by (auto split: if_splits)
next
  case (19 k D n S V v l b cs s)
  from 19(4,5) obtain w where l: "valueOfLiteral l = Inr w" "analyzeCases A fs ty (w # seen) cs"
      "analyzeBlock A fs b \<noteq> None" by (auto split: sum.splits)
  have v: "evalLiteral l s = Some (Inr w, s)" by (simp add: evalLiteral_def l returnY_def)
  have "safe (blockResult V) (exec_block k D n S V b s)" if "w = v"
    using l(3) 19(1) [OF v that] 19(3-) by (auto simp del: exec_block.simps)
  moreover have "safe (blockResult V) (exec_cases k D n S V v cs s)" if "w \<noteq> v"
    by (rule 19(2) [OF v that]) (use l 19 in auto)
  ultimately show ?case by (simp add: v)
next
  case (21 k D n S V t ts s)
  from 21(4) obtain fs1 where t: "analyzeStmt A fs t = Some fs1" and ts: "analyzeStmts A fs1 ts = Some fs'"
    by (auto simp: bind_eq_Some_conv)
  note fs1 = analyzeStmt_declares [OF t]
  show ?case
    unfolding exec_stmts.simps(2)
  proof (rule safe_bind)
    show "safe (stmtResult V fs1) (exec_stmt k D n S V t s)"
      by (rule 21(1)) (use 21 t in auto)
    fix r s1
    assume m: "exec_stmt k D n S V t s = Some (Inr r, s1)" "stmtResult V fs1 r"
    obtain flow V1 where r: "r = (flow, V1)" by fastforce
    have rest: "safe (stmtResult V1 fs') (exec_stmts k D n S V1 ts s1)" if "flow = FlowDefault"
    proof (rule 21(2) [OF m(1) r [symmetric]])
      show "chainOk A fs1 S" using chainOk_same 21(8) fs1(1) .
    qed (use 21 that ts fs1 m(2) r in \<open>auto simp: stmtResult_def\<close>)
    have "safe (stmtResult V fs') (exec_stmts k D n S V1 ts s1)" if "flow = FlowDefault"
      by (rule stmtResult_trans [OF _ rest [OF that]]) (use m(2) r in \<open>simp add: stmtResult_def\<close>)
    then show "safe (stmtResult V fs') ((case r of (flow, V') \<Rightarrow>
        (\<lambda>s'. if flow \<noteq> FlowDefault then returnY (flow, V') s' else exec_stmts k D n S V' ts s')) s1)"
      using m(2) by (cases "flow = FlowDefault") (simp_all add: r stmtResult_def)
  qed
next
  case (22 k D n S V b s)
  have b: "analyzeStmts A (blockFrame b # fs) b = Some fs'" using 22(3) by (simp add: analyzeBlock.simps)
  have "chainOk A (blockFrame b # fs) (blockFunctions b # S)"
    by (rule chainOk_enter [OF 22(7) 22(3) 22(5,4)])
  then have "safe (stmtResult V fs') (exec_stmts k D n (blockFunctions b # S) V b s)"
    using 22 by (intro 22(1) [OF 22(2) b]) auto
  then show ?case
    unfolding exec_block.simps
    by (rule safe_bind) (auto simp: stmtResult_def blockResult_def dom_leaveScope Int_absorb2)
next
  case (23 k D n S V c post body s)
  obtain t where e: "analyzeExpr A fs c = Some [t]" using 23(6) expected_value(2) by blast
  obtain fb fp where b: "analyzeBlock A fs body = Some fb" "analyzeBlock A fs post = Some fp"
    using 23(8,11) by blast
  show ?case
    unfolding exec_loop.simps [of k D n]
  proof (rule safe_value)
    show "safe (\<lambda>vs. [t] \<noteq> [] \<longrightarrow> length vs = length [t]) (eval_multi k D n S V c s)"
      by (rule 23(1)) (use 23 e in auto)
    fix r s0 x s1
    assume m: "eval_multi k D n S V c s = Some (Inr r, s0)" "oneValue r s0 = Some (Inr x, s1)"
    have "safe (blockResult V)
         (bindY (exec_block k D n S V body s1) (\<lambda>(flow, V1) s2.
           if flow = FlowBreak then returnY (FlowDefault, V1) s2
           else if flow = FlowLeave then returnY (FlowLeave, V1) s2
           else
             bindY (exec_block k D n S V1 post s2) (\<lambda>(flow', V2) s3.
               if flow' = FlowLeave then returnY (FlowLeave, V2) s3
               else (case n of 0 \<Rightarrow> None | Suc m \<Rightarrow> exec_loop k D m S V2 c post body s3))))"
      if x: "x \<noteq> 0"
    proof (rule safe_bindP)
      show "safe (blockResult V) (exec_block k D n S V body s1)"
        by (rule 23(2) [OF m x]) (use 23 b in auto)
      fix flow V1 s2
      assume m1: "exec_block k D n S V body s1 = Some (Inr (flow, V1), s2)" "blockResult V (flow, V1)"
      have "safe (blockResult V)
           (bindY (exec_block k D n S V1 post s2) (\<lambda>(flow', V2) s3.
             if flow' = FlowLeave then returnY (FlowLeave, V2) s3
             else (case n of 0 \<Rightarrow> None | Suc m \<Rightarrow> exec_loop k D m S V2 c post body s3)))"
        if flow: "flow \<noteq> FlowBreak" "flow \<noteq> FlowLeave"
      proof (rule safe_bindP)
        show "safe (blockResult V1) (exec_block k D n S V1 post s2)"
          by (rule 23(3) [OF m x m1(1) refl flow]) (use 23 b m1 in \<open>auto simp: blockResult_def\<close>)
        fix flow' V2 s3
        assume m2: "exec_block k D n S V1 post s2 = Some (Inr (flow', V2), s3)" "blockResult V1 (flow', V2)"
        have "safe (blockResult V2) (exec_loop k D m' S V2 c post body s3)"
          if "n = Suc m'" "flow' \<noteq> FlowLeave" for m'
          by (rule 23(4) [OF m x m1(1) refl flow m2(1) refl that(2,1)])
            (use 23 m1 m2 in \<open>auto simp: blockResult_def\<close>)
        then show "safe (blockResult V) (if flow' = FlowLeave then returnY (FlowLeave, V2) s3
            else (case n of 0 \<Rightarrow> None | Suc m \<Rightarrow> exec_loop k D m S V2 c post body s3))"
          using m1(2) m2(2) by (auto simp: blockResult_def split: nat.split)
      qed
      then show "safe (blockResult V) (if flow = FlowBreak then returnY (FlowDefault, V1) s2
           else if flow = FlowLeave then returnY (FlowLeave, V1) s2
           else
             bindY (exec_block k D n S V1 post s2) (\<lambda>(flow', V2) s3.
               if flow' = FlowLeave then returnY (FlowLeave, V2) s3
               else (case n of 0 \<Rightarrow> None | Suc m \<Rightarrow> exec_loop k D m S V2 c post body s3)))"
        using m1(2) by (simp add: blockResult_def)
    qed
    then show "safe (blockResult V) (if x = 0 then returnY (FlowDefault, V) s1
       else
         bindY (exec_block k D n S V body s1) (\<lambda>(flow, V1) s2.
           if flow = FlowBreak then returnY (FlowDefault, V1) s2
           else if flow = FlowLeave then returnY (FlowLeave, V1) s2
           else
             bindY (exec_block k D n S V1 post s2) (\<lambda>(flow', V2) s3.
               if flow' = FlowLeave then returnY (FlowLeave, V2) s3
               else (case n of 0 \<Rightarrow> None | Suc m \<Rightarrow> exec_loop k D m S V2 c post body s3))))"
      by (simp add: blockResult_def)
  qed
qed (simp_all add: stmtResult_def blockResult_def)

section \<open>Properties\<close>


text \<open>
  \<open>{ function f(a) -> r { r := iszero(a) }  let x := f(0)
  for { } x { x := f(x) } { if iszero(x) { break } } }\<close>
\<close>

definition acceptedExample :: "stmt list" where
  "acceptedExample =
     [FunctionDefinition ''f'' [TypedName ''a'' []] [TypedName ''r'' []]
        [Assignment [''r''] (FunctionCall ''iszero'' [Identifier ''a''])],
      VariableDeclaration [TypedName ''x'' []]
        (Some (FunctionCall ''f'' [Literal (numberLiteral ''0'' [])])),
      ForLoop [] (Identifier ''x'') [Assignment [''x''] (FunctionCall ''f'' [Identifier ''x''])]
        [If' (FunctionCall ''iszero'' [Identifier ''x'']) [Break]]]"

definition exampleAnalyser :: analyser where
  "exampleAnalyser = \<lparr>an_version = Berlin, an_dialect = EVMDialect Berlin True, an_dataNames = []\<rparr>"

lemma no_short_builtin: "length f = 1 \<Longrightarrow> builtin (EVMDialect v oa) f = None"
proof (rule ccontr)
  assume f: "length f = 1" "builtin (EVMDialect v oa) f \<noteq> None"
  then obtain b where "builtin (EVMDialect v oa) f = Some b" by blast
  then show False
  proof (cases rule: builtin_cases)
    case (1 n i)
    have "list_all (\<lambda>(n, i). length n \<noteq> 1) c_instructions" by (simp add: c_instructions_def)
    then show False using 1 f(1) by (auto simp: list_all_iff)
  next
    case 2
    then show False using f(1) by (auto simp: objectBuiltins_def createFunction_def)
  qed
qed

lemma example_accepted: "analyze exampleAnalyser acceptedExample" "wellParsed NoLoop acceptedExample"
proof -
  have fill: "fillBlock [emptyFrame False] acceptedExample \<noteq> None"
    by (simp add: acceptedExample_def emptyFrame_def registerIdentifier_def scopeExists_def)
  have zero: "digitsValue ''0'' = 0"
    by (simp add: digitsValue_def fromHex_char_def)
  have valid: "\<not> validateInstructions Berlin ''iszero''"
    by (simp add: validateInstructions_def builtin_basic instructionBuiltin_def instructionError_def)
  have types: "boolType (EVMDialect v oa) = []" "types (EVMDialect v oa) = [[]]" for v oa
    by (simp_all add: EVMDialect_def Let_def)
  note evals = valid zero no_short_builtin builtin_basic
  have "analyzeBlock exampleAnalyser [emptyFrame False] acceptedExample \<noteq> None"
    by (simp add: evals types acceptedExample_def exampleAnalyser_def emptyFrame_def blockFrame_def
        functionFrame_def analyzeBlock.simps activate_def blockIdentifiers_def checkAssignment_def
        expectBoolExpression_def expectExpression_def exactlyOne_def literalArgumentsOf_def
        analyzeLiteral_def expectValidType_def instructionBuiltin_def instructionInfo_eqs
        expectValidIdentifier_def endsWithDot_def numberLiteral_def validTypeForLiteral_def)
  then show "analyze exampleAnalyser acceptedExample" using fill by (simp add: analyze_def)
  show "wellParsed NoLoop acceptedExample"
    by (simp add: acceptedExample_def wellParsedLiteral_def numberLiteral_def isValidDecimal_def checkBreakContinuePosition_def)
qed


end
