(* ===== verification/YulAccepted.thy ===== *)
theory YulAccepted
  imports YulSoundness
begin

text \<open>
  Programs that the parser and the analysis accept are the programs the steps of the
  optimiser expect (\<open>programOk\<close> of \<open>YulLoops\<close>).
\<close>

section \<open>Expressions\<close>

lemma analyzed_arity:
  "analyzeExpr A fs e = Some ts \<Longrightarrow> arityOk (an_dialect A) e"
proof (induction e arbitrary: ts)
  case (FunctionCall f args)
  obtain ps where len: "length args = length ps"
      and args: "analyzeArgs A fs f (literalArgumentsOf (an_dialect A) f (length args)) args = Some ps"
      and call: "(\<exists>b. builtin (an_dialect A) f = Some b \<and> ps = bf_parameters b \<and> ts = bf_returns b) \<or>
        builtin (an_dialect A) f = None \<and> (\<exists>a. scopeLookup False fs f = Some (ScopeFunction ps ts, a))"
    using FunctionCall.prems by (rule analyzed_call)
  have "list_all (arityOk (an_dialect A)) as"
    if "analyzeArgs A fs f ls as = Some ps" "set as \<subseteq> set args" for ls as ps
    using that
  proof (induction as arbitrary: ls ps)
    case (Cons e es)
    obtain kind rest t ts' where e: "ls = kind # rest" "ps = t # ts'" "analyzeArgs A fs f rest es = Some ts'"
        "kind = None \<longrightarrow> analyzeExpr A fs e = Some [t]" "kind \<noteq> None \<longrightarrow> (\<exists>l. e = Literal l)"
      using Cons.prems(1) by (rule analyzeArgs_Cons)
    have "arityOk (an_dialect A) e"
      using e(4,5) FunctionCall.IH [of e] Cons.prems(2) by (cases kind) auto
    then show ?case using Cons e by auto
  qed simp
  then show ?case using args call len by (auto split: option.split)
qed simp_all

section \<open>Names in the two chains\<close>

text \<open>
  The functions the analysis sees are known to the filler at the same place of its walk, so a block in the
  scope of a function has none of the same name.
\<close>

definition covers :: "scope_frame list \<Rightarrow> scope_frame list \<Rightarrow> bool" where
  "covers = list_all2 (\<lambda>f g. \<forall>x ps rs.
     identifiers g x = Some (ScopeFunction ps rs) \<longrightarrow> identifiers f x \<noteq> None)"

lemma covers_lookup:
  "covers ff fs \<Longrightarrow> scopeLookup c fs x = Some (ScopeFunction ps rs, a) \<Longrightarrow> scopeExists ff x"
  unfolding covers_def
proof (induction ff fs arbitrary: c rule: list_all2_induct)
  case (Cons f ff g fs)
  then show ?case
    by (cases "identifiers g x") (auto split: scope_identifier.splits if_splits)
qed simp

lemma covers_same: "covers ff fs \<Longrightarrow> sameBehind c fs gs \<Longrightarrow> covers ff gs"
  unfolding covers_def
proof (induction ff fs arbitrary: c gs rule: list_all2_induct)
  case Nil
  then show ?case by (cases gs) auto
next
  case (Cons f ff g fs)
  then show ?case by (cases gs) auto
qed

lemma covers_fill:
  assumes "covers (f # ff) fs" "fillStmt (f # ff) s = Some ff'"
  shows "covers ff' fs"
  using assms(1) unfolding fillStmt_Some(1) [OF assms(2)] covers_def
  by (cases fs) (auto simp: map_add_def split: option.split)

lemma analyzed_visible:
  assumes "covers ff fs" "registerFunctions b (f # ff) = Some ff'"
  shows "analyzeExpr A fs e = Some ts \<Longrightarrow> callsVisible (an_dialect A) (blockFunctions b) e"
proof (induction e arbitrary: ts)
  case (FunctionCall g args)
  obtain ps where len: "length args = length ps"
      and args: "analyzeArgs A fs g (literalArgumentsOf (an_dialect A) g (length args)) args = Some ps"
      and call: "(\<exists>b. builtin (an_dialect A) g = Some b \<and> ps = bf_parameters b \<and> ts = bf_returns b) \<or>
        builtin (an_dialect A) g = None \<and> (\<exists>a. scopeLookup False fs g = Some (ScopeFunction ps ts, a))"
    using FunctionCall.prems by (rule analyzed_call)
  have "\<forall>a \<in> set as. callsVisible (an_dialect A) (blockFunctions b) a"
    if "analyzeArgs A fs g ls as = Some ps" "set as \<subseteq> set args" for ls as ps
    using that
  proof (induction as arbitrary: ls ps)
    case (Cons e es)
    obtain kind rest t ts' where e: "ls = kind # rest" "ps = t # ts'" "analyzeArgs A fs g rest es = Some ts'"
        "kind = None \<longrightarrow> analyzeExpr A fs e = Some [t]" "kind \<noteq> None \<longrightarrow> (\<exists>l. e = Literal l)"
      using Cons.prems(1) by (rule analyzeArgs_Cons)
    have "callsVisible (an_dialect A) (blockFunctions b) e"
      using e(4,5) FunctionCall.IH [of e] Cons.prems(2) by (cases kind) (auto simp: callsVisible_def)
    then show ?case using Cons e by auto
  qed simp
  then have "\<forall>a \<in> set args. callsVisible (an_dialect A) (blockFunctions b) a" using args by blast
  moreover have "builtin (an_dialect A) g \<noteq> None \<or> blockFunctions b g = None"
    using call covers_lookup [OF assms(1)] registerFunctions_Some [OF assms(2)] by auto
  ultimately show ?case by (auto simp: callsVisible_def list_all_iff)
qed (simp_all add: callsVisible_def)

lemma analyzed_cases:
  "analyzeCases A fs t seen cs \<Longrightarrow> wellParsedCases c cs \<Longrightarrow> casesOk seen cs"
proof (induction cs arbitrary: seen)
  case (Cons lb cs)
  obtain l b where lb: "lb = (l, b)" by fastforce
  show ?case
  proof (cases l)
    case None
    then show ?thesis using Cons.prems(2) lb by simp
  next
    case (Some w)
    then show ?thesis using Cons lb by (auto split: sum.splits)
  qed
qed simp

section \<open>Statements\<close>

lemma programOk_Nil: "programOk D []"
  by (subst programOk.simps) simp

lemma programOk_Cons:
  "statementOk D s \<Longrightarrow> (\<forall>b \<in> set (childBlocks s). programOk D b) \<Longrightarrow> programOk D ss \<Longrightarrow>
   programOk D (s # ss)"
  by (subst programOk.simps, subst (asm) (2) programOk.simps) (simp add: list_all_iff)

lemma covers_function:
  assumes "covers ff fs"
  shows "covers (g # ff) (functionFrame xs # fs)"
proof -
  have "variableTable ys x \<noteq> Some (ScopeFunction p q)" for ys x p q
    by (induction ys) auto
  then show ?thesis using assms by (simp add: covers_def)
qed

lemma covers_block:
  assumes "covers ff fs" "registerFunctions b (emptyFrame False # ff) = Some ff'"
  shows "covers ff' (blockFrame b # fs)"
proof -
  have "variableTable ys x \<noteq> Some (ScopeFunction p q)" for ys x p q
    by (induction ys) auto
  then show ?thesis
    using assms(1) registerFunctions_Some [OF assms(2)]
    by (auto simp: covers_def blockIdentifiers_def split: option.splits)
qed

lemma filled_block:
  assumes "fillBlock ff b = Some f"
  obtains ff' ff2 where "registerFunctions b (emptyFrame False # ff) = Some ff'" "ff' \<noteq> []"
    "fillStmts ff' b = Some ff2"
proof -
  obtain ff' ff2 where "registerFunctions b (emptyFrame False # ff) = Some ff'" "fillStmts ff' b = Some ff2"
    using assms by (auto simp: bind_eq_Some_conv)
  then show ?thesis using that registerFunctions_Some by blast
qed

lemma accepted:
  shows "fillStmt ff s = Some ff' \<Longrightarrow> analyzeStmt A fs s = Some fs' \<Longrightarrow> wellParsedStmt c s \<Longrightarrow>
      covers ff fs \<Longrightarrow> ff \<noteq> [] \<Longrightarrow>
      statementOk (an_dialect A) s \<and> (\<forall>b \<in> set (childBlocks s). programOk (an_dialect A) b)"
    and "fillStmts ff ss = Some ff' \<Longrightarrow> analyzeStmts A fs ss = Some fs' \<Longrightarrow> wellParsed c ss \<Longrightarrow>
      covers ff fs \<Longrightarrow> ff \<noteq> [] \<Longrightarrow> programOk (an_dialect A) ss"
    and "fillCases ff cs \<Longrightarrow> analyzeCases A fs t seen cs \<Longrightarrow> wellParsedCases c cs \<Longrightarrow>
      covers ff fs \<Longrightarrow> ff \<noteq> [] \<Longrightarrow> \<forall>b \<in> snd ` set cs. programOk (an_dialect A) b"
    and "fillBlock ff b = Some f \<Longrightarrow> analyzeBlock A fs b = Some fs' \<Longrightarrow> wellParsed c b \<Longrightarrow>
      covers ff fs \<Longrightarrow> ff \<noteq> [] \<Longrightarrow> programOk (an_dialect A) b"
proof (induction ff s and ff ss and ff cs and ff b
    arbitrary: ff' fs fs' c and ff' fs fs' c and fs t seen c and f fs fs' c
    rule: fillStmt_fillStmts_fillCases_fillBlock.induct)
  case (2 ff f ps rs b)
  obtain ff1 f1 where r: "registerVariables (ps @ rs) (emptyFrame True # ff) = Some ff1"
      and b: "fillBlock ff1 b = Some f1" using 2(2) by (auto simp: bind_eq_Some_conv)
  obtain fs1 where a: "analyzeBlock A (functionFrame (ps @ rs) # fs) b = Some fs1"
    using 2(3) by (auto simp: bind_eq_Some_conv split: if_splits)
  obtain g where ff1: "ff1 = g # ff" using registerVariables_Some(1) [OF r] by blast
  have "programOk (an_dialect A) b"
    by (rule 2(1) [OF r b a]) (use 2 ff1 covers_function in auto)
  then show ?case by simp
next
  case (3 ff e b)
  obtain f1 where b: "fillBlock ff b = Some f1" using 3(2) by (auto simp: bind_eq_Some_conv)
  obtain fs1 where a: "analyzeBlock A fs b = Some fs1" "expectBoolExpression A fs e"
    using 3(3) by (auto simp: bind_eq_Some_conv split: if_splits)
  have "programOk (an_dialect A) b" by (rule 3(1) [OF b a(1)]) (use 3 in auto)
  then show ?case using analyzed_arity expected_value(2) [OF a(2)] by auto
next
  case (4 ff e cs)
  obtain t where a: "analyzeExpr A fs e = Some [t]" "analyzeCases A fs t [] cs"
    using 4(3) by (auto simp: bind_eq_Some_conv expected_value(1) split: if_splits)
  have "fillCases ff cs" using 4(2) by (simp split: if_splits)
  then have "\<forall>b \<in> snd ` set cs. programOk (an_dialect A) b"
    by (rule 4(1) [OF _ a(2)]) (use 4 in auto)
  then show ?case using analyzed_arity [OF a(1)] analyzed_cases [OF a(2)] 4(4) by auto
next
  case (5 ff pre e post body)
  obtain f fb fp where f: "fillBlock ff pre = Some f" "fillBlock (f # ff) body = Some fb"
      "fillBlock (f # ff) post = Some fp" using 5(4) by (auto simp: bind_eq_Some_conv)
  obtain fs1 where a: "analyzeBlock A fs pre = Some fs1" "expectBoolExpression A fs1 e"
      "analyzeBlock A fs1 body \<noteq> None" "analyzeBlock A fs1 post \<noteq> None"
    using analyzed_loop [OF 5(5)] by blast
  have "covers (f # ff) (blockFrame pre # fs)"
    using 5(7) fillBlock_frame [OF f(1)] by (auto simp: covers_def)
  then have covers: "covers (f # ff) fs1"
    using covers_same analyzeStmts_declares a(1) by (fastforce simp: analyzeBlock.simps)
  obtain ts where e: "analyzeExpr A fs1 e = Some ts" using expected_value(2) [OF a(2)] by blast
  obtain ff' where "registerFunctions body (emptyFrame False # f # ff) = Some ff'"
    using filled_block [OF f(2)] .
  then have "callsVisible (an_dialect A) (blockFunctions body) e"
    by (rule analyzed_visible [OF covers _ e])
  moreover have "programOk (an_dialect A) pre" by (rule 5(1) [OF f(1) a(1)]) (use 5 in auto)
  moreover have "programOk (an_dialect A) body" using a(3) 5(6) covers by (auto intro: 5(2) [OF f(1,2)])
  moreover have "programOk (an_dialect A) post" using a(4) 5(6) covers by (auto intro: 5(3) [OF f(1,2,3)])
  ultimately show ?case using analyzed_arity [OF e] by simp
next
  case (6 ff b)
  then show ?case by (auto simp: bind_eq_Some_conv)
next
  case (9 ff s ss)
  obtain ff1 where f: "fillStmt ff s = Some ff1" "fillStmts ff1 ss = Some ff'"
    using 9(3) by (auto simp: bind_eq_Some_conv)
  obtain fs1 where a: "analyzeStmt A fs s = Some fs1" "analyzeStmts A fs1 ss = Some fs'"
    using 9(4) by (auto simp: bind_eq_Some_conv)
  obtain g rest where ff: "ff = g # rest" using 9(7) by (cases ff) auto
  have "covers ff1 fs1" "ff1 \<noteq> []"
    using covers_same [OF covers_fill analyzeStmt_declares(1) [OF a(1)]] 9(6) f(1) ff
      fillStmt_Some(1) by blast+
  then have "programOk (an_dialect A) ss" using 9(2) [OF f a(2)] 9(5) by auto
  moreover have "statementOk (an_dialect A) s \<and> (\<forall>b \<in> set (childBlocks s). programOk (an_dialect A) b)"
    by (rule 9(1) [OF f(1) a(1)]) (use 9 in auto)
  ultimately show ?case by (simp add: programOk_Cons)
next
  case (11 ff l b cs)
  have "\<exists>seen'. analyzeBlock A fs b \<noteq> None \<and> analyzeCases A fs t seen' cs \<and> wellParsed c b \<and> wellParsedCases c cs"
    using 11(4,5) by (cases l) (auto split: sum.splits)
  then obtain seen' fs1 where a: "analyzeBlock A fs b = Some fs1" "analyzeCases A fs t seen' cs"
      "wellParsed c b" "wellParsedCases c cs" by blast
  obtain f where f: "fillBlock ff b = Some f" "fillCases ff cs"
    using 11(3) by (auto simp del: fillBlock.simps)
  have "programOk (an_dialect A) b" by (rule 11(1) [OF f(1) a(1,3) 11(6,7)])
  moreover have "\<forall>b \<in> snd ` set cs. programOk (an_dialect A) b"
    by (rule 11(2) [OF f(2) a(2,4) 11(6,7)])
  ultimately show ?case by auto
next
  case (12 ff b)
  obtain ff1 ff2 where f: "registerFunctions b (emptyFrame False # ff) = Some ff1" "ff1 \<noteq> []"
      "fillStmts ff1 b = Some ff2" using 12(2) by (rule filled_block)
  show ?case
    by (rule 12(1) [OF f(1,3) _ _ covers_block [OF 12(5) f(1)]]) (use 12 f(2) in \<open>auto simp: analyzeBlock.simps\<close>)
next
  case (8 ff)
  then show ?case by (simp add: programOk_Nil)
qed simp_all

section \<open>Properties\<close>

text \<open>C35: The steps of the optimiser may assume of every program that the parser and the analysis accept:
  numbers of arguments of builtin functions agree, no condition calls a function of the body of its loop, and
  the cases of a switch are distinct with the default at the end.\<close>

theorem accepted_programs_are_ok:
  assumes "analyze A p" "wellParsed NoLoop p"
  shows "programOk (an_dialect A) p"
proof -
  obtain f fs' where fill: "fillBlock [emptyFrame False] p = Some f"
      and b: "analyzeBlock A [emptyFrame False] p = Some fs'"
    using assms(1) by (auto simp: analyze_def)
  show ?thesis
    by (rule accepted(4) [OF fill b assms(2)]) (simp_all add: covers_def emptyFrame_def)
qed

lemma accepted_programs_are_ok_witness: "programOk (EVMDialect Berlin True) acceptedExample"
  using accepted_programs_are_ok [OF example_accepted] by (simp add: exampleAnalyser_def)

end
