(* ===== verification/Scanner.thy ===== *)
theory Scanner
  imports CommonData
begin

text \<open>
  \<open>liblangutil/Token.{h,cpp}\<close>, the character classes of \<open>liblangutil/Common.h\<close> and
  \<open>liblangutil/Scanner.{h,cpp}\<close>: from the text of a source to its tokens.

  State. The scanner holds a position in the text, the character there (0 at the end) and three tokens, the
  current one and two that are looked ahead. Here the position is the rest of the text, and \<open>hd0\<close>
  is the character; tokens are scanned when they are needed, so nothing is looked ahead. Positions
  in the source and the texts of documentation comments, which the scanner keeps beside the tokens, are left out.
  At the end of a comment the source puts a space in the place of the closing slash; here the slash
  is dropped.
\<close>

section \<open>Tokens\<close>

text \<open>
  The tokens of \<open>TOKEN_LIST\<close>. Operators, punctuators and keywords are named by their symbol in the
  list, which is different for each of them.
\<close>

datatype token =
    EOS
  | Symbol string
  | Keyword string
  | IntM | UIntM | BytesM | FixedMxN | UFixedMxN
  | NumberToken
  | StringLiteral
  | UnicodeStringLiteral
  | HexStringLiteral
  | IdentifierToken
  | Illegal
  | Whitespace

datatype scanner_error =
    IllegalToken
  | IllegalHexString
  | IllegalHexDigit
  | IllegalCommentTerminator
  | IllegalEscapeSequence
  | IllegalCharacterInString
  | IllegalStringEndQuote
  | IllegalNumberSeparator
  | IllegalExponent
  | IllegalNumberEnd
  | OctalNotAllowed

definition keywordNames :: "string list" where
  "keywordNames =
    [''delete'', ''abstract'', ''anonymous'', ''as'', ''assembly'', ''break'', ''catch'',
     ''constant'', ''constructor'', ''continue'', ''contract'', ''do'', ''else'', ''enum'',
     ''emit'', ''event'', ''external'', ''fallback'', ''for'', ''function'', ''hex'', ''if'',
     ''indexed'', ''interface'', ''internal'', ''immutable'', ''import'', ''is'', ''library'',
     ''mapping'', ''memory'', ''modifier'', ''new'', ''override'', ''payable'', ''public'',
     ''pragma'', ''private'', ''pure'', ''receive'', ''return'', ''returns'', ''storage'',
     ''calldata'', ''struct'', ''throw'', ''try'', ''type'', ''unicode'', ''using'', ''view'',
     ''virtual'', ''while'', ''wei'', ''gwei'', ''ether'', ''seconds'', ''minutes'', ''hours'',
     ''days'', ''weeks'', ''years'', ''int'', ''uint'', ''bytes'', ''byte'', ''string'',
     ''address'', ''bool'', ''fixed'', ''ufixed'', ''true'', ''false'', ''after'', ''alias'',
     ''apply'', ''auto'', ''case'', ''copyof'', ''default'', ''define'', ''final'',
     ''implements'', ''in'', ''inline'', ''let'', ''macro'', ''match'', ''mutable'', ''null'',
     ''of'', ''partial'', ''promise'', ''reference'', ''relocatable'', ''sealed'', ''sizeof'',
     ''static'', ''supports'', ''switch'', ''typedef'', ''typeof'', ''unchecked'', ''var'']"

definition keywordByName :: "string \<Rightarrow> token" where
  "keywordByName name = (if name \<in> set keywordNames then Keyword name else IdentifierToken)"

section \<open>Characters\<close>

definition charBetween :: "nat \<Rightarrow> nat \<Rightarrow> char \<Rightarrow> bool" where
  "charBetween a b c = (a \<le> of_char c \<and> of_char c \<le> b)"

definition isDecimalDigit :: "char \<Rightarrow> bool" where
  "isDecimalDigit c = charBetween 48 57 c"

definition isHexDigit :: "char \<Rightarrow> bool" where
  "isHexDigit c = (isDecimalDigit c \<or> charBetween 97 102 c \<or> charBetween 65 70 c)"

definition isWhiteSpace :: "char \<Rightarrow> bool" where
  "isWhiteSpace c = (c = CHR '' '' \<or> c = CHR 0x0A \<or> c = CHR 0x09 \<or> c = CHR 0x0D)"

definition isIdentifierStart :: "char \<Rightarrow> bool" where
  "isIdentifierStart c = (c = CHR ''_'' \<or> c = CHR ''$'' \<or> charBetween 97 122 c \<or> charBetween 65 90 c)"

definition isIdentifierPart :: "char \<Rightarrow> bool" where
  "isIdentifierPart c = (isIdentifierStart c \<or> isDecimalDigit c)"

definition hexValue :: "char \<Rightarrow> nat option" where
  "hexValue c =
     (if charBetween 48 57 c then Some (of_char c - 48)
      else if charBetween 97 102 c then Some (of_char c - 97 + 10)
      else if charBetween 65 70 c then Some (of_char c - 65 + 10)
      else None)"

text \<open>The current character: 0 at the end of the input.\<close>

fun hd0 :: "string \<Rightarrow> char" where
  "hd0 [] = CHR 0x00"
| "hd0 (c # s) = c"

definition isUnicodeLinebreak :: "string \<Rightarrow> bool" where
  "isUnicodeLinebreak s =
     (charBetween 10 13 (hd0 s)
      \<or> take 2 s = [CHR 0xC2, CHR 0x85]
      \<or> take 3 s = [CHR 0xE2, CHR 0x80, CHR 0xA8]
      \<or> take 3 s = [CHR 0xE2, CHR 0x80, CHR 0xA9])"

section \<open>Keywords and the names of types\<close>

text \<open>
  \<open>parseSize\<close> converts digits to an \<open>int\<close>; the conversion fails, with -1, when there are no digits
  or the number is not an \<open>int\<close>.
\<close>

definition parseSize :: "string \<Rightarrow> int" where
  "parseSize s =
     (let v = foldl (\<lambda>a c. a * 10 + (of_char c - 48)) 0 s
      in if s = [] \<or> \<not> list_all isDecimalDigit s \<or> v \<ge> 2 ^ 31 then -1 else v)"

definition fromIdentifierOrKeyword :: "string \<Rightarrow> token \<times> nat \<times> nat" where
  "fromIdentifierOrKeyword s =
     (let digit = isDecimalDigit;
          baseType = takeWhile (\<lambda>c. \<not> digit c) s;
          fromM = dropWhile (\<lambda>c. \<not> digit c) s
      in if fromM = [] then (keywordByName s, 0, 0)
         else
           (let fromX = dropWhile digit fromM;
                m = parseSize (takeWhile digit fromM);
                kw = keywordByName baseType
            in if kw = Keyword ''bytes'' then
                 (if 0 < m \<and> m \<le> 32 \<and> fromX = [] then (BytesM, nat m, 0) else (IdentifierToken, 0, 0))
               else if kw = Keyword ''uint'' \<or> kw = Keyword ''int'' then
                 (if 0 < m \<and> m \<le> 256 \<and> m mod 8 = 0 \<and> fromX = []
                  then (if kw = Keyword ''uint'' then UIntM else IntM, nat m, 0)
                  else (IdentifierToken, 0, 0))
               else if kw = Keyword ''ufixed'' \<or> kw = Keyword ''fixed'' then
                 (if fromX \<noteq> [] \<and> hd fromX = CHR ''x'' \<and> list_all digit (tl fromX)
                  then
                    (let n = parseSize (tl fromX)
                     in if 8 \<le> m \<and> m \<le> 256 \<and> m mod 8 = 0 \<and> 0 \<le> n \<and> n \<le> 80
                        then (if kw = Keyword ''ufixed'' then UFixedMxN else FixedMxN, nat m, nat n)
                        else (IdentifierToken, 0, 0))
                  else (IdentifierToken, 0, 0))
               else (IdentifierToken, 0, 0)))"

section \<open>Token descriptions\<close>

record token_desc =
  td_token :: token
  td_literal :: string
  td_error :: "scanner_error option"
  td_info :: "nat \<times> nat"

type_synonym scanned = "token_desc \<times> string"

definition plain :: "token \<Rightarrow> string \<Rightarrow> scanned" where
  "plain t s = (\<lparr>td_token = t, td_literal = [], td_error = None, td_info = (0, 0)\<rparr>, s)"

definition withLiteral :: "token \<Rightarrow> string \<Rightarrow> string \<Rightarrow> scanned" where
  "withLiteral t l s = (\<lparr>td_token = t, td_literal = l, td_error = None, td_info = (0, 0)\<rparr>, s)"

text \<open>\<open>setError\<close>; the literal that was being recorded is dropped.\<close>

definition setError :: "scanner_error \<Rightarrow> string \<Rightarrow> scanned" where
  "setError e s = (\<lparr>td_token = Illegal, td_literal = [], td_error = Some e, td_info = (0, 0)\<rparr>, s)"

text \<open>\<open>selectToken\<close> advances first; the second form looks at the next character.\<close>

definition selectToken :: "string \<Rightarrow> string \<Rightarrow> scanned" where
  "selectToken t s = plain (Symbol t) (tl s)"

definition selectIf :: "char \<Rightarrow> string \<Rightarrow> string \<Rightarrow> string \<Rightarrow> scanned" where
  "selectIf c t e s = (if hd0 (tl s) = c then selectToken t (tl s) else plain (Symbol e) (tl s))"

section \<open>Strings\<close>

definition scanHexByte :: "string \<Rightarrow> (char \<times> string) option" where
  "scanHexByte s =
     (case hexValue (hd0 s) of
        None \<Rightarrow> None
      | Some a \<Rightarrow>
          (case hexValue (hd0 (tl s)) of
             None \<Rightarrow> None
           | Some b \<Rightarrow> Some (char_of (a * 16 + b), drop 2 s)))"

fun scanUnicode_loop :: "nat \<Rightarrow> nat \<Rightarrow> string \<Rightarrow> (nat \<times> string) option" where
  "scanUnicode_loop 0 x s = Some (x, s)"
| "scanUnicode_loop (Suc n) x s =
     (case hexValue (hd0 s) of None \<Rightarrow> None | Some d \<Rightarrow> scanUnicode_loop n (x * 16 + d) (tl s))"

definition scanUnicode :: "string \<Rightarrow> (nat \<times> string) option" where
  "scanUnicode s = scanUnicode_loop 4 0 s"

definition addUnicodeAsUTF8 :: "nat \<Rightarrow> string" where
  "addUnicodeAsUTF8 codepoint =
     (if codepoint \<le> 0x7f then [char_of codepoint]
      else if codepoint \<le> 0x7ff
      then [char_of (0xc0 OR drop_bit 6 codepoint), char_of (0x80 OR (codepoint AND 0x3f))]
      else [char_of (0xe0 OR drop_bit 12 codepoint), char_of (0x80 OR (drop_bit 6 codepoint AND 0x3f)),
            char_of (0x80 OR (codepoint AND 0x3f))])"

definition atEndOfLine :: "string \<Rightarrow> bool" where
  "atEndOfLine s = (hd0 s = CHR 0x0A \<or> hd0 s = CHR 0x0D)"

definition tryScanEndOfLine :: "string \<Rightarrow> string option" where
  "tryScanEndOfLine s =
     (if hd0 s = CHR 0x0A then Some (tl s)
      else if hd0 s = CHR 0x0D
      then Some (if tl s \<noteq> [] \<and> hd0 (tl s) = CHR 0x0A then tl (tl s) else tl s)
      else None)"

text \<open>What an escape sequence adds to the literal, or \<open>None\<close> for an invalid one, and the rest.\<close>

definition scanEscape :: "string \<Rightarrow> string option \<times> string" where
  "scanEscape s =
     (case tryScanEndOfLine s of
        Some s1 \<Rightarrow> (Some [], s1)
      | None \<Rightarrow>
          (let c = hd0 s; s1 = tl s in
           if c = CHR 0x27 \<or> c = CHR 0x22 \<or> c = CHR 0x5C then (Some [c], s1)
           else if c = CHR ''b'' then (Some [CHR 0x08], s1)
           else if c = CHR ''f'' then (Some [CHR 0x0C], s1)
           else if c = CHR ''n'' then (Some [CHR 0x0A], s1)
           else if c = CHR ''r'' then (Some [CHR 0x0D], s1)
           else if c = CHR ''t'' then (Some [CHR 0x09], s1)
           else if c = CHR ''v'' then (Some [CHR 0x0B], s1)
           else if c = CHR ''u'' then
             (case scanUnicode s1 of
                Some (codepoint, s2) \<Rightarrow> (Some (addUnicodeAsUTF8 codepoint), s2)
              | None \<Rightarrow> (None, s1))
           else if c = CHR ''x'' then
             (case scanHexByte s1 of Some (b, s2) \<Rightarrow> (Some [b], s2) | None \<Rightarrow> (None, s1))
           else (None, s1)))"

lemma scanUnicode_length: "scanUnicode_loop n x s = Some (y, s') \<Longrightarrow> length s' \<le> length s"
  by (induction n x s rule: scanUnicode_loop.induct) (fastforce split: option.splits)+

lemma scanEscape_length: "length (snd (scanEscape s)) \<le> length s"
  by (auto simp: scanEscape_def tryScanEndOfLine_def scanUnicode_def scanHexByte_def Let_def
      split: option.split dest: scanUnicode_length)

text \<open>The loop of \<open>scanString\<close>, up to the closing quote.\<close>

function scanString_loop :: "char \<Rightarrow> bool \<Rightarrow> string \<Rightarrow> string \<Rightarrow> (scanner_error + string) \<times> string" where
  "scanString_loop quote isUnicode literal s =
     (if hd0 s \<noteq> quote \<and> s \<noteq> [] \<and> \<not> isUnicodeLinebreak s
      then
        (let c = hd s; s1 = tl s in
         if c = CHR 0x5C then
           (if s1 = [] then (Inl IllegalEscapeSequence, s1)
            else
              (case scanEscape s1 of
                 (None, s2) \<Rightarrow> (Inl IllegalEscapeSequence, s2)
               | (Some cs, s2) \<Rightarrow> scanString_loop quote isUnicode (literal @ cs) s2))
         else if \<not> isUnicode \<and> \<not> charBetween 0x20 0x7e c then (Inl IllegalCharacterInString, s1)
         else scanString_loop quote isUnicode (literal @ [c]) s1)
      else if hd0 s \<noteq> quote then (Inl IllegalStringEndQuote, s)
      else (Inr literal, s))"
  by auto
termination
proof (relation "measure (\<lambda>(quote, isUnicode, literal, s). length s)")
  fix quote :: char and isUnicode :: bool and literal s :: string and c :: char and s1 s2 cs x y
  assume *: "hd0 s \<noteq> quote \<and> s \<noteq> [] \<and> \<not> isUnicodeLinebreak s" "s1 = tl s" "(x, s2) = scanEscape s1"
  have "length s2 \<le> length s1" using scanEscape_length [of s1] *(3) [symmetric] by simp
  then show "((quote, isUnicode, literal @ cs, s2), quote, isUnicode, literal, s)
      \<in> measure (\<lambda>(quote, isUnicode, literal, s). length s)"
    using * by (cases s) auto
qed (auto simp: length_greater_0_conv)

declare scanString_loop.simps [simp del]

definition scanString :: "bool \<Rightarrow> string \<Rightarrow> scanned" where
  "scanString isUnicode s =
     (case scanString_loop (hd0 s) isUnicode [] (tl s) of
        (Inl e, s1) \<Rightarrow> setError e s1
      | (Inr literal, s1) \<Rightarrow>
          withLiteral (if isUnicode then UnicodeStringLiteral else StringLiteral) literal (tl s1))"

function scanHexString_loop ::
  "char \<Rightarrow> bool \<Rightarrow> string \<Rightarrow> string \<Rightarrow> (scanner_error + string) \<times> string" where
  "scanHexString_loop quote allowUnderscore literal s =
     (if hd0 s \<noteq> quote \<and> s \<noteq> []
      then
        (case scanHexByte s of
           Some (b, s1) \<Rightarrow> scanHexString_loop quote True (literal @ [b]) s1
         | None \<Rightarrow>
             (if hd0 s = CHR ''_''
              then
                (if \<not> allowUnderscore \<or> hd0 (tl s) = quote then (Inl IllegalNumberSeparator, tl s)
                 else scanHexString_loop quote False literal (tl s))
              else (Inl IllegalHexString, s)))
      else if hd0 s \<noteq> quote then (Inl IllegalStringEndQuote, s)
      else (Inr literal, s))"
  by auto
termination
  by (relation "measure (\<lambda>(quote, allowUnderscore, literal, s). length s)")
    (auto simp: scanHexByte_def split: option.splits)

declare scanHexString_loop.simps [simp del]

definition scanHexString :: "string \<Rightarrow> scanned" where
  "scanHexString s =
     (case scanHexString_loop (hd0 s) False [] (tl s) of
        (Inl e, s1) \<Rightarrow> setError e s1
      | (Inr literal, s1) \<Rightarrow> withLiteral HexStringLiteral literal (tl s1))"

section \<open>Numbers\<close>

text \<open>What the digits at the front add to the literal, and the rest.\<close>

definition scanDecimalDigits :: "string \<Rightarrow> string \<times> string" where
  "scanDecimalDigits s =
     (let part = (\<lambda>c. isDecimalDigit c \<or> c = CHR ''_'')
      in if isDecimalDigit (hd0 s) then (takeWhile part s, dropWhile part s) else ([], s))"

definition scanNumberEnd :: "string \<Rightarrow> string \<Rightarrow> scanned" where
  "scanNumberEnd literal s =
     (if isDecimalDigit (hd0 s) \<or> isIdentifierStart (hd0 s) then setError IllegalNumberEnd s
      else withLiteral NumberToken literal s)"

text \<open>The exponent, if there is one, and the end of the number.\<close>

definition scanExponent :: "string \<Rightarrow> string \<Rightarrow> scanned" where
  "scanExponent literal s =
     (if hd0 s = CHR ''e'' \<or> hd0 s = CHR ''E'' then
        (if tl s \<noteq> [] \<and> hd0 (tl s) = CHR ''_''
         then
           (case scanDecimalDigits (drop 2 s) of (digits, s1) \<Rightarrow>
              withLiteral NumberToken (literal @ take 2 s @ digits) s1)
         else
           (let literal1 = literal @ [hd0 s]; s1 = tl s;
                sign = (if hd0 s1 = CHR ''+'' \<or> hd0 s1 = CHR ''-'' then [hd0 s1] else []);
                s2 = drop (length sign) s1
            in if \<not> isDecimalDigit (hd0 s2) then setError IllegalExponent s2
               else
                 (case scanDecimalDigits s2 of (digits, s3) \<Rightarrow>
                    scanNumberEnd (literal1 @ sign @ digits) s3)))
      else scanNumberEnd literal s)"

text \<open>The decimal digits and the fraction; \<open>literal\<close> is what has been read, \<open>[]\<close> or a zero.\<close>

definition scanDecimal :: "string \<Rightarrow> string \<Rightarrow> scanned" where
  "scanDecimal literal s =
     (case scanDecimalDigits s of (digits, s1) \<Rightarrow>
        (let literal1 = literal @ digits in
         if hd0 s1 = CHR ''.'' then
           (let (literal2, s2) =
              (if tl s1 \<noteq> [] \<and> hd0 (tl s1) = CHR ''_''
               then (case scanDecimalDigits (drop 2 s1) of (ds, s2) \<Rightarrow>
                       (literal1 @ take 2 s1 @ ds, s2))
               else (literal1, s1))
            in if s2 = [] \<or> \<not> isDecimalDigit (hd0 (tl s2)) then withLiteral NumberToken literal2 s2
               else
                 (case scanDecimalDigits (tl s2) of (ds, s3) \<Rightarrow>
                    scanExponent (literal2 @ [hd0 s2] @ ds) s3))
         else scanExponent literal1 s1))"

definition scanHexNumber :: "string \<Rightarrow> scanned" where
  "scanHexNumber s =
     (let part = (\<lambda>c. isHexDigit c \<or> c = CHR ''_'') in
      if \<not> isHexDigit (hd0 s) then setError IllegalHexDigit s
      else scanExponent (''0x'' @ takeWhile part s) (dropWhile part s))"

text \<open>\<open>scanNumber\<close>, and its call after a point.\<close>

definition scanNumber :: "string \<Rightarrow> scanned" where
  "scanNumber s =
     (if hd0 s = CHR ''0'' then
        (if hd0 (tl s) = CHR ''x'' then scanHexNumber (drop 2 s)
         else if isDecimalDigit (hd0 (tl s)) then setError OctalNotAllowed (tl s)
         else scanDecimal ''0'' (tl s))
      else scanDecimal [] s)"

definition scanFraction :: "string \<Rightarrow> scanned" where
  "scanFraction s =
     (if hd0 s = CHR ''_'' then setError IllegalToken s
      else (case scanDecimalDigits s of (digits, s1) \<Rightarrow> scanExponent (CHR ''.'' # digits) s1))"

section \<open>Comments\<close>

function skipSingleLineComment :: "string \<Rightarrow> string" where
  "skipSingleLineComment s =
     (if s = [] \<or> isUnicodeLinebreak s then s else skipSingleLineComment (tl s))"
  by auto
termination by (relation "measure length") auto

definition skipWhitespace :: "string \<Rightarrow> string" where
  "skipWhitespace s = dropWhile isWhiteSpace s"

definition skipWhitespaceExceptUnicodeLinebreak :: "string \<Rightarrow> string" where
  "skipWhitespaceExceptUnicodeLinebreak s =
     dropWhile (\<lambda>c. isWhiteSpace c \<and> \<not> charBetween 10 13 c) s"

lemma tryScanEndOfLine_length: "tryScanEndOfLine s = Some s' \<Longrightarrow> length s' < length s"
  by (cases s) (auto simp: tryScanEndOfLine_def split: if_splits)

lemma skip_length:
  "length (skipWhitespaceExceptUnicodeLinebreak s) \<le> length s"
  by (simp add: skipWhitespaceExceptUnicodeLinebreak_def length_dropWhile_le)

text \<open>A documentation comment goes on as long as the next line starts with three slashes.\<close>

function scanSingleLineDocComment :: "string \<Rightarrow> string" where
  "scanSingleLineDocComment s =
     (if s = [] then s
      else
        (case tryScanEndOfLine s of
           Some s1 \<Rightarrow>
             (let s2 = skipWhitespaceExceptUnicodeLinebreak s1 in
              if take 3 s2 = ''///'' then
                (if take 4 s2 = ''////'' then s2
                 else
                   (let s3 = drop 3 s2 in
                    if atEndOfLine s3 then scanSingleLineDocComment s3
                    else scanSingleLineDocComment (tl s3)))
              else s2)
         | None \<Rightarrow> if isUnicodeLinebreak s then s else scanSingleLineDocComment (tl s)))"
  by auto
termination
proof (relation "measure length")
  fix s s1 s2 s3 :: string
  assume *: "tryScanEndOfLine s = Some s1" "s2 = skipWhitespaceExceptUnicodeLinebreak s1" "s3 = drop 3 s2"
  have "length s3 < length s"
    using tryScanEndOfLine_length [OF *(1)] skip_length [of s1] *(2,3) by simp
  then show "(s3, s) \<in> measure length" "(tl s3, s) \<in> measure length" by auto
qed auto

function skipMultiLineComment :: "string \<Rightarrow> scanner_error option \<times> string" where
  "skipMultiLineComment s =
     (if s = [] then (Some IllegalCommentTerminator, s)
      else if hd s = CHR ''*'' \<and> hd0 (tl s) = CHR ''/'' then (None, drop 2 s)
      else skipMultiLineComment (tl s))"
  by auto
termination by (relation "measure length") auto

declare skipSingleLineComment.simps [simp del] scanSingleLineDocComment.simps [simp del]
  skipMultiLineComment.simps [simp del]

definition startsWith :: "string \<Rightarrow> string \<Rightarrow> bool" where
  "startsWith p s = (take (length p) s = p)"

text \<open>In the second case of a line end the first star of the new line is skipped.\<close>

function scanMultiLineDocComment :: "string \<Rightarrow> scanner_error option \<times> string" where
  "scanMultiLineDocComment s =
     (if s = [] then (Some IllegalCommentTerminator, s)
      else if atEndOfLine s then
        (let s1 = skipWhitespace s;
             s2 = (if startsWith ''*'' s1 \<and> tl s1 \<noteq> [] \<and> \<not> startsWith ''*/'' s1 then tl s1 else s1)
         in if startsWith ''*'' s1 \<and> tl s1 \<noteq> [] \<and> \<not> startsWith ''**'' s1 \<and> \<not> startsWith ''*/'' s1
               \<and> atEndOfLine s2
            then scanMultiLineDocComment s2
            else if startsWith ''*/'' s2 then (None, drop 2 s2)
            else scanMultiLineDocComment (tl s2))
      else if startsWith ''*/'' s then (None, drop 2 s)
      else scanMultiLineDocComment (tl s))"
  by auto
termination
proof (relation "measure length")
  fix s s1 s2 :: string
  assume *: "s \<noteq> []" "atEndOfLine s" "s1 = skipWhitespace s"
    "s2 = (if startsWith ''*'' s1 \<and> tl s1 \<noteq> [] \<and> \<not> startsWith ''*/'' s1 then tl s1 else s1)"
  then obtain c r where "s = c # r" "isWhiteSpace c"
    by (cases s) (auto simp: atEndOfLine_def isWhiteSpace_def)
  then have "length s1 < length s"
    using *(3) length_dropWhile_le [of isWhiteSpace r] by (simp add: skipWhitespace_def)
  then have "length s2 < length s" using *(4) by auto
  then show "(s2, s) \<in> measure length" "(tl s2, s) \<in> measure length" by auto
qed auto

declare scanMultiLineDocComment.simps [simp del]

definition skipped :: "scanner_error option \<times> string \<Rightarrow> scanned" where
  "skipped r = (case r of (None, s) \<Rightarrow> plain Whitespace s | (Some e, s) \<Rightarrow> setError e s)"

definition scanSlash :: "string \<Rightarrow> scanned" where
  "scanSlash s =
     (let s1 = tl s; s2 = tl s1; s3 = tl s2 in
      if hd0 s1 = CHR ''/'' then
        (if s2 = [] then plain Whitespace s2
         else if hd0 s2 = CHR ''/'' then
           (if hd0 s3 = CHR ''/'' then plain Whitespace (skipSingleLineComment s3)
            else plain Whitespace (scanSingleLineDocComment (skipWhitespaceExceptUnicodeLinebreak s3)))
         else plain Whitespace (skipSingleLineComment s2))
      else if hd0 s1 = CHR ''*'' then
        (if s2 = [] then setError IllegalCommentTerminator s2
         else if hd0 s2 = CHR ''*'' then
           (if hd0 s3 = CHR ''/'' then plain Whitespace (tl s3)
            else if hd0 s3 = CHR ''*'' then skipped (skipMultiLineComment s3)
            else
              skipped (scanMultiLineDocComment
                (dropWhile (\<lambda>c. isWhiteSpace c \<and> c \<noteq> CHR 0x0A \<and> c \<noteq> CHR 0x0D) s3)))
         else skipped (skipMultiLineComment s2))
      else if hd0 s1 = CHR ''='' then selectToken ''/='' s1
      else plain (Symbol ''/'') s1)"

section \<open>Identifiers\<close>

datatype scanner_kind = SolidityMode | YulMode

definition identifierChar :: "scanner_kind \<Rightarrow> char \<Rightarrow> bool" where
  "identifierChar kind c = (isIdentifierPart c \<or> c = CHR ''.'' \<and> kind = YulMode)"

text \<open>
  The case of \<open>scanToken\<close> for the start of an identifier. When no quote follows \<open>hex\<close> or \<open>unicode\<close> the
  error leaves the literal.
\<close>

definition scanWord :: "scanner_kind \<Rightarrow> string \<Rightarrow> scanned" where
  "scanWord kind s =
     (let literal = takeWhile (identifierChar kind) s; s1 = dropWhile (identifierChar kind) s in
      case fromIdentifierOrKeyword literal of
        (t, info) \<Rightarrow>
          if t = Keyword ''hex'' then
            (if hd0 s1 = CHR 0x22 \<or> hd0 s1 = CHR 0x27 then scanHexString s1
             else map_prod (\<lambda>d. d\<lparr>td_literal := literal\<rparr>) id (setError IllegalToken s1))
          else if t = Keyword ''unicode'' then
            (if hd0 s1 = CHR 0x22 \<or> hd0 s1 = CHR 0x27 then scanString True s1
             else map_prod (\<lambda>d. d\<lparr>td_literal := literal\<rparr>) id (setError IllegalToken s1))
          else (\<lparr>td_token = t, td_literal = literal, td_error = None, td_info = info\<rparr>, s1))"

section \<open>Scanning tokens\<close>

text \<open>One pass of the loop of \<open>scanToken\<close>: a token, or white space that was skipped.\<close>

definition scanOne :: "scanner_kind \<Rightarrow> string \<Rightarrow> scanned" where
  "scanOne kind s =
     (let c = hd0 s; s1 = tl s; c1 = hd0 s1 in
      if c = CHR 0x22 \<or> c = CHR 0x27 then scanString False s
      else if c = CHR ''<'' then
        (if c1 = CHR ''='' then selectToken ''<='' s1
         else if c1 = CHR ''<'' then selectIf CHR ''='' ''<<='' ''<<'' s1
         else plain (Symbol ''<'') s1)
      else if c = CHR ''>'' then
        (if c1 = CHR ''='' then selectToken ''>='' s1
         else if c1 = CHR ''>'' then
           (let s2 = tl s1 in
            if hd0 s2 = CHR ''='' then selectToken ''>>='' s2
            else if hd0 s2 = CHR ''>'' then selectIf CHR ''='' ''>>>='' ''>>>'' s2
            else plain (Symbol ''>>'') s2)
         else plain (Symbol ''>'') s1)
      else if c = CHR ''='' then
        (if c1 = CHR ''='' then selectToken ''=='' s1
         else if c1 = CHR ''>'' then selectToken ''=>'' s1
         else plain (Symbol ''='') s1)
      else if c = CHR ''!'' then
        (if c1 = CHR ''='' then selectToken ''!='' s1 else plain (Symbol ''!'') s1)
      else if c = CHR ''+'' then
        (if c1 = CHR ''+'' then selectToken ''++'' s1
         else if c1 = CHR ''='' then selectToken ''+='' s1
         else plain (Symbol ''+'') s1)
      else if c = CHR ''-'' then
        (if c1 = CHR ''-'' then selectToken ''--'' s1
         else if c1 = CHR ''='' then selectToken ''-='' s1
         else plain (Symbol ''-'') s1)
      else if c = CHR ''*'' then
        (if c1 = CHR ''*'' then selectToken ''**'' s1
         else if c1 = CHR ''='' then selectToken ''*='' s1
         else plain (Symbol ''*'') s1)
      else if c = CHR ''%'' then selectIf CHR ''='' ''%='' ''%'' s
      else if c = CHR ''/'' then scanSlash s
      else if c = CHR ''&'' then
        (if c1 = CHR ''&'' then selectToken ''&&'' s1
         else if c1 = CHR ''='' then selectToken ''&='' s1
         else plain (Symbol ''&'') s1)
      else if c = CHR ''|'' then
        (if c1 = CHR ''|'' then selectToken ''||'' s1
         else if c1 = CHR ''='' then selectToken ''|='' s1
         else plain (Symbol ''|'') s1)
      else if c = CHR ''^'' then selectIf CHR ''='' ''^='' ''^'' s
      else if c = CHR ''.'' then
        (if isDecimalDigit c1 then scanFraction s1 else plain (Symbol ''.'') s1)
      else if c = CHR '':'' then
        (if c1 = CHR ''='' then selectToken '':='' s1 else plain (Symbol '':'') s1)
      else if c \<in> set '';,()[]{}?~'' then selectToken [c] s
      else if isIdentifierStart c then scanWord kind s
      else if isDecimalDigit c then scanNumber s
      else if isWhiteSpace c then plain Whitespace (skipWhitespace s)
      else if s = [] then plain EOS s
      else setError IllegalToken s1)"

text \<open>Every pass takes something from the text.\<close>

definition shorter :: "scanned \<Rightarrow> nat \<Rightarrow> bool" where
  "shorter r n = (length (snd r) \<le> n)"

named_theorems shorten

lemma shorter_basic [shorten]:
  "shorter (plain t s) n = (length s \<le> n)"
  "shorter (withLiteral t l s) n = (length s \<le> n)"
  "shorter (setError e s) n = (length s \<le> n)"
  "shorter (selectToken w s) n = (length (tl s) \<le> n)"
  by (simp_all add: shorter_def plain_def withLiteral_def setError_def selectToken_def)

lemma shorter_selectIf [shorten]: "length s - 1 \<le> n \<Longrightarrow> shorter (selectIf c t e s) n"
  by (auto simp: selectIf_def shorten)

lemma shorter_digits:
  "scanDecimalDigits s = (l, s') \<Longrightarrow> length s' \<le> length s"
  "scanDecimalDigits s = (l, s') \<Longrightarrow> isDecimalDigit (hd0 s) \<Longrightarrow> length s' < length s"
proof -
  assume *: "scanDecimalDigits s = (l, s')"
  then show "length s' \<le> length s"
    by (auto simp: scanDecimalDigits_def Let_def length_dropWhile_le split: if_splits)
  show "isDecimalDigit (hd0 s) \<Longrightarrow> length s' < length s"
    using * by (cases s)
      (auto simp: scanDecimalDigits_def Let_def isDecimalDigit_def charBetween_def le_imp_less_Suc
        length_dropWhile_le split: if_splits)
qed

lemma scanDecimalDigits_Nil [simp]: "scanDecimalDigits [] = ([], [])"
  by (simp add: scanDecimalDigits_def Let_def)

lemma shorter_scanNumberEnd [shorten]: "shorter (scanNumberEnd l s) n = (length s \<le> n)"
  by (simp add: scanNumberEnd_def shorten)

lemma shorter_scanExponent [shorten]: "length s \<le> n \<Longrightarrow> shorter (scanExponent l s) n"
  using shorter_digits(1)
  by (fastforce simp: scanExponent_def Let_def shorten split: prod.split)

lemma shorter_scanDecimal_digits:
  assumes "scanDecimalDigits s = (ds, s1)" "length s1 \<le> n"
  shows "shorter (scanDecimal l s) n"
proof -
  have "length s' \<le> n" if "scanDecimalDigits (drop 2 s1) = (d, s')" for d s'
    using shorter_digits(1) [OF that] assms(2) by simp
  moreover have "length s' \<le> n" if "scanDecimalDigits (tl s2) = (d, s')" "length s2 \<le> n" for d s2 s'
    using shorter_digits(1) [OF that(1)] that(2) by simp
  ultimately show ?thesis
    using assms by (auto simp: scanDecimal_def Let_def shorten split: prod.split)
qed

lemma shorter_scanDecimal:
  "length s \<le> n \<Longrightarrow> shorter (scanDecimal l s) n"
  "isDecimalDigit (hd0 s) \<Longrightarrow> length s \<le> Suc n \<Longrightarrow> shorter (scanDecimal l s) n"
  using shorter_digits [of s] shorter_scanDecimal_digits [of s]
  by (cases "scanDecimalDigits s"; fastforce)+

lemma shorter_scanNumber:
  "isDecimalDigit (hd0 s) \<Longrightarrow> length s \<le> Suc n \<Longrightarrow> shorter (scanNumber s) n"
proof -
  have "shorter (scanHexNumber (drop 2 s)) n" if "length s \<le> Suc n"
  proof -
    have "length (dropWhile P (drop 2 s)) \<le> n" for P
      using that by (intro order_trans [OF length_dropWhile_le]) simp
    then show ?thesis using that by (auto simp: scanHexNumber_def Let_def shorten)
  qed
  then show "isDecimalDigit (hd0 s) \<Longrightarrow> length s \<le> Suc n \<Longrightarrow> shorter (scanNumber s) n"
    by (auto simp: scanNumber_def shorten intro: shorter_scanDecimal)
qed

lemma scanString_loop_length: "length (snd (scanString_loop q u l s)) \<le> length s"
proof (induction q u l s rule: scanString_loop.induct)
  case (1 quote isUnicode literal s)
  obtain r s2 where e: "scanEscape (tl s) = (r, s2)" by fastforce
  have "length s2 \<le> length s" using scanEscape_length [of "tl s"] e by simp
  then have "length (snd (scanString_loop quote isUnicode (literal @ cs) s2)) \<le> length s"
    if "hd0 s \<noteq> quote \<and> s \<noteq> [] \<and> \<not> isUnicodeLinebreak s" "hd s = CHR 0x5C" "tl s \<noteq> []" "r = Some cs" for cs
    using 1(1) [OF that(1) refl refl that(2,3) e [symmetric] that(4)] by simp
  moreover have "length (snd (scanString_loop quote isUnicode (literal @ [hd s]) (tl s))) \<le> length s"
    if "hd0 s \<noteq> quote \<and> s \<noteq> [] \<and> \<not> isUnicodeLinebreak s" "hd s \<noteq> CHR 0x5C"
      "\<not> (\<not> isUnicode \<and> \<not> charBetween 0x20 0x7e (hd s))"
    using 1(2) [OF that(1) refl refl that(2,3)] by simp
  ultimately show ?case
    using \<open>length s2 \<le> length s\<close> by (subst scanString_loop.simps) (auto simp: Let_def e split: option.split)
qed

lemma shorter_scanString: "s \<noteq> [] \<Longrightarrow> length s \<le> Suc n \<Longrightarrow> shorter (scanString u s) n"
  using scanString_loop_length [of "hd0 s" u "[]" "tl s"]
  by (auto simp: scanString_def shorten split: prod.split sum.split)

lemma scanHexString_loop_length: "length (snd (scanHexString_loop q u l s)) \<le> length s"
proof (induction q u l s rule: scanHexString_loop.induct)
  case (1 quote allowUnderscore literal s)
  let ?more = "hd0 s \<noteq> quote \<and> s \<noteq> []"
  have "length (snd (scanHexString_loop quote True (literal @ [b]) s1)) \<le> length s"
    if "?more" "scanHexByte s = Some (b, s1)" for b s1
  proof -
    have "length s1 \<le> length s" using that(2) by (auto simp: scanHexByte_def split: option.splits)
    then show ?thesis using 1(2) [OF that(1,2)] by simp
  qed
  moreover have "length (snd (scanHexString_loop quote False literal (tl s))) \<le> length s"
    if "?more" "scanHexByte s = None" "hd0 s = CHR ''_''" "\<not> (\<not> allowUnderscore \<or> hd0 (tl s) = quote)"
    using 1(1) [OF that] by simp
  ultimately show ?case
    by (subst scanHexString_loop.simps) (auto split: option.split)
qed

lemma shorter_scanHexString: "length s \<le> n \<Longrightarrow> shorter (scanHexString s) n"
  using scanHexString_loop_length [of "hd0 s" False "[]" "tl s"]
  by (auto simp: scanHexString_def shorten split: prod.split sum.split)

lemma skipSingleLineComment_length: "length (skipSingleLineComment s) \<le> length s"
proof (induction s rule: skipSingleLineComment.induct)
  case (1 s)
  then show ?case by (subst skipSingleLineComment.simps) auto
qed

lemma scanSingleLineDocComment_length: "length (scanSingleLineDocComment s) \<le> length s"
proof (induction s rule: scanSingleLineDocComment.induct)
  case (1 s)
  show ?case
  proof (cases "tryScanEndOfLine s")
    case None
    then have "length (scanSingleLineDocComment (tl s)) \<le> length s"
      if "s \<noteq> []" "\<not> isUnicodeLinebreak s"
      using 1(1) [OF that(1) None that(2)] by simp
    with None show ?thesis by (subst scanSingleLineDocComment.simps) auto
  next
    case (Some s1)
    let ?s2 = "skipWhitespaceExceptUnicodeLinebreak s1"
    have "length ?s2 \<le> length s"
      using skip_length [of s1] tryScanEndOfLine_length [OF Some] by simp
    then show ?thesis
      using Some 1(2,3) [OF _ Some refl]
      by (subst scanSingleLineDocComment.simps) (fastforce simp: Let_def)
  qed
qed

lemma skipMultiLineComment_length: "length (snd (skipMultiLineComment s)) \<le> length s"
proof (induction s rule: skipMultiLineComment.induct)
  case (1 s)
  then show ?case by (subst skipMultiLineComment.simps) auto
qed

lemma scanMultiLineDocComment_length: "length (snd (scanMultiLineDocComment s)) \<le> length s"
proof (induction s rule: scanMultiLineDocComment.induct)
  case (1 s)
  define s1 where "s1 = skipWhitespace s"
  define s2 where "s2 = (if startsWith ''*'' s1 \<and> tl s1 \<noteq> [] \<and> \<not> startsWith ''*/'' s1 then tl s1 else s1)"
  have "length s1 \<le> length s" by (simp add: s1_def skipWhitespace_def length_dropWhile_le)
  then have s2: "length s2 \<le> length s" by (auto simp: s2_def)
  have eq: "scanMultiLineDocComment s =
     (if s = [] then (Some IllegalCommentTerminator, s)
      else if atEndOfLine s then
        (if startsWith ''*'' s1 \<and> tl s1 \<noteq> [] \<and> \<not> startsWith ''**'' s1 \<and> \<not> startsWith ''*/'' s1 \<and> atEndOfLine s2
         then scanMultiLineDocComment s2
         else if startsWith ''*/'' s2 then (None, drop 2 s2)
         else scanMultiLineDocComment (tl s2))
      else if startsWith ''*/'' s then (None, drop 2 s)
      else scanMultiLineDocComment (tl s))"
    by (subst scanMultiLineDocComment.simps) (simp only: Let_def s1_def [symmetric] s2_def [symmetric])
  have "length (snd (scanMultiLineDocComment s2)) \<le> length s"
    if "s \<noteq> []" "atEndOfLine s" "startsWith ''*'' s1 \<and> tl s1 \<noteq> [] \<and> \<not> startsWith ''**'' s1 \<and>
      \<not> startsWith ''*/'' s1 \<and> atEndOfLine s2"
    using 1(1) [OF that(1,2) s1_def s2_def that(3)] s2 by simp
  moreover have "length (snd (scanMultiLineDocComment (tl s2))) \<le> length s"
    if "s \<noteq> []" "atEndOfLine s" "\<not> (startsWith ''*'' s1 \<and> tl s1 \<noteq> [] \<and> \<not> startsWith ''**'' s1 \<and>
      \<not> startsWith ''*/'' s1 \<and> atEndOfLine s2)" "\<not> startsWith ''*/'' s2"
    using 1(2) [OF that(1,2) s1_def s2_def that(3,4)] s2 by simp
  moreover have "length (snd (scanMultiLineDocComment (tl s))) \<le> length s"
    if "s \<noteq> []" "\<not> atEndOfLine s" "\<not> startsWith ''*/'' s"
    using 1(3) [OF that] by simp
  ultimately show ?case unfolding eq using s2 diff_le_self [of "length s2" 2] by auto
qed

lemma shorter_skipped [shorten]: "shorter (skipped r) n = (length (snd r) \<le> n)"
  by (auto simp: skipped_def shorten split: prod.split option.split)

lemma shorter_if: "(c \<Longrightarrow> shorter a n) \<Longrightarrow> (\<not> c \<Longrightarrow> shorter b n) \<Longrightarrow> shorter (if c then a else b) n"
  by simp

lemma shorter_scanSlash:
  assumes "length s \<le> Suc n"
  shows "shorter (scanSlash s) n"
proof -
  have drop: "length (dropWhile P s') \<le> n" if "length s' \<le> n" for P and s' :: string
    using that by (intro order_trans [OF length_dropWhile_le])
  note [simp] = order_trans [OF skipSingleLineComment_length] order_trans [OF scanSingleLineDocComment_length]
    order_trans [OF skipMultiLineComment_length] order_trans [OF scanMultiLineDocComment_length]
    order_trans [OF skip_length] drop
  have "length (tl s) \<le> n" "length (tl (tl s)) \<le> n" "length (tl (tl (tl s))) \<le> n"
      "length (tl (tl (tl (tl s)))) \<le> n"
    using assms by simp_all
  then show ?thesis
    unfolding scanSlash_def Let_def by (intro shorter_if) (simp_all add: shorten del: length_tl)
qed

lemma shorter_scanWord:
  assumes "isIdentifierStart (hd0 s)" "length s \<le> Suc n"
  shows "shorter (scanWord kind s) n"
proof -
  obtain c r where "s = c # r" "identifierChar kind c"
    using assms(1)
    by (cases s) (auto simp: isIdentifierStart_def charBetween_def identifierChar_def isIdentifierPart_def)
  then have s1: "length (dropWhile (identifierChar kind) s) \<le> n"
    using assms(2) length_dropWhile_le [of "identifierChar kind" r] by simp
  have "shorter (map_prod f id r) n = shorter r n" for f r
    by (simp add: shorter_def)
  moreover have "shorter (scanString True s1) n" if "length s1 \<le> n" "hd0 s1 = CHR 0x22 \<or> hd0 s1 = CHR 0x27" for s1
    using that by (intro shorter_scanString) auto
  ultimately show ?thesis
    using s1 shorter_scanHexString [OF s1]
    unfolding scanWord_def Let_def by (simp add: shorter_basic split: prod.split) (simp add: shorter_def)
qed

lemma shorter_scanFraction: "length s \<le> n \<Longrightarrow> shorter (scanFraction s) n"
  using shorter_digits(1) [of s]
  by (auto simp: scanFraction_def shorten split: prod.split)

lemma scanOne_progress: "s \<noteq> [] \<Longrightarrow> length (snd (scanOne kind s)) < length s"
proof -
  assume s: "s \<noteq> []"
  then obtain c r where cr: "s = c # r" by (cases s) auto
  have white: "length (skipWhitespace (c # r)) \<le> length r" if "isWhiteSpace c"
    using that by (simp add: skipWhitespace_def length_dropWhile_le)
  have "shorter (scanOne kind s) (length r)"
    unfolding scanOne_def Let_def cr
    by (intro shorter_if)
      (simp_all add: shorten white shorter_scanNumber shorter_scanString shorter_scanSlash shorter_scanWord
        shorter_scanFraction)
  then show ?thesis using cr by (simp add: shorter_def)
qed

text \<open>\<open>scanToken\<close>: white space and comments are skipped.\<close>

lemma scanOne_Nil [simp]: "scanOne kind [] = plain EOS []"
  by (simp add: scanOne_def isIdentifierStart_def isDecimalDigit_def charBetween_def isWhiteSpace_def)

function scanToken :: "scanner_kind \<Rightarrow> string \<Rightarrow> scanned" where
  "scanToken kind s =
     (let (d, s1) = scanOne kind s
      in if s \<noteq> [] \<and> td_token d = Whitespace then scanToken kind s1 else (d, s1))"
  by auto
termination
proof (relation "measure (length \<circ> snd)")
  fix kind and s s1 :: string and p :: scanned and d
  assume "p = scanOne kind s" "(d, s1) = p" "s \<noteq> [] \<and> td_token d = Whitespace"
  then show "((kind, s1), kind, s) \<in> measure (length \<circ> snd)"
    using scanOne_progress [of s kind] by (metis comp_apply in_measure snd_conv)
qed simp

declare scanToken.simps [simp del]

lemma scanToken_Nil [simp]: "scanToken kind [] = plain EOS []"
  by (subst scanToken.simps) (simp add: plain_def)

lemma scanToken_progress: "s \<noteq> [] \<Longrightarrow> length (snd (scanToken kind s)) < length s"
proof (induction kind s rule: scanToken.induct)
  case (1 kind s)
  obtain d s1 where one: "scanOne kind s = (d, s1)" by fastforce
  have s1: "length s1 < length s" using scanOne_progress [OF 1(2), of kind] one by simp
  show ?case
  proof (cases "td_token d = Whitespace \<and> s1 \<noteq> []")
    case True
    then have "length (snd (scanToken kind s1)) < length s1"
      using 1(1) [OF one [symmetric] refl] 1(2) by simp
    then show ?thesis using s1 one True 1(2) by (subst scanToken.simps) simp
  next
    case False
    then show ?thesis using s1 one by (subst scanToken.simps) (auto simp: plain_def)
  qed
qed

text \<open>The tokens that \<open>next\<close> gives one after the other, up to the end of the source.\<close>

function scanTokens :: "scanner_kind \<Rightarrow> string \<Rightarrow> token_desc list" where
  "scanTokens kind s =
     (let (d, s1) = scanToken kind s
      in if s = [] \<or> td_token d = EOS then [d] else d # scanTokens kind s1)"
  by auto
termination
proof (relation "measure (length \<circ> snd)")
  fix kind and s s1 :: string and p :: scanned and d
  assume "p = scanToken kind s" "(d, s1) = p" "\<not> (s = [] \<or> td_token d = EOS)"
  then show "((kind, s1), kind, s) \<in> measure (length \<circ> snd)"
    using scanToken_progress [of s kind] by (metis comp_apply in_measure snd_conv)
qed simp

declare scanTokens.simps [simp del]

lemma scanTokens_not_Nil [simp]: "scanTokens kind s \<noteq> []"
  by (subst scanTokens.simps) (simp split: prod.split)

lemma scanToken_not_Whitespace: "td_token (fst (scanToken kind s)) \<noteq> Whitespace"
proof (induction kind s rule: scanToken.induct)
  case (1 kind s)
  obtain d s1 where one: "scanOne kind s = (d, s1)" by fastforce
  show ?case
  proof (cases "s \<noteq> [] \<and> td_token d = Whitespace")
    case True
    then have "td_token (fst (scanToken kind s1)) \<noteq> Whitespace"
      using 1 [OF one [symmetric] refl] by simp
    then show ?thesis using one True by (subst scanToken.simps) simp
  next
    case False
    then show ?thesis using one by (subst scanToken.simps) (auto simp: plain_def)
  qed
qed

text \<open>
  C36: The scanner comes to an end on every input, in both modes: it gives finitely many tokens, of which
  exactly the last is the end of the source, and none of them is white space.
\<close>

theorem scanner_comes_to_an_end:
  "\<exists>ts d. scanTokens kind s = ts @ [d] \<and> td_token d = EOS \<and>
     (\<forall>t \<in> set ts. td_token t \<notin> {EOS, Whitespace})"
proof (induction kind s rule: scanTokens.induct)
  case (1 kind s)
  obtain d s1 where one: "scanToken kind s = (d, s1)" by fastforce
  show ?case
  proof (cases "s = [] \<or> td_token d = EOS")
    case True
    then have "td_token d = EOS" using one by (auto simp: plain_def)
    then show ?thesis using one by (subst scanTokens.simps) simp
  next
    case False
    then obtain ts e where "scanTokens kind s1 = ts @ [e]" "td_token e = EOS"
        "\<forall>t \<in> set ts. td_token t \<notin> {EOS, Whitespace}"
      using 1 [OF one [symmetric] refl] by auto
    moreover have "td_token d \<noteq> Whitespace" using scanToken_not_Whitespace [of kind s] one by simp
    moreover have "scanTokens kind s = d # scanTokens kind s1"
      using one False by (subst scanTokens.simps) simp
    ultimately show ?thesis using False by (intro exI [of _ "d # ts"] exI [of _ e]) simp
  qed
qed

lemma scanner_comes_to_an_end_witness:
  "\<exists>ts d. scanTokens YulMode ''{ let x := 0x1f }'' = ts @ [d] \<and> td_token d = EOS"
  using scanner_comes_to_an_end [of YulMode "''{ let x := 0x1f }''"] by blast

section \<open>The literals of numbers\<close>

text \<open>
  A number token whose literal has digits only is a valid decimal number: octal numbers are not scanned.
\<close>

definition goodNumber :: "string \<Rightarrow> bool" where
  "goodNumber l \<longleftrightarrow> (list_all (\<lambda>c. c \<in> set ''0123456789'') l \<longrightarrow> isValidDecimal l)"

definition goodToken :: "token_desc \<Rightarrow> bool" where
  "goodToken t \<longleftrightarrow> (td_token t = NumberToken \<longrightarrow> goodNumber (td_literal t))"

named_theorems good \<open>number tokens have valid literals\<close>

lemma goodNumber_append [good]: "c \<notin> set ''0123456789'' \<Longrightarrow> goodNumber (l @ c # l')"
  by (simp add: goodNumber_def)

lemma goodToken_basic [good]:
  "goodToken (fst (plain t s)) \<longleftrightarrow> (t = NumberToken \<longrightarrow> goodNumber [])"
  "goodToken (fst (withLiteral t l s)) \<longleftrightarrow> (t = NumberToken \<longrightarrow> goodNumber l)"
  "goodToken (fst (setError e s))"
  "goodToken (fst (selectToken w s))"
  by (simp_all add: goodToken_def plain_def withLiteral_def setError_def selectToken_def)

lemma goodToken_if: "(c \<Longrightarrow> goodToken (fst a)) \<Longrightarrow> (\<not> c \<Longrightarrow> goodToken (fst b)) \<Longrightarrow> goodToken (fst (if c then a else b))"
  by simp

lemma good_scanNumberEnd [good]: "goodNumber l \<Longrightarrow> goodToken (fst (scanNumberEnd l s))"
  by (simp add: scanNumberEnd_def good)

lemma good_scanExponent [good]: "goodNumber l \<Longrightarrow> goodToken (fst (scanExponent l s))"
proof -
  assume l: "goodNumber l"
  have *: "goodNumber (l @ hd0 s # x)" if "hd0 s = CHR ''e'' \<or> hd0 s = CHR ''E''" for x
    using that by (intro goodNumber_append) auto
  have "goodNumber (l @ take 2 s @ x)" if "hd0 s = CHR ''e'' \<or> hd0 s = CHR ''E''" for x
    using * [OF that] that by (cases s) auto
  then show ?thesis using l *
    unfolding scanExponent_def Let_def
    by (intro goodToken_if) (auto simp: good split: prod.split)
qed

lemma good_scanDecimal:
  assumes "\<And>ds s1. scanDecimalDigits s = (ds, s1) \<Longrightarrow> goodNumber (l @ ds)"
  shows "goodToken (fst (scanDecimal l s))"
proof -
  obtain ds s1 where s1: "scanDecimalDigits s = (ds, s1)" by fastforce
  note l = assms [OF s1]
  have dot: "goodNumber (l @ ds @ CHR ''.'' # x)" for x
    using goodNumber_append [of "CHR ''.''" "l @ ds" x] by simp
  have "goodNumber (l @ ds @ take 2 s1 @ x)" if "hd0 s1 = CHR ''.''" for x
    using dot that by (cases s1) auto
  then show ?thesis using l dot
    by (auto simp: scanDecimal_def s1 Let_def good split: prod.split)
qed

lemma good_scanNumber: "isDecimalDigit (hd0 s) \<Longrightarrow> goodToken (fst (scanNumber s))"
proof -
  assume s: "isDecimalDigit (hd0 s)"
  have hex: "goodNumber (''0x'' @ x)" for x by (simp add: goodNumber_def)
  have zero: "goodToken (fst (scanDecimal ''0'' s'))" if "\<not> isDecimalDigit (hd0 s')" for s'
    by (rule good_scanDecimal)
      (use that in \<open>auto simp: scanDecimalDigits_def goodNumber_def isValidDecimal_def\<close>)
  have "goodNumber ds" if nz: "hd0 s \<noteq> CHR ''0''" and ds: "scanDecimalDigits s = (ds, s1)" for ds s1
  proof -
    obtain c r where "s = c # r" "isDecimalDigit c"
      using s by (cases s) (auto simp: isDecimalDigit_def charBetween_def)
    moreover from this obtain x where "ds = c # x"
      using ds by (auto simp: scanDecimalDigits_def Let_def)
    ultimately show ?thesis
      using nz by (auto simp: goodNumber_def isValidDecimal_def list_all_iff)
  qed
  then have "goodToken (fst (scanDecimal [] s))" if "hd0 s \<noteq> CHR ''0''"
    using that by (intro good_scanDecimal) simp
  moreover have "goodToken (fst (scanHexNumber s'))" for s'
    unfolding scanHexNumber_def Let_def by (intro goodToken_if good_scanExponent hex good)
  ultimately show ?thesis using zero by (simp add: scanNumber_def good)
qed

lemma good_scanFraction: "goodToken (fst (scanFraction s))"
  using goodNumber_append [of "CHR ''.''" "[]"]
  by (auto simp: scanFraction_def good split: prod.split)

lemma good_skipped: "goodToken (fst (skipped r))"
  by (auto simp: skipped_def good split: prod.split option.split)

lemma good_scanSlash: "goodToken (fst (scanSlash s))"
  by (simp add: scanSlash_def Let_def good good_skipped)

lemma good_strings:
  "goodToken (fst (scanString u s))" "goodToken (fst (scanHexString s))"
  by (auto simp: scanString_def scanHexString_def good split: prod.split sum.split)

lemma fromIdentifierOrKeyword_not_number: "fst (fromIdentifierOrKeyword s) \<noteq> NumberToken"
proof -
  have if_rule: "fst (if c then a else b) \<noteq> NumberToken"
    if "fst a \<noteq> NumberToken" "fst b \<noteq> NumberToken" for c and a b :: "token \<times> nat \<times> nat"
    using that by simp
  show ?thesis
    unfolding fromIdentifierOrKeyword_def Let_def
    by (intro if_rule) (simp_all add: keywordByName_def)
qed

lemma good_scanWord: "goodToken (fst (scanWord kind s))"
proof -
  have "goodToken (fst (map_prod (\<lambda>d. d\<lparr>td_literal := l\<rparr>) id (setError e s1)))" for l e s1
    by (simp add: setError_def goodToken_def)
  moreover have "goodToken \<lparr>td_token = t, td_literal = l, td_error = None, td_info = i\<rparr>"
    if "fromIdentifierOrKeyword w = (t, i)" for t l i w
    using fromIdentifierOrKeyword_not_number [of w] that by (simp add: goodToken_def)
  ultimately show ?thesis
    by (simp add: scanWord_def Let_def good_strings split: prod.split)
qed

lemma good_selectIf: "goodToken (fst (selectIf c t e s))"
  by (simp add: selectIf_def good)

lemma good_scanOne: "goodToken (fst (scanOne kind s))"
  unfolding scanOne_def Let_def
  by (intro goodToken_if)
    (simp_all add: good good_strings good_selectIf good_scanSlash good_scanFraction good_scanWord good_scanNumber)

lemma good_scanToken: "goodToken (fst (scanToken kind s))"
proof (induction kind s rule: scanToken.induct)
  case (1 kind s)
  then show ?case using good_scanOne [of kind s] by (subst scanToken.simps) (auto split: prod.split)
qed

lemma scanned_numbers: "t \<in> set (scanTokens kind s) \<Longrightarrow> goodToken t"
proof (induction kind s rule: scanTokens.induct)
  case (1 kind s)
  obtain d s1 where "scanToken kind s = (d, s1)" by fastforce
  then show ?case using 1 good_scanToken [of kind s]
    by (subst (asm) (2) scanTokens.simps) (auto split: if_splits)
qed

end
