(* ===== verification/Spec2Isabelle.thy ===== *)
theory Spec2Isabelle
  imports SimplificationRules PeepholeOptimiser ConstantRoutines JumpdestRemover LinkerObject UTF8
    KnownAnalysis YulFuel YulConditionals YulAccepted
    Scanner
begin

text \<open>
  A verification development for the assembly back end of the compiler, \<open>src/libevmasm\<close>, for its
  intermediate language Yul, \<open>src/libyul\<close>, and for the parts of \<open>src/libsolutil\<close> and
  \<open>src/liblangutil\<close> they stand on.

  The program. The code generators produce a list of assembly items (\<open>AssemblyItem\<close>): opcodes,
  pushes of constants, of tags and of sizes and addresses that are known later, and tags.
  \<open>Assembly::optimise\<close> runs passes over that list until nothing changes: the jumpdest remover,
  the peephole optimiser, the block deduplicator, the common subexpression eliminator and
  the constant optimiser. The eliminator feeds the items of a block to a \<open>KnownState\<close>, which
  asks \<open>ExpressionClasses\<close> for the class of every value; the classes simplify with the rules
  of \<open>RuleList\<close>. \<open>GasMeter\<close> prices opcodes. The result is a \<open>LinkerObject\<close>, whose library references
  are filled in by linking.

  A Yul program is a tree of blocks, functions, loops and expressions over the opcodes of the
  EVM, which a dialect offers as builtin functions. The optimiser suite transforms the tree in steps;
  each step is a tree walk (\<open>ASTModifier\<close>). The interpreter of \<open>test/tools/yulInterpreter\<close> gives the meaning of a
  program, and is what the steps are proved against.

  Theories and sources.

  \<^item> \<open>Prelude\<close>: integers and bytes of \<open>libsolutil/Common.h\<close>, results with exceptions, \<open>std::map\<close> as a
    list in key order, and the lemma collections of the development.
  \<^item> \<open>CommonData\<close>: \<open>libsolutil/CommonData\<close>, hex strings and big-endian numbers.
  \<^item> \<open>Instruction\<close>, \<open>EVMVersion\<close>, \<open>SemanticInformation\<close>, \<open>AssemblyItem\<close>: opcodes with their tables, versions,
    what opcodes read and change, items. Opcodes are 8-bit words, data 256-bit words.
  \<^item> \<open>EVMInterpreter\<close>: \<open>test/tools/yulInterpreter/EVMInstructionInterpreter\<close>, the meaning of every opcode on
    a state; it is the semantics that the optimisers are proved against. \<open>MemoryWords\<close>: what is read
    back from memory after a word is written.
  \<^item> \<open>Pattern\<close>, \<open>RuleList\<close>, \<open>SimplificationRules\<close>: the simplification rules, all of them, and the matcher.
  \<^item> \<open>AsmMachine\<close>, \<open>AsmWindows\<close>: a machine that runs lists of items with jumps to tags, and the
    refinement order on programs under replacement of windows of items.
  \<^item> \<open>PeepholeOptimiser\<close>, \<open>JumpdestRemover\<close>, \<open>ConstantOptimiser\<close>, \<open>ConstantRoutines\<close>: the passes.
  \<^item> \<open>GasMeter\<close>: gas as saturating 256-bit numbers, memory and word gas.
  \<^item> \<open>ExpressionClasses\<close>, \<open>ExpressionMeaning\<close>, \<open>MachineMeaning\<close>: expression classes, their soundness over any
    meaning of items (a locale), and the meaning on the machine (its interpretation).
  \<^item> \<open>RuleWeights\<close>, \<open>FindReturns\<close>: why looking up a class ends.
  \<^item> \<open>KnownState\<close>, \<open>KnownSound\<close>, \<open>KnownFeed\<close>, \<open>KnownReturns\<close>, \<open>KnownAnalysis\<close>: the known state and its
    operations, what a known state says of a machine state, soundness of every operation, that
    every operation returns, and the two together for whole blocks.
  \<^item> \<open>LinkerObject\<close>, \<open>UTF8\<close>: linking and the check of UTF-8 strings.
  \<^item> \<open>YulAST\<close>, \<open>YulDialect\<close>: \<open>libyul/AsmData.h\<close>, the values of literals, \<open>libyul/Dialect\<close>,
    \<open>libyul/SideEffects.h\<close> and \<open>libyul/backends/evm/EVMDialect\<close>.
  \<^item> \<open>YulInterpreter\<close>: \<open>test/tools/yulInterpreter/Interpreter\<close>, statements and expressions of Yul.
  \<^item> \<open>YulContext\<close>: the contexts in which parts of a program are rewritten, and that rewriting a part by
    one of equal meaning keeps the meaning of the program (a locale).
  \<^item> \<open>YulModifier\<close>: the tree walk, the side effects of expressions (\<open>libyul/optimiser/Semantics\<close>) and the
    control flow of statements (\<open>TerminationFinder\<close>).
  \<^item> \<open>YulLoops\<close>, \<open>YulStatements\<close>, \<open>YulConditionals\<close>, \<open>YulControlFlow\<close>: steps of \<open>libyul/optimiser\<close>: loop
    conditions into and out of bodies; initial values, dead code and grouping of functions; knowledge from
    conditions; simplification of control flow.
  \<^item> \<open>YulFuel\<close>: more fuel never changes an outcome of the interpreter.
  \<^item> \<open>YulAnalysis\<close>, \<open>YulSoundness\<close>, \<open>YulAccepted\<close>: \<open>libyul/AsmScope\<close>, \<open>libyul/AsmScopeFiller\<close> and
    \<open>libyul/AsmAnalysis\<close>; that accepted programs do not go wrong in the interpreter; and
    that they are the programs the steps expect.
  \<^item> \<open>Scanner\<close>: \<open>liblangutil/Token\<close>, \<open>liblangutil/Common.h\<close> and \<open>liblangutil/Scanner\<close>, from text to tokens.

  What the lemmas show. The tables of opcodes agree with each other and with the groups of
  opcodes. Every rule keeps the value of an expression, for all words, and keeps operands with side
  effects unless it is marked; a match builds the replacement it promises. Replacing a window of
  items by one that refines it refines every program around it, jumps included; with it each
  peephole method, and so the optimiser, the constant optimiser and the jumpdest remover keep all
  executions. Classes found by the analysis of a block have one value each on the machine, and
  the analysis returns. Gas bounds do not wrap where the lemmas say so. Linking keeps objects
  well-formed. A string is valid exactly when it is an encoding of scalar values. Each step
  of the Yul optimiser that is modelled keeps the outcome of every program it is run on, for every amount of fuel,
  so that programs that do not end are kept from ending. A program that the analysis accepts never makes an
  assertion of the interpreter fail, and meets the conditions under which the steps are correct. The scanner ends on every
  input.

  Interfaces are locales with interpretations on the model: \<open>opcode_values\<close> (what the rules
  need of opcodes, provided by the interpreter), \<open>expression_meaning\<close> (what the classes need of
  items, provided by the machine), \<open>peephole_method\<close> (what the optimiser needs of a method, provided
  by each method), \<open>yul_rewrites\<close> (what the congruence of Yul needs of a rewriting step, provided by each
  step) and the ones of the constant optimiser.

  Fuel. \<open>ExpressionClasses::find\<close> and everything built on it take fuel because the source bounds
  nothing; \<open>FindReturns\<close> shows that the weight of an expression is enough and \<open>KnownReturns\<close> that
  some fuel is enough for any block, so the statements about results are never about runs that
  stop early. The machine takes fuel as its number of steps; refinement is about runs that end.
  The Yul interpreter takes fuel as the depth of its calls and the number of rounds of its loops; more fuel never changes
  an outcome (\<open>YulFuel\<close>), and the theorems about the steps are equalities for the same amount of fuel, running out of it
  included. The other loops are structural or have a measure.

  Parameters. Keccak-256, the values of addresses, sizes and tags that are known after assembly,
  and the storing of immutables are parameters of the machine. \<open>noId\<close>, the id of no class,
  is 32 bits in the source; class identifiers are unbounded here.

  Not modelled: the front end (\<open>libsolidity\<close>), the SMT interface, the command line and the
  library interface, tests and tools other than the interpreters; in \<open>libevmasm\<close> the assembly itself
  (layout and source maps), the control flow graph, the block deduplicator, the code generator of
  the subexpression eliminator and the estimates of the gas meter over paths; in \<open>libyul\<close> the parser,
  the printer, the code transforms, the typed and WebAssembly dialects, the
  names that dialects generate, and the optimiser steps not named above; the interpreter's limit on the number of steps, which is
  a test device; in \<open>libsolutil\<close> and \<open>liblangutil\<close> everything not named above. Debug output is not modelled anywhere.
\<close>

end
